(* ===== verification/Prelude.thy ===== *)
theory Prelude
  imports Main "HOL-Library.Word" "HOL-Library.AList" "HOL-Library.Sublist" "HOL-Library.Char_ord"
    "HOL-Library.List_Lexorder"
begin

text \<open>
  Shared vocabulary of the development. A Go \<open>string\<close> and a Go \<open>[]byte\<close> are both byte
  sequences, so both are Isabelle strings here: an Isabelle \<open>char\<close> is exactly one byte
  (256 values, \<open>of_char\<close> reads it). A Go \<open>uint64\<close> is a \<open>64 word\<close>, so its \<open>+\<close> and
  \<open>*\<close> wrap around as Go's do. A Go map is an association list with distinct keys: the
  order of the list is the order in which the next \<open>range\<close> over the map visits it, and
  no theorem depends on that order.
\<close>

type_synonym bytes = string
type_synonym u64 = "64 word"
type_synonym ('k, 'v) gomap = "('k \<times> 'v) list"

named_theorems session_simps \<open>field-update equations of the gateway session\<close>
named_theorems decoder_simps \<open>what each decoder step does to the decoder state\<close>
named_theorems decoder_run \<open>decoder steps on an explicit decoder state\<close>
named_theorems server_simps \<open>projection equations of the SSH server state\<close>

section \<open>Go strings\<close>

text \<open>\<open>strings.HasPrefix\<close>, \<open>strings.TrimPrefix\<close>, \<open>strings.HasSuffix\<close>, \<open>strings.TrimSuffix\<close>.\<close>

definition has_prefix :: "'a list \<Rightarrow> 'a list \<Rightarrow> bool" where
  "has_prefix s p \<longleftrightarrow> take (length p) s = p"

definition trim_prefix :: "'a list \<Rightarrow> 'a list \<Rightarrow> 'a list" where
  "trim_prefix s p = (if has_prefix s p then drop (length p) s else s)"

definition has_suffix :: "'a list \<Rightarrow> 'a list \<Rightarrow> bool" where
  "has_suffix s p \<longleftrightarrow> has_prefix (rev s) (rev p)"

definition trim_suffix :: "'a list \<Rightarrow> 'a list \<Rightarrow> 'a list" where
  "trim_suffix s p = (if has_suffix s p then take (length s - length p) s else s)"

lemma has_prefix_append [simp]: "has_prefix (p @ s) p"
  by (simp add: has_prefix_def)

lemma has_prefix_iff: "has_prefix s p \<longleftrightarrow> (\<exists>t. s = p @ t)"
  by (metis append_eq_conv_conj append_take_drop_id has_prefix_def)

lemma trim_prefix_append [simp]: "trim_prefix (p @ s) p = s"
  by (simp add: trim_prefix_def)

lemma has_suffix_iff: "has_suffix s p \<longleftrightarrow> (\<exists>t. s = t @ p)"
  by (metis has_prefix_iff has_suffix_def rev_append rev_rev_ident)

lemma trim_suffix_append [simp]: "trim_suffix (s @ p) p = s"
  by (simp add: trim_suffix_def has_suffix_def)

text \<open>\<open>strings.Split\<close> and \<open>strings.Cut\<close> for a separator of one byte.\<close>

fun split_on :: "'a \<Rightarrow> 'a list \<Rightarrow> 'a list list" where
  "split_on c [] = [[]]"
| "split_on c (x # xs) =
     (if x = c then [] # split_on c xs
      else case split_on c xs of [] \<Rightarrow> [[x]] | f # fs \<Rightarrow> (x # f) # fs)"

fun cut_on :: "'a \<Rightarrow> 'a list \<Rightarrow> 'a list \<times> 'a list \<times> bool" where
  "cut_on c [] = ([], [], False)"
| "cut_on c (x # xs) =
     (if x = c then ([], xs, True)
      else case cut_on c xs of (a, b, found) \<Rightarrow> (x # a, b, found))"

lemma split_on_nonempty [simp]: "split_on c xs \<noteq> []"
  by (induction xs) (auto split: list.splits)

lemma split_on_no_sep: "f \<in> set (split_on c xs) \<Longrightarrow> c \<notin> set f"
  by (induction xs arbitrary: f) (auto split: list.splits if_splits)

lemma cut_on_not_found: "c \<notin> set xs \<Longrightarrow> cut_on c xs = (xs, [], False)"
  by (induction xs) auto

lemma cut_on_append: "c \<notin> set xs \<Longrightarrow> cut_on c (xs @ c # ys) = (xs, ys, True)"
  by (induction xs) auto

lemma split_on_append: "c \<notin> set xs \<Longrightarrow> split_on c (xs @ c # ys) = xs # split_on c ys"
  by (induction xs) auto

lemma split_on_single: "c \<notin> set xs \<Longrightarrow> split_on c xs = [xs]"
  by (induction xs) auto

section \<open>Go maps\<close>

text \<open>\<open>m[k] = v\<close> and \<open>delete(m, k)\<close>; the keys stay distinct.\<close>

abbreviation keys :: "('k, 'v) gomap \<Rightarrow> 'k list" where
  "keys m \<equiv> map fst m"

abbreviation vals :: "('k, 'v) gomap \<Rightarrow> 'v list" where
  "vals m \<equiv> map snd m"

abbreviation put :: "'k \<Rightarrow> 'v \<Rightarrow> ('k, 'v) gomap \<Rightarrow> ('k, 'v) gomap" where
  "put k v m \<equiv> AList.update k v m"

abbreviation del :: "'k \<Rightarrow> ('k, 'v) gomap \<Rightarrow> ('k, 'v) gomap" where
  "del k m \<equiv> AList.delete k m"

lemma map_of_put [simp]: "map_of (put k v m) = (map_of m)(k \<mapsto> v)"
  by (simp add: AList.update_conv')

lemma map_of_del [simp]: "map_of (del k m) = (map_of m)(k := None)"
  by (simp add: AList.delete_conv')

lemma keys_put [simp]: "fst ` set (put k v m) = insert k (fst ` set m)"
  by (induction m) auto

lemma keys_del [simp]: "fst ` set (del k m) = fst ` set m - {k}"
  by (induction m) (auto simp: AList.delete_eq)

lemma distinct_put [simp]: "distinct (keys m) \<Longrightarrow> distinct (keys (put k v m))"
  by (rule AList.distinct_update)

lemma distinct_del [simp]: "distinct (keys m) \<Longrightarrow> distinct (keys (del k m))"
  by (rule AList.distinct_delete)

lemma set_del: "set (del k m) = {e \<in> set m. fst e \<noteq> k}"
  by (auto simp: AList.delete_eq)

lemma set_put_subset: "set (put k v m) \<subseteq> insert (k, v) (set m)"
  by (induction m) auto

lemma set_put: "distinct (keys m) \<Longrightarrow> set (put k v m) = insert (k, v) {e \<in> set m. fst e \<noteq> k}"
  by (induction m) (auto simp: rev_image_eqI)

lemma filter_put: "k \<notin> K \<Longrightarrow>
    filter (\<lambda>e. fst e \<notin> K) (put k v m) = put k v (filter (\<lambda>e. fst e \<notin> K) m)"
  by (induction m) auto

lemma put_filter_fresh: "filter (\<lambda>e. fst e \<notin> insert i K) (put i t m) = filter (\<lambda>e. fst e \<notin> insert i K) m"
  by (induction m) auto

lemma length_put: "length (put k v m) = (if k \<in> set (keys m) then length m else Suc (length m))"
  by (induction m) auto

lemma length_put_le: "length (put k v m) \<le> Suc (length m)"
  by (simp add: length_put)

lemma length_del_le: "length (del k m) \<le> length m"
  by (rule AList.length_delete_le)

lemma del_id: "k \<notin> set (keys m) \<Longrightarrow> del k m = m"
  by (rule AList.delete_id) simp

lemma length_del: "distinct (keys m) \<Longrightarrow>
    length (del k m) = (if k \<in> set (keys m) then length m - 1 else length m)"
proof (induction m)
  case (Cons a m)
  then show ?case
    by (cases m) (auto simp: del_id AList.delete_eq)
qed simp

lemma length_del_less: "k \<in> set (keys m) \<Longrightarrow> length (del k m) < length m"
  by (induction m) (auto simp: AList.delete_eq le_imp_less_Suc)

section \<open>Machine integers\<close>

lemma u64_succ: "n \<noteq> - 1 \<Longrightarrow> unat (n + 1) = unat n + 1" for n :: u64
proof -
  assume n: "n \<noteq> - 1"
  have "unat (- 1 :: u64) = 2 ^ 64 - 1" by (simp add: unsigned_minus_1_eq_mask mask_eq_exp_minus_1)
  with n have "unat n \<noteq> 2 ^ 64 - 1" by (metis unat_eq_nat_uint word_unat_eq_iff)
  moreover have "unat n < 2 ^ 64" using unsigned_less [of n] by simp
  ultimately have "unat n + unat (1::u64) < 2 ^ LENGTH(64)" by simp
  then show ?thesis by (simp add: unat_add_lem [THEN iffD1])
qed
end
