(* ===== verification/Json.thy ===== *)
theory Json
  imports Complex_Main Prelude
begin

text \<open>
  JSON values as \<open>encoding/json\<close> hands them to the code (\<open>any\<close>), the accessors of
  \<open>gateway.go\<close>, and \<open>transform\<close>, the structural rewriting of identifiers. A number is the
  rational value of its \<open>float64\<close>; an object is the association list of its members in the order
  the next \<open>range\<close> visits them. The text form is left to a codec (\<open>json.Marshal\<close> and
  \<open>json.Unmarshal\<close>) that the operations take as a parameter.
\<close>

datatype json =
    JNull
  | JBool bool
  | JNum rat
  | JStr bytes
  | JArr "json list"
  | JObj "(bytes \<times> json) list"

record codec =
  enc :: "json \<Rightarrow> bytes"
  dec :: "bytes \<Rightarrow> json option"

section \<open>Accessors\<close>

text \<open>\<open>array\<close>, \<open>object\<close>, \<open>stringVal\<close>, \<open>numberVal\<close>: the zero value on any other kind.\<close>

fun array :: "json option \<Rightarrow> json list" where
  "array (Some (JArr xs)) = xs"
| "array _ = []"

fun object :: "json option \<Rightarrow> (bytes \<times> json) list option" where
  "object (Some (JObj m)) = Some m"
| "object _ = None"

fun string_val :: "json option \<Rightarrow> bytes" where
  "string_val (Some (JStr s)) = s"
| "string_val _ = []"

fun number_val :: "json option \<Rightarrow> rat" where
  "number_val (Some (JNum n)) = n"
| "number_val _ = 0"

text \<open>Indexing a Go map of type \<open>map[string]any\<close> that may be nil, and \<open>v != nil\<close>.\<close>

definition member :: "(bytes \<times> json) list option \<Rightarrow> bytes \<Rightarrow> json option" where
  "member m k = (case m of None \<Rightarrow> None | Some m \<Rightarrow> map_of m k)"

definition not_nil :: "json option \<Rightarrow> bool" where
  "not_nil v \<longleftrightarrow> v \<noteq> None \<and> v \<noteq> Some JNull"

section \<open>Identifier rewriting\<close>

definition id_members :: "bytes list" where
  "id_members = [''workspace_id'', ''tab_id'', ''pane_id'', ''terminal_id'', ''command_id'',
     ''source_workspace_id'', ''target_pane_id'', ''source_pane_id'', ''before_workspace_id'',
     ''active_tab_id'', ''focused_workspace_id'', ''focused_tab_id'', ''focused_pane_id'']"

definition isID :: "bytes \<Rightarrow> bool" where
  "isID k \<longleftrightarrow> k \<in> set id_members"

text \<open>
  \<open>transform\<close>; the closure may update captured variables, which are the state \<open>'s\<close>.
\<close>

fun rename_ids :: "(bytes \<Rightarrow> 's \<Rightarrow> bytes \<times> 's) \<Rightarrow> json list \<Rightarrow> 's \<Rightarrow> json list \<times> 's" where
  "rename_ids f [] s = ([], s)"
| "rename_ids f (v # vs) s =
     (case f (string_val (Some v)) s of (x, s1) \<Rightarrow>
      case rename_ids f vs s1 of (xs, s2) \<Rightarrow> (JStr x # xs, s2))"

fun transform :: "(bytes \<Rightarrow> 's \<Rightarrow> bytes \<times> 's) \<Rightarrow> json \<Rightarrow> 's \<Rightarrow> json \<times> 's"
and transform_members :: "(bytes \<Rightarrow> 's \<Rightarrow> bytes \<times> 's) \<Rightarrow> (bytes \<times> json) list \<Rightarrow> 's \<Rightarrow>
    (bytes \<times> json) list \<times> 's"
and transform_items :: "(bytes \<Rightarrow> 's \<Rightarrow> bytes \<times> 's) \<Rightarrow> json list \<Rightarrow> 's \<Rightarrow> json list \<times> 's"
where
  "transform f (JObj m) s = (case transform_members f m s of (m', s1) \<Rightarrow> (JObj m', s1))"
| "transform f (JArr xs) s = (case transform_items f xs s of (xs', s1) \<Rightarrow> (JArr xs', s1))"
| "transform f JNull s = (JNull, s)"
| "transform f (JBool b) s = (JBool b, s)"
| "transform f (JNum n) s = (JNum n, s)"
| "transform f (JStr x) s = (JStr x, s)"
| "transform_members f [] s = ([], s)"
| "transform_members f ((k, v) # m) s =
     (case (if isID k \<and> v \<noteq> JNull then
              (case f (string_val (Some v)) s of (x, s1) \<Rightarrow> (JStr x, s1))
            else if k = ''agent_order'' then
              (case rename_ids f (array (Some v)) s of (xs, s1) \<Rightarrow> (JArr xs, s1))
            else transform f v s) of (v', s1) \<Rightarrow>
      case transform_members f m s1 of (m', s2) \<Rightarrow> ((k, v') # m', s2))"
| "transform_items f [] s = ([], s)"
| "transform_items f (v # vs) s =
     (case transform f v s of (v', s1) \<Rightarrow>
      case transform_items f vs s1 of (vs', s2) \<Rightarrow> (v' # vs', s2))"

text \<open>The calls whose closure has no state.\<close>

definition pure_id :: "(bytes \<Rightarrow> bytes) \<Rightarrow> bytes \<Rightarrow> unit \<Rightarrow> bytes \<times> unit" where
  "pure_id f x s = (f x, ())"

definition rename_json :: "(bytes \<Rightarrow> bytes) \<Rightarrow> json \<Rightarrow> json" where
  "rename_json f v = fst (transform (pure_id f) v ())"

section \<open>The shape of a rewritten value\<close>

lemma transform_keys: "map fst (fst (transform_members f m s)) = map fst m"
  by (induction m arbitrary: s) (auto simp: case_prod_beta)

lemma length_rename_ids: "length (fst (rename_ids f vs s)) = length vs"
  by (induction vs arbitrary: s) (auto simp: case_prod_beta)

lemma length_transform_items: "length (fst (transform_items f vs s)) = length vs"
  by (induction vs arbitrary: s) (auto simp: case_prod_beta)

lemma transform_object: "\<exists>m' s'. transform f (JObj m) s = (JObj m', s') \<and> map fst m' = map fst m"
  using transform_keys [of f m s] by (simp add: case_prod_beta)

text \<open>What every call of the closure preserves, the whole rewriting preserves.\<close>

lemma rename_ids_invariant:
  "(\<And>x s. P s \<Longrightarrow> P (snd (f x s))) \<Longrightarrow> P s \<Longrightarrow> P (snd (rename_ids f vs s))"
  by (induction vs arbitrary: s) (auto simp: case_prod_beta)

lemma transform_members_invariant:
  assumes f: "\<And>x s. P s \<Longrightarrow> P (snd (f x s))"
  shows "(\<And>k v s. (k, v) \<in> set m \<Longrightarrow> P s \<Longrightarrow> P (snd (transform f v s))) \<Longrightarrow> P s \<Longrightarrow>
    P (snd (transform_members f m s))"
proof (induction m arbitrary: s)
  case (Cons e m)
  obtain k v where e: "e = (k, v)" by fastforce
  let ?r = "if isID k \<and> v \<noteq> JNull then (case f (string_val (Some v)) s of (x, s1) \<Rightarrow> (JStr x, s1))
    else if k = ''agent_order'' then (case rename_ids f (array (Some v)) s of (xs, s1) \<Rightarrow> (JArr xs, s1))
    else transform f v s"
  have "P (snd ?r)"
    using f [OF Cons.prems(2)] rename_ids_invariant [of P f, OF f Cons.prems(2)] Cons.prems(1) [of k v] Cons.prems(2) e
    by (simp add: case_prod_beta)
  moreover obtain v' s1 where r: "?r = (v', s1)" by (meson surj_pair)
  ultimately have "P s1" by simp
  have "P (snd (transform_members f m s1))"
    by (rule Cons.IH [OF _ \<open>P s1\<close>]) (rule Cons.prems(1), rule list.set_intros)
  then show ?case
    unfolding e transform_members.simps r by (simp add: case_prod_beta)
qed simp

lemma transform_items_invariant:
  "(\<And>v s. v \<in> set vs \<Longrightarrow> P s \<Longrightarrow> P (snd (transform f v s))) \<Longrightarrow> P s \<Longrightarrow> P (snd (transform_items f vs s))"
  by (induction vs arbitrary: s) (auto simp: case_prod_beta)

lemma transform_invariant:
  assumes f: "\<And>x s. P s \<Longrightarrow> P (snd (f x s))"
  shows "P s \<Longrightarrow> P (snd (transform f v s))"
proof (induction v arbitrary: s)
  case (JArr xs)
  then show ?case using transform_items_invariant [of xs P f s] by (simp add: case_prod_beta)
next
  case (JObj m)
  have "P (snd (transform f v s))" if "(k, v) \<in> set m" "P s" for k v s
    by (rule JObj.IH [OF that(1) _ that(2)]) simp
  then have "P (snd (transform_members f m s))"
    using transform_members_invariant [of P f m s, OF f] JObj.prems by blast
  then show ?case by (simp add: case_prod_beta)
qed simp_all

lemma rename_ids_pure: "fst (rename_ids (pure_id f) vs s) = map (\<lambda>v. JStr (f (string_val (Some v)))) vs"
  by (induction vs arbitrary: s) (auto simp: pure_id_def case_prod_beta)

text \<open>Two rewritings in a row are one rewriting, and renaming by the identity changes nothing but
  the kind of a malformed identifier.\<close>

lemma rename_members_simp:
  "fst (transform_members (pure_id f) ((k, v) # m) u) =
     (k, if isID k \<and> v \<noteq> JNull then JStr (f (string_val (Some v)))
         else if k = ''agent_order'' then JArr (map (\<lambda>v. JStr (f (string_val (Some v)))) (array (Some v)))
         else fst (transform (pure_id f) v u)) # fst (transform_members (pure_id f) m u)"
  using rename_ids_pure [of f "array (Some v)" "()"]
  by (auto simp: pure_id_def split: prod.split)

lemma rename_items_simp:
  "fst (transform_items (pure_id f) (v # vs) u) =
     fst (transform (pure_id f) v u) # fst (transform_items (pure_id f) vs u)"
  by (auto split: prod.split)

lemma isID_agent_order: "\<not> isID ''agent_order''"
  by (simp add: isID_def id_members_def)

lemma transform_null: "fst (transform f v s) = JNull \<longleftrightarrow> v = JNull"
  by (cases v) (auto split: prod.split)

lemma transform_compose_members:
  "(\<And>k v. (k, v) \<in> set m \<Longrightarrow>
      fst (transform (pure_id g) (fst (transform (pure_id f) v u)) u) = fst (transform (pure_id (\<lambda>x. g (f x))) v u)) \<Longrightarrow>
   fst (transform_members (pure_id g) (fst (transform_members (pure_id f) m u)) u) =
     fst (transform_members (pure_id (\<lambda>x. g (f x))) m u)"
proof (induction m)
  case (Cons a m)
  obtain k v where a: "a = (k, v)" by fastforce
  have "fst (transform_members (pure_id g) (fst (transform_members (pure_id f) m u)) u) =
      fst (transform_members (pure_id (\<lambda>x. g (f x))) m u)"
    by (rule Cons.IH, rule Cons.prems, rule list.set_intros)
  moreover have "fst (transform (pure_id g) (fst (transform (pure_id f) v u)) u) =
      fst (transform (pure_id (\<lambda>x. g (f x))) v u)"
    by (rule Cons.prems [of k]) (simp add: a)
  ultimately show ?case
    unfolding a by (simp only: rename_members_simp) (auto simp: transform_null isID_agent_order)
qed simp

lemma transform_compose_items:
  "(\<And>v. v \<in> set vs \<Longrightarrow>
      fst (transform (pure_id g) (fst (transform (pure_id f) v u)) u) = fst (transform (pure_id (\<lambda>x. g (f x))) v u)) \<Longrightarrow>
   fst (transform_items (pure_id g) (fst (transform_items (pure_id f) vs u)) u) =
     fst (transform_items (pure_id (\<lambda>x. g (f x))) vs u)"
  by (induction vs) (simp_all only: rename_items_simp, simp_all)

lemma transform_compose:
  "fst (transform (pure_id g) (fst (transform (pure_id f) v u)) u) = fst (transform (pure_id (\<lambda>x. g (f x))) v u)"
proof (induction v)
  case (JArr xs)
  then show ?case using transform_compose_items [of xs g f u] by (simp add: case_prod_beta)
next
  case (JObj m)
  then show ?case using transform_compose_members [of m g f u] by (fastforce simp: case_prod_beta)
qed auto

lemma rename_json_compose: "rename_json g (rename_json f v) = rename_json (g \<circ> f) v"
  using transform_compose by (simp add: rename_json_def comp_def)

section \<open>The empty aggregate\<close>

definition emptySnapshot :: "(bytes \<times> json) list" where
  "emptySnapshot = [(''boot_id'', JStr []), (''revision'', JNum 0), (''config_diagnostic'', JNull),
     (''product_announcement'', JNull), (''update_available'', JNull),
     (''update_install_command'', JStr []), (''server_keybindings_toml'', JNull),
     (''latest_release_notes_available'', JBool False), (''integration_updates_available'', JBool False),
     (''worktree_directory'', JStr []), (''release_notes'', JNull), (''focused_workspace_id'', JNull),
     (''focused_tab_id'', JNull), (''focused_pane_id'', JNull), (''tab_bar_right'', JArr []),
     (''tab_bar_right_separator'', JStr '' | ''), (''agent_view_label'', JNull),
     (''agent_order'', JArr []), (''workspaces'', JArr []), (''tabs'', JArr []), (''panes'', JArr []),
     (''agents'', JArr []), (''commands'', JArr [])]"

end
