(* ===== verification/Wire.thy ===== *)
theory Wire
  imports Prelude
begin

text \<open>
  \<open>hive/internal/gateway/wire.go\<close>, first part: the length-prefixed frames, the variable
  length integers, and the \<open>decoder\<close> that walks a frame while it copies (or rewrites) it
  into \<open>out\<close>. The decoder's error is sticky but does not stop later calls, exactly as in
  the code; the only error value it ever holds is \<open>errWire\<close>, so it is a flag here.
\<close>

section \<open>Little-endian integers and frames\<close>

definition MaxFrame :: nat where
  "MaxFrame = 2097152"

primrec put_le :: "nat \<Rightarrow> nat \<Rightarrow> bytes" where
  "put_le 0 v = []"
| "put_le (Suc n) v = char_of v # put_le n (v div 256)"

primrec get_le :: "bytes \<Rightarrow> nat" where
  "get_le [] = 0"
| "get_le (c # cs) = of_char c + 256 * get_le cs"

datatype read_error = ReadEOF | ReadUnexpectedEOF | ReadWire

text \<open>\<open>io.ReadFull\<close> over the bytes the peer sends before it closes.\<close>

definition read_full :: "nat \<Rightarrow> bytes \<Rightarrow> read_error + (bytes \<times> bytes)" where
  "read_full n inp =
     (if n \<le> length inp then Inr (take n inp, drop n inp)
      else if inp = [] then Inl ReadEOF else Inl ReadUnexpectedEOF)"

definition read_frame :: "bytes \<Rightarrow> read_error + (bytes \<times> bytes)" where
  "read_frame inp =
     (case read_full 4 inp of
        Inl e \<Rightarrow> Inl e
      | Inr (h, rest) \<Rightarrow>
          (let n = get_le h in
           if n = 0 \<or> n > MaxFrame then Inl ReadWire else read_full n rest))"

definition frame_ok :: "bytes \<Rightarrow> bool" where
  "frame_ok b \<longleftrightarrow> b \<noteq> [] \<and> length b \<le> MaxFrame"

definition write_frame :: "bytes \<Rightarrow> bytes option" where
  "write_frame b = (if frame_ok b then Some (put_le 4 (length b) @ b) else None)"

definition number :: "u64 \<Rightarrow> bytes" where
  "number v =
     (if v < 251 then [char_of (unat v)]
      else if v \<le> 65535 then char_of (251::nat) # put_le 2 (unat v)
      else if v \<le> 4294967295 then char_of (252::nat) # put_le 4 (unat v)
      else char_of (253::nat) # put_le 8 (unat v))"

definition str :: "bytes \<Rightarrow> bytes" where
  "str s = number (of_nat (length s)) @ s"

definition control :: "bytes \<Rightarrow> bytes \<Rightarrow> bytes" where
  "control kind data = char_of (20::nat) # str kind @ str data"

section \<open>The decoder\<close>

record decoder =
  buf :: bytes
  pos :: nat
  outb :: bytes
  derr :: bool

definition decoder_of :: "bytes \<Rightarrow> decoder" where
  "decoder_of b = \<lparr>buf = b, pos = 0, outb = [], derr = False\<rparr>"

definition fault :: "decoder \<Rightarrow> decoder" where
  "fault d = d\<lparr>derr := True\<rparr>"

definition raw :: "int \<Rightarrow> decoder \<Rightarrow> bytes \<times> decoder" where
  "raw n d =
     (if n < 0 \<or> n > int (length (buf d)) - int (pos d) then ([], fault d)
      else let v = take (nat n) (drop (pos d) (buf d))
           in (v, d\<lparr>pos := pos d + nat n, outb := outb d @ v\<rparr>))"

definition num :: "decoder \<Rightarrow> u64 \<times> decoder" where
  "num d =
     (case raw 1 d of (b, d1) \<Rightarrow>
       (case b of
          [] \<Rightarrow> (0, d1)
        | c # _ \<Rightarrow>
           (let t = of_char c :: nat in
            if t = 251 then
              (case raw 2 d1 of (b2, d2) \<Rightarrow> (if length b2 = 2 then of_nat (get_le b2) else 0, d2))
            else if t = 252 then
              (case raw 4 d1 of (b2, d2) \<Rightarrow> (if length b2 = 4 then of_nat (get_le b2) else 0, d2))
            else if t = 253 then
              (case raw 8 d1 of (b2, d2) \<Rightarrow> (if length b2 = 8 then of_nat (get_le b2) else 0, d2))
            else if t = 254 \<or> t = 255 then (0, fault d1)
            else (of_nat t, d1))))"

definition text_dec :: "decoder \<Rightarrow> bytes \<times> decoder" where
  "text_dec d =
     (case num d of (n, d1) \<Rightarrow>
        if n > of_nat MaxFrame then ([], fault d1) else raw (uint n) d1)"

definition replace_text :: "(bytes \<Rightarrow> bytes) \<Rightarrow> decoder \<Rightarrow> bytes \<times> decoder" where
  "replace_text f d =
     (case text_dec d of (s, d1) \<Rightarrow>
        (s, d1\<lparr>outb := take (length (outb d)) (outb d1) @ str (f s)\<rparr>))"

definition replace_num :: "u64 \<Rightarrow> decoder \<Rightarrow> u64 \<times> decoder" where
  "replace_num v d =
     (case num d of (old, d1) \<Rightarrow>
        (old, d1\<lparr>outb := take (length (outb d)) (outb d1) @ number v\<rparr>))"

text \<open>
  \<open>many\<close> runs a closure a counted number of times until an error. The closures of the
  code also update local variables, so the loop carries a state \<open>'s\<close> beside the decoder;
  \<open>many\<close> is the case without one.
\<close>

fun while_ok :: "nat \<Rightarrow> ('s \<times> decoder \<Rightarrow> 's \<times> decoder) \<Rightarrow> 's \<times> decoder \<Rightarrow> 's \<times> decoder" where
  "while_ok 0 f x = x"
| "while_ok (Suc n) f x = (if derr (snd x) then x else while_ok n f (f x))"

definition many_st :: "('s \<times> decoder \<Rightarrow> 's \<times> decoder) \<Rightarrow> 's \<times> decoder \<Rightarrow> 's \<times> decoder" where
  "many_st f x =
     (case num (snd x) of (n, d1) \<Rightarrow>
        if n > of_nat MaxFrame \<or> n > of_nat (length (buf d1) - pos d1) then (fst x, fault d1)
        else while_ok (unat n) f (fst x, d1))"

definition many :: "(decoder \<Rightarrow> decoder) \<Rightarrow> decoder \<Rightarrow> decoder" where
  "many f d = snd (many_st (\<lambda>x. (fst x, f (snd x))) ((), d))"

definition option_dec :: "(decoder \<Rightarrow> decoder) \<Rightarrow> decoder \<Rightarrow> decoder" where
  "option_dec f d =
     (case raw 1 d of (v, d1) \<Rightarrow>
        (case v of
           [] \<Rightarrow> d1
         | c # _ \<Rightarrow>
            if of_char c = (1::nat) then f d1
            else if of_char c \<noteq> (0::nat) then fault d1 else d1))"

definition enum_dec :: "u64 \<Rightarrow> decoder \<Rightarrow> decoder" where
  "enum_dec m d = (case num d of (v, d1) \<Rightarrow> if v > m then fault d1 else d1)"

text \<open>Calls whose result the code drops, and calls made one after the other.\<close>

definition skip_raw :: "int \<Rightarrow> decoder \<Rightarrow> decoder" where
  "skip_raw n d = snd (raw n d)"

definition skip_num :: "decoder \<Rightarrow> decoder" where
  "skip_num d = snd (num d)"

definition skip_text :: "decoder \<Rightarrow> decoder" where
  "skip_text d = snd (text_dec d)"

primrec steps :: "(decoder \<Rightarrow> decoder) list \<Rightarrow> decoder \<Rightarrow> decoder" where
  "steps [] d = d"
| "steps (f # fs) d = steps fs (f d)"

definition nums :: "nat \<Rightarrow> decoder \<Rightarrow> decoder" where
  "nums n = steps (replicate n skip_num)"

section \<open>The frozen surface codec\<close>

definition notification :: "nat \<Rightarrow> decoder \<Rightarrow> decoder" where
  "notification tag =
     (if tag = 4 then steps [enum_dec 2, skip_text, option_dec skip_text]
      else if tag = 14 then
        steps ([enum_dec 3, skip_text, option_dec skip_text, option_dec (enum_dec 1)] @
               replicate 4 (option_dec skip_text) @ [option_dec (enum_dec 3)])
      else fault)"

definition cell :: "decoder \<Rightarrow> decoder" where
  "cell = steps [skip_text, nums 3, skip_raw 1, option_dec skip_num]"

definition cursor_dec :: "decoder \<Rightarrow> decoder" where
  "cursor_dec = steps [nums 2, skip_raw 2]"

definition frame_dec :: "decoder \<Rightarrow> decoder" where
  "frame_dec = steps [many cell, nums 2, option_dec cursor_dec, many skip_text, skip_text]"

definition pane_dec :: "(bytes \<Rightarrow> bytes) \<Rightarrow> decoder \<Rightarrow> decoder" where
  "pane_dec ident =
     steps [\<lambda>d. snd (replace_text ident d), nums 9, option_dec (nums 4), option_dec (nums 3),
            skip_raw 4, nums 2]"

definition asset_dec :: "(bytes \<Rightarrow> bytes) \<Rightarrow> decoder \<Rightarrow> decoder" where
  "asset_dec ident d =
     nums 5
       (case num d of (t, d1) \<Rightarrow>
          if t = 0 then steps [enum_dec 1, \<lambda>d. snd (replace_text ident d), skip_num] d1
          else if t = 1 then steps [\<lambda>d. snd (replace_text ident d), skip_text] d1
          else fault d1)"

definition split_dec :: "decoder \<Rightarrow> decoder" where
  "split_dec = steps [nums 10, many (skip_raw 1)]"

text \<open>The two size closures differ: \<open>surface\<close> takes any tag but 0 as one byte, \<open>popup\<close>
  (used when graphics are retained) insists on 0 or 1.\<close>

definition surface_size :: "decoder \<Rightarrow> decoder" where
  "surface_size d = (case num d of (t, d1) \<Rightarrow> if t = 0 then skip_num d1 else skip_raw 1 d1)"

definition popup_size :: "decoder \<Rightarrow> decoder" where
  "popup_size d =
     (case num d of (t, d1) \<Rightarrow>
        if t = 0 then skip_num d1 else if t = 1 then skip_raw 1 d1 else fault d1)"

definition surface_popup :: "(bytes \<Rightarrow> bytes) \<Rightarrow> decoder \<Rightarrow> decoder" where
  "surface_popup ident =
     steps [\<lambda>d. snd (replace_text ident d), skip_text, option_dec surface_size,
            option_dec surface_size, frame_dec, skip_raw 2, nums 2]"

definition popup_dec :: "(bytes \<Rightarrow> bytes) \<Rightarrow> decoder \<Rightarrow> decoder" where
  "popup_dec ident =
     steps [\<lambda>d. snd (replace_text ident d), skip_text, option_dec popup_size,
            option_dec popup_size, frame_dec, skip_raw 2, nums 2]"

definition surface_full :: "(bytes \<Rightarrow> bytes) \<Rightarrow> decoder \<Rightarrow> decoder" where
  "surface_full ident =
     steps [skip_num, frame_dec, many (pane_dec ident), many split_dec,
            option_dec (surface_popup ident),
            many (steps [asset_dec ident, skip_text]),
            many (steps [asset_dec ident, nums 13]),
            many (asset_dec ident)]"

definition surface_patch :: "(bytes \<Rightarrow> bytes) \<Rightarrow> decoder \<Rightarrow> decoder" where
  "surface_patch ident =
     steps [nums 2, many (steps [nums 2, many cell]), many (pane_dec ident), option_dec cursor_dec]"

definition surface :: "bytes \<Rightarrow> bytes \<Rightarrow> u64 \<Rightarrow> (bytes \<Rightarrow> bytes) \<Rightarrow> bytes option" where
  "surface b boot revision ident =
     (case num (decoder_of b) of (tag, d0) \<Rightarrow>
        let d1 = snd (replace_num revision (snd (replace_text (\<lambda>_. boot) d0))) in
        if tag = 13 \<or> tag = 19 then
          (let d = (if tag = 13 then surface_full ident d1 else surface_patch ident d1) in
           if derr d \<or> pos d \<noteq> length b then None else Some (outb d))
        else None)"

section \<open>Integer and string round trips\<close>

lemma length_le_bytes [simp]: "length (put_le n v) = n"
  by (induction n arbitrary: v) auto

lemma get_le_put_le: "get_le (put_le n v) = v mod 256 ^ n"
proof (induction n arbitrary: v)
  case (Suc n)
  have "get_le (put_le (Suc n) v) = v mod 256 + 256 * (v div 256 mod 256 ^ n)"
    by (simp add: Suc)
  also have "\<dots> = v mod (256 * 256 ^ n)"
    by (simp add: mod_mult2_eq mult.commute)
  finally show ?case by simp
qed simp

lemma put_le_get_le: "put_le (length b) (get_le b) = b"
proof (induction b)
  case (Cons c cs)
  have c: "of_char c < (256::nat)" by simp
  then have "(of_char c + 256 * get_le cs) mod 256 = of_char c"
    by (metis mod_less mod_mult_self2)
  then have "char_of (of_char c + 256 * get_le cs) = c"
    by (metis char_of_char char_of_mod_256)
  moreover from c have "(of_char c + 256 * get_le cs) div 256 = get_le cs"
    by simp
  ultimately show ?case by (simp add: Cons)
qed simp

lemma get_le_bound: "get_le b < 256 ^ length b"
proof (induction b)
  case (Cons c cs)
  have a: "of_char c < (256::nat)" by simp
  from Cons have b: "256 * get_le cs + 256 \<le> 256 * 256 ^ length cs"
    by (metis Suc_leI mult_Suc_right mult_le_mono2 add.commute)
  have "get_le (c # cs) = of_char c + 256 * get_le cs" and "256 ^ length (c # cs) = 256 * (256 ^ length cs :: nat)"
    by simp_all
  with a b show ?case by linarith
qed simp

text \<open>\<open>reads d s\<close>: the bytes left to the decoder are \<open>s\<close>. \<open>advance d w\<close>: the decoder after
  it has copied the bytes \<open>w\<close>.\<close>

definition reads :: "decoder \<Rightarrow> bytes \<Rightarrow> bool" where
  "reads d s \<longleftrightarrow> pos d \<le> length (buf d) \<and> drop (pos d) (buf d) = s"

definition advance :: "decoder \<Rightarrow> bytes \<Rightarrow> decoder" where
  "advance d w = d\<lparr>pos := pos d + length w, outb := outb d @ w\<rparr>"

lemma advance_sel [decoder_simps]:
  "buf (advance d w) = buf d" "pos (advance d w) = pos d + length w"
  "outb (advance d w) = outb d @ w" "derr (advance d w) = derr d"
  by (simp_all add: advance_def)

lemma advance_advance [decoder_simps]: "advance (advance d v) w = advance d (v @ w)"
  by (simp add: advance_def)

lemma reads_decoder_of [simp]: "reads (decoder_of b) b"
  by (simp add: reads_def decoder_of_def)

lemma reads_advance: "reads d (w @ r) \<Longrightarrow> reads (advance d w) r"
proof -
  assume a: "reads d (w @ r)"
  then have "length (buf d) - pos d = length w + length r"
    by (metis length_append length_drop reads_def)
  moreover from a have "drop (pos d + length w) (buf d) = drop (length w) (w @ r)"
    by (metis add.commute drop_drop reads_def)
  ultimately show ?thesis
    using a by (auto simp: reads_def advance_def)
qed

lemma raw_reads: "reads d (w @ r) \<Longrightarrow> raw (int (length w)) d = (w, advance d w)"
  unfolding reads_def raw_def advance_def
  by (auto simp: Let_def) (metis length_append length_drop of_nat_diff of_nat_le_iff le_add1 not_le)+

lemma raw_readsN: "reads d (w @ r) \<Longrightarrow> n = int (length w) \<Longrightarrow> raw n d = (w, advance d w)"
  using raw_reads by simp

lemma num_reads: "reads d (number v @ r) \<Longrightarrow> num d = (v, advance d (number v))"
proof -
  assume a: "reads d (number v @ r)"
  have multi: "num d = (v, advance d (number v))"
    if w: "number v = char_of t # put_le k (unat v)" "unat v < 256 ^ k"
      and t: "(t = 251 \<and> k = 2) \<or> (t = 252 \<and> k = 4) \<or> (t = 253 \<and> k = 8)" for t k :: nat
  proof -
    from a w have r1: "reads d ([char_of t] @ put_le k (unat v) @ r)" by simp
    from raw_readsN [OF this] have 1: "raw 1 d = ([char_of t], advance d [char_of t])" by simp
    from raw_readsN [OF reads_advance [OF r1]]
    have 2: "raw (int k) (advance d [char_of t]) = (put_le k (unat v), advance (advance d [char_of t]) (put_le k (unat v)))"
      by simp
    from w(2) have "get_le (put_le k (unat v)) = unat v" by (simp add: get_le_put_le)
    with t 1 2 show ?thesis
      by (auto simp: num_def w(1) Let_def advance_advance)
  qed
  show ?thesis
  proof (cases "v < 251")
    case True
    then have v: "unat v < 251" by (simp add: word_less_nat_alt)
    with True have n: "number v = [char_of (unat v)]" by (simp add: number_def)
    from a n have "raw 1 d = ([char_of (unat v)], advance d [char_of (unat v)])"
      using raw_readsN [of d "[char_of (unat v)]" r 1] by simp
    with v show ?thesis by (simp add: num_def n Let_def)
  next
    case False
    have v64: "unat v < 256 ^ 8" using unsigned_less [of v] by simp
    show ?thesis
    proof (cases "v \<le> 65535")
      case True
      with False show ?thesis
        by (intro multi [of 251 2]) (simp_all add: number_def word_le_nat_alt)
    next
      case f2: False
      show ?thesis
      proof (cases "v \<le> 4294967295")
        case True
        with False f2 show ?thesis
          by (intro multi [of 252 4]) (simp_all add: number_def word_le_nat_alt)
      next
        case f3: False
        with False f2 v64 show ?thesis
          by (intro multi [of 253 8]) (simp_all add: number_def)
      qed
    qed
  qed
qed

lemma length_number: "1 \<le> length (number v)" "length (number v) \<le> 9"
  by (simp_all add: number_def)

lemma text_reads:
  "reads d (str s @ r) \<Longrightarrow> length s \<le> MaxFrame \<Longrightarrow> text_dec d = (s, advance d (str s))"
proof -
  assume a: "reads d (str s @ r)" and l: "length s \<le> MaxFrame"
  let ?n = "of_nat (length s) :: u64"
  from l have u: "unat ?n = length s"
    by (simp add: unat_of_nat MaxFrame_def)
  from a have r1: "reads d (number ?n @ s @ r)" by (simp add: str_def)
  from l have "\<not> ?n > of_nat MaxFrame"
    by (simp add: word_less_nat_alt u unat_of_nat MaxFrame_def)
  moreover have "raw (uint ?n) (advance d (number ?n)) = (s, advance (advance d (number ?n)) s)"
    by (rule raw_readsN [OF reads_advance [OF r1]]) (simp only: uint_nat u)
  ultimately show ?thesis
    by (simp add: text_dec_def num_reads [OF r1] advance_advance str_def)
qed

section \<open>Frames and named controls\<close>

lemma read_write_frame:
  assumes "write_frame b = Some w"
  shows "read_frame (w @ rest) = Inr (b, rest)"
proof -
  from assms have b: "b \<noteq> []" "length b \<le> MaxFrame" and w: "w = put_le 4 (length b) @ b"
    by (auto simp: write_frame_def frame_ok_def split: if_splits)
  from b(2) have "get_le (put_le 4 (length b)) = length b"
    by (simp add: get_le_put_le MaxFrame_def)
  with b w show ?thesis
    by (simp add: read_frame_def read_full_def)
qed

lemma read_frame_bounded:
  "read_frame inp = Inr (b, rest) \<Longrightarrow> frame_ok b \<and> write_frame b = Some (take (4 + length b) inp) \<and>
     rest = drop (4 + length b) inp"
proof -
  assume a: "read_frame inp = Inr (b, rest)"
  let ?n = "get_le (take 4 inp)"
  from a have l: "4 + ?n \<le> length inp" "0 < ?n" "?n \<le> MaxFrame"
    and b: "b = take ?n (drop 4 inp)" "rest = drop (4 + ?n) inp"
    by (auto simp: read_frame_def read_full_def Let_def add.commute split: if_splits)
  then have n: "length b = ?n" by simp
  have "length (take 4 inp) = 4" using l(1) by simp
  then have "put_le 4 ?n = take 4 inp"
    by (metis put_le_get_le)
  moreover have "take (4 + ?n) inp = take 4 inp @ take ?n (drop 4 inp)"
    by (rule take_add)
  ultimately show ?thesis
    using l b n by (auto simp: write_frame_def frame_ok_def)
qed

lemma control_reads:
  assumes "length kind \<le> MaxFrame" and "length data \<le> MaxFrame"
  defines "d0 \<equiv> decoder_of (control kind data)"
  shows "\<exists>d1 d2 d3. num d0 = (20, d1) \<and> text_dec d1 = (kind, d2) \<and> text_dec d2 = (data, d3) \<and>
           \<not> derr d3 \<and> pos d3 = length (control kind data)"
proof -
  have n20: "[char_of (20::nat)] = number 20"
    by (simp add: number_def)
  then have c: "control kind data = number 20 @ str kind @ str data"
    by (simp add: control_def)
  have r0: "reads d0 (number 20 @ str kind @ str data)"
    by (simp add: d0_def flip: c)
  note r1 = reads_advance [OF r0]
  have r2: "reads (advance (advance d0 (number 20)) (str kind)) (str data @ [])"
    using reads_advance [OF r1] by simp
  show ?thesis
    using num_reads [OF r0] text_reads [OF r1 assms(1)] text_reads [OF r2 assms(2)]
    by (auto simp: decoder_simps c) (simp_all add: d0_def decoder_of_def)
qed

section \<open>Round trips\<close>

text \<open>
  C39. Frames round trip (\<open>Write\<close>, \<open>Read\<close>): what one side writes the other reads back, followed by
  whatever was written next; and what is read was written: only a non-empty payload of at most
  \<open>MaxFrame\<close> bytes preceded by its own length is accepted.
\<close>

theorem frame_round_trip:
  "(write_frame b = Some w \<longrightarrow> read_frame (w @ rest) = Inr (b, rest)) \<and>
   (read_frame inp = Inr (b, rest) \<longrightarrow>
      b \<noteq> [] \<and> length b \<le> MaxFrame \<and> write_frame b = Some (take (4 + length b) inp) \<and> rest = drop (4 + length b) inp)"
  using read_write_frame [of b w rest] read_frame_bounded [of inp b rest] by (auto simp: frame_ok_def)

lemma frame_round_trip_witness:
  "read_frame (put_le 4 2 @ ''ok'' @ ''!'') = Inr (''ok'', ''!'') \<and> write_frame ''ok'' = Some (put_le 4 2 @ ''ok'')"
proof -
  have "write_frame ''ok'' = Some (put_le 4 2 @ ''ok'')"
    by (simp add: write_frame_def frame_ok_def MaxFrame_def numeral_2_eq_2)
  then show ?thesis
    using frame_round_trip [of "''ok''" "put_le 4 2 @ ''ok''" "''!''"] by simp
qed

text \<open>
  Numbers round trip (\<open>number\<close>, \<open>decoder.num\<close>): every 64-bit number, in whichever of its four
  lengths it is written, is read back whole and leaves the decoder exactly behind it.
\<close>

theorem number_round_trip:
  "num (decoder_of (number v @ r)) = (v, (decoder_of (number v @ r))\<lparr>pos := length (number v), outb := number v\<rparr>) \<and>
   1 \<le> length (number v) \<and> length (number v) \<le> 9"
  using num_reads [of "decoder_of (number v @ r)" v r] length_number [of v]
  by (simp add: reads_def advance_def decoder_of_def)

text \<open>
  Named controls round trip (\<open>control\<close>, the decoding in \<open>Serve\<close>, \<open>server\<close> and \<open>client\<close>): the
  name and the data of a control frame are read back and nothing is left over.
\<close>

theorem control_round_trip:
  assumes "length kind \<le> MaxFrame" and "length data \<le> MaxFrame"
  shows "(case num (decoder_of (control kind data)) of (tag, d1) \<Rightarrow>
          case text_dec d1 of (k, d2) \<Rightarrow>
          case text_dec d2 of (v, d3) \<Rightarrow>
            tag = 20 \<and> k = kind \<and> v = data \<and> \<not> derr d3 \<and> pos d3 = length (control kind data))"
  using control_reads [OF assms] by auto

lemma control_round_trip_witness:
  "fst (text_dec (snd (num (decoder_of (control ''endpoint.health.ping.v1'' ''x''))))) = ''endpoint.health.ping.v1''"
  using control_round_trip [of "''endpoint.health.ping.v1''" "''x''"]
  by (simp add: MaxFrame_def split: prod.splits)

end
