(* ===== verification/Handshake.thy ===== *)
theory Handshake
  imports Json Wire
begin

text \<open>
  The endpoint handshake of \<open>hive/internal/gateway/handshake.go\<close>: what the gateway accepts as a
  viewer's hello, the offer it makes in its own name to every source, and what it accepts as a
  source's welcome.
\<close>

section \<open>The gateway's own welcome\<close>

definition requiredCodecs :: "(bytes \<times> bytes) list" where
  "requiredCodecs = [(''snapshot'', ''shell.snapshot.v1''), (''surface'', ''shell.surface.v1''),
     (''input'', ''shell.input.semantic.v1''), (''blob'', ''shell.blob.v1'')]"

definition supportedMethods :: "bytes list" where
  "supportedMethods = [''client_shell.surface.set'', ''command.invoke'', ''layout.set_split_ratio'',
     ''workspace.focus'', ''workspace.create'', ''workspace.rename'', ''workspace.close'', ''tab.focus'',
     ''tab.create'', ''tab.rename'', ''tab.close'', ''tab.move'', ''pane.focus'', ''pane.focus_direction'',
     ''pane.split'', ''pane.close'', ''pane.rename'', ''pane.resize'', ''pane.scroll'', ''pane.copy_motion'',
     ''pane.copy_search'', ''pane.edit_scrollback'', ''pane.input.set'', ''pane.link.activate'',
     ''pane.selection.read'', ''pane.swap'', ''pane.zoom'']"

definition allowedMethod :: "bytes \<Rightarrow> bool" where
  "allowedMethod m \<longleftrightarrow> list_ex (\<lambda>v. v = m) supportedMethods"

definition strings :: "bytes list \<Rightarrow> json" where
  "strings xs = JArr (map JStr xs)"

definition welcomeValue :: "(bytes \<times> json) list" where
  "welcomeValue =
     [(''generation'', JNum 1), (''server_version'', JStr ''0.9.0''), (''methods'', strings supportedMethods),
      (''capabilities'', strings [''surface_interest'', ''presentation_effects_fence'', ''health_check''])] @
     map (\<lambda>c. (fst c @ ''_codec'', JStr (snd c))) requiredCodecs"

section \<open>The viewer's hello\<close>

definition helloInteger :: "json option \<Rightarrow> nat \<Rightarrow> u64 option" where
  "helloInteger v limit =
     (case v of
        Some (JNum n) \<Rightarrow>
          if n < 0 \<or> n > of_nat limit \<or> of_int \<lfloor>n\<rfloor> \<noteq> n then None else Some (of_int \<lfloor>n\<rfloor>)
      | _ \<Rightarrow> None)"

text \<open>What a successful negotiation leaves in the session.\<close>

record negotiated =
  nActive :: bool
  nCols :: u64
  nRows :: u64
  nResize :: bytes
  nHello :: bytes

fun hello_codecs :: "(bytes \<times> json) list \<Rightarrow> (bytes \<times> bytes) list \<Rightarrow> bytes option" where
  "hello_codecs h [] = None"
| "hello_codecs h ((field, c) # cs) =
     (if list_ex (\<lambda>v. v = JStr c) (array (map_of h (field @ ''_codecs''))) then hello_codecs h cs
      else Some (''unsupported endpoint codec: Hive requires '' @ c))"

fun hello_flags :: "(bytes \<times> json) list \<Rightarrow> bytes list \<Rightarrow> bytes + (bytes \<times> json) list" where
  "hello_flags h [] = Inr []"
| "hello_flags h (field # fs) =
     (case map_of h field of
        Some (JBool v) \<Rightarrow>
          (case hello_flags h fs of
             Inl e \<Rightarrow> Inl e
           | Inr up \<Rightarrow> Inr (if field \<noteq> ''direct_graphics'' then (field, JBool v) # up else up))
      | _ \<Rightarrow> Inl (''invalid endpoint hello: '' @ field @ '' must be boolean''))"

definition resize_frame :: "u64 \<Rightarrow> u64 \<Rightarrow> u64 \<Rightarrow> u64 \<Rightarrow> bool \<Rightarrow> bytes" where
  "resize_frame w h cols rows pixel =
     number 12 @ number w @ number h @ number cols @ number rows @ [if pixel then CHR 0x01 else CHR 0x00]"

definition upstream_hello :: "u64 \<Rightarrow> u64 \<Rightarrow> u64 \<Rightarrow> u64 \<Rightarrow> (bytes \<times> json) list \<Rightarrow> (bytes \<times> json) list" where
  "upstream_hello w h cols rows flags =
     [(''generation'', JNum 1), (''direct_graphics'', JBool False), (''surface_active'', JBool False)] @
     map (\<lambda>c. (fst c @ ''_codecs'', strings [snd c])) requiredCodecs @ flags @
     [(''cell_width_px'', JNum (of_nat (unat w))), (''cell_height_px'', JNum (of_nat (unat h))),
      (''surface_size'', JObj [(''cols'', JNum (of_nat (unat cols))), (''rows'', JNum (of_nat (unat rows)))])]"

text \<open>The geometry and the presentation flag of a hello; \<open>None\<close> where the code refuses them.\<close>

definition hello_geometry :: "(bytes \<times> json) list \<Rightarrow> (u64 \<times> u64 \<times> u64 \<times> u64) option" where
  "hello_geometry h =
     (let size = object (map_of h ''surface_size'') in
      case helloInteger (member size ''cols'') 65535 of
        None \<Rightarrow> None
      | Some cols \<Rightarrow>
          (case helloInteger (member size ''rows'') 65535 of
             None \<Rightarrow> None
           | Some rows \<Rightarrow>
               (case helloInteger (map_of h ''cell_width_px'') (2 ^ 32 - 1) of
                  None \<Rightarrow> None
                | Some w \<Rightarrow>
                    (case helloInteger (map_of h ''cell_height_px'') (2 ^ 32 - 1) of
                       None \<Rightarrow> None
                     | Some ht \<Rightarrow>
                         if cols = 0 \<or> rows = 0 \<or> cols * rows > 65536 then None
                         else Some (cols, rows, w, ht)))))"

fun hello_active :: "json option \<Rightarrow> bool option" where
  "hello_active None = Some True"
| "hello_active (Some (JBool a)) = Some a"
| "hello_active _ = None"

text \<open>\<open>negotiateHello\<close>: the viewer's hello, or the message it is refused with.\<close>

definition negotiateHello :: "codec \<Rightarrow> bytes \<Rightarrow> bytes + negotiated" where
  "negotiateHello j data =
     (case (if length data > 256 * 1024 then None else object (dec j data)) of
        None \<Rightarrow> Inl ''invalid endpoint hello JSON''
      | Some h \<Rightarrow>
          if map_of h ''generation'' \<noteq> Some (JNum 1)
          then Inl ''unsupported endpoint generation: Hive requires generation 1''
          else
            (case hello_codecs h requiredCodecs of
               Some e \<Rightarrow> Inl e
             | None \<Rightarrow>
                 (case hello_geometry h of
                    None \<Rightarrow> Inl ''invalid endpoint geometry: positive integer dimensions, at most 65536 cells, and uint32 cell pixels are required''
                  | Some (cols, rows, w, ht) \<Rightarrow>
                      (case hello_flags h [''pixel_mouse'', ''mouse_capture'', ''endpoint_keybindings'', ''direct_graphics''] of
                         Inl e \<Rightarrow> Inl e
                       | Inr flags \<Rightarrow>
                           (case hello_active (map_of h ''surface_active'') of
                              None \<Rightarrow> Inl ''invalid endpoint hello: surface_active must be boolean''
                            | Some active \<Rightarrow>
                                Inr \<lparr>nActive = active, nCols = cols, nRows = rows,
                                  nResize = resize_frame w ht cols rows (map_of h ''pixel_mouse'' = Some (JBool True)),
                                  nHello = control ''endpoint.hello.v1''
                                    (enc j (JObj (upstream_hello w ht cols rows flags)))\<rparr>)))))"

section \<open>A source's welcome\<close>

definition validateWelcome :: "(bytes \<times> json) list \<Rightarrow> bytes option" where
  "validateWelcome v =
     (if not_nil (map_of v ''error'') \<or> map_of v ''generation'' \<noteq> Some (JNum 1)
      then Some ''publisher rejected generation 1 endpoint handshake''
      else case List.find (\<lambda>c. map_of v (fst c @ ''_codec'') \<noteq> Some (JStr (snd c))) requiredCodecs of
             None \<Rightarrow> None
           | Some c \<Rightarrow> Some (''publisher selected unsupported '' @ fst c @ '' codec''))"

section \<open>The viewer's geometry\<close>

text \<open>The check the session applies to a later resize frame (tag 12 of \<open>client\<close>).\<close>

definition resize_ok :: "bytes \<Rightarrow> (u64 \<times> u64) option" where
  "resize_ok p =
     (case num (decoder_of p) of (_, d0) \<Rightarrow>
      case num d0 of (w, d1) \<Rightarrow>
      case num d1 of (h, d2) \<Rightarrow>
      case num d2 of (cols, d3) \<Rightarrow>
      case num d3 of (rows, d4) \<Rightarrow>
      case raw 1 d4 of (pixel, d5) \<Rightarrow>
        if length pixel \<noteq> 1 \<or> of_char (pixel ! 0) > (1::nat) then None
        else if w > 4294967295 \<or> h > 4294967295 \<or> cols = 0 \<or> rows = 0 \<or> cols > 65535 \<or> rows > 65535 \<or>
                cols * rows > 65536 \<or> derr d5 \<or> pos d5 \<noteq> length p
        then None else Some (cols, rows))"

lemma helloInteger_bound: "helloInteger v m = Some n \<Longrightarrow> m < 2 ^ 64 \<Longrightarrow> unat n \<le> m"
proof -
  assume a: "helloInteger v m = Some n" and m: "m < 2 ^ 64"
  then obtain q where q: "v = Some (JNum q)" "\<not> q < 0" "q \<le> of_nat m" and n: "n = of_int \<lfloor>q\<rfloor>"
    by (auto simp: helloInteger_def split: option.splits json.splits if_splits)
  from q(3) have "\<lfloor>q\<rfloor> \<le> int m"
    by (metis floor_mono floor_of_nat)
  moreover from q(2) have "0 \<le> \<lfloor>q\<rfloor>" by simp
  then obtain k where k: "\<lfloor>q\<rfloor> = int k" by (rule nonneg_int_cases)
  ultimately have "k \<le> m" by simp
  with m have "unat (of_nat k :: u64) = k" by (simp add: unat_of_nat)
  with n k \<open>k \<le> m\<close> show ?thesis by simp
qed

lemma resize_frame_ok:
  assumes "w \<le> 4294967295" "h \<le> 4294967295" "cols \<noteq> 0" "rows \<noteq> 0" "cols \<le> 65535" "rows \<le> 65535"
    and "cols * rows \<le> 65536"
  shows "resize_ok (resize_frame w h cols rows pixel) = Some (cols, rows)"
proof -
  let ?px = "[if pixel then CHR 0x01 else CHR 0x00]"
  let ?p = "resize_frame w h cols rows pixel"
  have r0: "reads (decoder_of ?p) (number 12 @ number w @ number h @ number cols @ number rows @ ?px @ [])"
    by (simp add: resize_frame_def)
  note r1 = reads_advance [OF r0]
  note r2 = reads_advance [OF r1]
  note r3 = reads_advance [OF r2]
  note r4 = reads_advance [OF r3]
  note r5 = reads_advance [OF r4]
  have px: "raw 1 (advance (advance (advance (advance (advance (decoder_of ?p) (number 12)) (number w))
      (number h)) (number cols)) (number rows)) =
      (?px, advance (advance (advance (advance (advance (advance (decoder_of ?p) (number 12)) (number w))
      (number h)) (number cols)) (number rows)) ?px)"
    by (rule raw_readsN [OF r5]) simp
  show ?thesis
    unfolding resize_ok_def num_reads [OF r0] prod.case num_reads [OF r1] num_reads [OF r2]
      num_reads [OF r3] num_reads [OF r4] px
    using assms by (auto simp: decoder_simps decoder_of_def resize_frame_def)
qed

section \<open>What a negotiation guarantees\<close>

lemma hello_codecs_ok: "hello_codecs h cs = None \<longleftrightarrow>
    (\<forall>c \<in> set cs. JStr (snd c) \<in> set (array (map_of h (fst c @ ''_codecs''))))"
  by (induction h cs rule: hello_codecs.induct) (simp_all add: list_ex_iff)

lemma hello_flags_Cons: "hello_flags h (field # fs) = Inr up \<longleftrightarrow>
    (\<exists>v up'. map_of h field = Some (JBool v) \<and> hello_flags h fs = Inr up' \<and>
       up = (if field \<noteq> ''direct_graphics'' then (field, JBool v) # up' else up'))"
  by (cases "map_of h field"; cases "the (map_of h field)"; cases "hello_flags h fs") auto

lemma hello_flags_ok: "hello_flags h fs = Inr up \<Longrightarrow>
    keys up = filter (\<lambda>f. f \<noteq> ''direct_graphics'') fs \<and> (\<forall>e \<in> set up. map_of h (fst e) = Some (snd e))"
proof (induction fs arbitrary: up)
  case (Cons field fs)
  from Cons.prems obtain v up' where f: "map_of h field = Some (JBool v)" "hello_flags h fs = Inr up'"
    and up: "up = (if field \<noteq> ''direct_graphics'' then (field, JBool v) # up' else up')"
    unfolding hello_flags_Cons by blast
  from Cons.IH [OF f(2)] f(1) up show ?case by simp
qed simp

lemma hello_geometry_ok:
  assumes "hello_geometry h = Some (cols, rows, w, ht)"
  shows "cols \<noteq> 0 \<and> rows \<noteq> 0 \<and> unat cols \<le> 65535 \<and> unat rows \<le> 65535 \<and>
    unat cols * unat rows \<le> 65536 \<and> unat w \<le> 4294967295 \<and> unat ht \<le> 4294967295"
proof -
  from assms have g: "cols \<noteq> 0" "rows \<noteq> 0" "cols * rows \<le> 65536"
    and c: "helloInteger (member (object (map_of h ''surface_size'')) ''cols'') 65535 = Some cols"
    and r: "helloInteger (member (object (map_of h ''surface_size'')) ''rows'') 65535 = Some rows"
    and w: "helloInteger (map_of h ''cell_width_px'') 4294967295 = Some w"
    and ht: "helloInteger (map_of h ''cell_height_px'') 4294967295 = Some ht"
    by (auto simp: hello_geometry_def Let_def not_less split: option.splits if_splits)
  from helloInteger_bound [OF c] helloInteger_bound [OF r] helloInteger_bound [OF w]
      helloInteger_bound [OF ht]
  have b: "unat cols \<le> 65535" "unat rows \<le> 65535" "unat w \<le> 4294967295" "unat ht \<le> 4294967295"
    by simp_all
  have "unat cols * unat rows \<le> 65535 * 65535" using b by (intro mult_le_mono)
  then have "unat (cols * rows) = unat cols * unat rows"
    by (subst unat_mult_lem [THEN iffD1]) simp_all
  with g b show ?thesis by (simp add: word_le_nat_alt)
qed

text \<open>
  Handshake (\<open>negotiateHello\<close>): a viewer's hello is accepted only with 1 to 65535 columns and
  rows and at most 65536 cells; the resize frame recorded for the sources passes the session's own
  resize check with exactly this geometry; and the offer the gateway makes upstream is its own: it
  starts inactive and without direct graphics, offers exactly the codecs the gateway reads, and
  copies nothing of the viewer's hello but three boolean flags.
\<close>

theorem negotiate_sound:
  assumes "negotiateHello j data = Inr n"
  shows "0 < unat (nCols n) \<and> unat (nCols n) \<le> 65535 \<and> 0 < unat (nRows n) \<and> unat (nRows n) \<le> 65535 \<and>
    unat (nCols n) * unat (nRows n) \<le> 65536 \<and> resize_ok (nResize n) = Some (nCols n, nRows n) \<and>
    (\<exists>up. nHello n = control ''endpoint.hello.v1'' (enc j (JObj up)) \<and>
       map_of up ''surface_active'' = Some (JBool False) \<and> map_of up ''direct_graphics'' = Some (JBool False) \<and>
       (\<forall>c \<in> set requiredCodecs. map_of up (fst c @ ''_codecs'') = Some (strings [snd c])) \<and>
       keys up = [''generation'', ''direct_graphics'', ''surface_active'', ''snapshot_codecs'', ''surface_codecs'',
         ''input_codecs'', ''blob_codecs'', ''pixel_mouse'', ''mouse_capture'', ''endpoint_keybindings'',
         ''cell_width_px'', ''cell_height_px'', ''surface_size''])"
proof -
  obtain h cols rows w ht flags px where g: "hello_geometry h = Some (cols, rows, w, ht)"
    and f: "hello_flags h [''pixel_mouse'', ''mouse_capture'', ''endpoint_keybindings'', ''direct_graphics''] = Inr flags"
    and n: "nCols n = cols" "nRows n = rows" "nResize n = resize_frame w ht cols rows px"
      "nHello n = control ''endpoint.hello.v1'' (enc j (JObj (upstream_hello w ht cols rows flags)))"
    using assms by (auto simp: negotiateHello_def split: option.splits if_splits sum.splits)
  note G = hello_geometry_ok [OF g] and F = hello_flags_ok [OF f, THEN conjunct1]
  have "unat (cols * rows) = unat cols * unat rows"
    using G by (subst unat_mult_lem [THEN iffD1]) simp_all
  then have "resize_ok (nResize n) = Some (cols, rows)"
    unfolding n using G by (intro resize_frame_ok) (simp_all add: word_le_nat_alt)
  moreover have "0 < unat cols" "0 < unat rows" using G by (simp_all add: unat_gt_0)
  ultimately show ?thesis
    using G F by (auto simp: n upstream_hello_def requiredCodecs_def)
qed

text \<open>A codec that only knows one hello, for evaluating the handshake on it.\<close>

definition sample_hello :: "(bytes \<times> json) list" where
  "sample_hello = [(''generation'', JNum 1), (''snapshot_codecs'', strings [''shell.snapshot.v1'']),
     (''surface_codecs'', strings [''shell.surface.v1'', ''shell.surface.v2'']),
     (''input_codecs'', strings [''shell.input.semantic.v1'']), (''blob_codecs'', strings [''shell.blob.v1'']),
     (''surface_size'', JObj [(''cols'', JNum 80), (''rows'', JNum 24)]),
     (''cell_width_px'', JNum 8), (''cell_height_px'', JNum 16), (''pixel_mouse'', JBool True),
     (''mouse_capture'', JBool False), (''endpoint_keybindings'', JBool False), (''direct_graphics'', JBool True)]"

definition sample_codec :: codec where
  "sample_codec = \<lparr>enc = (\<lambda>_. ''{}''), dec = (\<lambda>_. Some (JObj sample_hello))\<rparr>"

lemma negotiate_sample: "\<exists>n. negotiateHello sample_codec ''{}'' = Inr n \<and> nCols n = 80 \<and> nRows n = 24"
  by (simp add: negotiateHello_def sample_codec_def sample_hello_def requiredCodecs_def strings_def
      hello_geometry_def member_def helloInteger_def)

lemma negotiate_sound_witness:
  "\<exists>n. negotiateHello sample_codec ''{}'' = Inr n \<and> resize_ok (nResize n) = Some (80, 24)"
  using negotiate_sample negotiate_sound [of sample_codec "''{}''"] by fastforce

end
