(* ===== verification/Relay.thy ===== *)
theory Relay
  imports Wire
begin

text \<open>
  Laws of the surface rewriting in \<open>wire.go\<close>. \<open>decoder_step\<close> is the contract every decoder
  call keeps (it never moves back, never leaves the frame, never clears an error and only
  appends to \<open>out\<close>); \<open>relay\<close> relates a run that rewrites identifiers to a second run over its
  output. Together they show that rewriting is structural: rewriting a rewritten surface is the
  same as rewriting the original once with the composed identifier map.
\<close>

section \<open>The contract of a decoder call\<close>

locale decoder_step =
  fixes f :: "decoder \<Rightarrow> decoder"
  assumes step_buf: "buf (f d) = buf d"
    and step_pos: "pos d \<le> pos (f d)"
    and step_bound: "pos d \<le> length (buf d) \<Longrightarrow> pos (f d) \<le> length (buf d)"
    and step_err: "derr d \<Longrightarrow> derr (f d)"
    and step_out: "\<exists>w. outb (f d) = outb d @ w"
begin

lemma step_out_length: "length (outb d) \<le> length (outb (f d))"
  using step_out [of d] by auto

lemma step_take: "take (length (outb d)) (outb (f d)) = outb d"
  using step_out [of d] by auto

end

text \<open>The contract at one state, and the contract as a statement about all states.\<close>

definition step_at :: "decoder \<Rightarrow> decoder \<Rightarrow> bool" where
  "step_at d e \<longleftrightarrow> buf e = buf d \<and> pos d \<le> pos e \<and>
     (pos d \<le> length (buf d) \<longrightarrow> pos e \<le> length (buf d)) \<and> (derr d \<longrightarrow> derr e) \<and>
     (\<exists>w. outb e = outb d @ w)"

lemma step_iff: "decoder_step f \<longleftrightarrow> (\<forall>d. step_at d (f d))"
  unfolding decoder_step_def step_at_def by blast

lemma step_at_trans: "step_at d e \<Longrightarrow> step_at e g \<Longrightarrow> step_at d g"
  by (auto simp: step_at_def)

lemma step_fault: "decoder_step fault"
  by unfold_locales (auto simp: fault_def)

lemma step_id: "decoder_step (\<lambda>d. d)"
  by unfold_locales auto

lemma step_skip_raw: "decoder_step (skip_raw n)"
  by unfold_locales (auto simp: skip_raw_def raw_def fault_def Let_def)

lemma step_comp:
  assumes f: "decoder_step f" and g: "decoder_step g"
  shows "decoder_step (\<lambda>d. g (f d))"
  using assms unfolding step_iff by (blast intro: step_at_trans)


lemma step_steps: "\<forall>f \<in> set fs. decoder_step f \<Longrightarrow> decoder_step (steps fs)"
proof (induction fs)
  case Nil
  have "steps [] = (\<lambda>d. d)" by (rule ext) simp
  then show ?case using step_id by simp
next
  case (Cons f fs)
  have "steps (f # fs) = (\<lambda>d. steps fs (f d))" by (rule ext) simp
  then show ?case using Cons step_comp [of f "steps fs"] by simp
qed

lemma step_if: "decoder_step f \<Longrightarrow> decoder_step g \<Longrightarrow> decoder_step (if c then f else g)"
  by simp

text \<open>A tag followed by what the tag selects.\<close>

definition num_then :: "(u64 \<Rightarrow> decoder \<Rightarrow> decoder) \<Rightarrow> decoder \<Rightarrow> decoder" where
  "num_then k d = (case num d of (v, d1) \<Rightarrow> k v d1)"

definition raw_then :: "int \<Rightarrow> (bytes \<Rightarrow> decoder \<Rightarrow> decoder) \<Rightarrow> decoder \<Rightarrow> decoder" where
  "raw_then n k d = (case raw n d of (v, d1) \<Rightarrow> k v d1)"

lemma step_raw_then: "(\<And>v. decoder_step (k v)) \<Longrightarrow> decoder_step (raw_then n k)"
proof -
  assume k: "\<And>v. decoder_step (k v)"
  have "raw_then n k d = k (fst (raw n d)) (skip_raw n d)" for d
    by (simp add: raw_then_def skip_raw_def split: prod.split)
  moreover have "\<exists>v. raw_then n k d = k v (skip_raw n d) \<and> decoder_step (\<lambda>d. k v (skip_raw n d))" for d
    using calculation step_comp [OF step_skip_raw k] by blast
  ultimately show ?thesis
    unfolding step_iff by metis
qed

definition num_rest :: "bytes \<Rightarrow> decoder \<Rightarrow> decoder" where
  "num_rest b = (case b of [] \<Rightarrow> (\<lambda>d. d) | c # _ \<Rightarrow>
     (let t = of_char c :: nat in
      if t = 251 then skip_raw 2 else if t = 252 then skip_raw 4 else if t = 253 then skip_raw 8
      else if t = 254 \<or> t = 255 then fault else (\<lambda>d. d)))"

lemma skip_num_raw_then: "skip_num = raw_then 1 num_rest"
  by (rule ext)
     (simp add: skip_num_def num_def raw_then_def skip_raw_def num_rest_def Let_def
       split: prod.split list.split)

lemma step_num_rest: "decoder_step (num_rest b)"
  by (auto simp: num_rest_def Let_def step_id step_skip_raw step_fault split: list.split)

lemma step_skip_num: "decoder_step skip_num"
  unfolding skip_num_raw_then by (rule step_raw_then) (rule step_num_rest)

lemma step_num_then: "(\<And>v. decoder_step (k v)) \<Longrightarrow> decoder_step (num_then k)"
proof -
  assume k: "\<And>v. decoder_step (k v)"
  have "num_then k d = k (fst (num d)) (skip_num d)" for d
    by (simp add: num_then_def skip_num_def split: prod.split)
  moreover have "\<exists>v. num_then k d = k v (skip_num d) \<and> decoder_step (\<lambda>d. k v (skip_num d))" for d
    using calculation step_comp [OF step_skip_num k] by blast
  ultimately show ?thesis
    unfolding step_iff by metis
qed

lemma skip_text_num_then:
  "skip_text = num_then (\<lambda>n. if n > of_nat MaxFrame then fault else skip_raw (uint n))"
  by (rule ext) (simp add: skip_text_def text_dec_def num_then_def skip_raw_def split: prod.split)

lemma step_skip_text: "decoder_step skip_text"
  unfolding skip_text_num_then by (rule step_num_then) (simp add: step_fault step_skip_raw)

lemma step_enum: "decoder_step (enum_dec m)"
proof -
  have "enum_dec m = num_then (\<lambda>v. if v > m then fault else (\<lambda>d. d))"
    by (rule ext) (simp add: enum_dec_def num_then_def split: prod.split)
  then show ?thesis using step_num_then [of "\<lambda>v. if v > m then fault else (\<lambda>d. d)"]
    by (simp add: step_fault step_id)
qed

lemma option_dec_raw_then:
  "option_dec f = raw_then 1 (\<lambda>v. case v of [] \<Rightarrow> (\<lambda>d. d) | c # _ \<Rightarrow>
     (if of_char c = (1::nat) then f else if of_char c \<noteq> (0::nat) then fault else (\<lambda>d. d)))"
  by (rule ext) (simp add: option_dec_def raw_then_def split: prod.split list.split)

lemma step_option: "decoder_step f \<Longrightarrow> decoder_step (option_dec f)"
  unfolding option_dec_raw_then
  by (rule step_raw_then) (auto simp: step_id step_fault split: list.split)

abbreviation rename_step :: "(bytes \<Rightarrow> bytes) \<Rightarrow> decoder \<Rightarrow> decoder" where
  "rename_step f \<equiv> (\<lambda>d. snd (replace_text f d))"

abbreviation renumber_step :: "u64 \<Rightarrow> decoder \<Rightarrow> decoder" where
  "renumber_step v \<equiv> (\<lambda>d. snd (replace_num v d))"

lemma rename_step_def: "rename_step f d = (skip_text d)
    \<lparr>outb := take (length (outb d)) (outb (skip_text d)) @ str (f (fst (text_dec d)))\<rparr>"
  by (simp add: replace_text_def skip_text_def split: prod.split)

lemma renumber_step_def: "renumber_step v d = (skip_num d)
    \<lparr>outb := take (length (outb d)) (outb (skip_num d)) @ number v\<rparr>"
  by (simp add: replace_num_def skip_num_def split: prod.split)

lemma step_replaced:
  assumes f: "decoder_step f"
  shows "decoder_step (\<lambda>d. (f d)\<lparr>outb := take (length (outb d)) (outb (f d)) @ w d\<rparr>)"
  using decoder_step.step_take [OF f]
  by unfold_locales
     (auto intro: decoder_step.step_buf [OF f] decoder_step.step_pos [OF f]
       decoder_step.step_bound [OF f] decoder_step.step_err [OF f])

lemma step_rename: "decoder_step (rename_step f)"
  unfolding rename_step_def by (rule step_replaced [OF step_skip_text])

lemma step_renumber: "decoder_step (renumber_step v)"
  unfolding renumber_step_def by (rule step_replaced [OF step_skip_num])

text \<open>The counted loop without a closure state.\<close>

fun repeat_ok :: "nat \<Rightarrow> (decoder \<Rightarrow> decoder) \<Rightarrow> decoder \<Rightarrow> decoder" where
  "repeat_ok 0 f d = d"
| "repeat_ok (Suc n) f d = (if derr d then d else repeat_ok n f (f d))"

lemma while_ok_repeat: "while_ok n (\<lambda>x. ((), f (snd x))) ((), d) = ((), repeat_ok n f d)"
  by (induction n arbitrary: d) auto

lemma many_num_then:
  "many f d = (case num d of (n, d1) \<Rightarrow>
     if n > of_nat MaxFrame \<or> n > of_nat (length (buf d1) - pos d1) then fault d1
     else repeat_ok (unat n) f d1)"
  by (simp add: many_def many_st_def while_ok_repeat split: prod.split)

text \<open>A call that behaves on each state like one of two steps is a step.\<close>

lemma step_choice:
  assumes f: "decoder_step f" and g: "decoder_step g" and h: "\<And>d. h d = f d \<or> h d = g d"
  shows "decoder_step h"
  using assms unfolding step_iff by metis

lemma step_guarded: "decoder_step g \<Longrightarrow> decoder_step (\<lambda>d. if derr d then d else g d)"
  by (rule step_choice [OF step_id, of g]) simp_all

lemma step_repeat: "decoder_step f \<Longrightarrow> decoder_step (repeat_ok n f)"
proof (induction n)
  case 0
  have "repeat_ok 0 f = (\<lambda>d. d)" by (rule ext) simp
  then show ?case using step_id by simp
next
  case (Suc n)
  have c: "decoder_step (\<lambda>d. repeat_ok n f (f d))"
    using Suc by (simp add: step_comp [of f "repeat_ok n f"])
  have "repeat_ok (Suc n) f = (\<lambda>d. if derr d then d else repeat_ok n f (f d))"
    by (rule ext) simp
  with step_guarded [OF c] show ?case by simp
qed

lemma step_many: "decoder_step f \<Longrightarrow> decoder_step (many f)"
proof -
  assume f: "decoder_step f"
  define k where "k = (\<lambda>n d. if n > of_nat MaxFrame \<or> n > (of_nat (length (buf d) - pos d) :: u64)
     then fault d else repeat_ok (unat n) f d)"
  have "decoder_step (k n)" for n
    by (rule step_choice [OF step_fault step_repeat [OF f, of "unat n"]]) (simp add: k_def)
  then have "decoder_step (num_then k)" by (rule step_num_then)
  moreover have "num_then k = many f"
    by (rule ext) (simp add: num_then_def k_def many_num_then split: prod.split)
  ultimately show ?thesis by simp
qed

lemma step_nums: "decoder_step (nums n)"
  unfolding nums_def by (rule step_steps) (simp add: step_skip_num)

lemmas step_basic = step_skip_raw step_skip_num step_skip_text step_rename step_renumber
  step_nums step_enum step_fault step_id

text \<open>The contract holds of every component of the codec.\<close>

lemma num_then_fold:
  "surface_size = num_then (\<lambda>t. if t = 0 then skip_num else skip_raw 1)"
  "popup_size = num_then (\<lambda>t. if t = 0 then skip_num else if t = 1 then skip_raw 1 else fault)"
  by (rule ext, simp add: surface_size_def popup_size_def num_then_def split: prod.split)+

lemma asset_dec_fold:
  "asset_dec ident = steps [num_then (\<lambda>t.
      if t = 0 then steps [enum_dec 1, rename_step ident, skip_num]
      else if t = 1 then steps [rename_step ident, skip_text] else fault), nums 5]"
  by (rule ext) (simp add: asset_dec_def num_then_def split: prod.split)

lemma step_size: "decoder_step surface_size" "decoder_step popup_size"
  unfolding num_then_fold by (auto intro!: step_num_then step_basic)

interpretation cell: decoder_step cell
  unfolding cell_def by (rule step_steps) (auto intro: step_basic step_option)

interpretation cursor: decoder_step cursor_dec
  unfolding cursor_dec_def by (rule step_steps) (auto intro: step_basic)

interpretation frame: decoder_step frame_dec
  unfolding frame_dec_def
  by (rule step_steps) (auto intro: step_basic step_many step_option cell.decoder_step_axioms cursor.decoder_step_axioms)

interpretation pane: decoder_step "pane_dec ident" for ident
  unfolding pane_dec_def by (rule step_steps) (auto intro: step_basic step_option)

interpretation split: decoder_step split_dec
  unfolding split_dec_def by (rule step_steps) (auto intro: step_basic step_many)

lemma step_asset_tag:
  "decoder_step (if t = 0 then steps [enum_dec 1, rename_step ident, skip_num]
     else if t = 1 then steps [rename_step ident, skip_text] else fault)"
  by (auto intro!: step_steps step_basic)

interpretation asset: decoder_step "asset_dec ident" for ident
  unfolding asset_dec_fold
  by (rule step_steps) (auto intro: step_basic step_num_then [OF step_asset_tag])

interpretation popup: decoder_step "surface_popup ident" for ident
  unfolding surface_popup_def
  by (rule step_steps) (auto intro: step_basic step_option step_size frame.decoder_step_axioms)

lemmas step_parts = cell.decoder_step_axioms cursor.decoder_step_axioms frame.decoder_step_axioms
  pane.decoder_step_axioms split.decoder_step_axioms asset.decoder_step_axioms
  popup.decoder_step_axioms

interpretation full: decoder_step "surface_full ident" for ident
  unfolding surface_full_def
  by (rule step_steps) (auto intro!: step_basic step_option step_many step_steps step_parts)

interpretation patch: decoder_step "surface_patch ident" for ident
  unfolding surface_patch_def
  by (rule step_steps) (auto intro!: step_basic step_option step_many step_steps step_parts)

section \<open>Rewriting a rewritten frame\<close>

text \<open>
  \<open>relay L m f g h\<close>: on a frame of at most \<open>L\<close> bytes, if \<open>f\<close> succeeds and appends \<open>w\<close>
  (at least \<open>m\<close> bytes) to its output, then \<open>h\<close> moves the same way and appends some \<open>w2\<close>, and \<open>g\<close>, run on any frame
  (of a length a Go slice can have) that continues with \<open>w\<close>, consumes exactly \<open>w\<close> and appends the same \<open>w2\<close>.
\<close>

definition small :: "decoder \<Rightarrow> bool" where
  "small e \<longleftrightarrow> length (buf e) < 2 ^ 63"

lemma small_update [simp]:
  "small (e\<lparr>pos := p, outb := x\<rparr>) = small e" "small (advance e w) = small e"
  by (simp_all add: small_def advance_def)

definition relay :: "nat \<Rightarrow> nat \<Rightarrow> (decoder \<Rightarrow> decoder) \<Rightarrow> (decoder \<Rightarrow> decoder) \<Rightarrow>
    (decoder \<Rightarrow> decoder) \<Rightarrow> bool" where
  "relay L m f g h \<longleftrightarrow>
     (\<forall>d. length (buf d) \<le> L \<longrightarrow> pos d \<le> length (buf d) \<longrightarrow> \<not> derr d \<longrightarrow> \<not> derr (f d) \<longrightarrow>
        (\<exists>p w w2. pos d \<le> p \<and> p \<le> length (buf d) \<and> m \<le> length w \<and>
           f d = d\<lparr>pos := p, outb := outb d @ w\<rparr> \<and> (\<forall>x. h (d\<lparr>outb := x\<rparr>) = d\<lparr>pos := p, outb := x @ w2\<rparr>) \<and>
           (\<forall>e r. \<not> derr e \<longrightarrow> small e \<longrightarrow> reads e (w @ r) \<longrightarrow>
              g e = e\<lparr>pos := pos e + length w, outb := outb e @ w2\<rparr>)))"

lemma relayI:
  assumes "\<And>d. length (buf d) \<le> L \<Longrightarrow> pos d \<le> length (buf d) \<Longrightarrow> \<not> derr d \<Longrightarrow> \<not> derr (f d) \<Longrightarrow>
     \<exists>p w w2. pos d \<le> p \<and> p \<le> length (buf d) \<and> m \<le> length w \<and>
        f d = d\<lparr>pos := p, outb := outb d @ w\<rparr> \<and> (\<forall>x. h (d\<lparr>outb := x\<rparr>) = d\<lparr>pos := p, outb := x @ w2\<rparr>) \<and>
        (\<forall>e r. \<not> derr e \<longrightarrow> small e \<longrightarrow> reads e (w @ r) \<longrightarrow>
           g e = e\<lparr>pos := pos e + length w, outb := outb e @ w2\<rparr>)"
  shows "relay L m f g h"
  using assms unfolding relay_def by blast

lemma relayE:
  assumes "relay L m f g h" and "length (buf d) \<le> L" and "pos d \<le> length (buf d)"
    and "\<not> derr d" and "\<not> derr (f d)"
  obtains p w w2 where "pos d \<le> p" and "p \<le> length (buf d)" and "m \<le> length w"
    and "f d = d\<lparr>pos := p, outb := outb d @ w\<rparr>" and "\<And>x. h (d\<lparr>outb := x\<rparr>) = d\<lparr>pos := p, outb := x @ w2\<rparr>"
    and "\<And>e r. \<not> derr e \<Longrightarrow> small e \<Longrightarrow> reads e (w @ r) \<Longrightarrow>
           g e = e\<lparr>pos := pos e + length w, outb := outb e @ w2\<rparr>"
  using assms unfolding relay_def by blast

lemma relay_weaken:
  assumes "relay L m f g h" and "m' \<le> m"
  shows "relay L m' f g h"
proof (rule relayI)
  fix d
  assume d: "length (buf d) \<le> L" "pos d \<le> length (buf d)" "\<not> derr d" "\<not> derr (f d)"
  obtain p w w2 where A: "pos d \<le> p" "p \<le> length (buf d)" "m \<le> length w"
    "f d = d\<lparr>pos := p, outb := outb d @ w\<rparr>"
    "\<And>x. h (d\<lparr>outb := x\<rparr>) = d\<lparr>pos := p, outb := x @ w2\<rparr>"
    "\<And>e r. \<not> derr e \<Longrightarrow> small e \<Longrightarrow> reads e (w @ r) \<Longrightarrow>
       g e = e\<lparr>pos := pos e + length w, outb := outb e @ w2\<rparr>"
    by (rule relayE [OF assms(1) d]) (rule that, assumption+)
  from A(3) assms(2) have "m' \<le> length w" by simp
  with A show "\<exists>p w w2. pos d \<le> p \<and> p \<le> length (buf d) \<and> m' \<le> length w \<and>
      f d = d\<lparr>pos := p, outb := outb d @ w\<rparr> \<and>
      (\<forall>x. h (d\<lparr>outb := x\<rparr>) = d\<lparr>pos := p, outb := x @ w2\<rparr>) \<and>
      (\<forall>e r. \<not> derr e \<longrightarrow> small e \<longrightarrow> reads e (w @ r) \<longrightarrow>
         g e = e\<lparr>pos := pos e + length w, outb := outb e @ w2\<rparr>)"
    by (intro exI [of _ p] exI [of _ w] exI [of _ w2] conjI allI impI) simp_all
qed

lemma reads_moved:
  "reads e (w @ r) \<Longrightarrow> reads (e\<lparr>pos := pos e + length w, outb := x\<rparr>) r"
  using reads_advance [of e w r] by (simp add: reads_def advance_def)

lemma relay_comp:
  assumes 1: "relay L m1 f1 g1 h1" and 2: "relay L m2 f2 g2 h2" and f2: "decoder_step f2"
  shows "relay L (m1 + m2) (\<lambda>d. f2 (f1 d)) (\<lambda>d. g2 (g1 d)) (\<lambda>d. h2 (h1 d))"
proof (rule relayI)
  fix d
  assume d: "length (buf d) \<le> L" "pos d \<le> length (buf d)" "\<not> derr d" and ok: "\<not> derr (f2 (f1 d))"
  from ok f2 have ok1: "\<not> derr (f1 d)" by (meson decoder_step.step_err)
  obtain p w w2 where A: "pos d \<le> p" "p \<le> length (buf d)" "m1 \<le> length w"
    and F1: "f1 d = d\<lparr>pos := p, outb := outb d @ w\<rparr>"
    and H1: "\<And>x. h1 (d\<lparr>outb := x\<rparr>) = d\<lparr>pos := p, outb := x @ w2\<rparr>"
    and G1: "\<And>e r. \<not> derr e \<Longrightarrow> small e \<Longrightarrow> reads e (w @ r) \<Longrightarrow> g1 e = e\<lparr>pos := pos e + length w, outb := outb e @ w2\<rparr>"
    by (rule relayE [OF 1 d ok1]) (rule that, assumption+)
  let ?d = "d\<lparr>pos := p, outb := outb d @ w\<rparr>"
  have D: "length (buf ?d) \<le> L" "pos ?d \<le> length (buf ?d)" "\<not> derr ?d" "\<not> derr (f2 ?d)"
    using d A F1 ok by simp_all
  obtain q v v2 where B: "pos ?d \<le> q" "q \<le> length (buf ?d)" "m2 \<le> length v"
    and F2: "f2 ?d = ?d\<lparr>pos := q, outb := outb ?d @ v\<rparr>"
    and H2: "\<And>x. h2 (?d\<lparr>outb := x\<rparr>) = ?d\<lparr>pos := q, outb := x @ v2\<rparr>"
    and G2: "\<And>e r. \<not> derr e \<Longrightarrow> small e \<Longrightarrow> reads e (v @ r) \<Longrightarrow> g2 e = e\<lparr>pos := pos e + length v, outb := outb e @ v2\<rparr>"
    by (rule relayE [OF 2 D]) (rule that, assumption+)
  have H: "h2 (h1 (d\<lparr>outb := x\<rparr>)) = d\<lparr>pos := q, outb := x @ w2 @ v2\<rparr>" for x
    using H1 [of x] H2 [of "x @ w2"] by simp
  have G: "g2 (g1 e) = e\<lparr>pos := pos e + length (w @ v), outb := outb e @ w2 @ v2\<rparr>"
    if e: "\<not> derr e" "small e" "reads e ((w @ v) @ r)" for e r
  proof -
    from e have r1: "reads e (w @ v @ r)" by simp
    from G2 [OF _ _ reads_moved [OF r1], of "outb e @ w2"] e G1 [OF e(1,2) r1] show ?thesis
      by (simp add: add.assoc)
  qed
  show "\<exists>p w w2. pos d \<le> p \<and> p \<le> length (buf d) \<and> m1 + m2 \<le> length w \<and>
      f2 (f1 d) = d\<lparr>pos := p, outb := outb d @ w\<rparr> \<and>
      (\<forall>x. h2 (h1 (d\<lparr>outb := x\<rparr>)) = d\<lparr>pos := p, outb := x @ w2\<rparr>) \<and>
      (\<forall>e r. \<not> derr e \<longrightarrow> small e \<longrightarrow> reads e (w @ r) \<longrightarrow>
         g2 (g1 e) = e\<lparr>pos := pos e + length w, outb := outb e @ w2\<rparr>)"
    using A B F1 F2 H G
    by (intro exI [of _ q] exI [of _ "w @ v"] exI [of _ "w2 @ v2"]) auto
qed

lemma relay_id: "relay L 0 (\<lambda>d. d) (\<lambda>d. d) (\<lambda>d. d)"
proof (rule relayI)
  fix d :: decoder
  assume "pos d \<le> length (buf d)"
  then show "\<exists>p w w2. pos d \<le> p \<and> p \<le> length (buf d) \<and> 0 \<le> length w \<and>
      d = d\<lparr>pos := p, outb := outb d @ w\<rparr> \<and> (\<forall>x. d\<lparr>outb := x\<rparr> = d\<lparr>pos := p, outb := x @ w2\<rparr>) \<and>
      (\<forall>e r. \<not> derr e \<longrightarrow> small e \<longrightarrow> reads e (w @ r) \<longrightarrow>
         e = e\<lparr>pos := pos e + length w, outb := outb e @ w2\<rparr>)"
    by (intro exI [of _ "pos d"] exI [of _ "[]"]) simp
qed

lemma relay_fault: "relay L m fault g h"
  by (rule relayI) (simp add: fault_def)

text \<open>A successful raw read can be repeated on any frame that continues with the same bytes.\<close>

lemma raw_ok:
  assumes "\<not> derr (snd (raw n d))" and "pos d \<le> length (buf d)"
  obtains w where "n = int (length w)" and "pos d + length w \<le> length (buf d)"
    and "\<And>x. raw n (d\<lparr>outb := x\<rparr>) = (w, advance (d\<lparr>outb := x\<rparr>) w)"
    and "\<And>e r. reads e (w @ r) \<Longrightarrow> raw n e = (w, advance e w)"
proof -
  from assms have n: "0 \<le> n" "n \<le> int (length (buf d)) - int (pos d)"
    by (auto simp: raw_def fault_def split: if_splits)
  define w where "w = take (nat n) (drop (pos d) (buf d))"
  from n have l2: "length w = nat n" unfolding w_def by simp
  with n have l: "n = int (length w)" by simp
  show ?thesis
  proof (rule that [OF l])
    show "pos d + length w \<le> length (buf d)" using n assms(2) l by linarith
    show "raw n (d\<lparr>outb := x\<rparr>) = (w, advance (d\<lparr>outb := x\<rparr>) w)" for x
      unfolding raw_def advance_def l2 using n by (simp add: w_def Let_def)
    show "reads e (w @ r) \<Longrightarrow> raw n e = (w, advance e w)" for e r
      by (rule raw_readsN [OF _ l])
  qed
qed

lemma relay_skip_raw: "relay L (nat n) (skip_raw n) (skip_raw n) (skip_raw n)"
proof (rule relayI)
  fix d
  assume p: "pos d \<le> length (buf d)" and ok: "\<not> derr (skip_raw n d)"
  from ok have "\<not> derr (snd (raw n d))" by (simp add: skip_raw_def)
  from raw_ok [OF this p] obtain w where w: "n = int (length w)" "pos d + length w \<le> length (buf d)"
    "\<And>x. raw n (d\<lparr>outb := x\<rparr>) = (w, advance (d\<lparr>outb := x\<rparr>) w)"
    "\<And>e r. reads e (w @ r) \<Longrightarrow> raw n e = (w, advance e w)" by blast
  from w(3) [of "outb d"] w(1) w(2,3,4) show
    "\<exists>p w w2. pos d \<le> p \<and> p \<le> length (buf d) \<and> nat n \<le> length w \<and>
      skip_raw n d = d\<lparr>pos := p, outb := outb d @ w\<rparr> \<and>
      (\<forall>x. skip_raw n (d\<lparr>outb := x\<rparr>) = d\<lparr>pos := p, outb := x @ w2\<rparr>) \<and>
      (\<forall>e r. \<not> derr e \<longrightarrow> small e \<longrightarrow> reads e (w @ r) \<longrightarrow>
         skip_raw n e = e\<lparr>pos := pos e + length w, outb := outb e @ w2\<rparr>)"
    by (intro exI [of _ "pos d + length w"] exI [of _ w]) (auto simp: skip_raw_def advance_def)
qed

text \<open>A reader that always repeats: what it returns depends on the bytes it consumes only.\<close>

definition reader :: "(decoder \<Rightarrow> 'a \<times> decoder) \<Rightarrow> bool" where
  "reader rd \<longleftrightarrow> decoder_step (\<lambda>d. snd (rd d)) \<and>
     (\<forall>d. pos d \<le> length (buf d) \<longrightarrow> \<not> derr (snd (rd d)) \<longrightarrow>
       (\<exists>v w. w \<noteq> [] \<and> pos d + length w \<le> length (buf d) \<and>
          (\<forall>x. rd (d\<lparr>outb := x\<rparr>) = (v, advance (d\<lparr>outb := x\<rparr>) w)) \<and>
          (\<forall>e r. reads e (w @ r) \<longrightarrow> rd e = (v, advance e w))))"

definition read_then :: "(decoder \<Rightarrow> 'a \<times> decoder) \<Rightarrow> ('a \<Rightarrow> decoder \<Rightarrow> decoder) \<Rightarrow> decoder \<Rightarrow> decoder" where
  "read_then rd k d = (case rd d of (v, d1) \<Rightarrow> k v d1)"

lemma num_then_read: "num_then = read_then num" and raw_then_read: "raw_then n = read_then (raw n)"
  by (simp_all add: fun_eq_iff num_then_def raw_then_def read_then_def)

lemma reader_raw: "0 < n \<Longrightarrow> reader (raw n)"
proof -
  assume n: "0 < n"
  have "decoder_step (\<lambda>d. snd (raw n d))"
    using step_skip_raw [of n] by (simp add: skip_raw_def[abs_def])
  moreover have "\<exists>v w. w \<noteq> [] \<and> pos d + length w \<le> length (buf d) \<and>
          (\<forall>x. raw n (d\<lparr>outb := x\<rparr>) = (v, advance (d\<lparr>outb := x\<rparr>) w)) \<and>
          (\<forall>e r. reads e (w @ r) \<longrightarrow> raw n e = (v, advance e w))"
    if "pos d \<le> length (buf d)" "\<not> derr (snd (raw n d))" for d
  proof -
    from that obtain w where "n = int (length w)" "pos d + length w \<le> length (buf d)"
      "\<And>x. raw n (d\<lparr>outb := x\<rparr>) = (w, advance (d\<lparr>outb := x\<rparr>) w)"
      "\<And>e r. reads e (w @ r) \<Longrightarrow> raw n e = (w, advance e w)"
      by (rule_tac raw_ok [of n d]) (assumption+, rule that, assumption+)
    with n show ?thesis by (intro exI [of _ w]) auto
  qed
  ultimately show ?thesis by (simp add: reader_def)
qed

lemma num_ok:
  assumes "\<not> derr (skip_num d)" and "pos d \<le> length (buf d)"
  obtains v w where "w \<noteq> []" and "pos d + length w \<le> length (buf d)"
    and "\<And>x. num (d\<lparr>outb := x\<rparr>) = (v, advance (d\<lparr>outb := x\<rparr>) w)"
    and "\<And>e r. reads e (w @ r) \<Longrightarrow> num e = (v, advance e w)"
proof -
  have "\<not> derr (snd (raw 1 d))"
    using assms(1) decoder_step.step_err [OF step_num_rest]
    by (auto simp: skip_num_raw_then raw_then_def split: prod.splits)
  from raw_ok [OF this assms(2)] obtain b where b: "1 = int (length b)" "pos d + length b \<le> length (buf d)"
    "\<And>x. raw 1 (d\<lparr>outb := x\<rparr>) = (b, advance (d\<lparr>outb := x\<rparr>) b)"
    and br: "\<And>e r. reads e (b @ r) \<Longrightarrow> raw 1 e = (b, advance e b)" by blast
  then obtain c where c: "b = [c]" by (cases b) auto
  let ?t = "of_char c :: nat"
  have r1: "raw 1 d = ([c], advance d [c])" using b(3) [of "outb d"] c by simp
  show ?thesis
  proof (cases "?t \<in> {251, 252, 253}")
    case False
    with assms(1) have "?t \<noteq> 254" "?t \<noteq> 255"
      by (auto simp: skip_num_def num_def r1 fault_def)
    moreover have "raw 1 e = ([c], advance e [c])" if "reads e (c # r)" for e r
      using br [of e r] that c by simp
    ultimately show ?thesis
      using False b c by (intro that [of "[c]" "of_nat ?t"]) (auto simp: num_def Let_def)
  next
    case True
    define k :: int where "k = (if ?t = 251 then 2 else if ?t = 252 then 4 else 8)"
    have k: "k \<in> {2, 4, 8}" by (simp add: k_def)
    have num_eq: "num e = (case raw k (advance e [c]) of (y, e2) \<Rightarrow>
        (if length y = nat k then of_nat (get_le y) else 0, e2))"
      if "raw 1 e = ([c], advance e [c])" for e
      using True that by (auto simp: num_def k_def Let_def split: prod.split)
    from assms(1) num_eq [OF r1] have ok2: "\<not> derr (snd (raw k (advance d [c])))"
      by (simp add: skip_num_def split: prod.splits)
    have p2: "pos (advance d [c]) \<le> length (buf (advance d [c]))"
      using b(2) c by (simp add: advance_def)
    from raw_ok [OF ok2 p2] obtain y where y: "k = int (length y)"
      "pos (advance d [c]) + length y \<le> length (buf (advance d [c]))"
      "\<And>x. raw k ((advance d [c])\<lparr>outb := x\<rparr>) = (y, advance ((advance d [c])\<lparr>outb := x\<rparr>) y)"
      and yr: "\<And>e r. reads e (y @ r) \<Longrightarrow> raw k e = (y, advance e y)" by blast
    have adv: "advance (d\<lparr>outb := x\<rparr>) [c] = (advance d [c])\<lparr>outb := x @ [c]\<rparr>" for x
      by (simp add: advance_def)
    show ?thesis
    proof (rule that [of "c # y" "of_nat (get_le y)"])
      show "pos d + length (c # y) \<le> length (buf d)" using y(2) by (simp add: advance_def)
      show "num (d\<lparr>outb := x\<rparr>) = (of_nat (get_le y), advance (d\<lparr>outb := x\<rparr>) (c # y))" for x
      proof -
        have "raw 1 (d\<lparr>outb := x\<rparr>) = ([c], advance (d\<lparr>outb := x\<rparr>) [c])"
          using b(3) [of x] c by simp
        from num_eq [OF this] show ?thesis
          using y(3) [of "x @ [c]"] y(1) by (simp only: adv) (simp add: advance_def)
      qed
      show "num e = (of_nat (get_le y), advance e (c # y))" if "reads e ((c # y) @ r)" for e r
      proof -
        from that have r: "reads e ([c] @ y @ r)" by simp
        from br [of e "y @ r"] r c have e1: "raw 1 e = ([c], advance e [c])" by simp
        from num_eq [OF e1] yr [OF reads_advance [OF r]] y(1) show ?thesis
          by (simp add: advance_def)
      qed
    qed simp
  qed
qed

lemma reader_num: "reader num"
proof -
  have "decoder_step (\<lambda>d. snd (num d))"
    using step_skip_num by (simp add: skip_num_def[abs_def])
  moreover have "\<exists>v w. w \<noteq> [] \<and> pos d + length w \<le> length (buf d) \<and>
          (\<forall>x. num (d\<lparr>outb := x\<rparr>) = (v, advance (d\<lparr>outb := x\<rparr>) w)) \<and>
          (\<forall>e r. reads e (w @ r) \<longrightarrow> num e = (v, advance e w))"
    if "pos d \<le> length (buf d)" "\<not> derr (snd (num d))" for d
  proof -
    from that have "\<not> derr (skip_num d)" by (simp add: skip_num_def)
    from this that(1) show ?thesis
      by (rule num_ok) (intro exI conjI allI impI, assumption+)
  qed
  ultimately show ?thesis by (simp add: reader_def)
qed

lemma relay_read_then:
  assumes rd: "reader rd" and k: "\<And>v. relay L m (k1 v) (k2 v) (k3 v)" and st: "\<And>v. decoder_step (k1 v)"
  shows "relay L (Suc m) (read_then rd k1) (read_then rd k2) (read_then rd k3)"
proof (rule relayI)
  fix d
  assume d: "length (buf d) \<le> L" "pos d \<le> length (buf d)" "\<not> derr d"
    and ok: "\<not> derr (read_then rd k1 d)"
  have "read_then rd k1 d = k1 (fst (rd d)) (snd (rd d))"
    by (simp add: read_then_def split: prod.split)
  with ok have "\<not> derr (snd (rd d))"
    using decoder_step.step_err [OF st [of "fst (rd d)"], of "snd (rd d)"] by auto
  then obtain v w where w: "w \<noteq> []" "pos d + length w \<le> length (buf d)"
    and N: "\<And>x. rd (d\<lparr>outb := x\<rparr>) = (v, advance (d\<lparr>outb := x\<rparr>) w)"
    and R: "\<And>e r. reads e (w @ r) \<Longrightarrow> rd e = (v, advance e w)"
    using rd d(2) unfolding reader_def by metis
  let ?d = "advance d w"
  have N0: "rd d = (v, ?d)" using N [of "outb d"] by simp
  have D: "length (buf ?d) \<le> L" "pos ?d \<le> length (buf ?d)" "\<not> derr ?d" "\<not> derr (k1 v ?d)"
    using d w ok N0 by (simp_all add: advance_def read_then_def)
  obtain p y y2 where B: "pos ?d \<le> p" "p \<le> length (buf ?d)" "m \<le> length y"
    and F: "k1 v ?d = ?d\<lparr>pos := p, outb := outb ?d @ y\<rparr>"
    and H: "\<And>x. k3 v (?d\<lparr>outb := x\<rparr>) = ?d\<lparr>pos := p, outb := x @ y2\<rparr>"
    and G: "\<And>e r. \<not> derr e \<Longrightarrow> small e \<Longrightarrow> reads e (y @ r) \<Longrightarrow>
       k2 v e = e\<lparr>pos := pos e + length y, outb := outb e @ y2\<rparr>"
    by (rule relayE [OF k [of v] D]) (rule that, assumption+)
  have h: "read_then rd k3 (d\<lparr>outb := x\<rparr>) = d\<lparr>pos := p, outb := x @ w @ y2\<rparr>" for x
    using N [of x] H [of "x @ w"] by (simp add: read_then_def advance_def)
  have g: "read_then rd k2 e = e\<lparr>pos := pos e + length (w @ y), outb := outb e @ w @ y2\<rparr>"
    if e: "\<not> derr e" "small e" "reads e ((w @ y) @ r)" for e r
  proof -
    from e(3) have r: "reads e (w @ y @ r)" by simp
    from R [OF r] G [OF _ _ reads_advance [OF r]] e show ?thesis
      by (simp add: read_then_def advance_def)
  qed
  have f: "read_then rd k1 d = d\<lparr>pos := p, outb := outb d @ w @ y\<rparr>"
    using F N0 by (simp add: read_then_def advance_def)
  have B': "pos d \<le> p" "p \<le> length (buf d)" "Suc m \<le> length (w @ y)"
    using B w(1) by (cases w; simp add: advance_def)+
  show "\<exists>p w w2. pos d \<le> p \<and> p \<le> length (buf d) \<and> Suc m \<le> length w \<and>
      read_then rd k1 d = d\<lparr>pos := p, outb := outb d @ w\<rparr> \<and>
      (\<forall>x. read_then rd k3 (d\<lparr>outb := x\<rparr>) = d\<lparr>pos := p, outb := x @ w2\<rparr>) \<and>
      (\<forall>e r. \<not> derr e \<longrightarrow> small e \<longrightarrow> reads e (w @ r) \<longrightarrow>
         read_then rd k2 e = e\<lparr>pos := pos e + length w, outb := outb e @ w2\<rparr>)"
    using B' f h g by blast
qed

lemmas relay_num_then = relay_read_then [OF reader_num, folded num_then_read]
lemmas relay_raw_then = relay_read_then [OF reader_raw, folded raw_then_read]

lemma relay_0: "relay L m f g h \<Longrightarrow> relay L 0 f g h"
  by (erule relay_weaken) simp

lemma relay_1: "relay L (Suc m) f g h \<Longrightarrow> relay L (Suc 0) f g h"
  by (erule relay_weaken) simp

lemma relay_nil: "relay L 0 (steps []) (steps []) (steps [])"
proof -
  have "steps [] = (\<lambda>d. d)" by (rule ext) simp
  then show ?thesis using relay_id by simp
qed

lemma relay_cons:
  assumes "relay L m f g h" and "relay L k (steps fs) (steps gs) (steps hs)" and "decoder_step (steps fs)"
  shows "relay L (m + k) (steps (f # fs)) (steps (g # gs)) (steps (h # hs))"
proof -
  have "steps (f # fs) = (\<lambda>d. steps fs (f d))" for f and fs :: "(decoder \<Rightarrow> decoder) list"
    by (rule ext) simp
  then show ?thesis using relay_comp [OF assms] by simp
qed

lemma relay_head:
  assumes "relay L (Suc 0) f g h" and "relay L 0 (steps fs) (steps gs) (steps hs)" and "decoder_step (steps fs)"
  shows "relay L (Suc 0) (steps (f # fs)) (steps (g # gs)) (steps (h # hs))"
  using relay_cons [OF assms] by simp

lemma relay_tail:
  assumes "relay L 0 f g h" and "relay L 0 (steps fs) (steps gs) (steps hs)" and "decoder_step (steps fs)"
  shows "relay L 0 (steps (f # fs)) (steps (g # gs)) (steps (h # hs))"
  using relay_cons [OF assms] by simp

lemma skip_num_num_then: "skip_num = num_then (\<lambda>v d. d)"
  by (rule ext) (simp add: skip_num_def num_then_def split: prod.split)

lemma relay_skip_num: "relay L (Suc 0) skip_num skip_num skip_num"
  unfolding skip_num_num_then by (rule relay_num_then [OF relay_id step_id])

lemma relay_skip_text: "relay L (Suc 0) skip_text skip_text skip_text"
  unfolding skip_text_num_then
  by (rule relay_num_then) (auto intro: relay_fault relay_0 [OF relay_skip_raw] step_fault step_skip_raw)

lemma relay_enum: "relay L (Suc 0) (enum_dec m) (enum_dec m) (enum_dec m)"
proof -
  have "enum_dec m = num_then (\<lambda>v. if v > m then fault else (\<lambda>d. d))"
    by (rule ext) (simp add: enum_dec_def num_then_def split: prod.split)
  then show ?thesis
    using relay_num_then [of L 0 "\<lambda>v. if v > m then fault else (\<lambda>d. d)"
       "\<lambda>v. if v > m then fault else (\<lambda>d. d)" "\<lambda>v. if v > m then fault else (\<lambda>d. d)"]
    by (simp add: relay_fault relay_id step_fault step_id)
qed

lemma relay_option:
  assumes "relay L 0 f g h" and "decoder_step f"
  shows "relay L (Suc 0) (option_dec f) (option_dec g) (option_dec h)"
  unfolding option_dec_raw_then
  by (rule relay_raw_then)
     (auto intro: assms relay_id relay_fault step_id step_fault split: list.split)

lemma relay_nums: "relay L 0 (nums n) (nums n) (nums n)"
proof (induction n)
  case 0
  then show ?case using relay_nil [of L] by (simp add: nums_def del: steps.simps)
next
  case (Suc n)
  then show ?case
    unfolding nums_def replicate_Suc
    by (rule relay_tail [OF relay_0 [OF relay_skip_num]])
       (rule step_steps, simp add: step_skip_num)
qed

text \<open>Renaming an identifier, and renaming it again.\<close>

lemma text_ok:
  assumes "\<not> derr (skip_text d)" and "pos d \<le> length (buf d)"
  obtains s w where "w \<noteq> []" and "pos d + length w \<le> length (buf d)" and "length s \<le> length (buf d)"
    and "\<And>x. text_dec (d\<lparr>outb := x\<rparr>) = (s, advance (d\<lparr>outb := x\<rparr>) w)"
proof -
  have "\<not> derr (skip_num d)"
    using assms(1) decoder_step.step_err [OF step_fault, of "skip_num d"]
      decoder_step.step_err [OF step_skip_raw, of "skip_num d"]
    by (auto simp: skip_text_def text_dec_def skip_num_def skip_raw_def split: prod.splits if_splits)
  then obtain v w where w: "w \<noteq> []" "pos d + length w \<le> length (buf d)"
    and N: "\<And>x. num (d\<lparr>outb := x\<rparr>) = (v, advance (d\<lparr>outb := x\<rparr>) w)"
    using assms(2) by (rule num_ok) (rule that, assumption+)
  have N0: "num d = (v, advance d w)" using N [of "outb d"] by simp
  with assms(1) have v: "\<not> v > of_nat MaxFrame" and r: "\<not> derr (snd (raw (uint v) (advance d w)))"
    by (auto simp: skip_text_def text_dec_def fault_def split: if_splits)
  have "pos (advance d w) \<le> length (buf (advance d w))" using w by (simp add: advance_def)
  with r obtain s where s: "uint v = int (length s)"
    "pos (advance d w) + length s \<le> length (buf (advance d w))"
    and R: "\<And>x. raw (uint v) ((advance d w)\<lparr>outb := x\<rparr>) = (s, advance ((advance d w)\<lparr>outb := x\<rparr>) s)"
    by (rule raw_ok) (rule that, assumption+)
  have T: "text_dec (d\<lparr>outb := x\<rparr>) = (s, advance (d\<lparr>outb := x\<rparr>) (w @ s))" for x
    using N [of x] R [of "x @ w"] v by (simp add: text_dec_def advance_def)
  show ?thesis
    by (rule that [OF _ _ _ T]) (use w s in \<open>simp_all add: advance_def\<close>)
qed

lemma relay_rename:
  assumes short: "\<And>s. length s \<le> L \<Longrightarrow> length (i1 s) \<le> MaxFrame"
  shows "relay L (Suc 0) (rename_step i1) (rename_step i2) (rename_step (i2 \<circ> i1))"
proof (rule relayI)
  fix d
  assume d: "length (buf d) \<le> L" "pos d \<le> length (buf d)" and ok: "\<not> derr (rename_step i1 d)"
  have "\<not> derr (skip_text d)" using ok by (simp add: rename_step_def)
  then obtain s w where w: "w \<noteq> []" "pos d + length w \<le> length (buf d)" and s: "length s \<le> length (buf d)"
    and T: "\<And>x. text_dec (d\<lparr>outb := x\<rparr>) = (s, advance (d\<lparr>outb := x\<rparr>) w)"
    using d(2) by (rule text_ok) (rule that, assumption+)
  have l: "length (i1 s) \<le> MaxFrame" using short s d(1) by simp
  have F: "rename_step j (d\<lparr>outb := x\<rparr>) = d\<lparr>pos := pos d + length w, outb := x @ str (j s)\<rparr>" for j x
    using T [of x] by (simp add: replace_text_def advance_def)
  have G: "rename_step i2 e = e\<lparr>pos := pos e + length (str (i1 s)), outb := outb e @ str (i2 (i1 s))\<rparr>"
    if "reads e (str (i1 s) @ r)" for e r
    using text_reads [OF that l] by (simp add: replace_text_def advance_def)
  have n: "Suc 0 \<le> length (str (i1 s))"
    using length_number(1) [of "of_nat (length (i1 s))"] by (simp add: str_def)
  show "\<exists>p w w2. pos d \<le> p \<and> p \<le> length (buf d) \<and> Suc 0 \<le> length w \<and>
      rename_step i1 d = d\<lparr>pos := p, outb := outb d @ w\<rparr> \<and>
      (\<forall>x. rename_step (i2 \<circ> i1) (d\<lparr>outb := x\<rparr>) = d\<lparr>pos := p, outb := x @ w2\<rparr>) \<and>
      (\<forall>e r. \<not> derr e \<longrightarrow> small e \<longrightarrow> reads e (w @ r) \<longrightarrow>
         rename_step i2 e = e\<lparr>pos := pos e + length w, outb := outb e @ w2\<rparr>)"
    by (intro exI [of _ "pos d + length w"] exI [of _ "str (i1 s)"] exI [of _ "str (i2 (i1 s))"])
       (use F [of i1 "outb d"] F [of "i2 \<circ> i1"] G n w(2) in auto)
qed

text \<open>Counted loops: the second run finds at least as many bytes as the count demands.\<close>

lemma relay_guard:
  assumes "relay L m f g h" and "decoder_step f"
  shows "relay L m (\<lambda>d. if derr d then d else f d) (\<lambda>d. if derr d then d else g d)
           (\<lambda>d. if derr d then d else h d)"
proof (rule relayI)
  fix d
  assume d: "length (buf d) \<le> L" "pos d \<le> length (buf d)" "\<not> derr d"
    "\<not> derr (if derr d then d else f d)"
  then have ok: "\<not> derr (f d)" by simp
  have "\<exists>p w w2. pos d \<le> p \<and> p \<le> length (buf d) \<and> m \<le> length w \<and>
      f d = d\<lparr>pos := p, outb := outb d @ w\<rparr> \<and>
      (\<forall>x. h (d\<lparr>outb := x\<rparr>) = d\<lparr>pos := p, outb := x @ w2\<rparr>) \<and>
      (\<forall>e r. \<not> derr e \<longrightarrow> small e \<longrightarrow> reads e (w @ r) \<longrightarrow>
         g e = e\<lparr>pos := pos e + length w, outb := outb e @ w2\<rparr>)"
    using assms(1) d(1-3) ok unfolding relay_def by simp
  with d(3) show "\<exists>p w w2. pos d \<le> p \<and> p \<le> length (buf d) \<and> m \<le> length w \<and>
      (if derr d then d else f d) = d\<lparr>pos := p, outb := outb d @ w\<rparr> \<and>
      (\<forall>x. (if derr (d\<lparr>outb := x\<rparr>) then d\<lparr>outb := x\<rparr> else h (d\<lparr>outb := x\<rparr>)) = d\<lparr>pos := p, outb := x @ w2\<rparr>) \<and>
      (\<forall>e r. \<not> derr e \<longrightarrow> small e \<longrightarrow> reads e (w @ r) \<longrightarrow>
         (if derr e then e else g e) = e\<lparr>pos := pos e + length w, outb := outb e @ w2\<rparr>)"
    by simp
qed

lemma relay_repeat:
  assumes f: "relay L (Suc 0) f g h" and st: "decoder_step f"
  shows "relay L n (repeat_ok n f) (repeat_ok n g) (repeat_ok n h)"
proof (induction n)
  case 0
  have "repeat_ok 0 f = (\<lambda>d. d)" for f by (rule ext) simp
  then show ?case using relay_id by simp
next
  case (Suc n)
  have eq: "repeat_ok (Suc n) f = (\<lambda>d. if derr d then d else repeat_ok n f (f d))" for f
    by (rule ext) simp
  have "relay L (Suc 0 + n) (\<lambda>d. repeat_ok n f (f d)) (\<lambda>d. repeat_ok n g (g d)) (\<lambda>d. repeat_ok n h (h d))"
    by (rule relay_comp [OF f Suc step_repeat [OF st]])
  from relay_guard [OF this step_comp [OF st step_repeat [OF st]]] show ?case
    by (simp add: eq)
qed

lemma relay_many:
  assumes f: "relay L (Suc 0) f g h" and st: "decoder_step f"
  shows "relay L (Suc 0) (many f) (many g) (many h)"
proof -
  define k where "k = (\<lambda>(f :: decoder \<Rightarrow> decoder) n d.
     if n > of_nat MaxFrame \<or> n > (of_nat (length (buf d) - pos d) :: u64)
     then fault d else repeat_ok (unat n) f d)"
  have eq: "many f = num_then (k f)" for f
    by (rule ext) (simp add: num_then_def k_def many_num_then split: prod.split)
  have stk: "decoder_step (k f n)" for n
    by (rule step_choice [OF step_fault step_repeat [OF st, of "unat n"]]) (simp add: k_def)
  have "relay L 0 (k f n) (k g n) (k h n)" for n
  proof (rule relayI)
    fix d
    assume d: "length (buf d) \<le> L" "pos d \<le> length (buf d)" "\<not> derr d" and ok: "\<not> derr (k f n d)"
    then have c: "\<not> n > of_nat MaxFrame" "\<not> n > of_nat (length (buf d) - pos d)"
      and ok': "\<not> derr (repeat_ok (unat n) f d)"
      by (auto simp: k_def fault_def split: if_splits)
    obtain p w w2 where A: "pos d \<le> p" "p \<le> length (buf d)" and w: "unat n \<le> length w"
      and F: "repeat_ok (unat n) f d = d\<lparr>pos := p, outb := outb d @ w\<rparr>"
      and H: "\<And>x. repeat_ok (unat n) h (d\<lparr>outb := x\<rparr>) = d\<lparr>pos := p, outb := x @ w2\<rparr>"
      and G: "\<And>e r. \<not> derr e \<Longrightarrow> small e \<Longrightarrow> reads e (w @ r) \<Longrightarrow>
         repeat_ok (unat n) g e = e\<lparr>pos := pos e + length w, outb := outb e @ w2\<rparr>"
      by (rule relayE [OF relay_repeat [OF f st] d ok']) (rule that, assumption+)
    have G': "k g n e = e\<lparr>pos := pos e + length w, outb := outb e @ w2\<rparr>"
      if e: "\<not> derr e" "small e" "reads e (w @ r)" for e r
    proof -
      from e(3) have "length (buf e) - pos e = length (w @ r)"
        by (metis length_drop reads_def)
      moreover from e(2) have "length (buf e) - pos e < 2 ^ 64"
        by (simp add: small_def)
      ultimately have "unat (of_nat (length (buf e) - pos e) :: u64) = length w + length r"
        by (simp add: unat_of_nat del: of_nat_add)
      with w have "\<not> n > of_nat (length (buf e) - pos e)"
        by (simp add: word_less_nat_alt)
      with c(1) G [OF e] show ?thesis by (simp add: k_def)
    qed
    have H': "k h n (d\<lparr>outb := x\<rparr>) = d\<lparr>pos := p, outb := x @ w2\<rparr>" for x
      using c H by (simp add: k_def)
    have F': "k f n d = d\<lparr>pos := p, outb := outb d @ w\<rparr>" using c F by (simp add: k_def)
    show "\<exists>p w w2. pos d \<le> p \<and> p \<le> length (buf d) \<and> 0 \<le> length w \<and>
        k f n d = d\<lparr>pos := p, outb := outb d @ w\<rparr> \<and>
        (\<forall>x. k h n (d\<lparr>outb := x\<rparr>) = d\<lparr>pos := p, outb := x @ w2\<rparr>) \<and>
        (\<forall>e r. \<not> derr e \<longrightarrow> small e \<longrightarrow> reads e (w @ r) \<longrightarrow>
           k g n e = e\<lparr>pos := pos e + length w, outb := outb e @ w2\<rparr>)"
      using A F' H' G' by blast
  qed
  from relay_num_then [OF this stk] show ?thesis by (simp add: eq)
qed

section \<open>The surface codec\<close>

lemmas relay_atom = relay_skip_num relay_skip_text relay_enum relay_option relay_many

lemma relay_cell: "relay L (Suc 0) cell cell cell"
  unfolding cell_def
  by (intro relay_head [OF relay_skip_text] relay_tail [OF relay_nums]
        relay_tail [OF relay_0 [OF relay_skip_raw]] relay_tail [OF relay_0 [OF relay_option]]
        relay_nil relay_0 [OF relay_skip_num] step_skip_num step_steps)
     (auto intro: step_basic step_option)

lemma relay_cursor: "relay L 0 cursor_dec cursor_dec cursor_dec"
  unfolding cursor_dec_def
  by (intro relay_tail [OF relay_nums] relay_tail [OF relay_0 [OF relay_skip_raw]] relay_nil step_steps)
     (auto intro: step_basic)

lemma relay_frame: "relay L (Suc 0) frame_dec frame_dec frame_dec"
  unfolding frame_dec_def
  by (intro relay_head [OF relay_many [OF relay_cell cell.decoder_step_axioms]]
        relay_tail [OF relay_nums] relay_tail [OF relay_0 [OF relay_option [OF relay_cursor cursor.decoder_step_axioms]]]
        relay_tail [OF relay_0 [OF relay_many [OF relay_skip_text step_skip_text]]]
        relay_tail [OF relay_0 [OF relay_skip_text]] relay_nil step_steps)
     (auto intro: step_basic step_option step_many step_parts)

definition bounded_names :: "nat \<Rightarrow> (bytes \<Rightarrow> bytes) \<Rightarrow> bool" where
  "bounded_names L i \<longleftrightarrow> (\<forall>s. length s \<le> L \<longrightarrow> length (i s) \<le> MaxFrame)"

lemma relay_named: "bounded_names L i \<Longrightarrow>
    relay L (Suc 0) (rename_step i) (rename_step j) (rename_step (j \<circ> i))"
  by (rule relay_rename) (simp add: bounded_names_def)

lemma relay_pane:
  assumes "bounded_names L i"
  shows "relay L (Suc 0) (pane_dec i) (pane_dec j) (pane_dec (j \<circ> i))"
  unfolding pane_dec_def
  by (intro relay_head [OF relay_named [OF assms]] relay_tail [OF relay_nums]
        relay_tail [OF relay_0 [OF relay_option [OF relay_nums step_nums]]]
        relay_tail [OF relay_0 [OF relay_skip_raw]] relay_nil step_steps)
     (auto intro: step_basic step_option)

lemma relay_split1: "relay L (Suc 0) split_dec split_dec split_dec"
proof -
  have n: "nums 10 = steps (skip_num # replicate 9 skip_num)"
    by (simp add: nums_def numeral_eq_Suc)
  have "relay L (Suc 0) (nums 10) (nums 10) (nums 10)"
    unfolding n using relay_nums [of L 9]
    by (intro relay_head [OF relay_skip_num] step_steps) (simp_all add: nums_def step_skip_num)
  then show ?thesis
    unfolding split_dec_def
    by (rule relay_head)
       (intro relay_tail [OF relay_0 [OF relay_many]] relay_nil step_steps
          relay_weaken [OF relay_skip_raw],
        auto intro!: step_basic step_many step_steps)
qed

lemma relay_size: "relay L (Suc 0) surface_size surface_size surface_size"
  unfolding num_then_fold
  by (rule relay_num_then)
     (auto intro: relay_0 [OF relay_skip_num] relay_0 [OF relay_skip_raw] step_basic)

lemma relay_popup:
  assumes "bounded_names L i"
  shows "relay L (Suc 0) (surface_popup i) (surface_popup j) (surface_popup (j \<circ> i))"
  unfolding surface_popup_def
  by (intro relay_head [OF relay_named [OF assms]] relay_tail [OF relay_0 [OF relay_skip_text]]
        relay_tail [OF relay_0 [OF relay_option [OF relay_0 [OF relay_size] step_size(1)]]]
        relay_tail [OF relay_0 [OF relay_frame]] relay_tail [OF relay_0 [OF relay_skip_raw]]
        relay_tail [OF relay_nums] relay_nil step_steps)
     (auto intro: step_basic step_option step_size step_parts)

lemma relay_asset:
  assumes "bounded_names L i"
  shows "relay L (Suc 0) (asset_dec i) (asset_dec j) (asset_dec (j \<circ> i))"
proof -
  let ?k = "\<lambda>i t. if t = (0 :: u64) then steps [enum_dec 1, rename_step i, skip_num]
      else if t = 1 then steps [rename_step i, skip_text] else fault"
  have "relay L 0 (steps [enum_dec 1, rename_step i, skip_num]) (steps [enum_dec 1, rename_step j, skip_num])
      (steps [enum_dec 1, rename_step (j \<circ> i), skip_num])"
    by (intro relay_tail [OF relay_0 [OF relay_enum]] relay_tail [OF relay_0 [OF relay_named [OF assms]]]
          relay_tail [OF relay_0 [OF relay_skip_num]] relay_nil step_steps)
       (auto intro: step_basic)
  moreover have "relay L 0 (steps [rename_step i, skip_text]) (steps [rename_step j, skip_text])
      (steps [rename_step (j \<circ> i), skip_text])"
    by (intro relay_tail [OF relay_0 [OF relay_named [OF assms]]]
          relay_tail [OF relay_0 [OF relay_skip_text]] relay_nil step_steps)
       (auto intro: step_basic)
  ultimately have "relay L 0 (?k i t) (?k j t) (?k (j \<circ> i) t)" for t
    by (simp add: relay_fault del: steps.simps)
  from relay_num_then [OF this step_asset_tag] show ?thesis
    unfolding asset_dec_fold
    by (intro relay_head relay_tail [OF relay_nums] relay_nil step_steps) (auto intro: step_basic)
qed

lemma relay_full:
  assumes "bounded_names L i"
  shows "relay L 0 (surface_full i) (surface_full j) (surface_full (j \<circ> i))"
  unfolding surface_full_def
  by (intro relay_tail [OF relay_0 [OF relay_skip_num]] relay_tail [OF relay_0 [OF relay_frame]]
        relay_tail [OF relay_0 [OF relay_many [OF relay_pane [OF assms] pane.decoder_step_axioms]]]
        relay_tail [OF relay_0 [OF relay_many [OF relay_split1 split.decoder_step_axioms]]]
        relay_tail [OF relay_0 [OF relay_option [OF relay_0 [OF relay_popup [OF assms]] popup.decoder_step_axioms]]]
        relay_tail [OF relay_0 [OF relay_many [OF relay_asset [OF assms] asset.decoder_step_axioms]]]
        relay_tail [OF relay_0 [OF relay_many]]
        relay_head [OF relay_asset [OF assms]] relay_0 [OF relay_skip_text] relay_nums
        relay_tail [OF relay_0 [OF relay_skip_text]] relay_tail [OF relay_nums]
        relay_nil step_steps)
     (auto intro!: step_basic step_option step_many step_steps step_parts)

lemma relay_patch:
  assumes "bounded_names L i"
  shows "relay L 0 (surface_patch i) (surface_patch j) (surface_patch (j \<circ> i))"
proof -
  have n: "nums 2 = steps [skip_num, skip_num]"
    by (simp add: nums_def numeral_eq_Suc)
  have "relay L (Suc 0) (nums 2) (nums 2) (nums 2)"
    unfolding n by (intro relay_head [OF relay_skip_num] relay_tail [OF relay_0 [OF relay_skip_num]] relay_nil step_steps)
      (auto intro: step_basic)
  then have "relay L (Suc 0) (steps [nums 2, many cell]) (steps [nums 2, many cell]) (steps [nums 2, many cell])"
    by (rule relay_head)
       (intro relay_tail [OF relay_0 [OF relay_many [OF relay_cell cell.decoder_step_axioms]]] relay_nil step_steps,
        auto intro!: step_many step_steps step_parts)
  note rows = relay_many [OF this]
  show ?thesis
    unfolding surface_patch_def
    by (intro relay_tail [OF relay_nums] relay_tail [OF relay_0 [OF rows]]
          relay_tail [OF relay_0 [OF relay_many [OF relay_pane [OF assms] pane.decoder_step_axioms]]]
          relay_tail [OF relay_0 [OF relay_option [OF relay_cursor cursor.decoder_step_axioms]]]
          relay_nil step_steps)
       (auto intro!: step_basic step_option step_many step_steps step_parts)
qed

lemma relay_renumber: "relay L (Suc 0) (renumber_step v1) (renumber_step v2) (renumber_step v2)"
proof (rule relayI)
  fix d
  assume d: "pos d \<le> length (buf d)" and ok: "\<not> derr (renumber_step v1 d)"
  have "\<not> derr (skip_num d)" using ok by (simp add: renumber_step_def)
  then obtain v w where w: "w \<noteq> []" "pos d + length w \<le> length (buf d)"
    and N: "\<And>x. num (d\<lparr>outb := x\<rparr>) = (v, advance (d\<lparr>outb := x\<rparr>) w)"
    using d by (rule num_ok) (rule that, assumption+)
  have F: "renumber_step u (d\<lparr>outb := x\<rparr>) = d\<lparr>pos := pos d + length w, outb := x @ number u\<rparr>" for u x
    using N [of x] by (simp add: replace_num_def advance_def)
  have G: "renumber_step v2 e = e\<lparr>pos := pos e + length (number v1), outb := outb e @ number v2\<rparr>"
    if "reads e (number v1 @ r)" for e r
    using num_reads [OF that] by (simp add: replace_num_def advance_def)
  show "\<exists>p w w2. pos d \<le> p \<and> p \<le> length (buf d) \<and> Suc 0 \<le> length w \<and>
      renumber_step v1 d = d\<lparr>pos := p, outb := outb d @ w\<rparr> \<and>
      (\<forall>x. renumber_step v2 (d\<lparr>outb := x\<rparr>) = d\<lparr>pos := p, outb := x @ w2\<rparr>) \<and>
      (\<forall>e r. \<not> derr e \<longrightarrow> small e \<longrightarrow> reads e (w @ r) \<longrightarrow>
         renumber_step v2 e = e\<lparr>pos := pos e + length w, outb := outb e @ w2\<rparr>)"
    by (intro exI [of _ "pos d + length w"] exI [of _ "number v1"] exI [of _ "number v2"])
       (use F [of v1 "outb d"] F [of v2] G length_number(1) [of v1] w(2) in auto)
qed

definition surface_run :: "bytes \<Rightarrow> u64 \<Rightarrow> (bytes \<Rightarrow> bytes) \<Rightarrow> decoder \<Rightarrow> decoder" where
  "surface_run boot revision i = num_then (\<lambda>tag.
     if tag = 13 then steps [rename_step (\<lambda>_. boot), renumber_step revision, surface_full i]
     else if tag = 19 then steps [rename_step (\<lambda>_. boot), renumber_step revision, surface_patch i]
     else fault)"

lemma surface_run:
  "surface b boot revision i =
     (let d = surface_run boot revision i (decoder_of b) in
      if derr d \<or> pos d \<noteq> length b then None else Some (outb d))"
  by (simp add: surface_def surface_run_def num_then_def fault_def Let_def split: prod.split)

lemma relay_surface:
  assumes "bounded_names L i" and "length boot \<le> MaxFrame"
  shows "relay L (Suc 0) (surface_run boot r1 i) (surface_run boot2 r2 j) (surface_run boot2 r2 (j \<circ> i))"
proof -
  have "bounded_names L (\<lambda>_. boot)" using assms(2) by (simp add: bounded_names_def)
  from relay_named [OF this, of "\<lambda>_. boot2"]
  have b: "relay L (Suc 0) (rename_step (\<lambda>_. boot)) (rename_step (\<lambda>_. boot2)) (rename_step (\<lambda>_. boot2))"
    by (simp add: comp_def)
  have f: "relay L 0 (steps [rename_step (\<lambda>_. boot), renumber_step r1, surface_full i])
      (steps [rename_step (\<lambda>_. boot2), renumber_step r2, surface_full j])
      (steps [rename_step (\<lambda>_. boot2), renumber_step r2, surface_full (j \<circ> i)])"
    by (intro relay_tail [OF relay_0 [OF b]] relay_tail [OF relay_0 [OF relay_renumber]]
          relay_tail [OF relay_full [OF assms(1)]] relay_nil step_steps)
       (auto intro: step_basic full.decoder_step_axioms)
  have p: "relay L 0 (steps [rename_step (\<lambda>_. boot), renumber_step r1, surface_patch i])
      (steps [rename_step (\<lambda>_. boot2), renumber_step r2, surface_patch j])
      (steps [rename_step (\<lambda>_. boot2), renumber_step r2, surface_patch (j \<circ> i)])"
    by (intro relay_tail [OF relay_0 [OF b]] relay_tail [OF relay_0 [OF relay_renumber]]
          relay_tail [OF relay_patch [OF assms(1)]] relay_nil step_steps)
       (auto intro: step_basic patch.decoder_step_axioms)
  have st: "decoder_step (steps [rename_step (\<lambda>_. boot), renumber_step r1, surface_full i])"
    "decoder_step (steps [rename_step (\<lambda>_. boot), renumber_step r1, surface_patch i])"
    by (rule step_steps, auto intro: step_basic full.decoder_step_axioms patch.decoder_step_axioms)+
  show ?thesis
    unfolding surface_run_def
    by (rule relay_num_then) (use f p st in \<open>auto simp del: steps.simps intro: relay_fault step_fault\<close>)
qed

section \<open>Running the decoder on a concrete frame\<close>

text \<open>The decoder steps on an explicit decoder state, so that \<open>simp\<close> evaluates a frame from left
  to right (and never under a continuation that has not been reached).\<close>

abbreviation dec_at :: "bytes \<Rightarrow> nat \<Rightarrow> bytes \<Rightarrow> bool \<Rightarrow> decoder" where
  "dec_at b p w e \<equiv> \<lparr>buf = b, pos = p, outb = w, derr = e\<rparr>"

lemma replicate_num [decoder_run]: "replicate (numeral k) x = x # replicate (pred_numeral k) x"
  by (simp add: numeral_eq_Suc)

lemma raw_run [decoder_run]: "raw n (dec_at b p w e) =
   (if n < 0 \<or> n > int (length b) - int p then ([], dec_at b p w True)
    else (take (nat n) (drop p b), dec_at b (p + nat n) (w @ take (nat n) (drop p b)) e))"
  by (simp add: raw_def fault_def Let_def)

lemma num_run [decoder_run]: "num (dec_at b p w e) = 
   (if p < length b then
     (let t = of_char (b ! p) :: nat; d1 = dec_at b (Suc p) (w @ [b ! p]) e in
       if t < 251 then (of_nat t, d1)
       else if t = 251 then (case raw 2 d1 of (b2, d2) \<Rightarrow> (if length b2 = 2 then of_nat (get_le b2) else 0, d2))
       else if t = 252 then (case raw 4 d1 of (b2, d2) \<Rightarrow> (if length b2 = 4 then of_nat (get_le b2) else 0, d2))
       else if t = 253 then (case raw 8 d1 of (b2, d2) \<Rightarrow> (if length b2 = 8 then of_nat (get_le b2) else 0, d2))
       else (0, dec_at b (Suc p) (w @ [b ! p]) True))
    else (0, dec_at b p w True))"
proof (cases "p < length b")
  case True
  then have d: "drop p b = b ! p # drop (Suc p) b" by (simp add: Cons_nth_drop_Suc)
  have "of_char (b ! p) < (256::nat)" by simp
  then have "of_char (b ! p) < (251::nat) \<or> of_char (b ! p) = (251::nat) \<or> of_char (b ! p) = (252::nat) \<or> of_char (b ! p) = (253::nat) \<or> of_char (b ! p) = (254::nat) \<or> of_char (b ! p) = (255::nat)"
    by linarith
  with True d show ?thesis
    by (auto simp: num_def raw_run Let_def fault_def split: prod.split)
qed (simp add: num_def raw_run)

lemma skip_raw_run [decoder_run]: "skip_raw n (dec_at b p w e) = snd (raw n (dec_at b p w e))" by (simp add: skip_raw_def)
lemma skip_num_run [decoder_run]: "skip_num (dec_at b p w e) = snd (num (dec_at b p w e))" by (simp add: skip_num_def)
lemma skip_text_run [decoder_run]: "skip_text (dec_at b p w e) = snd (text_dec (dec_at b p w e))" by (simp add: skip_text_def)
lemma text_run [decoder_run]: "text_dec (dec_at b p w e) =
  (case num (dec_at b p w e) of (n, d1) \<Rightarrow>
        if n > of_nat MaxFrame then ([], fault d1) else raw (uint n) d1)"
  by (simp add: text_dec_def)
lemma rename_run [decoder_run]: "replace_text f (dec_at b p w e) = (case text_dec (dec_at b p w e) of (s, d1) \<Rightarrow>
        (s, d1\<lparr>outb := w @ str (f s)\<rparr>))"
  using decoder_step.step_take [OF step_skip_text, of "dec_at b p w e"]
  by (auto simp: replace_text_def skip_text_def split: prod.split)
lemma renumber_run [decoder_run]: "replace_num v (dec_at b p w e) = (case num (dec_at b p w e) of (s, d1) \<Rightarrow>
        (s, d1\<lparr>outb := w @ number v\<rparr>))"
  using decoder_step.step_take [OF step_skip_num, of "dec_at b p w e"]
  by (auto simp: replace_num_def skip_num_def split: prod.split)
lemma option_run [decoder_run]: "option_dec f (dec_at b p w e) = 
   (case raw 1 (dec_at b p w e) of (v, d1) \<Rightarrow>
        (case v of
           [] \<Rightarrow> d1
         | c # _ \<Rightarrow>
            if of_char c = (1::nat) then f d1
            else if of_char c \<noteq> (0::nat) then fault d1 else d1))"
  by (simp add: option_dec_def)
lemma many_st_run [decoder_run]: "many_st f (x, dec_at b p w e) = 
     (case num (dec_at b p w e) of (n, d1) \<Rightarrow>
        if n > of_nat MaxFrame \<or> n > of_nat (length (buf d1) - pos d1) then (x, fault d1)
        else while_ok (unat n) f (x, d1))"
  by (simp add: many_st_def split: prod.split)
lemma fault_run [decoder_run]: "fault (dec_at b p w e) = dec_at b p w True" by (simp add: fault_def)
lemma steps_run [decoder_run]: "steps [] (dec_at b p w e) = dec_at b p w e"
  "steps (f # fs) (dec_at b p w e) = steps fs (f (dec_at b p w e))" by simp_all
lemma cell_run [decoder_run]: "cell (dec_at b p w e) = steps [skip_text, nums 3, skip_raw 1, option_dec skip_num] (dec_at b p w e)"
  by (simp add: cell_def)
lemma nums_run [decoder_run]: "nums n (dec_at b p w e) = steps (replicate n skip_num) (dec_at b p w e)"
  by (simp add: nums_def)
lemma while_ok_run [decoder_run]: "while_ok n f (x, dec_at b p w e) = (if n = 0 \<or> e then (x, dec_at b p w e) else while_ok (n - 1) f (f (x, dec_at b p w e)))"
  by (cases n) auto
lemma many_run [decoder_run]: "many f (dec_at b p w e) = snd (many_st (\<lambda>x. (fst x, f (snd x))) ((), dec_at b p w e))"
  by (simp add: many_def)

declare number_def [decoder_run] str_def [decoder_run] MaxFrame_def [decoder_run]
  decoder_of_def [decoder_run] Let_def [decoder_run]

text \<open>
  C29. Identifier rewriting is structural (\<open>surface\<close>): a frame rewritten with identifier map \<open>i\<close>
  under boot \<open>boot\<close> is again a well-formed surface frame, and rewriting it once more with \<open>j\<close>
  gives exactly what rewriting the original with \<open>j \<circ> i\<close> gives. So no terminal text, image or
  hyperlink byte is disturbed by a rewrite, and the gateway's per-share prefixing can be stacked
  on, or undone by, any other renaming. The bounds say that renamed identifiers and the boot
  identity fit into a frame, and that the output is a Go slice.
\<close>

theorem surface_compose:
  assumes "surface b boot r1 i = Some p" and "length p < 2 ^ 63"
    and "bounded_names (length b) i" and "length boot \<le> MaxFrame"
  shows "surface p boot2 r2 j = surface b boot2 r2 (j \<circ> i) \<and> surface p boot2 r2 j \<noteq> None"
proof -
  let ?d = "decoder_of b"
  have d: "length (buf ?d) \<le> length b" "pos ?d \<le> length (buf ?d)" "\<not> derr ?d"
    by (simp_all add: decoder_of_def)
  from assms(1) have ok: "\<not> derr (surface_run boot r1 i ?d)"
    and e: "pos (surface_run boot r1 i ?d) = length b" "outb (surface_run boot r1 i ?d) = p"
    by (auto simp: surface_run Let_def split: if_splits)
  obtain q w w2 where F: "surface_run boot r1 i ?d = ?d\<lparr>pos := q, outb := outb ?d @ w\<rparr>"
    and H: "\<And>x. surface_run boot2 r2 (j \<circ> i) (?d\<lparr>outb := x\<rparr>) = ?d\<lparr>pos := q, outb := x @ w2\<rparr>"
    and G: "\<And>e r. \<not> derr e \<Longrightarrow> small e \<Longrightarrow> reads e (w @ r) \<Longrightarrow>
       surface_run boot2 r2 j e = e\<lparr>pos := pos e + length w, outb := outb e @ w2\<rparr>"
    by (rule relayE [OF relay_surface [OF assms(3,4)] d ok]) (rule that, assumption+)
  from F e have w: "w = p" "q = length b" by (simp_all add: decoder_of_def)
  have "surface_run boot2 r2 j (decoder_of p) = (decoder_of p)\<lparr>pos := length p, outb := w2\<rparr>"
    using G [of "decoder_of p" "[]"] w assms(2) by (simp add: decoder_of_def small_def reads_def)
  moreover have "surface_run boot2 r2 (j \<circ> i) ?d = ?d\<lparr>pos := length b, outb := w2\<rparr>"
    using H [of "[]"] w by (simp add: decoder_of_def)
  ultimately show ?thesis
    by (simp add: surface_run Let_def decoder_of_def)
qed

definition sample_patch :: bytes where
  "sample_patch = map char_of [19::nat, 1,97, 5, 3,4, 0, 1, 1,98, 1,2,3,4,5,6,7,8,9,0,0,1,1,1,1,8,9, 0]"

lemma surface_compose_witness:
  "\<exists>p. surface sample_patch ''b'' 7 (\<lambda>s. ''q/'' @ s) = Some p \<and>
     surface p ''c'' 9 (drop 2) = surface sample_patch ''c'' 9 (\<lambda>s. s)"
proof -
  have "\<exists>p. surface sample_patch ''b'' 7 (\<lambda>s. ''q/'' @ s) = Some p \<and> length p < 2 ^ 63"
    by (simp add: surface_def surface_patch_def pane_dec_def sample_patch_def decoder_run)
  then obtain p where p: "surface sample_patch ''b'' 7 (\<lambda>s. ''q/'' @ s) = Some p" "length p < 2 ^ 63"
    by blast
  have "bounded_names (length sample_patch) (\<lambda>s. ''q/'' @ s)"
    by (simp add: bounded_names_def sample_patch_def MaxFrame_def)
  moreover have "length ''b'' \<le> MaxFrame" by (simp add: MaxFrame_def)
  moreover have "drop 2 \<circ> (\<lambda>s. ''q/'' @ s) = (\<lambda>s. s)" by (rule ext) simp
  ultimately show ?thesis
    using surface_compose [OF p, of "''c''" 9 "drop 2"] p(1) by auto
qed

end
