(* ===== verification/Surface.thy ===== *)
theory Surface
  imports Relay
begin

text \<open>
  \<open>completeSurface\<close> of \<open>hive/internal/gateway/wire.go\<close>: the full scene the gateway retains
  per source. A full frame replaces it, a patch edits rows and panes in place, and graphics
  assets referenced by earlier frames are carried over. As in the code an update that fails
  may leave the record half changed; the caller then drops the source.
\<close>

record csurface =
  assets :: "(bytes, bytes) gomap"
  header :: "bytes option"
  cells :: "bytes list"
  width :: u64
  height :: u64
  cursor :: bytes
  tail :: bytes
  revision :: u64

definition empty_surface :: csurface where
  "empty_surface = \<lparr>assets = [], header = None, cells = [], width = 0, height = 0,
     cursor = [], tail = [], revision = 0\<rparr>"

text \<open>\<open>cut\<close>: the bytes a decoder call consumes.\<close>

definition cut :: "decoder \<Rightarrow> (decoder \<Rightarrow> decoder) \<Rightarrow> bytes \<times> decoder" where
  "cut d f = (let d' = f d in (take (pos d' - pos d) (drop (pos d) (buf d)), d'))"

section \<open>Graphics assets\<close>

definition collect_asset :: "(bytes, bytes) gomap \<times> decoder \<Rightarrow> (bytes, bytes) gomap \<times> decoder" where
  "collect_asset x =
     (case cut (snd x) (asset_dec (\<lambda>s. s)) of (key, d1) \<Rightarrow>
      case cut d1 skip_text of (data, d2) \<Rightarrow> (put key data (fst x), d2))"

definition add_key :: "bytes list \<times> decoder \<Rightarrow> bytes list \<times> decoder" where
  "add_key x =
     (case cut (snd x) (asset_dec (\<lambda>s. s)) of (key, d1) \<Rightarrow>
        (if key \<in> set (fst x) then fst x else fst x @ [key], d1))"

text \<open>The loop over the referenced keys: the retained set, and the bytes it adds to \<open>out\<close>.\<close>

fun keep_assets :: "bytes list \<Rightarrow> (bytes, bytes) gomap \<Rightarrow> (bytes, bytes) gomap \<Rightarrow>
    (bytes, bytes) gomap \<Rightarrow> bytes \<Rightarrow> ((bytes, bytes) gomap \<times> bytes) option" where
  "keep_assets [] incoming old keep out = Some (keep, out)"
| "keep_assets (key # ks) incoming old keep out =
     (case (case map_of incoming key of Some v \<Rightarrow> Some v | None \<Rightarrow> map_of old key) of
        None \<Rightarrow> None
      | Some v \<Rightarrow>
          (let out' = out @ key @ v in
           if length out' > MaxFrame then None
           else keep_assets ks incoming old (put key v keep) out'))"

definition retain_graphics :: "csurface \<Rightarrow> csurface \<times> bool" where
  "retain_graphics s =
     (let d1 = steps [many skip_text, skip_text, many (pane_dec (\<lambda>s. s)), many split_dec,
                 option_dec (popup_dec (\<lambda>s. s))] (decoder_of (tail s));
          start = pos d1
      in case many_st collect_asset ([], d1) of (incoming, d2) \<Rightarrow>
         (let rest = pos d2 in
          case many_st (\<lambda>x. case add_key x of (ks, d) \<Rightarrow> (ks, nums 13 d)) ([], d2) of (ks3, d3) \<Rightarrow>
          case many_st add_key (ks3, d3) of (ks, d4) \<Rightarrow>
            if derr d4 \<or> pos d4 \<noteq> length (tail s) then (s, False)
            else case keep_assets ks incoming (assets s) []
                        (take start (tail s) @ number (of_nat (length ks))) of
                   None \<Rightarrow> (s, False)
                 | Some (keep, out) \<Rightarrow>
                     (s\<lparr>assets := keep, tail := out @ drop rest (tail s)\<rparr>, True)))"

section \<open>Updates\<close>

definition retained :: "csurface \<Rightarrow> nat" where
  "retained s = length (case header s of None \<Rightarrow> [] | Some h \<Rightarrow> h) + length (cursor s) +
     length (tail s) + sum_list (map length (cells s))"

text \<open>The checks every update ends with.\<close>

definition finish_update :: "decoder \<Rightarrow> csurface \<Rightarrow> csurface \<times> bool" where
  "finish_update d s =
     (if derr d then (s, False)
      else if retained s > MaxFrame then (s, False)
      else if width s * height s \<noteq> of_nat (length (cells s)) then (s, False)
      else (s, True))"

definition take_cell :: "bytes list \<times> decoder \<Rightarrow> bytes list \<times> decoder" where
  "take_cell x = (case cut (snd x) cell of (c, d1) \<Rightarrow> (fst x @ [c], d1))"

definition update_full :: "bytes \<Rightarrow> decoder \<Rightarrow> csurface \<Rightarrow> csurface \<times> bool" where
  "update_full b d3 s =
     (case num d3 of (rv, d4) \<Rightarrow>
        (let s1 = s\<lparr>revision := rv, header := Some (take (pos d4) b), cells := []\<rparr> in
         if fst (num (decoder_of (drop (pos d4) b))) > 65536 then (s1, False)
         else case many_st take_cell ([], d4) of (cs, d5) \<Rightarrow>
              case num d5 of (w, d6) \<Rightarrow>
              case num d6 of (h, d7) \<Rightarrow>
              case cut d7 (option_dec cursor_dec) of (cur, d8) \<Rightarrow>
                (case retain_graphics (s1\<lparr>cells := cs, width := w, height := h, cursor := cur,
                                         tail := drop (pos d8) b\<rparr>) of
                   (s2, ok) \<Rightarrow> if ok then finish_update d8 s2 else (s2, False))))"

text \<open>
  One row span of a patch. The bounds test is the code's: \<open>x + n\<close> is a \<open>uint64\<close> sum and wraps.
\<close>

fun put_cells :: "nat \<Rightarrow> u64 \<Rightarrow> bytes list \<times> decoder \<Rightarrow> bytes list \<times> decoder" where
  "put_cells 0 idx x = x"
| "put_cells (Suc n) idx (cs, d) =
     (if derr d then (cs, d)
      else if idx \<ge> of_nat (length cs) then (cs, fault d)
      else case cut d cell of (c, d1) \<Rightarrow> put_cells n (idx + 1) (cs[unat idx := c], d1))"

definition put_span :: "u64 \<Rightarrow> u64 \<Rightarrow> bytes list \<times> decoder \<Rightarrow> bytes list \<times> decoder" where
  "put_span w h x =
     (case num (snd x) of (col, d1) \<Rightarrow>
      case num d1 of (row, d2) \<Rightarrow>
      case num d2 of (n, d3) \<Rightarrow>
        if row \<ge> h \<or> col + n > w then (fst x, fault d3)
        else put_cells (unat n) (row * w + col) (fst x, d3))"

definition pane_update :: "bytes \<Rightarrow> (bytes, bytes) gomap \<times> decoder \<Rightarrow> (bytes, bytes) gomap \<times> decoder" where
  "pane_update b x =
     (let start = pos (snd x) in
      case text_dec (snd x) of (ident, d1) \<Rightarrow>
        (let d2 = pane_dec (\<lambda>s. s) (d1\<lparr>pos := start\<rparr>)
         in (put ident (take (pos d2 - start) (drop start b)) (fst x), d2)))"

text \<open>Replacing the panes of the retained tail by the patch's panes of the same identifier.\<close>

fun merge_panes :: "nat \<Rightarrow> bytes \<Rightarrow> (bytes, bytes) gomap \<Rightarrow> bytes \<Rightarrow> decoder \<Rightarrow> bytes \<times> decoder" where
  "merge_panes 0 old upd out t = (out, t)"
| "merge_panes (Suc n) old upd out t =
     (if derr t then (out, t)
      else (let start = pos t in
        case text_dec t of (ident, t1) \<Rightarrow>
          (let t2 = pane_dec (\<lambda>s. s) (t1\<lparr>pos := start\<rparr>);
               v = (case map_of upd ident of Some p \<Rightarrow> p
                    | None \<Rightarrow> take (pos t2 - start) (drop start old))
           in merge_panes n old upd (out @ v) t2)))"

definition update_patch :: "bytes \<Rightarrow> bytes \<Rightarrow> u64 \<Rightarrow> decoder \<Rightarrow> csurface \<Rightarrow> csurface \<times> bool" where
  "update_patch b boot projection d3 s =
     (case num d3 of (base, d4) \<Rightarrow>
      case num d4 of (rv, d5) \<Rightarrow>
      case num (decoder_of (case header s of None \<Rightarrow> [] | Some h \<Rightarrow> h)) of (_, h1) \<Rightarrow>
      case text_dec h1 of (old_boot, h2) \<Rightarrow>
      case num h2 of (old_projection, h3) \<Rightarrow>
        if header s = None \<or> derr h3 \<or> boot \<noteq> old_boot \<or> projection \<noteq> old_projection \<or>
           base \<noteq> revision s \<or> base = - 1 \<or> rv \<noteq> base + 1
        then (s, False)
        else
          (case many_st (put_span (width s) (height s)) (cells s, d5) of (cs, d6) \<Rightarrow>
           case many_st (pane_update b) ([], d6) of (upd, d7) \<Rightarrow>
           case cut d7 (option_dec cursor_dec) of (cur, d8) \<Rightarrow>
             (let s1 = s\<lparr>cells := cs, cursor := cur\<rparr>;
                  t0 = steps [many skip_text, skip_text] (decoder_of (tail s));
                  start = pos t0
              in case num t0 of (n, t1) \<Rightarrow>
                 case merge_panes (unat n) (tail s) upd (take start (tail s) @ number n) t1 of
                   (out, t2) \<Rightarrow>
                     if derr t2 then (s1, False)
                     else finish_update d8
                       (s1\<lparr>tail := out @ drop (pos t2) (tail s), revision := rv,
                           header := Some (char_of (13::nat) # str boot @ number projection @ number rv)\<rparr>))))"

definition update_surface :: "bytes \<Rightarrow> csurface \<Rightarrow> csurface \<times> bool" where
  "update_surface b s =
     (case num (decoder_of b) of (tag, d1) \<Rightarrow>
      case text_dec d1 of (boot, d2) \<Rightarrow>
      case num d2 of (projection, d3) \<Rightarrow>
        if tag = 13 then update_full b d3 s
        else if tag = 19 then update_patch b boot projection d3 s
        else (s, False))"

text \<open>\<open>bytes\<close>: the retained scene as one full frame; nil before the first full frame.\<close>

definition surface_bytes :: "csurface \<Rightarrow> bytes option" where
  "surface_bytes s =
     (case header s of None \<Rightarrow> None
      | Some h \<Rightarrow> Some (h @ number (of_nat (length (cells s))) @ concat (cells s) @
                       number (width s) @ number (height s) @ cursor s @ tail s))"

section \<open>What an accepted update guarantees\<close>

definition consistent :: "csurface \<Rightarrow> bool" where
  "consistent s \<longleftrightarrow> header s \<noteq> None \<and> width s * height s = of_nat (length (cells s)) \<and>
     retained s \<le> MaxFrame"

lemma finish_update_ok: "finish_update d s = (s', True) \<longleftrightarrow>
    s' = s \<and> \<not> derr d \<and> retained s \<le> MaxFrame \<and> width s * height s = of_nat (length (cells s))"
  by (auto simp: finish_update_def)

lemma retain_graphics_frame: "retain_graphics s = (s', ok) \<Longrightarrow>
    header s' = header s \<and> cells s' = cells s \<and> width s' = width s \<and> height s' = height s \<and>
    cursor s' = cursor s \<and> revision s' = revision s"
  by (auto simp: retain_graphics_def Let_def split: prod.splits option.splits if_splits)

lemma update_full_ok:
  assumes "update_full b d3 s = (s', True)"
  shows "consistent s' \<and> revision s' = fst (num d3)"
proof -
  obtain rv d4 where 4: "num d3 = (rv, d4)" by fastforce
  obtain cs d5 where 5: "many_st take_cell ([], d4) = (cs, d5)" by fastforce
  obtain w d6 where 6: "num d5 = (w, d6)" by fastforce
  obtain h d7 where 7: "num d6 = (h, d7)" by fastforce
  obtain cur d8 where 8: "cut d7 (option_dec cursor_dec) = (cur, d8)" by fastforce
  let ?s = "s\<lparr>revision := rv, header := Some (take (pos d4) b), cells := cs, width := w, height := h,
     cursor := cur, tail := drop (pos d8) b\<rparr>"
  obtain s2 ok where R: "retain_graphics ?s = (s2, ok)" by fastforce
  from assms have ok: "ok" and f: "finish_update d8 s2 = (s', True)"
    unfolding update_full_def 4 by (simp_all add: Let_def 5 6 7 8 R split: if_splits)
  show ?thesis
    using f retain_graphics_frame [OF R] 4 by (simp add: finish_update_ok consistent_def)
qed

lemma put_cells_length: "length (fst (put_cells n idx x)) = length (fst x)"
  by (induction n idx x rule: put_cells.induct) (auto split: prod.split)

lemma put_span_length: "length (fst (put_span w h x)) = length (fst x)"
  by (simp add: put_span_def put_cells_length split: prod.split)

lemma while_ok_invariant:
  assumes "\<And>x. P (fst x) \<Longrightarrow> P (fst (f x))" and "P (fst x)"
  shows "P (fst (while_ok n f x))"
  using assms(2)
proof (induction n arbitrary: x)
  case (Suc n)
  from Suc.prems have "P (fst (f x))" by (rule assms(1))
  from Suc.IH [OF this] Suc.prems show ?case by simp
qed simp

lemma many_st_invariant:
  assumes "\<And>x. P (fst x) \<Longrightarrow> P (fst (f x))" and "P (fst x)"
  shows "P (fst (many_st f x))"
  using assms while_ok_invariant [of P f "(fst x, _)"]
  by (auto simp: many_st_def split: prod.split)

text \<open>What the code checks before it touches the retained scene, and what a patch may change.\<close>

definition patch_matches :: "bytes \<Rightarrow> u64 \<Rightarrow> csurface \<Rightarrow> bool" where
  "patch_matches boot projection s \<longleftrightarrow>
     (\<exists>h d1 d2 d3. header s = Some h \<and> snd (num (decoder_of h)) = d1 \<and>
        text_dec d1 = (boot, d2) \<and> num d2 = (projection, d3) \<and> \<not> derr d3)"

lemma update_patch_ok:
  assumes "update_patch b boot projection d3 s = (s', True)"
  shows "consistent s' \<and> patch_matches boot projection s \<and>
     fst (num d3) = revision s \<and> revision s \<noteq> - 1 \<and> revision s' = revision s + 1 \<and>
     width s' = width s \<and> height s' = height s \<and> length (cells s') = length (cells s) \<and>
     assets s' = assets s"
proof -
  obtain base d4 where 4: "num d3 = (base, d4)" by fastforce
  obtain rv d5 where 5: "num d4 = (rv, d5)" by fastforce
  obtain hn h1 where h1: "num (decoder_of (case header s of None \<Rightarrow> [] | Some h \<Rightarrow> h)) = (hn, h1)" by fastforce
  obtain ob h2 where h2: "text_dec h1 = (ob, h2)" by fastforce
  obtain op h3 where h3: "num h2 = (op, h3)" by fastforce
  obtain cs d6 where 6: "many_st (put_span (width s) (height s)) (cells s, d5) = (cs, d6)" by fastforce
  obtain upd d7 where 7: "many_st (pane_update b) ([], d6) = (upd, d7)" by fastforce
  obtain cur d8 where 8: "cut d7 (option_dec cursor_dec) = (cur, d8)" by fastforce
  let ?t0 = "steps [many skip_text, skip_text] (decoder_of (tail s))"
  obtain n t1 where n: "num ?t0 = (n, t1)" by fastforce
  obtain out t2 where M: "merge_panes (unat n) (tail s) upd (take (pos ?t0) (tail s) @ number n) t1 = (out, t2)"
    by fastforce
  let ?s = "s\<lparr>cells := cs, cursor := cur, tail := out @ drop (pos t2) (tail s), revision := rv,
     header := Some (char_of (13::nat) # str boot @ number projection @ number rv)\<rparr>"
  note defs = update_patch_def 4 5 h1 h2 h3 6 7 8 prod.case Let_def n M
  from assms have c: "header s \<noteq> None" "\<not> derr h3" "boot = ob" "projection = op" "base = revision s"
      "base \<noteq> - 1" "rv = base + 1"
    unfolding defs by (auto split: if_splits)
  from assms have f: "finish_update d8 ?s = (s', True)"
    unfolding defs by (auto split: if_splits)
  have "length cs = length (cells s)"
    using many_st_invariant [of "\<lambda>cs. length cs = length (cells s)" "put_span (width s) (height s)" "(cells s, d5)"]
    by (simp add: put_span_length 6)
  with c f 4 h1 h2 h3 show ?thesis
    by (auto simp: finish_update_ok consistent_def patch_matches_def)
qed

section \<open>Evaluating updates\<close>

lemma put_cells_run [decoder_run]: "put_cells n idx (cs, dec_at b p w e) =
   (if n = 0 \<or> e then (cs, dec_at b p w e)
    else if idx \<ge> of_nat (length cs) then (cs, dec_at b p w True)
    else case cut (dec_at b p w e) cell of (c, d1) \<Rightarrow> put_cells (n - 1) (idx + 1) (cs[unat idx := c], d1))"
  by (cases n) (auto simp: fault_def)

lemma cut_run [decoder_run]:
  "cut (dec_at b p w e) f = (take (pos (f (dec_at b p w e)) - p) (drop p b), f (dec_at b p w e))"
  by (simp add: cut_def Let_def)




section \<open>Properties of the retained scene\<close>

text \<open>
  C30. Frame revision discipline (\<open>completeSurface.update\<close>): an accepted frame leaves a
  consistent scene (as many cells as the dimensions say, at most \<open>MaxFrame\<close> retained bytes). A
  patch is accepted only against the exact baseline (same boot identity and projection, the
  retained revision as its base, which is not the last one) and advances it by one, keeping the
  dimensions, the number of cells and the graphics assets.
\<close>

theorem update_discipline:
  assumes "update_surface b s = (s', True)"
  shows "consistent s' \<and>
     (fst (num (decoder_of b)) = 13 \<or>
      fst (num (decoder_of b)) = 19 \<and> header s \<noteq> None \<and> revision s \<noteq> - 1 \<and>
        revision s' = revision s + 1 \<and> width s' = width s \<and> height s' = height s \<and>
        length (cells s') = length (cells s) \<and> assets s' = assets s \<and>
        (\<exists>boot d2 projection d3. text_dec (snd (num (decoder_of b))) = (boot, d2) \<and>
           num d2 = (projection, d3) \<and> patch_matches boot projection s \<and>
           fst (num d3) = revision s))"
proof -
  obtain tag d1 where 1: "num (decoder_of b) = (tag, d1)" by fastforce
  obtain boot d2 where 2: "text_dec d1 = (boot, d2)" by fastforce
  obtain pr d3 where 3: "num d2 = (pr, d3)" by fastforce
  consider (full) "tag = 13" "update_full b d3 s = (s', True)"
    | (patch) "tag = 19" "update_patch b boot pr d3 s = (s', True)"
    using assms by (auto simp: update_surface_def 1 2 3 split: if_splits)
  then show ?thesis
  proof cases
    case full
    with update_full_ok [OF full(2)] 1 show ?thesis by simp
  next
    case patch
    from update_patch_ok [OF patch(2)] patch(1) show ?thesis
      by (auto simp: 1 2 3 patch_matches_def)
  qed
qed

definition sample_full :: bytes where
  "sample_full = map char_of [13::nat, 1, 97, 7, 5, 0, 0, 0, 0, 0, 0, 0, 0, 0, 0, 0, 0]"

lemma update_discipline_witness:
  "\<exists>s'. update_surface sample_full empty_surface = (s', True) \<and> consistent s'"
proof -
  have "\<exists>s'. update_surface sample_full empty_surface = (s', True)"
    by (simp add: update_surface_def update_full_def retain_graphics_def sample_full_def
        empty_surface_def finish_update_def retained_def decoder_run)
  then show ?thesis
    using update_discipline [of sample_full empty_surface] by blast
qed

text \<open>Graphics: what \<open>retainGraphics\<close> keeps.\<close>

lemma keep_assets_ok:
  "keep_assets ks incoming old keep out = Some (keep', out') \<Longrightarrow>
     set (keys keep') = set (keys keep) \<union> set ks \<and>
     (\<forall>k. map_of keep' k =
        (if k \<in> set ks then (case map_of incoming k of Some v \<Rightarrow> Some v | None \<Rightarrow> map_of old k)
         else map_of keep k))"
proof (induction ks incoming old keep out rule: keep_assets.induct)
  case (2 key ks incoming old keep out)
  from "2.prems"(1) obtain v where
    v: "(case map_of incoming key of Some v \<Rightarrow> Some v | None \<Rightarrow> map_of old key) = Some v"
    and l: "length (out @ key @ v) \<le> MaxFrame"
    and k: "keep_assets ks incoming old (put key v keep) (out @ key @ v) = Some (keep', out')"
    by (auto simp: Let_def not_less split: option.splits if_splits)
  from "2.IH" [OF v refl _ k] l have
    A: "set (keys keep') = set (keys (put key v keep)) \<union> set ks"
    "\<forall>k. map_of keep' k =
        (if k \<in> set ks then (case map_of incoming k of Some v \<Rightarrow> Some v | None \<Rightarrow> map_of old k)
         else map_of (put key v keep) k)"
    by auto
  with v show ?case by (auto simp: insert_commute)
qed auto

lemma keep_assets_missing:
  "key \<in> set ks \<Longrightarrow> map_of incoming key = None \<Longrightarrow> map_of old key = None \<Longrightarrow>
     keep_assets ks incoming old keep out = None"
  by (induction ks incoming old keep out rule: keep_assets.induct) (auto simp: Let_def split: option.splits)

text \<open>The assets a scene's tail brings along, and the ones its placements and retention list use.\<close>

definition graphics_start :: "csurface \<Rightarrow> decoder" where
  "graphics_start s = steps [many skip_text, skip_text, many (pane_dec (\<lambda>s. s)), many split_dec,
     option_dec (popup_dec (\<lambda>s. s))] (decoder_of (tail s))"

definition graphics_incoming :: "csurface \<Rightarrow> (bytes, bytes) gomap \<times> decoder" where
  "graphics_incoming s = many_st collect_asset ([], graphics_start s)"

definition graphics_used :: "csurface \<Rightarrow> bytes list \<times> decoder" where
  "graphics_used s = many_st add_key
     (many_st (\<lambda>x. case add_key x of (ks, d) \<Rightarrow> (ks, nums 13 d)) ([], snd (graphics_incoming s)))"

lemma retain_graphics_parts:
  "retain_graphics s =
     (if derr (snd (graphics_used s)) \<or> pos (snd (graphics_used s)) \<noteq> length (tail s) then (s, False)
      else case keep_assets (fst (graphics_used s)) (fst (graphics_incoming s)) (assets s) []
             (take (pos (graphics_start s)) (tail s) @ number (of_nat (length (fst (graphics_used s))))) of
        None \<Rightarrow> (s, False)
      | Some (keep, out) \<Rightarrow>
          (s\<lparr>assets := keep, tail := out @ drop (pos (snd (graphics_incoming s))) (tail s)\<rparr>, True))"
proof -
  obtain incoming d2 where 2: "many_st collect_asset ([], graphics_start s) = (incoming, d2)" by fastforce
  obtain ks3 d3 where 3: "many_st (\<lambda>x. case add_key x of (ks, d) \<Rightarrow> (ks, nums 13 d)) ([], d2) = (ks3, d3)"
    by fastforce
  obtain ks d4 where 4: "many_st add_key (ks3, d3) = (ks, d4)" by fastforce
  note two = 2 [unfolded graphics_start_def]
  show ?thesis
    unfolding retain_graphics_def graphics_used_def graphics_incoming_def Let_def 2 two
    by (simp add: 3 4 graphics_start_def del: steps.simps split: option.split)
qed

text \<open>
  Graphics retention (\<open>retainGraphics\<close>): on success the retained set holds exactly the assets
  that placements or the retention list of the new scene refer to, each with the bytes the frame
  brought or else the bytes retained before, so a source switch can always replay the scene; if
  a referenced asset is in neither, the frame is rejected and the retained scene is untouched.
\<close>

theorem retain_graphics_complete:
  "(case retain_graphics s of (s', ok) \<Rightarrow>
      if ok then
        set (keys (assets s')) = set (fst (graphics_used s)) \<and>
        (\<forall>k \<in> set (fst (graphics_used s)).
           map_of (assets s') k =
             (case map_of (fst (graphics_incoming s)) k of Some v \<Rightarrow> Some v | None \<Rightarrow> map_of (assets s) k) \<and>
           map_of (assets s') k \<noteq> None)
      else s' = s) \<and>
   ((\<exists>k \<in> set (fst (graphics_used s)). map_of (fst (graphics_incoming s)) k = None \<and>
        map_of (assets s) k = None) \<longrightarrow> \<not> snd (retain_graphics s))"
proof -
  let ?U = "graphics_used s" and ?I = "fst (graphics_incoming s)"
  let ?out = "take (pos (graphics_start s)) (tail s) @ number (of_nat (length (fst ?U)))"
  show ?thesis
  proof (cases "keep_assets (fst ?U) ?I (assets s) [] ?out")
    case None
    then show ?thesis by (simp add: retain_graphics_parts)
  next
    case (Some r)
    obtain keep out' where r: "r = (keep, out')" by fastforce
    note K = keep_assets_ok [OF Some [unfolded r]]
    have M: "\<exists>y. map_of (assets s) k = Some y" if "k \<in> set (fst ?U)" "map_of ?I k = None" for k
      using keep_assets_missing [OF that, of "assets s" "[]" ?out] Some by auto
    then have N: "map_of keep k \<noteq> None" if "k \<in> set (fst ?U)" for k
      using K that M [OF that] by (auto split: option.split)
    show ?thesis
      using K N by (auto simp: retain_graphics_parts Some r dest: M)
  qed
qed

definition sample_scene :: csurface where
  "sample_scene = empty_surface\<lparr>tail :=
     map char_of ([0::nat, 0, 0, 0, 0, 1] @ [1, 1, 107, 0, 0, 0, 0, 0, 0] @ [1, 68] @ [0, 1] @
       [1, 1, 107, 0, 0, 0, 0, 0, 0])\<rparr>"

lemma retain_graphics_complete_witness:
  "snd (retain_graphics sample_scene) \<and>
   set (keys (assets (fst (retain_graphics sample_scene)))) =
     {map char_of [1::nat, 1, 107, 0, 0, 0, 0, 0, 0]}"
proof -
  have u: "fst (graphics_used sample_scene) = [map char_of [1::nat, 1, 107, 0, 0, 0, 0, 0, 0]]"
    by (simp add: graphics_used_def graphics_incoming_def graphics_start_def sample_scene_def
        empty_surface_def collect_asset_def add_key_def asset_dec_def decoder_run)
  have ok: "snd (retain_graphics sample_scene)"
    by (simp add: retain_graphics_def sample_scene_def
        empty_surface_def collect_asset_def add_key_def asset_dec_def decoder_run)
  show ?thesis
    using retain_graphics_complete [of sample_scene] u ok
    by (simp add: case_prod_beta)
qed

lemma put_cells_local:
  assumes "put_cells n idx (cs, d) = (cs', d')" and "length cs < 2 ^ 63"
    and "i < unat idx \<or> unat idx + n \<le> i"
  shows "cs' ! i = cs ! i"
  using assms
proof (induction n arbitrary: idx cs d)
  case (Suc n)
  let ?l = "of_nat (length cs) :: u64"
  from Suc.prems(2) have l: "unat ?l = length cs"
    by (simp add: unat_of_nat del: of_nat_add)
  show ?case
  proof (cases "derr d \<or> idx \<ge> ?l")
    case True
    with Suc.prems(1) show ?thesis by (auto split: if_splits)
  next
    case False
    then have "unat idx < length cs" by (simp add: word_le_nat_alt l)
    with Suc.prems(2) have u: "unat (idx + 1) = unat idx + 1"
      by (subst unat_add_lem [THEN iffD1]) simp_all
    obtain c d1 where c: "cut d cell = (c, d1)" by fastforce
    from Suc.prems(1) False have "put_cells n (idx + 1) (cs[unat idx := c], d1) = (cs', d')"
      by (simp add: c)
    from Suc.IH [OF this] Suc.prems(2,3) have "cs' ! i = cs[unat idx := c] ! i"
      by (auto simp: u)
    with Suc.prems(3) show ?thesis by auto
  qed
qed simp

text \<open>
  A patch span edits only the cells it names (\<open>completeSurface.update\<close>, row spans): when the
  span's column and length do not overflow a \<open>uint64\<close> and the scene has \<open>width * height\<close> cells, an
  accepted span lies inside its row and leaves every other cell of the grid as it was.
\<close>

theorem put_span_local:
  assumes "put_span w h (cs, d) = (cs', d')" and "\<not> derr d'"
    and "unat w * unat h = length cs" and "length cs < 2 ^ 63"
    and "num d = (col, d1)" and "num d1 = (row, d2)" and "num d2 = (n, d3)"
    and "unat col + unat n < 2 ^ 64"
  shows "row < h \<and> unat col + unat n \<le> unat w \<and>
     (\<forall>y x. x < unat w \<longrightarrow> y \<noteq> unat row \<or> x < unat col \<or> unat col + unat n \<le> x \<longrightarrow>
        cs' ! (y * unat w + x) = cs ! (y * unat w + x))"
proof -
  from assms(1,2,5-7) have ok: "row < h" "col + n \<le> w"
    and p: "put_cells (unat n) (row * w + col) (cs, d3) = (cs', d')"
    by (auto simp: put_span_def fault_def split: if_splits)
  have cn: "unat (col + n) = unat col + unat n"
    using assms(8) by (simp add: unat_add_lem [symmetric])
  with ok have b: "unat col + unat n \<le> unat w" by (simp add: word_le_nat_alt)
  from ok(1) have "unat row < unat h" by (simp add: word_less_nat_alt)
  then have r: "unat row * unat w + unat w \<le> length cs"
    using assms(3) by (metis Suc_leI add.commute mult.commute mult_Suc mult_le_mono1)
  have rw: "unat (row * w) = unat row * unat w"
    using r assms(4) by (subst unat_mult_lem [THEN iffD1]) simp_all
  have idx: "unat (row * w + col) = unat row * unat w + unat col"
    using r b assms(4) by (subst unat_add_lem [THEN iffD1]) (simp_all add: rw)
  have "cs' ! (y * unat w + x) = cs ! (y * unat w + x)"
    if x: "x < unat w" and o: "y \<noteq> unat row \<or> x < unat col \<or> unat col + unat n \<le> x" for x y
  proof (rule put_cells_local [OF p assms(4)], unfold idx)
    consider "y < unat row" | "y = unat row" | "unat row < y" by linarith
    then show "y * unat w + x < unat row * unat w + unat col \<or>
        unat row * unat w + unat col + unat n \<le> y * unat w + x"
    proof cases
      case 1
      then have "Suc y * unat w \<le> unat row * unat w" by (intro mult_le_mono1) simp
      with x show ?thesis by simp
    next
      case 3
      then have "Suc (unat row) * unat w \<le> y * unat w" by (intro mult_le_mono1) simp
      with b show ?thesis by simp
    qed (use o in auto)
  qed
  with ok b show ?thesis by blast
qed


definition sample_span :: bytes where
  "sample_span = number 3 @ number 1 @ number 1 @ replicate 6 (CHR 0x00)"

lemma put_span_local_witness:
  "\<exists>cs' d'. put_span 10 2 (replicate 20 ''x'', decoder_of sample_span) = (cs', d') \<and> \<not> derr d' \<and>
     cs' ! (0 * unat (10::u64) + 3) = ''x''"
proof -
  obtain cs' d' where p: "put_span 10 2 (replicate 20 ''x'', decoder_of sample_span) = (cs', d')"
    by fastforce
  have e: "\<not> derr d'"
    using p by (auto simp: put_span_def sample_span_def decoder_run word_le_nat_alt)
  obtain d1 where 1: "num (decoder_of sample_span) = (3, d1)"
    by (simp add: sample_span_def decoder_run)
  then obtain d2 where 2: "num d1 = (1, d2)"
    by (auto simp: sample_span_def decoder_run)
  with 1 obtain d3 where 3: "num d2 = (1, d3)"
    by (auto simp: sample_span_def decoder_run)
  have "cs' ! (0 * unat (10::u64) + 3) = replicate 20 ''x'' ! (0 * unat (10::u64) + 3)"
    using put_span_local [OF p e _ _ 1 2 3, THEN conjunct2, THEN conjunct2, THEN spec [of _ 0], THEN spec [of _ 3]]
    by simp
  with p e show ?thesis
    by (intro exI [of _ cs'] exI [of _ d']) (simp del: replicate.simps)
qed

end
