(* ===== verification/GoStrings.thy ===== *)
theory GoStrings
  imports Prelude
begin

text \<open>
  The text functions of Go's standard library the program uses: \<open>fmt.Sprintf("%d")\<close>,
  \<open>encoding/hex\<close>, \<open>strings.ToLower\<close> on ASCII, \<open>strings.ContainsFunc(s, unicode.IsControl)\<close> and
  \<open>strings.TrimSpace\<close>, and the outcome of reading a file. Strings are UTF-8 bytes.
\<close>

section \<open>Decimal numbers\<close>

fun decimal :: "nat \<Rightarrow> bytes" where
  "decimal n = (if n < 10 then [char_of (48 + n)] else decimal (n div 10) @ [char_of (48 + n mod 10)])"

declare decimal.simps [simp del]

definition numeral_value :: "bytes \<Rightarrow> nat" where
  "numeral_value s = foldl (\<lambda>a c. 10 * a + (of_char c - 48)) 0 s"

lemma numeral_value_decimal: "numeral_value (decimal n) = n"
proof (induction n rule: decimal.induct)
  case (1 n)
  have "of_char (char_of (48 + n) :: char) = 48 + n" if "n < 10"
    using that by simp
  moreover have "of_char (char_of (48 + n mod 10) :: char) = 48 + n mod 10"
    using mod_less_divisor [of 10 n] by simp
  ultimately show ?case
    using 1 by (subst decimal.simps) (auto simp: numeral_value_def)
qed

lemma decimal_inject [simp]: "decimal m = decimal n \<longleftrightarrow> m = n"
  by (metis numeral_value_decimal)

section \<open>Hexadecimal\<close>

fun hex_digit :: "nat \<Rightarrow> char" where
  "hex_digit n = (if n < 10 then char_of (48 + n) else char_of (87 + n))"

definition hex :: "bytes \<Rightarrow> bytes" where
  "hex b = concat (map (\<lambda>c. [hex_digit (of_char c div 16), hex_digit (of_char c mod 16)]) b)"

definition hex_value :: "char \<Rightarrow> nat option" where
  "hex_value c =
     (let n = of_char c :: nat in
      if 48 \<le> n \<and> n \<le> 57 then Some (n - 48) else if 97 \<le> n \<and> n \<le> 102 then Some (n - 87)
      else if 65 \<le> n \<and> n \<le> 70 then Some (n - 55) else None)"

text \<open>\<open>hex.DecodeString\<close>: digits of either case, an even number of them.\<close>

fun unhex :: "bytes \<Rightarrow> bytes option" where
  "unhex [] = Some []"
| "unhex [c] = None"
| "unhex (c # d # s) =
     (case (hex_value c, hex_value d, unhex s) of
        (Some x, Some y, Some b) \<Rightarrow> Some (char_of (16 * x + y) # b)
      | _ \<Rightarrow> None)"

definition to_lower :: "bytes \<Rightarrow> bytes" where
  "to_lower s = map (\<lambda>c. let n = of_char c :: nat in if 65 \<le> n \<and> n \<le> 90 then char_of (n + 32) else c) s"

lemma hex_length [simp]: "length (hex b) = 2 * length b"
  by (induction b) (simp_all add: hex_def)

lemma hex_take: "hex (take n b) = take (2 * n) (hex b)"
  by (induction n arbitrary: b; case_tac b) (simp_all add: hex_def)

lemma hex_value_digit: "n < 16 \<Longrightarrow> hex_value (hex_digit n) = Some n"
  by (auto simp: hex_value_def Let_def)

lemma lower_digit: "n < 16 \<Longrightarrow> to_lower [hex_digit n] = [hex_digit n]"
  by (auto simp: to_lower_def Let_def)

lemma unhex_hex [simp]: "unhex (hex b) = Some b"
proof (induction b)
  case (Cons c b)
  have "of_char c < (256::nat)" by simp
  then have "of_char c div 16 < (16::nat)" by (simp add: less_mult_imp_div_less)
  then have "unhex (hex (c # b)) = Some (char_of (16 * (of_char c div 16) + of_char c mod 16 :: nat) # b)"
    using Cons.IH by (simp add: hex_def hex_value_digit del: hex_digit.simps)
  then show ?case by simp
qed (simp add: hex_def)

lemma unhex_length: "unhex s = Some b \<Longrightarrow> length s = 2 * length b"
  by (induction s arbitrary: b rule: unhex.induct) (auto split: option.splits)

lemma hex_lower: "to_lower (hex b) = hex b"
proof (induction b)
  case (Cons c b)
  have "of_char c < (256::nat)" by simp
  then have "of_char c div 16 < (16::nat)" by (simp add: less_mult_imp_div_less)
  then show ?case
    using Cons.IH lower_digit [of "of_char c div 16"] lower_digit [of "of_char c mod 16"]
    by (simp add: hex_def to_lower_def del: hex_digit.simps)
qed (simp add: hex_def to_lower_def)

text \<open>\<open>validHex\<close> (in \<open>enrollment.go\<close>): lower-case digits of exactly \<open>n\<close> bytes.\<close>

definition validHex :: "bytes \<Rightarrow> nat \<Rightarrow> bool" where
  "validHex s n = (case unhex s of None \<Rightarrow> False | Some b \<Rightarrow> length b = n \<and> s = to_lower s)"

lemma validHex_hex: "validHex (hex b) (length b)"
  by (simp add: validHex_def hex_lower)

lemma hex_value_inverse: "hex_value c = Some n \<Longrightarrow> to_lower [c] = [hex_digit n]"
  by (auto simp: hex_value_def Let_def to_lower_def split: if_splits)

lemma hex_value_less: "hex_value c = Some n \<Longrightarrow> n < 16"
  by (auto simp: hex_value_def Let_def split: if_splits)

lemma lower_unhex: "unhex s = Some b \<Longrightarrow> to_lower s = hex b"
proof (induction s arbitrary: b rule: unhex.induct)
  case (3 c d s)
  then obtain x y r where x: "hex_value c = Some x" and y: "hex_value d = Some y" and r: "unhex s = Some r"
    and b: "b = char_of (16 * x + y) # r"
    by (auto split: option.splits)
  have "16 * x + y < 256" using hex_value_less [OF x] hex_value_less [OF y] by simp
  then have "hex b = [hex_digit x, hex_digit y] @ hex r"
    using hex_value_less [OF y] by (simp add: hex_def b del: hex_digit.simps)
  moreover have "to_lower (c # d # s) = to_lower [c] @ to_lower [d] @ to_lower s"
    by (simp add: to_lower_def)
  ultimately show ?case
    using hex_value_inverse [OF x] hex_value_inverse [OF y] 3 x y r by simp
qed (simp_all add: to_lower_def hex_def)

text \<open>A valid text is the encoding of exactly one byte string.\<close>

lemma validHex_iff: "validHex s n \<longleftrightarrow> (\<exists>b. s = hex b \<and> length b = n)"
  using lower_unhex [of s] validHex_hex by (auto simp: validHex_def split: option.splits)

section \<open>Control characters and white space\<close>

text \<open>\<open>unicode.IsControl\<close> holds of U+0000 to U+001F, U+007F and U+0080 to U+009F; the last are the
  bytes C2 80 to C2 9F, and C2 always starts a character, valid or not.\<close>

fun has_control :: "bytes \<Rightarrow> bool" where
  "has_control [] = False"
| "has_control (c # s) =
     (of_char c < (32::nat) \<or> of_char c = (127::nat) \<or>
      (of_char c = (194::nat) \<and> (case s of [] \<Rightarrow> False | d # _ \<Rightarrow> 128 \<le> (of_char d :: nat) \<and> of_char d \<le> (159::nat))) \<or>
      has_control s)"

text \<open>The white space of \<open>unicode.IsSpace\<close>, as the byte strings of its characters.\<close>

definition spaces :: "bytes list" where
  "spaces = [[CHR 0x09], [CHR 0x0A], [CHR 0x0B], [CHR 0x0C], [CHR 0x0D], [CHR 0x20],
     [CHR 0xC2, CHR 0x85], [CHR 0xC2, CHR 0xA0], [CHR 0xE1, CHR 0x9A, CHR 0x80]] @
     map (\<lambda>n. [CHR 0xE2, CHR 0x80, char_of n]) ([128..<139] @ [168, 169, 175 :: nat]) @
     [[CHR 0xE2, CHR 0x81, CHR 0x9F], [CHR 0xE3, CHR 0x80, CHR 0x80]]"

fun skip_spaces :: "nat \<Rightarrow> bytes \<Rightarrow> bytes" where
  "skip_spaces 0 s = s"
| "skip_spaces (Suc n) s =
     (case List.find (has_prefix s) spaces of None \<Rightarrow> s | Some w \<Rightarrow> skip_spaces n (drop (length w) s))"

fun skip_spaces_right :: "nat \<Rightarrow> bytes \<Rightarrow> bytes" where
  "skip_spaces_right 0 s = s"
| "skip_spaces_right (Suc n) s =
     (case List.find (has_suffix s) spaces of
        None \<Rightarrow> s | Some w \<Rightarrow> skip_spaces_right n (take (length s - length w) s))"

definition trim_space :: "bytes \<Rightarrow> bytes" where
  "trim_space s = (let t = skip_spaces (length s) s in skip_spaces_right (length t) t)"

section \<open>Files\<close>

text \<open>What \<open>os.ReadFile\<close> finds at a path: nothing, an error, or the contents. The contents of a JSON
  file that is read into a Go type: no value of that type, \<open>null\<close>, or a value.\<close>

datatype 'a stored = NoFile | Unreadable | Contents 'a

datatype 'a doc = Malformed | Oversized | Null | Value 'a

section \<open>Trimming\<close>

lemma skip_spaces_id: "s \<noteq> [] \<Longrightarrow> hd s \<notin> hd ` set spaces \<Longrightarrow> skip_spaces n s = s"
proof (cases n)
  case (Suc m)
  assume s: "s \<noteq> []" "hd s \<notin> hd ` set spaces"
  have ne: "w \<noteq> []" if "w \<in> set spaces" for w using that by (auto simp: spaces_def)
  have "\<not> has_prefix s w" if "w \<in> set spaces" for w
    using that s(2) ne [OF that] by (auto simp: has_prefix_iff image_iff)
  then have "List.find (has_prefix s) spaces = None" by (simp add: find_None_iff)
  with Suc show ?thesis by simp
qed simp

lemma skip_spaces_right_id: "s \<noteq> [] \<Longrightarrow> last s \<notin> last ` set spaces \<Longrightarrow> skip_spaces_right n s = s"
proof (cases n)
  case (Suc m)
  assume s: "s \<noteq> []" "last s \<notin> last ` set spaces"
  have ne: "w \<noteq> []" if "w \<in> set spaces" for w using that by (auto simp: spaces_def)
  have "\<not> has_suffix s w" if "w \<in> set spaces" for w
    using that s(2) ne [OF that] by (auto simp: has_suffix_iff image_iff)
  then have "List.find (has_suffix s) spaces = None" by (simp add: find_None_iff)
  with Suc show ?thesis by simp
qed simp

lemma trim_space_id:
  "s \<noteq> [] \<Longrightarrow> hd s \<notin> hd ` set spaces \<Longrightarrow> last s \<notin> last ` set spaces \<Longrightarrow> trim_space s = s"
  by (simp add: trim_space_def skip_spaces_id skip_spaces_right_id)

lemma space_ends: "w \<in> set spaces \<Longrightarrow> \<not> (48 \<le> (of_char (hd w) :: nat) \<and> of_char (hd w) < (128 :: nat)) \<and>
    \<not> (48 \<le> (of_char (last w) :: nat) \<and> of_char (last w) < (128 :: nat))"
proof -
  have "\<forall>w \<in> set spaces. \<not> (48 \<le> (of_char (hd w) :: nat) \<and> of_char (hd w) < (128 :: nat)) \<and>
      \<not> (48 \<le> (of_char (last w) :: nat) \<and> of_char (last w) < (128 :: nat))"
    by (simp add: spaces_def upt_rec)
  then show "w \<in> set spaces \<Longrightarrow> ?thesis" by blast
qed

lemma trim_space_ascii:
  assumes "s \<noteq> []" "48 \<le> (of_char (hd s) :: nat)" "of_char (hd s) < (128 :: nat)"
    "48 \<le> (of_char (last s) :: nat)" "of_char (last s) < (128 :: nat)"
  shows "trim_space s = s"
  using assms space_ends by (intro trim_space_id) auto

end
