(* ===== verification/Session.thy ===== *)
theory Session
  imports Handshake Surface GoStrings
begin

text \<open>
  The state of one gateway session (\<open>hive/internal/gateway/gateway.go\<close>, \<open>recovery.go\<close>) and its
  lowest layer: writes, responses, failure and removal of a source.

  Pointers to \<open>backend\<close> are natural numbers into the store \<open>hp\<close>, so that comparing pointers and
  changing a backend through several references mean what they mean in Go. A write to the viewer
  or to a source may fail: the fields \<open>oplan\<close> and \<open>wplan\<close> hold the outcomes of the next writes
  (an exhausted plan succeeds) and \<open>olog\<close>, \<open>wlog\<close> the frames written. The clock is read once per
  event. The event loop owns all of this state, as in the code.
\<close>

section \<open>State\<close>

datatype gerr =
    EWire                    \<comment> \<open>\<open>errWire\<close>\<close>
  | EFailure bytes bool      \<comment> \<open>\<open>UpstreamFailure\<close>: code, retryable\<close>
  | EUpstream bytes          \<comment> \<open>\<open>upstreamError\<close>\<close>
  | EIO                      \<comment> \<open>an error of a connection\<close>
  | EEOF                     \<comment> \<open>\<open>io.EOF\<close>\<close>
  | EText bytes              \<comment> \<open>any other \<open>errors.New\<close>\<close>
  | EPanic                   \<comment> \<open>a nil pointer was dereferenced\<close>
  | EFuel                    \<comment> \<open>the bound of the model on nested publications\<close>

definition protocolFailure :: gerr where
  "protocolFailure = EFailure ''native_protocol'' False"

definition MaxSources :: nat where "MaxSources = 8"
definition maxRequests :: nat where "maxRequests = 64"
definition maxInternalRequests :: nat where "maxInternalRequests = 2 * MaxSources"

text \<open>Times are nanoseconds.\<close>

definition second :: nat where "second = 1000000000"
definition initializationTimeout :: nat where "initializationTimeout = 10 * second"
definition operationTimeout :: nat where "operationTimeout = 30 * second"
definition recoveryStableInterval :: nat where "recoveryStableInterval = 10 * second"

definition interestPrefix :: bytes where "interestPrefix = ''hive:surface:''"
definition requestPrefix :: bytes where "requestPrefix = ''hive:request:''"

record source =
  src_id :: bytes
  src_name :: bytes
  src_label :: bytes
  src_gen :: bytes

record backend =
  effects :: "(u64, bytes) gomap"
  welcomed :: bool
  bSurface :: bool                 \<comment> \<open>\<open>surfaceActive\<close>\<close>
  src :: source
  stream :: bool                   \<comment> \<open>\<open>stream != nil\<close>\<close>
  bboot :: bytes
  bprefix :: bytes
  snapshot :: "(bytes \<times> json) list option"
  methods :: "bytes list"
  bframe :: csurface
  chunks :: "(bytes, bytes) gomap"
  bcancelled :: bool
  initializeBy :: "nat option"
  renderReady :: bool
  stableSince :: "nat option"
  closed :: bool
  wlog :: "bytes list"
  wplan :: "bool list"

record recovery =
  rec_gen :: bytes
  attempts :: nat
  retryAt :: nat
  blocked :: bool

text \<open>What the session takes from its surroundings: the JSON codec, SHA-256, and the conversion of
  a \<open>float64\<close> outside the range of \<open>uint64\<close>, which Go leaves to the machine.\<close>

record environment =
  json :: codec
  sha256 :: "bytes \<Rightarrow> bytes"
  wide :: "rat \<Rightarrow> u64"

record session =
  env :: environment
  hp :: "nat \<Rightarrow> backend"
  nextb :: nat
  catalog :: "source list"
  clk :: nat
  cancelled :: bool
  olog :: "bytes list"
  oplan :: "bool list"
  sources :: "(bytes, nat) gomap"
  recoveries :: "(bytes, recovery) gomap"
  active :: "nat option"
  boot :: bytes
  srevision :: u64
  hello :: bytes
  resize :: bytes
  surfaceActive :: bool
  surfaceRevision :: u64
  interestSequence :: u64
  pending :: "(bytes, nat) gomap"
  fence :: bytes
  fencePending :: bool
  fenceSource :: "nat option"
  fenceUntil :: nat
  deadlines :: "(bytes, nat) gomap"
  cols :: u64
  rows :: u64
  requestSequence :: u64
  requestIDs :: "(bytes, bytes) gomap"
  retired :: "(bytes, nat) gomap"
  renderedSource :: "nat option"
  renderedRevision :: u64
  renderedSurface :: u64
  renderedProject :: u64

type_synonym result = "session \<times> gerr option"

definition andthen :: "result \<Rightarrow> (session \<Rightarrow> result) \<Rightarrow> result" where
  "andthen r k = (case r of (g, None) \<Rightarrow> k g | (g, Some e) \<Rightarrow> (g, Some e))"

definition upd :: "nat \<Rightarrow> (backend \<Rightarrow> backend) \<Rightarrow> session \<Rightarrow> session" where
  "upd b f g = g\<lparr>hp := (hp g)(b := f (hp g b))\<rparr>"

definition key_of :: "session \<Rightarrow> nat \<Rightarrow> bytes" where
  "key_of g b = src_id (src (hp g b))"

text \<open>\<open>g.sources[b.source.ID] == b\<close>\<close>

definition current :: "session \<Rightarrow> nat \<Rightarrow> bool" where
  "current g b \<longleftrightarrow> map_of (sources g) (key_of g b) = Some b"

definition float_u64 :: "session \<Rightarrow> rat \<Rightarrow> u64" where
  "float_u64 g q = (if 0 \<le> q \<and> q < 2 ^ 64 then of_int \<lfloor>q\<rfloor> else wide (env g) q)"

section \<open>Writes and responses\<close>

definition write_out :: "bytes \<Rightarrow> session \<Rightarrow> result" where
  "write_out p g =
     (if \<not> frame_ok p then (g, Some EWire)
      else case oplan g of
             [] \<Rightarrow> (g\<lparr>olog := olog g @ [p]\<rparr>, None)
           | True # plan \<Rightarrow> (g\<lparr>oplan := plan, olog := olog g @ [p]\<rparr>, None)
           | False # plan \<Rightarrow> (g\<lparr>oplan := plan\<rparr>, Some EIO))"

definition write_backend :: "nat \<Rightarrow> bytes \<Rightarrow> session \<Rightarrow> result" where
  "write_backend b p g =
     (if \<not> frame_ok p then (g, Some EWire)
      else case wplan (hp g b) of
             [] \<Rightarrow> (upd b (\<lambda>x. x\<lparr>wlog := wlog x @ [p]\<rparr>) g, None)
           | True # plan \<Rightarrow> (upd b (\<lambda>x. x\<lparr>wplan := plan, wlog := wlog x @ [p]\<rparr>) g, None)
           | False # plan \<Rightarrow> (upd b (\<lambda>x. x\<lparr>wplan := plan\<rparr>) g, Some EIO))"

definition jsonControl :: "bytes \<Rightarrow> json \<Rightarrow> session \<Rightarrow> result" where
  "jsonControl kind v g = write_out (control kind (enc (json (env g)) v)) g"

definition response_frame :: "session \<Rightarrow> bytes \<Rightarrow> json \<Rightarrow> bytes" where
  "response_frame g ident v =
     CHR 0x12 # str (boot g) @ str ident @ [CHR 0x01] @ str (enc (json (env g)) v)"

definition response :: "bytes \<Rightarrow> json \<Rightarrow> session \<Rightarrow> result" where
  "response ident v g = write_out (response_frame g ident v) g"

definition failure :: "bytes \<Rightarrow> bytes \<Rightarrow> session \<Rightarrow> result" where
  "failure ident message g =
     response ident (JObj [(''id'', JStr ident),
       (''error'', JObj [(''code'', JStr ''invalid_request''), (''message'', JStr message)])]) g"

text \<open>\<open>if g.failure(...) != nil { g.cancel() }\<close>\<close>

definition failure_or_cancel :: "bytes \<Rightarrow> bytes \<Rightarrow> session \<Rightarrow> session" where
  "failure_or_cancel ident message g =
     (case failure ident message g of (g', None) \<Rightarrow> g' | (g', Some _) \<Rightarrow> g'\<lparr>cancelled := True\<rparr>)"

section \<open>Removing a source\<close>

definition drop_pending :: "bytes \<Rightarrow> session \<Rightarrow> session" where
  "drop_pending i g = g\<lparr>pending := del i (pending g), deadlines := del i (deadlines g),
     requestIDs := del i (requestIDs g)\<rparr>"

text \<open>The range over \<open>g.pending\<close>: its keys in their order, less those deleted meanwhile.\<close>

fun remove_pending :: "nat \<Rightarrow> bytes list \<Rightarrow> session \<Rightarrow> session" where
  "remove_pending b [] g = g"
| "remove_pending b (i # is) g =
     (if map_of (pending g) i = Some b then
        (let consumer = (case map_of (requestIDs g) i of None \<Rightarrow> [] | Some c \<Rightarrow> c);
             g1 = drop_pending i g in
         remove_pending b is
           (if consumer \<noteq> [] then failure_or_cancel consumer ''sharing disconnected'' g1 else g1))
      else remove_pending b is g)"

definition remove :: "nat \<Rightarrow> session \<Rightarrow> session" where
  "remove b g =
     (let g1 = (if fenceSource g = Some b then g\<lparr>fenceSource := None\<rparr> else g);
          g2 = remove_pending b (keys (pending g1)) g1;
          g3 = g2\<lparr>retired := filter (\<lambda>e. snd e \<noteq> b) (retired g2)\<rparr>;
          g4 = upd b (\<lambda>x. x\<lparr>bcancelled := True, closed := closed x \<or> stream x\<rparr>) g3;
          g5 = g4\<lparr>sources := del (key_of g4 b) (sources g4)\<rparr>
      in if active g5 = Some b then g5\<lparr>active := None\<rparr> else g5)"

section \<open>Recovery\<close>

definition resetRecovery :: "nat \<Rightarrow> session \<Rightarrow> session" where
  "resetRecovery b g =
     (case stableSince (hp g b) of
        Some t \<Rightarrow>
          if clk g - t \<ge> recoveryStableInterval
          then g\<lparr>recoveries := del (key_of g b) (recoveries g)\<rparr> else g
      | None \<Rightarrow> g)"

fun blocks :: "gerr \<Rightarrow> bool" where
  "blocks EWire = True"
| "blocks (EFailure _ retryable) = (\<not> retryable)"
| "blocks _ = False"

definition next_record :: "nat \<Rightarrow> gerr \<Rightarrow> recovery \<Rightarrow> recovery" where
  "next_record now e r =
     (if blocks e then r\<lparr>blocked := True\<rparr>
      else (let a = (if attempts r < 5 then attempts r + 1 else attempts r) in
            r\<lparr>blocked := False, attempts := a, retryAt := now + second * 2 ^ (a - 1)\<rparr>))"

text \<open>\<open>fail\<close>: nothing for a backend that is no longer current.\<close>

definition fail :: "nat \<Rightarrow> gerr \<Rightarrow> session \<Rightarrow> session" where
  "fail b e g =
     (if \<not> current g b then g
      else
        (let g1 = resetRecovery b g;
             gen = src_gen (src (hp g b));
             fresh = \<lparr>rec_gen = gen, attempts = 0, retryAt = 0, blocked = False\<rparr>;
             r = (case map_of (recoveries g1) (key_of g b) of
                    Some r \<Rightarrow> if rec_gen r = gen then r else fresh
                  | None \<Rightarrow> fresh);
             g2 = g1\<lparr>recoveries := put (key_of g b) (next_record (clk g) e r) (recoveries g1)\<rparr>
         in remove b g2))"

text \<open>\<open>renderProgress\<close>: a backend is stable once it renders and no surface change is outstanding.\<close>

definition renderProgress :: "nat \<Rightarrow> session \<Rightarrow> session" where
  "renderProgress b g =
     (let x = hp g b in
      if \<not> bSurface x \<or> \<not> renderReady x \<or> snapshot x = None then g
      else if list_ex (\<lambda>(i, target). target = b \<and> map_of (requestIDs g) i = None) (pending g) then g
      else if stableSince x = None then upd b (\<lambda>x. x\<lparr>stableSince := Some (clk g)\<rparr>) g
      else g)"

end
