(* ===== verification/Publish.thy ===== *)
theory Publish
  imports Session
begin

text \<open>
  The aggregate projection of \<open>gateway.go\<close> and \<open>interest.go\<close>: \<open>publish\<close>, the surfaces and
  patches sent to the viewer, the transfer of layout authority between sources
  (\<open>syncInterest\<close>, \<open>setInterest\<close>) and the presentation fence. These functions are mutually
  recursive through \<open>publish\<close>: a source whose stream fails is removed and the aggregate is
  published anew. Each takes \<open>publish\<close> as its argument \<open>pub\<close>; \<open>publish_fuel\<close> ties the knot.
\<close>

section \<open>Frames for the viewer\<close>

fun blank_cells :: "nat \<Rightarrow> bytes" where
  "blank_cells 0 = []"
| "blank_cells (Suc n) = [CHR 0x01, CHR '' '', CHR 0x00, CHR 0x00, CHR 0x00, CHR 0x00, CHR 0x00] @ blank_cells n"

definition blank_frame :: "session \<Rightarrow> bytes" where
  "blank_frame g =
     CHR 0x0D # str (boot g) @ number (srevision g) @ number (surfaceRevision g) @
     number (cols g * rows g) @ blank_cells (unat (cols g * rows g)) @
     number (cols g) @ number (rows g) @ replicate 9 (CHR 0x00)"

definition blankSurface :: "session \<Rightarrow> result" where
  "blankSurface g =
     (let g1 = g\<lparr>renderedSource := None, surfaceRevision := surfaceRevision g + 1\<rparr>
      in write_out (blank_frame g1) g1)"

definition effect_default :: "u64 \<Rightarrow> bytes" where
  "effect_default tag =
     (if tag = 6 then [CHR 0x06, CHR 0x00] else if tag = 8 then [CHR 0x08, CHR 0x00, CHR 0x00]
      else [CHR 0x11, CHR 0x00])"

fun replay_tags :: "u64 list \<Rightarrow> session \<Rightarrow> result" where
  "replay_tags [] g = (g, None)"
| "replay_tags (tag # ts) g =
     (let p = (case active g of
                 None \<Rightarrow> effect_default tag
               | Some a \<Rightarrow> (case map_of (effects (hp g a)) tag of None \<Rightarrow> effect_default tag | Some p \<Rightarrow> p))
      in andthen (write_out p g) (replay_tags ts))"

definition replayEffects :: "session \<Rightarrow> result" where
  "replayEffects g = (if \<not> surfaceActive g then (g, None) else replay_tags [6, 8, 17] g)"

text \<open>Frames are rewritten with the session's own boot identity and surface revision.\<close>

definition snapshot_revision :: "session \<Rightarrow> nat \<Rightarrow> u64" where
  "snapshot_revision g b = float_u64 g (number_val (member (snapshot (hp g b)) ''revision''))"

definition with_prefix :: "session \<Rightarrow> nat \<Rightarrow> bytes \<Rightarrow> bytes" where
  "with_prefix g b ident = bprefix (hp g b) @ ident"

definition sendSurface :: "session \<Rightarrow> result" where
  "sendSurface g =
     (if \<not> surfaceActive g then (g, None)
      else case active g of
        None \<Rightarrow> blankSurface g
      | Some b \<Rightarrow>
          (case surface_bytes (bframe (hp g b)) of
             None \<Rightarrow> (g, None)
           | Some bs \<Rightarrow>
               (case num (decoder_of bs) of (_, d1) \<Rightarrow>
                case text_dec d1 of (bt, d2) \<Rightarrow>
                case num d2 of (rv, d3) \<Rightarrow>
                  if bt \<noteq> bboot (hp g b) \<or> rv \<noteq> snapshot_revision g b then (g, None)
                  else
                    (case surface bs (boot g) (srevision g) (with_prefix g b) of
                       None \<Rightarrow> (g, Some EWire)
                     | Some p \<Rightarrow>
                         (let g1 = g\<lparr>surfaceRevision := surfaceRevision g + 1\<rparr> in
                          case replace_num (surfaceRevision g1)
                                 (steps [skip_num, skip_text, skip_num] (decoder_of p)) of (upstream, d) \<Rightarrow>
                            andthen (write_out (outb d @ drop (pos d) p) g1)
                              (\<lambda>g2. (g2\<lparr>renderedSource := Some b, renderedRevision := srevision g2,
                                 renderedProject := rv, renderedSurface := upstream\<rparr>, None)))))))"

definition sendPatch :: "nat \<Rightarrow> bytes \<Rightarrow> session \<Rightarrow> result" where
  "sendPatch b bs g =
     (if \<not> surfaceActive g then (g, None)
      else
        (case num (steps [skip_num, skip_text] (decoder_of bs)) of (projection, d1) \<Rightarrow>
         case num d1 of (base, d2) \<Rightarrow>
         case num d2 of (rv, d3) \<Rightarrow>
           if renderedSource g \<noteq> Some b \<or> renderedRevision g \<noteq> srevision g \<or>
              renderedProject g \<noteq> projection \<or> renderedSurface g \<noteq> base
           then sendSurface g
           else
             (case surface bs (boot g) (srevision g) (with_prefix g b) of
                None \<Rightarrow> (g, Some EWire)
              | Some p \<Rightarrow>
                  (case replace_num (surfaceRevision g)
                          (steps [skip_num, skip_text, skip_num] (decoder_of p)) of (_, e1) \<Rightarrow>
                   let g1 = g\<lparr>surfaceRevision := surfaceRevision g + 1\<rparr> in
                   case replace_num (surfaceRevision g1) e1 of (_, e2) \<Rightarrow>
                     andthen (write_out (outb e2 @ drop (pos e2) p) g1)
                       (\<lambda>g2. (g2\<lparr>renderedSurface := rv\<rparr>, None))))))"

section \<open>The aggregate snapshot\<close>

text \<open>\<open>sort.Strings\<close> over the sources that have a snapshot.\<close>

definition snapshotIDs :: "session \<Rightarrow> bytes list" where
  "snapshotIDs g = sort (map fst (filter (\<lambda>(i, b). snapshot (hp g b) \<noteq> None) (sources g)))"

definition prefixed_snapshot :: "session \<Rightarrow> nat \<Rightarrow> (bytes \<times> json) list" where
  "prefixed_snapshot g b =
     (case object (Some (rename_json (with_prefix g b)
        (JObj (case snapshot (hp g b) of None \<Rightarrow> [] | Some m \<Rightarrow> m)))) of None \<Rightarrow> [] | Some m \<Rightarrow> m)"

definition workspace_label :: "source \<Rightarrow> bytes \<Rightarrow> bytes" where
  "workspace_label s l =
     ''['' @ (src_name s @ (if src_label s \<noteq> ''default'' then ''/'' @ src_label s else [])) @ ''] '' @ l"

definition merge_item :: "session \<Rightarrow> nat \<Rightarrow> bytes \<Rightarrow> (bytes \<times> json) list \<Rightarrow> json \<Rightarrow> (bytes \<times> json) list" where
  "merge_item g b k out v =
     (case object (Some v) of
        None \<Rightarrow> out
      | Some m \<Rightarrow>
          (let m1 = (if active g \<noteq> Some b then put ''focused'' (JBool False) m else m);
               m2 = (if k = ''workspaces''
                     then put ''number'' (JNum (of_nat (length (array (map_of out k)) + 1)))
                       (put ''custom_label'' (JBool True)
                         (put ''label'' (JStr (workspace_label (src (hp g b)) (string_val (map_of m1 ''label'')))) m1))
                     else m1)
           in put k (JArr (array (map_of out k) @ [JObj m2])) out))"

definition merge_source :: "session \<Rightarrow> (bytes \<times> json) list \<Rightarrow> nat \<Rightarrow> (bytes \<times> json) list" where
  "merge_source g out b =
     (let s = prefixed_snapshot g b;
          out1 = foldl (\<lambda>o' k. foldl (merge_item g b k) o' (array (map_of s k))) out
                   [''workspaces'', ''tabs'', ''panes'', ''agents'']
      in put ''agent_order'' (JArr (array (map_of out1 ''agent_order'') @ array (map_of s ''agent_order''))) out1)"

definition aggregate :: "session \<Rightarrow> (bytes \<times> json) list" where
  "aggregate g =
     (let out0 = (case active g of None \<Rightarrow> emptySnapshot | Some a \<Rightarrow> prefixed_snapshot g a);
          out1 = foldl (\<lambda>o' k. put k (JArr []) o') out0
                   [''workspaces'', ''tabs'', ''panes'', ''agents'', ''agent_order'']
      in foldl (merge_source g) out1
           (List.map_filter (map_of (sources g)) (snapshotIDs g)))"

text \<open>The projection is published under the session's own identity and next revision; endpoint-owned
  updates do not describe the virtual host.\<close>

definition diagnostic :: bytes where
  "diagnostic = ''Hive gateway shows the first '' @ decimal MaxSources @
     '' shared sessions; use a sharing ID for the remaining sessions.''"

definition finish_aggregate :: "session \<Rightarrow> (bytes \<times> json) list \<Rightarrow> (bytes \<times> json) list" where
  "finish_aggregate g out =
     (let out1 = put ''revision'' (JNum (of_nat (unat (srevision g)))) (put ''boot_id'' (JStr (boot g)) out);
          out2 = (if length (catalog g) > MaxSources then put ''config_diagnostic'' (JStr diagnostic) out1 else out1)
      in put ''integration_updates_available'' (JBool False)
           (put ''latest_release_notes_available'' (JBool False)
             (put ''update_available'' JNull (put ''product_announcement'' JNull out2))))"

section \<open>Sources\<close>

definition send :: "(session \<Rightarrow> result) \<Rightarrow> nat option \<Rightarrow> bytes \<Rightarrow> session \<Rightarrow> result" where
  "send pub target p g =
     (case target of
        None \<Rightarrow> (g, Some (EText ''shared session is offline''))
      | Some b \<Rightarrow>
          if \<not> stream (hp g b) then pub (fail b (EUpstream ''shared session is offline'') g)
          else (case write_backend b p g of
                  (g1, None) \<Rightarrow> (g1, None)
                | (g1, Some e) \<Rightarrow> pub (fail b e g1)))"

definition interest_frame :: "session \<Rightarrow> nat \<Rightarrow> bytes \<Rightarrow> bool \<Rightarrow> bytes" where
  "interest_frame g b ident act =
     CHR 0x0F # str (bboot (hp g b)) @
     str (enc (json (env g)) (JObj [(''id'', JStr ident), (''method'', JStr ''client_shell.surface.set''),
       (''params'', JObj [(''active'', JBool act)])]))"

definition setInterest :: "(session \<Rightarrow> result) \<Rightarrow> nat \<Rightarrow> bool \<Rightarrow> session \<Rightarrow> result" where
  "setInterest pub b act g =
     (if ''client_shell.surface.set'' \<notin> set (methods (hp g b)) then pub (fail b protocolFailure g)
      else if int (length (pending g)) - int (length (requestIDs g)) \<ge> int maxInternalRequests then (g, None)
      else
        andthen (if act \<and> resize g \<noteq> [] then send pub (Some b) (resize g) g else (g, None))
          (\<lambda>g0. if act \<and> resize g \<noteq> [] \<and> \<not> current g0 b then (g0, None)
            else
              (let g1 = g0\<lparr>interestSequence := interestSequence g0 + 1\<rparr>;
                   ident = interestPrefix @ decimal (unat (interestSequence g1));
                   p = interest_frame g1 b ident act;
                   g2 = g1\<lparr>pending := put ident b (pending g1),
                           deadlines := put ident (clk g1 + operationTimeout) (deadlines g1)\<rparr>;
                   g3 = upd b (\<lambda>x. x\<lparr>bSurface := act, renderReady := False, stableSince := None\<rparr>) g2
               in send pub (Some b) p g3)))"

text \<open>The range over the sources: relinquish before acquiring, and stop when no slot is free.\<close>

fun relinquish :: "(session \<Rightarrow> result) \<Rightarrow> bytes list \<Rightarrow> session \<Rightarrow> session \<times> gerr option \<times> bool" where
  "relinquish pub [] g = (g, None, True)"
| "relinquish pub (k # ks) g =
     (case map_of (sources g) k of
        None \<Rightarrow> relinquish pub ks g
      | Some b \<Rightarrow>
          if bSurface (hp g b) \<and> (active g \<noteq> Some b \<or> \<not> surfaceActive g) then
            (case setInterest pub b False g of
               (g1, Some e) \<Rightarrow> (g1, Some e, False)
             | (g1, None) \<Rightarrow> if bSurface (hp g1 b) then (g1, None, False) else relinquish pub ks g1)
          else relinquish pub ks g)"

definition syncInterest :: "(session \<Rightarrow> result) \<Rightarrow> session \<Rightarrow> result" where
  "syncInterest pub g =
     (case relinquish pub (keys (sources g)) g of
        (g1, e, False) \<Rightarrow> (g1, e)
      | (g1, _, True) \<Rightarrow>
          (case active g1 of
             None \<Rightarrow> (g1, None)
           | Some b \<Rightarrow>
               if surfaceActive g1 \<and> \<not> bSurface (hp g1 b) \<and> bboot (hp g1 b) \<noteq> [] \<and> stream (hp g1 b)
               then setInterest pub b True g1 else (g1, None)))"

definition resumeFence :: "(session \<Rightarrow> result) \<Rightarrow> session \<Rightarrow> result" where
  "resumeFence pub g =
     (if \<not> fencePending g \<or> fenceSource g \<noteq> None then (g, None)
      else case active g of
        None \<Rightarrow>
          write_out (control ''endpoint.presentation.ready.v1'' (fence g)) (g\<lparr>fence := [], fencePending := False\<rparr>)
      | Some a \<Rightarrow>
          if surfaceActive g \<and> \<not> bSurface (hp g a) then (g, None)
          else
            (let g1 = g\<lparr>fenceSource := Some a, fenceUntil := clk g + 10 * second\<rparr>
             in send pub (Some a) (control ''endpoint.presentation.sync.v1'' (fence g1)) g1))"

section \<open>Publication\<close>

definition choose_active :: "session \<Rightarrow> result" where
  "choose_active g =
     (case (active g, snapshotIDs g) of
        (None, i # is) \<Rightarrow> replayEffects (g\<lparr>active := map_of (sources g) i\<rparr>)
      | _ \<Rightarrow> (g, None))"

definition publish_body :: "(session \<Rightarrow> result) \<Rightarrow> session \<Rightarrow> result" where
  "publish_body pub g =
     andthen (andthen (andthen (andthen (choose_active g) (syncInterest pub))
       (\<lambda>g1. let g2 = g1\<lparr>srevision := srevision g1 + 1\<rparr>
             in jsonControl ''shell.snapshot.v1'' (JObj (finish_aggregate g2 (aggregate g1))) g2))
       sendSurface)
       (resumeFence pub)"

fun publish_fuel :: "nat \<Rightarrow> session \<Rightarrow> result" where
  "publish_fuel 0 g = (g, Some EFuel)"
| "publish_fuel (Suc n) g = publish_body (publish_fuel n) g"

definition publish :: "session \<Rightarrow> result" where
  "publish g = publish_fuel (Suc (length (sources g))) g"

end
