(* ===== verification/Gateway.thy ===== *)
theory Gateway
  imports Publish
begin

text \<open>
  The event loop of \<open>gateway.go\<close>: frames from a source (\<open>server\<close>), frames from the viewer
  (\<open>client\<close>), the periodic \<open>refresh\<close> against the catalog of visible sessions, and \<open>Serve\<close>, which
  dispatches the events. The loops over Go maps visit the keys present when the loop starts and
  skip those deleted before their turn, as the language specifies.
\<close>

section \<open>Frames from a source\<close>

definition source_prefix :: "session \<Rightarrow> source \<Rightarrow> bytes \<Rightarrow> bytes" where
  "source_prefix g s bt =
     ''g'' @ hex (take 8 (sha256 (env g) (src_id s @ [CHR 0x00] @ src_gen s @ [CHR 0x00] @ bt))) @ ''/''"

definition accept_welcome :: "nat \<Rightarrow> (bytes \<times> json) list \<Rightarrow> session \<Rightarrow> result" where
  "accept_welcome b v g =
     (if welcomed (hp g b) \<or> validateWelcome v \<noteq> None then (g, Some protocolFailure)
      else (upd b (\<lambda>x. x\<lparr>welcomed := True,
                methods := methods x @ filter allowedMethod
                  (map (\<lambda>m. string_val (Some m)) (array (map_of v ''methods'')))\<rparr>) g, None))"

definition accept_snapshot :: "nat \<Rightarrow> (bytes \<times> json) list \<Rightarrow> session \<Rightarrow> result" where
  "accept_snapshot b v g =
     (let bt = string_val (map_of v ''boot_id''); x = hp g b in
      if \<not> welcomed x \<or> bt = [] \<or> length bt > 128 \<or> (bboot x \<noteq> [] \<and> bboot x \<noteq> bt)
      then (g, Some protocolFailure)
      else publish (upd b (\<lambda>x. x\<lparr>bboot := bt, bprefix := source_prefix g (src x) bt,
                     snapshot := Some v, initializeBy := None\<rparr>) g))"

definition server_control :: "nat \<Rightarrow> bytes \<Rightarrow> decoder \<Rightarrow> session \<Rightarrow> result" where
  "server_control b p d g =
     (case text_dec d of (kind, d1) \<Rightarrow>
      case text_dec d1 of (data, d2) \<Rightarrow>
        if derr d2 \<or> pos d2 \<noteq> length p then (g, Some protocolFailure)
        else if kind = ''endpoint.presentation.ready.v1'' then
          (if fenceSource g = Some b \<and> data = fence g
           then write_out (control kind data) (g\<lparr>fence := [], fencePending := False, fenceSource := None\<rparr>)
           else (g, None))
        else if kind \<noteq> ''endpoint.welcome.v1'' \<and> kind \<noteq> ''shell.snapshot.v1'' then
          (if has_prefix kind ''endpoint.surface-'' \<or> has_prefix kind ''shell.surface.'' \<or>
              has_prefix kind ''shell.snapshot.''
           then (g, Some protocolFailure) else (g, None))
        else
          (case (if length data > 256 * 1024 then None else object (dec (json (env g)) data)) of
             None \<Rightarrow> (g, Some protocolFailure)
           | Some v \<Rightarrow>
               if kind = ''endpoint.welcome.v1'' then accept_welcome b v g else accept_snapshot b v g))"

definition server_surface :: "nat \<Rightarrow> u64 \<Rightarrow> bytes \<Rightarrow> decoder \<Rightarrow> session \<Rightarrow> result" where
  "server_surface b tag p d g =
     (if \<not> welcomed (hp g b) \<or> snapshot (hp g b) = None then (g, Some protocolFailure)
      else
        (case text_dec d of (bt, d1) \<Rightarrow>
           if bt \<noteq> bboot (hp g b) \<or> derr d1 then (g, Some protocolFailure)
           else
             (case num d1 of (projection, d2) \<Rightarrow>
                if surface p (boot g) (srevision g) (\<lambda>i. i) = None then (g, Some protocolFailure)
                else
                  (case update_surface p (bframe (hp g b)) of (s, ok) \<Rightarrow>
                     let g1 = upd b (\<lambda>x. x\<lparr>bframe := s\<rparr>) g in
                     if \<not> ok then (g1, Some protocolFailure)
                     else
                       (let g2 = (if bSurface (hp g1 b) \<and> projection = snapshot_revision g1 b
                                  then renderProgress b (upd b (\<lambda>x. x\<lparr>renderReady := True\<rparr>) g1) else g1)
                        in if tag = 19 \<and> active g2 = Some b then sendPatch b p g2
                           else if active g2 = Some b then sendSurface g2
                           else if active g2 = None then blankSurface g2
                           else (g2, None))))))"

text \<open>A completed response: the acknowledgement of a surface change, or the answer to a request.\<close>

definition finish_response :: "nat \<Rightarrow> bytes option \<Rightarrow> bytes \<Rightarrow> session \<Rightarrow> result" where
  "finish_response b consumer data g =
     (case dec (json (env g)) data of
        None \<Rightarrow> (g, Some protocolFailure)
      | Some v \<Rightarrow>
          (case consumer of
             None \<Rightarrow>
               (if object (Some v) = None \<or> not_nil (member (object (Some v)) ''error'')
                then (g, Some (EUpstream ''publisher rejected surface interest''))
                else andthen (syncInterest publish (renderProgress b g)) (resumeFence publish))
           | Some c \<Rightarrow>
               (case object (Some (rename_json (with_prefix g b) v)) of
                  None \<Rightarrow> (g, Some protocolFailure)
                | Some obj \<Rightarrow> response c (JObj (put ''id'' (JStr c) obj)) g)))"

text \<open>One chunk of a response, decoded: late answers to expired requests are drained, everything else
  must answer an operation pending at this very source.\<close>

definition deliver :: "nat \<Rightarrow> bytes \<Rightarrow> bool \<Rightarrow> bytes \<Rightarrow> session \<Rightarrow> result" where
  "deliver b ident final data g =
     (case map_of (retired g) ident of
        Some owner \<Rightarrow>
          (if owner \<noteq> b then (g, Some protocolFailure)
           else if final then (g\<lparr>retired := del ident (retired g)\<rparr>, None)
           else (g, None))
      | None \<Rightarrow>
          (if map_of (pending g) ident \<noteq> Some b then (g, Some protocolFailure)
           else
             (let ch = chunks (hp g b);
                  part = (case map_of ch ident of None \<Rightarrow> [] | Some v \<Rightarrow> v)
              in if length data + sum_list (map length (vals ch)) > MaxFrame \<or>
                    (part = [] \<and> length ch \<ge> maxRequests + maxInternalRequests)
                 then (g, Some protocolFailure)
                 else if \<not> final
                 then (upd b (\<lambda>x. x\<lparr>chunks := put ident (part @ data) ch\<rparr>) g, None)
                 else finish_response b (map_of (requestIDs g) ident) (part @ data)
                        (drop_pending ident (upd b (\<lambda>x. x\<lparr>chunks := del ident ch\<rparr>) g)))))"

definition server_response :: "nat \<Rightarrow> bytes \<Rightarrow> decoder \<Rightarrow> session \<Rightarrow> result" where
  "server_response b p d g =
     (case text_dec d of (bt, d1) \<Rightarrow>
      case text_dec d1 of (ident, d2) \<Rightarrow>
      case raw 1 d2 of (final, d3) \<Rightarrow>
      case text_dec d3 of (data, d4) \<Rightarrow>
        if derr d4 \<or> pos d4 \<noteq> length p \<or> bt \<noteq> bboot (hp g b) \<or> length final \<noteq> 1 \<or>
           of_char (final ! 0) > (1::nat)
        then (g, Some protocolFailure)
        else deliver b ident (final = [CHR 0x01]) data g)"

definition server_effect :: "nat \<Rightarrow> u64 \<Rightarrow> bytes \<Rightarrow> session \<Rightarrow> result" where
  "server_effect b tag p g =
     (let g1 = (if tag = 6 \<or> tag = 8 \<or> tag = 17
                then upd b (\<lambda>x. x\<lparr>effects := put tag p (effects x)\<rparr>) g else g)
      in if active g1 = Some b \<and> surfaceActive g1 then write_out p g1 else (g1, None))"

definition server :: "nat \<Rightarrow> bytes \<Rightarrow> session \<Rightarrow> result" where
  "server b p g =
     (case num (decoder_of p) of (tag, d) \<Rightarrow>
        if tag = 20 then server_control b p d g
        else if tag = 13 \<or> tag = 19 then server_surface b tag p d g
        else if tag = 18 then server_response b p d g
        else if tag = 3 then (g, Some (EUpstream ''EOF''))
        else if tag = 4 \<or> tag = 14 then
          (let e = notification (unat tag) d in
           if derr e \<or> pos e \<noteq> length p then (g, Some protocolFailure) else (g, None))
        else if tag \<in> {5, 6, 8, 9, 15, 17} then server_effect b tag p g
        else (g, Some protocolFailure))"

section \<open>Frames from the viewer\<close>

definition resolve :: "session \<Rightarrow> bytes \<Rightarrow> (nat \<times> bytes) option" where
  "resolve g ident =
     (case List.find (\<lambda>(k, b). bprefix (hp g b) \<noteq> [] \<and> has_prefix ident (bprefix (hp g b))) (sources g) of
        None \<Rightarrow> None
      | Some (k, b) \<Rightarrow> Some (b, trim_prefix ident (bprefix (hp g b))))"

definition client_control :: "decoder \<Rightarrow> session \<Rightarrow> result" where
  "client_control d g =
     (case text_dec d of (kind, d1) \<Rightarrow>
      case text_dec d1 of (data, d2) \<Rightarrow>
        if derr d2 then (g, Some EWire)
        else if kind = ''endpoint.presentation.sync.v1'' then
          (if length data > 4096 then (g, Some EWire)
           else if active g = None then write_out (control ''endpoint.presentation.ready.v1'' data) g
           else if fencePending g then (g, Some EWire)
           else resumeFence publish (g\<lparr>fence := data, fencePending := True, fenceSource := None\<rparr>))
        else if kind = ''endpoint.health.ping.v1'' then write_out (control ''endpoint.health.pong.v1'' data) g
        else (g, None))"

text \<open>Input for one pane (tags 13, 14) and focused input (tag 2) go to the active source only.\<close>

definition client_input :: "bytes \<Rightarrow> bytes \<Rightarrow> decoder \<Rightarrow> session \<Rightarrow> result" where
  "client_input p head d g =
     (case text_dec d of (ident, d1) \<Rightarrow>
        (case resolve g ident of
           None \<Rightarrow> (g, None)
         | Some (b, loc) \<Rightarrow>
             if active g \<noteq> Some b \<or> \<not> surfaceActive g then (g, None)
             else send publish (Some b) (head @ str loc @ drop (pos d1) p) g))"

text \<open>The closure that resolves the identifiers of a request: the one source they all name.\<close>

definition resolve_target :: "session \<Rightarrow> bytes \<Rightarrow> nat option \<times> bool \<Rightarrow> bytes \<times> (nat option \<times> bool)" where
  "resolve_target g ident s =
     (case resolve g ident of
        None \<Rightarrow> ([], (fst s, True))
      | Some (b, loc) \<Rightarrow>
          if fst s \<noteq> None \<and> fst s \<noteq> Some b then ([], (fst s, True)) else (loc, (Some b, snd s)))"

definition set_surface :: "bytes \<Rightarrow> bool \<Rightarrow> session \<Rightarrow> result" where
  "set_surface ident act g =
     (let g1 = g\<lparr>surfaceActive := act\<rparr> in
      andthen (andthen (if act then replayEffects g1 else (g1, None)) publish)
        (\<lambda>g2. response ident (JObj [(''id'', JStr ident), (''result'', JObj [
            (''type'', JStr ''client_shell_surface_set''), (''active'', JBool act),
            (''projection_revision'', JNum (of_nat (unat (srevision g2))))])]) g2))"

definition request_frame :: "session \<Rightarrow> nat \<Rightarrow> (bytes \<times> json) list \<Rightarrow> bytes" where
  "request_frame g t v = CHR 0x0F # str (bboot (hp g t)) @ str (enc (json (env g)) (JObj v))"

definition forward_request :: "bytes \<Rightarrow> nat \<Rightarrow> (bytes \<times> json) list \<Rightarrow> session \<Rightarrow> result" where
  "forward_request ident t v g =
     (if \<not> current g t then failure ident ''sharing disconnected'' g
      else if requestSequence g = - 1 then failure ident ''request identity space exhausted'' g
      else
        (let g1 = g\<lparr>requestSequence := requestSequence g + 1\<rparr>;
             wire = requestPrefix @ decimal (unat (requestSequence g1));
             g2 = g1\<lparr>pending := put wire t (pending g1), requestIDs := put wire ident (requestIDs g1),
                     deadlines := put wire (clk g1 + operationTimeout) (deadlines g1)\<rparr>
         in send publish (Some t) (request_frame g2 t (put ''id'' (JStr wire) v)) g2))"

definition route_request :: "bytes \<Rightarrow> bytes \<Rightarrow> (bytes \<times> json) list \<Rightarrow> session \<Rightarrow> result" where
  "route_request ident meth v g =
     (case transform_members (resolve_target g) v (None, False) of (v', target, invalid) \<Rightarrow>
        if invalid then failure ident ''unknown or mixed sharing targets'' g
        else
          (case (if target = None then active g else target) of
             None \<Rightarrow> failure ident ''operation unavailable on this sharing'' g
           | Some t \<Rightarrow>
               if meth \<notin> set (methods (hp g t)) then failure ident ''operation unavailable on this sharing'' g
               else if length (requestIDs g) + length (retired g) \<ge> maxRequests
               then failure ident ''too many outstanding or expired operations'' g
               else
                 andthen
                   (if has_suffix meth ''.focus'' \<and> active g \<noteq> Some t
                    then andthen (replayEffects (g\<lparr>active := Some t\<rparr>)) publish else (g, None))
                   (forward_request ident t v')))"

definition client_request :: "bytes \<Rightarrow> decoder \<Rightarrow> session \<Rightarrow> result" where
  "client_request p d g =
     (case text_dec d of (bt, d1) \<Rightarrow>
      case text_dec d1 of (request, d2) \<Rightarrow>
        if derr d2 \<or> pos d2 \<noteq> length p then (g, Some EWire)
        else
          (case object (dec (json (env g)) request) of
             None \<Rightarrow> (g, Some EWire)
           | Some v \<Rightarrow>
               (let ident = string_val (map_of v ''id''); meth = string_val (map_of v ''method'') in
                if ident = [] \<or> length ident > 128 then (g, Some EWire)
                else if ident \<in> set (vals (requestIDs g)) then (g, Some EWire)
                else if bt \<noteq> boot g then failure ident ''stale Hive endpoint'' g
                else if meth = ''client_shell.surface.set'' then
                  (case member (object (map_of v ''params'')) ''active'' of
                     Some (JBool act) \<Rightarrow> set_surface ident act g
                   | _ \<Rightarrow> failure ident ''active must be boolean'' g)
                else if \<not> allowedMethod meth
                then failure ident ''operation is not supported by the Hive gateway'' g
                else route_request ident meth v g)))"

definition client_resize :: "bytes \<Rightarrow> session \<Rightarrow> result" where
  "client_resize p g =
     (case resize_ok p of
        None \<Rightarrow> (g, Some EWire)
      | Some (c, r) \<Rightarrow>
          (let g1 = g\<lparr>cols := c, rows := r, resize := p\<rparr> in
           if active g1 \<noteq> None \<and> surfaceActive g1 then send publish (active g1) p g1
           else blankSurface g1))"

fun broadcast :: "bytes \<Rightarrow> bytes list \<Rightarrow> session \<Rightarrow> result" where
  "broadcast p [] g = (g, None)"
| "broadcast p (k # ks) g =
     (case map_of (sources g) k of
        None \<Rightarrow> broadcast p ks g
      | Some b \<Rightarrow>
          if stream (hp g b) then andthen (send publish (Some b) p g) (broadcast p ks)
          else broadcast p ks g)"

definition client :: "bytes \<Rightarrow> session \<Rightarrow> result" where
  "client p g =
     (case num (decoder_of p) of (tag, d) \<Rightarrow>
        if tag = 20 then client_control d g
        else if tag = 13 \<or> tag = 14 then client_input p (number tag) d g
        else if tag = 2 then
          (case num d of (target, d1) \<Rightarrow>
             if target \<noteq> 1 \<and> target \<noteq> 2 then (g, None)
             else client_input p (number tag @ number target) d1 g)
        else if tag = 15 then client_request p d g
        else if tag = 12 then client_resize p g
        else if tag = 17 \<or> tag = 19 then
          andthen (broadcast p (keys (sources g)) g)
            (\<lambda>g1. if active g1 = None then blankSurface g1 else (g1, None))
        else if tag = 18 then
          (if active g \<noteq> None then send publish (active g) p g else (g, None))
        else if tag = 4 then (g, Some EEOF)
        else (g, Some EWire))"

section \<open>The periodic refresh\<close>

definition visible_list :: "session \<Rightarrow> source list" where
  "visible_list g = take MaxSources (sort_key src_id (catalog g))"

definition visible :: "source list \<Rightarrow> (bytes, source) gomap" where
  "visible ss = foldl (\<lambda>m s. put (src_id s) s m) [] ss"

fun retire_hidden :: "(bytes, source) gomap \<Rightarrow> bytes list \<Rightarrow> session \<times> bool \<Rightarrow> session \<times> bool" where
  "retire_hidden vis [] x = x"
| "retire_hidden vis (k # ks) (g, ch) =
     (case map_of (sources g) k of
        None \<Rightarrow> retire_hidden vis ks (g, ch)
      | Some b \<Rightarrow>
          if (case map_of vis k of None \<Rightarrow> True | Some s \<Rightarrow> src_gen (src (hp g b)) \<noteq> src_gen s)
          then retire_hidden vis ks (remove b g, True)
          else retire_hidden vis ks (g, ch))"

definition forget_recoveries :: "(bytes, source) gomap \<Rightarrow> session \<Rightarrow> session" where
  "forget_recoveries vis g =
     g\<lparr>recoveries := filter (\<lambda>(k, r). case map_of vis k of None \<Rightarrow> False | Some s \<Rightarrow> rec_gen r = src_gen s)
        (recoveries g)\<rparr>"

fun expire_starting :: "bytes list \<Rightarrow> session \<times> bool \<Rightarrow> session \<times> bool" where
  "expire_starting [] x = x"
| "expire_starting (k # ks) (g, ch) =
     (case map_of (sources g) k of
        None \<Rightarrow> expire_starting ks (g, ch)
      | Some b \<Rightarrow>
          (let g1 = resetRecovery b g in
           case initializeBy (hp g1 b) of
             Some t \<Rightarrow>
               if clk g1 \<ge> t
               then expire_starting ks (fail b (EUpstream ''publisher initialization timed out'') g1, True)
               else expire_starting ks (g1, ch)
           | None \<Rightarrow> expire_starting ks (g1, ch)))"

definition expire_fence :: "session \<times> bool \<Rightarrow> session \<times> bool" where
  "expire_fence x =
     (case x of (g, ch) \<Rightarrow>
        case fenceSource g of
          Some b \<Rightarrow>
            if clk g \<ge> fenceUntil g
            then (fail b (EUpstream ''publisher presentation timed out'') g, True) else (g, ch)
        | None \<Rightarrow> (g, ch))"

text \<open>The code uses \<open>g.pending[id]\<close> without a nil check: \<open>None\<close> is the panic that would follow.\<close>

fun expire_operations :: "bytes list \<Rightarrow> session \<times> bool \<Rightarrow> (session \<times> bool) option" where
  "expire_operations [] x = Some x"
| "expire_operations (i # is) (g, ch) =
     (case map_of (deadlines g) i of
        None \<Rightarrow> expire_operations is (g, ch)
      | Some t \<Rightarrow>
          if clk g < t then expire_operations is (g, ch)
          else
            (case map_of (pending g) i of
               None \<Rightarrow> None
             | Some b \<Rightarrow>
                 (let consumer = map_of (requestIDs g) i;
                      g1 = upd b (\<lambda>x. x\<lparr>chunks := del i (chunks x)\<rparr>) (drop_pending i g)
                  in case consumer of
                       None \<Rightarrow>
                         expire_operations is
                           (fail b (EUpstream ''publisher surface acknowledgement timed out'') g1, True)
                     | Some c \<Rightarrow>
                         expire_operations is
                           (failure_or_cancel c ''sharing operation timed out''
                              (g1\<lparr>retired := put i b (retired g1)\<rparr>), ch))))"

definition new_backend :: "source \<Rightarrow> nat \<Rightarrow> backend" where
  "new_backend s now =
     \<lparr>effects = [], welcomed = False, bSurface = False, src = s, stream = False, bboot = [], bprefix = [],
      snapshot = None, methods = [], bframe = empty_surface, chunks = [], bcancelled = False,
      initializeBy = Some (now + initializationTimeout), renderReady = False, stableSince = None,
      closed = False, wlog = [], wplan = []\<rparr>"

definition open_source :: "source \<Rightarrow> session \<Rightarrow> session" where
  "open_source s g =
     g\<lparr>hp := (hp g)(nextb g := new_backend s (clk g)), nextb := nextb g + 1,
       sources := put (src_id s) (nextb g) (sources g)\<rparr>"

fun admit :: "source list \<Rightarrow> session \<times> bool \<Rightarrow> session \<times> bool" where
  "admit [] x = x"
| "admit (s # ss) (g, ch) =
     (case map_of (sources g) (src_id s) of
        Some b \<Rightarrow>
          (let old = src (hp g b) in
           if src_name old \<noteq> src_name s \<or> src_label old \<noteq> src_label s
           then admit ss (upd b (\<lambda>x. x\<lparr>src := old\<lparr>src_name := src_name s, src_label := src_label s\<rparr>\<rparr>) g, True)
           else admit ss (g, ch))
      | None \<Rightarrow>
          (case map_of (recoveries g) (src_id s) of
             Some r \<Rightarrow>
               if blocked r \<or> clk g < retryAt r then admit ss (g, ch)
               else admit ss (open_source s g, ch)
           | None \<Rightarrow> admit ss (open_source s g, ch)))"

definition publish_or_cancel :: "session \<Rightarrow> session" where
  "publish_or_cancel g = (case publish g of (g', None) \<Rightarrow> g' | (g', Some _) \<Rightarrow> g'\<lparr>cancelled := True\<rparr>)"

definition refresh :: "session \<Rightarrow> result" where
  "refresh g =
     (let ss = visible_list g; vis = visible ss in
      case retire_hidden vis (keys (sources g)) (g, False) of (g1, c1) \<Rightarrow>
      let g2 = forget_recoveries vis g1 in
      case expire_fence (expire_starting (keys (sources g2)) (g2, c1)) of (g3, c3) \<Rightarrow>
      case expire_operations (keys (deadlines g3)) (g3, c3) of
        None \<Rightarrow> (g3, Some EPanic)
      | Some x \<Rightarrow>
          (case admit ss x of (g5, c5) \<Rightarrow> (if c5 then publish_or_cancel g5 else g5, None)))"

section \<open>The event loop\<close>

datatype event =
    Tick
  | FromClient bytes
  | ClientGone gerr
  | Opened nat
  | FromSource nat bytes
  | SourceGone nat gerr

fun is_upstream :: "gerr \<Rightarrow> bool" where
  "is_upstream (EFailure _ _) = True"
| "is_upstream (EUpstream _) = True"
| "is_upstream _ = False"

text \<open>One turn of the loop; an error is what \<open>Serve\<close> returns.\<close>

fun handle :: "event \<Rightarrow> session \<Rightarrow> result" where
  "handle Tick g = refresh g"
| "handle (FromClient p) g = client p g"
| "handle (ClientGone e) g = (g, Some e)"
| "handle (Opened b) g =
     (if \<not> current g b then (upd b (\<lambda>x. x\<lparr>closed := True\<rparr>) g, None)
      else (upd b (\<lambda>x. x\<lparr>stream := True, wlog := wlog x @ [hello g]\<rparr>) g, None))"
| "handle (FromSource b p) g =
     (if \<not> current g b then (g, None)
      else (case server b p g of
              (g1, None) \<Rightarrow> (g1, None)
            | (g1, Some e) \<Rightarrow> if is_upstream e then publish (fail b e g1) else (g1, Some e)))"
| "handle (SourceGone b e) g = (if \<not> current g b then (g, None) else publish (fail b e g))"

text \<open>\<open>Serve\<close> up to the loop: a hello frame, the negotiation, the welcome, a first publication.\<close>

definition new_session :: "environment \<Rightarrow> source list \<Rightarrow> nat \<Rightarrow> bytes \<Rightarrow> session" where
  "new_session e cat now nonce =
     \<lparr>env = e, hp = (\<lambda>_. new_backend \<lparr>src_id = [], src_name = [], src_label = [], src_gen = []\<rparr> 0), nextb = 0,
      catalog = cat, clk = now, cancelled = False, olog = [], oplan = [], sources = [],
      recoveries = [], active = None, boot = ''hive-'' @ hex nonce, srevision = 0, hello = [], resize = [],
      surfaceActive = False, surfaceRevision = 0, interestSequence = 0, pending = [], fence = [],
      fencePending = False, fenceSource = None, fenceUntil = 0, deadlines = [], cols = 0, rows = 0,
      requestSequence = 0, requestIDs = [], retired = [], renderedSource = None, renderedRevision = 0,
      renderedSurface = 0, renderedProject = 0\<rparr>"

definition hello_data :: "bytes \<Rightarrow> bytes option" where
  "hello_data b =
     (case num (decoder_of b) of (tag, d1) \<Rightarrow>
      if tag \<noteq> 20 then None
      else case text_dec d1 of (kind, d2) \<Rightarrow>
      if kind \<noteq> ''endpoint.hello.v1'' then None
      else case text_dec d2 of (data, d3) \<Rightarrow>
        if derr d3 \<or> pos d3 \<noteq> length b then None else Some data)"

definition refusal :: "bytes \<Rightarrow> (bytes \<times> json) list" where
  "refusal message =
     put ''error'' (JObj [(''code'', JStr ''incompatible_endpoint''), (''message'', JStr message)])
       (put ''capabilities'' (strings []) (put ''methods'' (strings []) welcomeValue))"

definition serve :: "bytes \<Rightarrow> session \<Rightarrow> result" where
  "serve b g =
     (case hello_data b of
        None \<Rightarrow> (g, Some EWire)
      | Some data \<Rightarrow>
          (case negotiateHello (json (env g)) data of
             Inl message \<Rightarrow>
               andthen (jsonControl ''endpoint.welcome.v1'' (JObj (refusal message)) g)
                 (\<lambda>g1. (g1, Some (EText message)))
           | Inr n \<Rightarrow>
               (let g1 = g\<lparr>surfaceActive := nActive n, cols := nCols n, rows := nRows n, resize := nResize n,
                           hello := nHello n\<rparr>
                in andthen (andthen (jsonControl ''endpoint.welcome.v1'' (JObj welcomeValue) g1) publish)
                     refresh)))"

end
