(* ===== verification/Invariant.thy ===== *)
theory Invariant
  imports Publish
begin

text \<open>
  The invariant of a gateway session: unique identifiers, no reference to a removed source, at most
  sixteen outstanding surface changes and 64 outstanding or expired requests, wire identifiers in
  reserved name spaces that are never reused. \<open>excl\<close> says that at most one source holds the layout
  authority, \<open>own\<close> that only the active one does. The lemmas show that removing a source, the only
  way a failure changes the session, keeps all of it.
\<close>

section \<open>Wire identifiers\<close>

lemma prefixes_differ [simp]: "interestPrefix @ x \<noteq> requestPrefix @ y" "requestPrefix @ y \<noteq> interestPrefix @ x"
  by (simp_all add: interestPrefix_def requestPrefix_def)

section \<open>The invariant\<close>

definition live :: "session \<Rightarrow> nat \<Rightarrow> bool" where
  "live g b \<longleftrightarrow> b \<in> set (vals (sources g))"

text \<open>The outstanding surface changes: pending operations no viewer request stands behind.\<close>

definition internal :: "session \<Rightarrow> (bytes \<times> nat) list" where
  "internal g = filter (\<lambda>e. fst e \<notin> set (keys (requestIDs g))) (pending g)"

definition wellformed :: "session \<Rightarrow> bool" where
  "wellformed g \<longleftrightarrow>
     distinct (keys (sources g)) \<and> distinct (keys (pending g)) \<and> distinct (keys (requestIDs g)) \<and>
     distinct (keys (retired g)) \<and>
     (\<forall>e \<in> set (sources g). key_of g (snd e) = fst e \<and> snd e < nextb g) \<and>
     (\<forall>b. active g = Some b \<longrightarrow> live g b) \<and> (\<forall>b. fenceSource g = Some b \<longrightarrow> live g b) \<and>
     (\<forall>e \<in> set (pending g). live g (snd e)) \<and> (\<forall>e \<in> set (retired g). live g (snd e)) \<and>
     set (keys (requestIDs g)) \<subseteq> set (keys (pending g)) \<and>
     set (keys (deadlines g)) = set (keys (pending g)) \<and>
     set (keys (retired g)) \<inter> set (keys (pending g)) = {} \<and>
     length (internal g) \<le> maxInternalRequests \<and>
     length (requestIDs g) + length (retired g) \<le> maxRequests \<and>
     (\<forall>i \<in> set (keys (requestIDs g)) \<union> set (keys (retired g)).
        \<exists>n. n \<le> unat (requestSequence g) \<and> i = requestPrefix @ decimal n) \<and>
     (\<forall>i \<in> set (keys (internal g)). \<exists>n. i = interestPrefix @ decimal n)"

lemma wellformedD:
  assumes "wellformed g"
  shows "distinct (keys (sources g))" "distinct (keys (pending g))" "distinct (keys (requestIDs g))"
    "distinct (keys (retired g))"
    "\<And>e. e \<in> set (sources g) \<Longrightarrow> key_of g (snd e) = fst e" "\<And>e. e \<in> set (sources g) \<Longrightarrow> snd e < nextb g"
    "\<And>b. active g = Some b \<Longrightarrow> live g b" "\<And>b. fenceSource g = Some b \<Longrightarrow> live g b"
    "\<And>e. e \<in> set (pending g) \<Longrightarrow> live g (snd e)" "\<And>e. e \<in> set (retired g) \<Longrightarrow> live g (snd e)"
    "fst ` set (requestIDs g) \<subseteq> fst ` set (pending g)" "fst ` set (deadlines g) = fst ` set (pending g)"
    "fst ` set (retired g) \<inter> fst ` set (pending g) = {}"
    "length (internal g) \<le> maxInternalRequests" "length (requestIDs g) + length (retired g) \<le> maxRequests"
    "\<And>i. i \<in> fst ` set (requestIDs g) \<union> fst ` set (retired g) \<Longrightarrow>
       \<exists>n. n \<le> unat (requestSequence g) \<and> i = requestPrefix @ decimal n"
    "\<And>i. i \<in> fst ` set (internal g) \<Longrightarrow> \<exists>n. i = interestPrefix @ decimal n"
proof -
  note A = assms [unfolded wellformed_def list.set_map]
  show "distinct (keys (sources g))" "distinct (keys (pending g))" "distinct (keys (requestIDs g))"
      "distinct (keys (retired g))" "fst ` set (requestIDs g) \<subseteq> fst ` set (pending g)"
      "fst ` set (deadlines g) = fst ` set (pending g)" "fst ` set (retired g) \<inter> fst ` set (pending g) = {}"
      "length (internal g) \<le> maxInternalRequests" "length (requestIDs g) + length (retired g) \<le> maxRequests"
    using A by - (elim conjE, assumption)+
  show "\<And>e. e \<in> set (sources g) \<Longrightarrow> key_of g (snd e) = fst e" "\<And>e. e \<in> set (sources g) \<Longrightarrow> snd e < nextb g"
      "\<And>e. e \<in> set (pending g) \<Longrightarrow> live g (snd e)" "\<And>e. e \<in> set (retired g) \<Longrightarrow> live g (snd e)"
      "\<And>i. i \<in> fst ` set (requestIDs g) \<union> fst ` set (retired g) \<Longrightarrow>
         \<exists>n. n \<le> unat (requestSequence g) \<and> i = requestPrefix @ decimal n"
      "\<And>i. i \<in> fst ` set (internal g) \<Longrightarrow> \<exists>n. i = interestPrefix @ decimal n"
    using A by - (elim conjE, drule (1) bspec, (elim conjE)?, assumption)+
  show "\<And>b. active g = Some b \<Longrightarrow> live g b" "\<And>b. fenceSource g = Some b \<Longrightarrow> live g b"
    using A by - (elim conjE, drule spec, drule (1) mp, assumption)+
qed

lemma wellformedI:
  assumes "distinct (keys (sources g))" "distinct (keys (pending g))" "distinct (keys (requestIDs g))"
    "distinct (keys (retired g))"
    "\<And>e. e \<in> set (sources g) \<Longrightarrow> key_of g (snd e) = fst e" "\<And>e. e \<in> set (sources g) \<Longrightarrow> snd e < nextb g"
    "\<And>b. active g = Some b \<Longrightarrow> live g b" "\<And>b. fenceSource g = Some b \<Longrightarrow> live g b"
    "\<And>e. e \<in> set (pending g) \<Longrightarrow> live g (snd e)" "\<And>e. e \<in> set (retired g) \<Longrightarrow> live g (snd e)"
    "fst ` set (requestIDs g) \<subseteq> fst ` set (pending g)" "fst ` set (deadlines g) = fst ` set (pending g)"
    "fst ` set (retired g) \<inter> fst ` set (pending g) = {}"
    "length (internal g) \<le> maxInternalRequests" "length (requestIDs g) + length (retired g) \<le> maxRequests"
    "\<And>i. i \<in> fst ` set (requestIDs g) \<union> fst ` set (retired g) \<Longrightarrow>
       \<exists>n. n \<le> unat (requestSequence g) \<and> i = requestPrefix @ decimal n"
    "\<And>i. i \<in> fst ` set (internal g) \<Longrightarrow> \<exists>n. i = interestPrefix @ decimal n"
  shows "wellformed g"
  unfolding wellformed_def list.set_map by (intro conjI ballI allI impI assms; assumption)

text \<open>Layout authority: at most one source holds it; and, once transferred, it is the active one.\<close>

definition excl :: "session \<Rightarrow> bool" where
  "excl g \<longleftrightarrow> (\<forall>a b. live g a \<and> live g b \<and> bSurface (hp g a) \<and> bSurface (hp g b) \<longrightarrow> a = b)"

definition own :: "session \<Rightarrow> bool" where
  "own g \<longleftrightarrow> (\<forall>b. live g b \<and> bSurface (hp g b) \<longrightarrow> active g = Some b)"

lemma own_excl: "own g \<Longrightarrow> excl g"
  unfolding own_def excl_def by (metis option.inject)

text \<open>The part of the state these predicates read.\<close>

definition core :: "session \<Rightarrow> _" where
  "core g = ((key_of g, \<lambda>b. bSurface (hp g b), nextb g, sources g, active g),
     (fenceSource g, pending g, retired g, requestIDs g, deadlines g, requestSequence g))"

lemma core_live: "core g' = core g \<Longrightarrow> live g' = live g"
  by (rule ext) (simp add: core_def live_def)

lemma core_internal: "core g' = core g \<Longrightarrow> internal g' = internal g"
  by (simp add: core_def internal_def)

lemma core_wellformed: "core g' = core g \<Longrightarrow> wellformed g' = wellformed g"
  unfolding wellformed_def using core_live [of g' g] core_internal [of g' g] by (simp add: core_def)

lemma core_surface: "core g' = core g \<Longrightarrow> bSurface (hp g' b) = bSurface (hp g b)"
  by (simp add: core_def fun_eq_iff)

lemma core_excl: "core g' = core g \<Longrightarrow> excl g' = excl g"
  unfolding excl_def using core_live [of g' g] core_surface [of g' g] by simp

lemma core_own: "core g' = core g \<Longrightarrow> own g' = own g"
  unfolding own_def using core_live [of g' g] core_surface [of g' g] by (simp add: core_def)

text \<open>What an operation that only ever removes sources keeps.\<close>

definition kept :: "session \<Rightarrow> session \<Rightarrow> bool" where
  "kept g g' \<longleftrightarrow> wellformed g' \<and> (\<forall>b. live g' b \<longrightarrow> live g b) \<and> length (sources g') \<le> length (sources g) \<and>
     key_of g' = key_of g \<and> nextb g' = nextb g \<and> requestSequence g' = requestSequence g \<and>
     length (requestIDs g') + length (retired g') \<le> length (requestIDs g) + length (retired g)"

definition safe :: "session \<Rightarrow> session \<Rightarrow> bool" where
  "safe g g' \<longleftrightarrow> kept g g' \<and> (excl g \<longrightarrow> excl g') \<and> (own g \<longrightarrow> own g')"

lemma kept_refl: "wellformed g \<Longrightarrow> kept g g"
  by (simp add: kept_def)

lemma kept_trans: "kept g h \<Longrightarrow> kept h k \<Longrightarrow> kept g k"
  by (auto simp: kept_def)

lemma kept_wellformed: "kept g g' \<Longrightarrow> wellformed g'"
  by (simp add: kept_def)

lemma safe_refl: "wellformed g \<Longrightarrow> safe g g"
  by (simp add: safe_def kept_refl)

lemma safe_trans: "safe g h \<Longrightarrow> safe h k \<Longrightarrow> safe g k"
  unfolding safe_def using kept_trans by blast

lemma safe_wellformed: "safe g g' \<Longrightarrow> wellformed g'"
  by (auto simp: safe_def intro: kept_wellformed)

lemma safe_length: "safe g g' \<Longrightarrow> length (sources g') \<le> length (sources g)"
  by (simp add: safe_def kept_def)

lemma safe_live: "safe g g' \<Longrightarrow> live g' b \<Longrightarrow> live g b"
  by (simp add: safe_def kept_def)

lemma core_safe: "core g' = core g \<Longrightarrow> wellformed g \<Longrightarrow> safe g g'"
  unfolding safe_def kept_def
  using core_wellformed [of g' g] core_excl [of g' g] core_own [of g' g] core_live [of g' g]
  by (simp add: core_def)

text \<open>The identifier of a live source finds it again.\<close>

lemma live_current: "wellformed g \<Longrightarrow> live g b \<longleftrightarrow> current g b"
proof
  assume w: "wellformed g" and "live g b"
  then obtain k where k: "(k, b) \<in> set (sources g)" by (auto simp: live_def)
  with w have "key_of g b = k" and d: "distinct (keys (sources g))" by (auto simp: wellformed_def)
  with k show "current g b" by (simp add: current_def)
next
  assume "current g b"
  then show "live g b" unfolding current_def live_def by (force dest: map_of_SomeD)
qed

section \<open>Operations that leave this part of the state alone\<close>

lemma core_upd: "src (f (hp g b)) = src (hp g b) \<Longrightarrow> bSurface (f (hp g b)) = bSurface (hp g b) \<Longrightarrow>
    core (upd b f g) = core g"
  by (auto simp: core_def upd_def key_of_def fun_eq_iff)

lemma core_fields [session_simps]:
  "core (g\<lparr>olog := x1\<rparr>) = core g" "core (g\<lparr>oplan := x2\<rparr>) = core g"
  "core (g\<lparr>cancelled := x3\<rparr>) = core g"
  "core (g\<lparr>recoveries := x4\<rparr>) = core g" "core (g\<lparr>srevision := v\<rparr>) = core g"
  "core (g\<lparr>surfaceRevision := v\<rparr>) = core g" "core (g\<lparr>renderedSource := x5\<rparr>) = core g"
  "core (g\<lparr>renderedRevision := v\<rparr>) = core g" "core (g\<lparr>renderedProject := v\<rparr>) = core g"
  "core (g\<lparr>renderedSurface := v\<rparr>) = core g" "core (g\<lparr>surfaceActive := x6\<rparr>) = core g"
  "core (g\<lparr>fence := x7\<rparr>) = core g" "core (g\<lparr>fencePending := x8\<rparr>) = core g"
  "core (g\<lparr>fenceUntil := x9\<rparr>) = core g" "core (g\<lparr>interestSequence := v\<rparr>) = core g"
  "core (g\<lparr>cols := v\<rparr>) = core g" "core (g\<lparr>rows := v\<rparr>) = core g" "core (g\<lparr>resize := x7\<rparr>) = core g"
  "core (g\<lparr>hello := x7\<rparr>) = core g"
  by (simp_all add: core_def key_of_def fun_eq_iff)

lemma andthen_split: "P (andthen r k) \<longleftrightarrow>
    (snd r = None \<longrightarrow> P (k (fst r))) \<and> (\<forall>e. snd r = Some e \<longrightarrow> P (fst r, Some e))"
  by (cases r) (auto simp: andthen_def split: option.split)

lemma andthen_core:
  "core (fst r) = core g \<Longrightarrow> (\<And>h. core h = core g \<Longrightarrow> core (fst (k h)) = core g) \<Longrightarrow>
     core (fst (andthen r k)) = core g"
  by (simp add: andthen_split [of "\<lambda>x. core (fst x) = core g"])

lemma core_write_out [session_simps]: "core (fst (write_out p g)) = core g"
  by (auto simp: write_out_def session_simps split: list.split bool.split)

lemma core_write_backend [session_simps]: "core (fst (write_backend b p g)) = core g"
  by (auto simp: write_backend_def core_upd split: list.split bool.split)

lemma core_response [session_simps]:
  "core (fst (jsonControl kind v g)) = core g" "core (fst (response i v g)) = core g"
  "core (fst (failure i m g)) = core g" "core (failure_or_cancel i m g) = core g"
proof -
  show f: "core (fst (failure i m g)) = core g"
    by (simp add: failure_def response_def session_simps)
  then show "core (failure_or_cancel i m g) = core g"
    by (auto simp: failure_or_cancel_def session_simps split: prod.split option.split)
qed (simp_all add: jsonControl_def response_def session_simps)

lemma core_blankSurface [session_simps]: "core (fst (blankSurface g)) = core g"
  by (simp add: blankSurface_def Let_def session_simps)

lemma core_replay_tags [session_simps]: "core (fst (replay_tags ts g)) = core g"
proof (induction ts arbitrary: g)
  case (Cons t ts)
  then show ?case by (simp add: Let_def) (rule andthen_core, simp_all add: session_simps)
qed simp

lemma core_replayEffects [session_simps]: "core (fst (replayEffects g)) = core g"
  by (simp add: replayEffects_def session_simps del: replay_tags.simps)

lemma core_sendSurface [session_simps]: "core (fst (sendSurface g)) = core g"
  unfolding sendSurface_def Let_def
  by (auto simp: session_simps split: option.split prod.split intro!: andthen_core)

lemma core_sendPatch [session_simps]: "core (fst (sendPatch b p g)) = core g"
  unfolding sendPatch_def Let_def
  by (auto simp: session_simps split: option.split prod.split intro!: andthen_core)

lemma core_renderProgress [session_simps]: "core (renderProgress b g) = core g"
  by (simp add: renderProgress_def Let_def core_upd)

lemma core_resetRecovery [session_simps]: "core (resetRecovery b g) = core g"
  by (simp add: resetRecovery_def session_simps split: option.split)

section \<open>Removing a source\<close>

text \<open>What \<open>remove\<close> does to this part of the state: everything of the source goes, nothing else.\<close>

lemma core_fields_of:
  assumes "core g' = core g"
  shows "key_of g' = key_of g" "nextb g' = nextb g" "sources g' = sources g" "active g' = active g"
    "fenceSource g' = fenceSource g" "pending g' = pending g" "retired g' = retired g"
    "requestIDs g' = requestIDs g" "deadlines g' = deadlines g" "requestSequence g' = requestSequence g"
    "bSurface (hp g' b) = bSurface (hp g b)"
  using assms by (simp_all add: core_def fun_eq_iff)

lemma key_of_upd: "src_id (src (f (hp g b))) = src_id (src (hp g b)) \<Longrightarrow> key_of (upd b f g) = key_of g"
  by (auto simp: key_of_def upd_def fun_eq_iff)

lemma key_of_fields: "key_of (g\<lparr>retired := r\<rparr>) = key_of g" "key_of (g\<lparr>sources := s\<rparr>) = key_of g"
  "key_of (g\<lparr>active := a\<rparr>) = key_of g" "key_of (g\<lparr>fenceSource := a\<rparr>) = key_of g"
  "key_of (g\<lparr>pending := p\<rparr>) = key_of g" "key_of (g\<lparr>deadlines := t\<rparr>) = key_of g"
  "key_of (g\<lparr>requestIDs := q\<rparr>) = key_of g" "key_of (g\<lparr>requestSequence := n\<rparr>) = key_of g"
  by (simp_all add: key_of_def fun_eq_iff)

definition prune :: "'k set \<Rightarrow> ('k, 'v) gomap \<Rightarrow> ('k, 'v) gomap" where
  "prune S m = filter (\<lambda>e. fst e \<notin> S) m"

lemma prune_del: "prune S (del i m) = prune (insert i S) m"
  by (simp add: prune_def AList.delete_eq) (rule filter_cong, auto)

lemma prune_empty [simp]: "prune {} m = m"
  by (simp add: prune_def)

lemma set_prune: "set (prune S m) = {e \<in> set m. fst e \<notin> S}"
  by (auto simp: prune_def)

lemma keys_prune: "fst ` set (prune S m) = fst ` set m - S"
  by (auto simp: prune_def)

lemma distinct_prune [simp]: "distinct (keys m) \<Longrightarrow> distinct (keys (prune S m))"
  by (simp add: prune_def distinct_map_filter)

lemma length_prune: "length (prune S m) \<le> length m"
  by (simp add: prune_def)

definition owned :: "session \<Rightarrow> nat \<Rightarrow> bytes list \<Rightarrow> bytes set" where
  "owned g b is = {i \<in> set is. map_of (pending g) i = Some b}"

lemma core_remove_pending:
  "core (remove_pending b is g) =
    ((key_of g, \<lambda>b. bSurface (hp g b), nextb g, sources g, active g),
     (fenceSource g, prune (owned g b is) (pending g), retired g, prune (owned g b is) (requestIDs g),
      prune (owned g b is) (deadlines g), requestSequence g))"
proof (induction "is" arbitrary: g)
  case Nil
  then show ?case by (simp add: core_def owned_def)
next
  case (Cons i "is")
  show ?case
  proof (cases "map_of (pending g) i = Some b")
    case False
    then have "owned g b (i # is) = owned g b is" by (auto simp: owned_def)
    with False Cons show ?thesis by simp
  next
    case True
    let ?g1 = "drop_pending i g"
    let ?g2 = "(let consumer = (case map_of (requestIDs g) i of None \<Rightarrow> [] | Some c \<Rightarrow> c) in
      if consumer \<noteq> [] then failure_or_cancel consumer ''sharing disconnected'' ?g1 else ?g1)"
    have "core ?g2 = core ?g1" by (simp add: Let_def session_simps)
    note f = core_fields_of [OF this]
    have k: "key_of ?g1 = key_of g" "bSurface (hp ?g1 c) = bSurface (hp g c)" "nextb ?g1 = nextb g"
      "sources ?g1 = sources g" "active ?g1 = active g" "fenceSource ?g1 = fenceSource g"
      "retired ?g1 = retired g" "requestSequence ?g1 = requestSequence g"
      "pending ?g1 = del i (pending g)" "deadlines ?g1 = del i (deadlines g)"
      "requestIDs ?g1 = del i (requestIDs g)" for c
      by (simp_all add: key_of_def drop_pending_def fun_eq_iff)
    have o: "insert i (owned ?g2 b is) = owned g b (i # is)"
      using True by (auto simp: owned_def f k)
    have "core (remove_pending b (i # is) g) = core (remove_pending b is ?g2)"
      using True by (simp add: Let_def)
    then show ?thesis
      unfolding Cons.IH o [symmetric] by (simp only: f k prune_del)
  qed
qed

text \<open>What \<open>remove\<close> leaves.\<close>

lemma remove_fields:
  fixes b g
  defines "S \<equiv> owned g b (keys (pending g))" and "g' \<equiv> remove b g"
  shows "key_of g' = key_of g" "nextb g' = nextb g" "sources g' = del (key_of g b) (sources g)"
    "active g' = (if active g = Some b then None else active g)"
    "fenceSource g' = (if fenceSource g = Some b then None else fenceSource g)"
    "pending g' = prune S (pending g)" "requestIDs g' = prune S (requestIDs g)"
    "deadlines g' = prune S (deadlines g)" "retired g' = filter (\<lambda>e. snd e \<noteq> b) (retired g)"
    "requestSequence g' = requestSequence g" "bSurface (hp g' c) = bSurface (hp g c)"
proof -
  let ?g1 = "if fenceSource g = Some b then g\<lparr>fenceSource := None\<rparr> else g"
  let ?g2 = "remove_pending b (keys (pending ?g1)) ?g1"
  have k: "key_of ?g1 = key_of g" by (rule ext) (simp add: key_of_def)
  have o: "owned ?g1 b (keys (pending ?g1)) = S" by (simp add: owned_def S_def)
  define h where "h = ?g2"
  note c = core_remove_pending [of b "keys (pending ?g1)" ?g1, unfolded o k, folded h_def]
  have f: "key_of h = key_of g" "nextb h = nextb g" "sources h = sources g" "active h = active g"
    "fenceSource h = (if fenceSource g = Some b then None else fenceSource g)"
    "pending h = prune S (pending g)" "requestIDs h = prune S (requestIDs g)"
    "deadlines h = prune S (deadlines g)" "retired h = retired g"
    "requestSequence h = requestSequence g" "bSurface (hp h c) = bSurface (hp g c)" for c
    using c by (simp_all add: core_def fun_eq_iff)
  define h' where "h' = upd b (\<lambda>x. x\<lparr>bcancelled := True, closed := closed x \<or> stream x\<rparr>)
    (h\<lparr>retired := filter (\<lambda>e. snd e \<noteq> b) (retired h)\<rparr>)"
  have f': "key_of h' = key_of g" "nextb h' = nextb g" "sources h' = sources g" "active h' = active g"
    "fenceSource h' = (if fenceSource g = Some b then None else fenceSource g)"
    "pending h' = prune S (pending g)" "requestIDs h' = prune S (requestIDs g)"
    "deadlines h' = prune S (deadlines g)" "retired h' = filter (\<lambda>e. snd e \<noteq> b) (retired g)"
    "requestSequence h' = requestSequence g" "bSurface (hp h' c) = bSurface (hp g c)" for c
    unfolding h'_def by (subst key_of_upd, simp_all add: f key_of_fields) (simp_all add: upd_def f)
  have g': "g' = (if active g = Some b then h'\<lparr>sources := del (key_of g b) (sources g), active := None\<rparr>
      else h'\<lparr>sources := del (key_of g b) (sources g)\<rparr>)"
    by (simp add: g'_def remove_def Let_def f' flip: h_def h'_def)
  show "key_of g' = key_of g" "nextb g' = nextb g" "sources g' = del (key_of g b) (sources g)"
    "active g' = (if active g = Some b then None else active g)"
    "fenceSource g' = (if fenceSource g = Some b then None else fenceSource g)"
    "pending g' = prune S (pending g)" "requestIDs g' = prune S (requestIDs g)"
    "deadlines g' = prune S (deadlines g)" "retired g' = filter (\<lambda>e. snd e \<noteq> b) (retired g)"
    "requestSequence g' = requestSequence g" "bSurface (hp g' c) = bSurface (hp g c)"
    unfolding g' by (simp_all add: f' key_of_fields)
qed

lemma live_remove:
  assumes "wellformed g" and "live g b"
  shows "live (remove b g) c \<longleftrightarrow> live g c \<and> c \<noteq> b"
proof -
  from assms(1) have d: "distinct (keys (sources g))"
    and k: "\<And>e. e \<in> set (sources g) \<Longrightarrow> key_of g (snd e) = fst e"
    by (simp_all add: wellformed_def)
  have kb: "(key_of g b, b) \<in> set (sources g)"
    using assms(2) k by (force simp: live_def)
  have "snd e = b \<longleftrightarrow> fst e = key_of g b" if "e \<in> set (sources g)" for e
    using that k [OF that] kb d by (metis map_of_is_SomeI option.inject prod.collapse)
  then show ?thesis
    by (auto simp: live_def remove_fields set_del)
qed

lemma owned_keys: "distinct (keys (pending g)) \<Longrightarrow> e \<in> set (pending g) \<Longrightarrow>
    fst e \<in> owned g b (keys (pending g)) \<longleftrightarrow> snd e = b"
proof -
  assume d: "distinct (keys (pending g))" and e: "e \<in> set (pending g)"
  then have "map_of (pending g) (fst e) = Some (snd e)" by simp
  with e show ?thesis by (force simp: owned_def)
qed

lemma owned_subset: "owned g b (keys (pending g)) \<subseteq> set (keys (pending g))"
  by (auto simp: owned_def)

lemma internal_prune:
  "internal (remove b g) = filter (\<lambda>e. fst e \<notin> owned g b (keys (pending g))) (internal g)"
  by (simp add: internal_def remove_fields prune_def) (rule filter_cong, auto)

lemma remove_wellformed:
  assumes w: "wellformed g" and b: "live g b"
  shows "wellformed (remove b g)"
proof (rule wellformedI)
  let ?S = "owned g b (keys (pending g))"
  note W = wellformedD [OF w] and L = live_remove [OF w b] and F = remove_fields [of b g]
  show "distinct (keys (sources (remove b g)))" "distinct (keys (pending (remove b g)))"
      "distinct (keys (requestIDs (remove b g)))" "distinct (keys (retired (remove b g)))"
    unfolding F using W(1-4) by (simp_all add: distinct_map_filter)
  show "key_of (remove b g) (snd e) = fst e" "snd e < nextb (remove b g)" if "e \<in> set (sources (remove b g))" for e
    using that W(5,6) by (simp_all add: F set_del)
  show "live (remove b g) c" if "active (remove b g) = Some c" for c
    using that W(7) by (auto simp: F L split: if_splits)
  show "live (remove b g) c" if "fenceSource (remove b g) = Some c" for c
    using that W(8) by (auto simp: F L split: if_splits)
  show "live (remove b g) (snd e)" if "e \<in> set (pending (remove b g))" for e
    using that W(9) owned_keys [OF W(2), of e b] by (simp add: F L set_prune)
  show "live (remove b g) (snd e)" if "e \<in> set (retired (remove b g))" for e
    using that W(10) by (simp add: F L)
  show "fst ` set (requestIDs (remove b g)) \<subseteq> fst ` set (pending (remove b g))"
      "fst ` set (deadlines (remove b g)) = fst ` set (pending (remove b g))"
      "fst ` set (retired (remove b g)) \<inter> fst ` set (pending (remove b g)) = {}"
    unfolding F keys_prune using W(11-13) by auto
  show "length (internal (remove b g)) \<le> maxInternalRequests"
    unfolding internal_prune using W(14) length_filter_le order_trans by blast
  show "length (requestIDs (remove b g)) + length (retired (remove b g)) \<le> maxRequests"
    unfolding F using W(15) length_prune [of ?S "requestIDs g"]
      length_filter_le [of "\<lambda>e. snd e \<noteq> b" "retired g"] by linarith
  show "\<exists>n. n \<le> unat (requestSequence (remove b g)) \<and> i = requestPrefix @ decimal n"
    if "i \<in> fst ` set (requestIDs (remove b g)) \<union> fst ` set (retired (remove b g))" for i
    using that W(16) [of i] unfolding F keys_prune by auto
  show "\<exists>n. i = interestPrefix @ decimal n" if "i \<in> fst ` set (internal (remove b g))" for i
    using that W(17) [of i] unfolding internal_prune by auto
qed

lemma remove_safe:
  assumes w: "wellformed g" and b: "live g b"
  shows "safe g (remove b g)" and "length (sources (remove b g)) < length (sources g)"
    and "\<not> live (remove b g) b"
proof -
  from w b have c: "current g b" by (simp add: live_current)
  then have "key_of g b \<in> set (keys (sources g))"
    unfolding current_def by (metis domI domD dom_map_of_conv_image_fst list.set_map)
  then show l: "length (sources (remove b g)) < length (sources g)"
    by (simp add: remove_fields length_del_less)
  have "length (requestIDs (remove b g)) + length (retired (remove b g)) \<le> length (requestIDs g) + length (retired g)"
    by (simp add: remove_fields add_mono length_prune)
  with l have "kept g (remove b g)"
    using remove_wellformed [OF w b] live_remove [OF w b] by (simp add: kept_def remove_fields)
  moreover have "excl g \<longrightarrow> excl (remove b g)"
    unfolding excl_def live_remove [OF w b] by (auto simp: remove_fields)
  moreover have "own g \<longrightarrow> own (remove b g)"
    unfolding own_def live_remove [OF w b] by (auto simp: remove_fields)
  ultimately show "safe g (remove b g)" by (simp add: safe_def)
  show "\<not> live (remove b g) b" by (simp add: live_remove [OF w b])
qed

lemma fail_safe:
  assumes w: "wellformed g"
  shows "safe g (fail b e g)" and "live g b \<Longrightarrow> length (sources (fail b e g)) < length (sources g)"
    and "\<not> live (fail b e g) b"
proof -
  have "safe g (fail b e g) \<and> (live g b \<longrightarrow> length (sources (fail b e g)) < length (sources g)) \<and>
      \<not> live (fail b e g) b"
  proof (cases "current g b")
    case False
    with w show ?thesis by (simp add: fail_def safe_refl live_current)
  next
    case True
    then obtain r where f: "fail b e g = remove b ((resetRecovery b g)\<lparr>recoveries := r\<rparr>)" (is "_ = remove b ?h")
      by (simp add: fail_def Let_def)
    have c: "core ?h = core g" by (simp add: session_simps)
    have h: "wellformed ?h" using w core_wellformed [OF c] by blast
    have l: "live ?h b \<longleftrightarrow> live g b" using core_live [OF c] by simp
    have b: "live g b" using True w live_current by blast
    note R = remove_safe [OF h l [THEN iffD2, OF b]]
    have "length (sources ?h) = length (sources g)" using core_fields_of(3) [OF c] by simp
    then show ?thesis
      unfolding f using R safe_trans [OF core_safe [OF c w] R(1)] by metis
  qed
  then show "safe g (fail b e g)" "live g b \<Longrightarrow> length (sources (fail b e g)) < length (sources g)"
      "\<not> live (fail b e g) b"
    by auto
qed

section \<open>A new surface change\<close>

lemma internal_room:
  assumes w: "wellformed g" and "\<not> int (length (pending g)) - int (length (requestIDs g)) \<ge> int maxInternalRequests"
  shows "length (internal g) < maxInternalRequests"
proof -
  note W = wellformedD [OF w]
  let ?R = "filter (\<lambda>e. fst e \<in> set (keys (requestIDs g))) (pending g)"
  have "set (keys (requestIDs g)) \<subseteq> set (keys ?R)"
    using W(11) by force
  then have "card (set (keys (requestIDs g))) \<le> length (keys ?R)"
    by (meson List.finite_set card_length card_mono le_trans)
  then have "length (requestIDs g) \<le> length ?R"
    using distinct_card [OF W(3)] by simp
  moreover have "length ?R + length (internal g) = length (pending g)"
    unfolding internal_def by (rule sum_length_filter_compl)
  ultimately show ?thesis using assms(2) by linarith
qed

definition with_interest :: "bytes \<Rightarrow> nat \<Rightarrow> bool \<Rightarrow> session \<Rightarrow> session" where
  "with_interest i b act g =
     upd b (\<lambda>x. x\<lparr>bSurface := act, renderReady := False, stableSince := None\<rparr>)
       (g\<lparr>pending := put i b (pending g), deadlines := put i (clk g + operationTimeout) (deadlines g)\<rparr>)"

lemma with_interest_fields:
  "key_of (with_interest i b act g) = key_of g" "nextb (with_interest i b act g) = nextb g"
  "sources (with_interest i b act g) = sources g" "active (with_interest i b act g) = active g"
  "fenceSource (with_interest i b act g) = fenceSource g" "retired (with_interest i b act g) = retired g"
  "pending (with_interest i b act g) = put i b (pending g)"
  "deadlines (with_interest i b act g) = put i (clk g + operationTimeout) (deadlines g)"
  "requestIDs (with_interest i b act g) = requestIDs g"
  "requestSequence (with_interest i b act g) = requestSequence g"
  "live (with_interest i b act g) = live g"
  "bSurface (hp (with_interest i b act g) c) = (if c = b then act else bSurface (hp g c))"
  by (auto simp: with_interest_def upd_def key_of_def live_def fun_eq_iff)

lemma kept_interest:
  assumes w: "wellformed g" and b: "live g b" and room: "length (internal g) < maxInternalRequests"
  shows "kept g (with_interest (interestPrefix @ decimal n) b act g)"
proof -
  let ?i = "interestPrefix @ decimal n"
  let ?g = "with_interest ?i b act g"
  note W = wellformedD [OF w] and F = with_interest_fields [of ?i b act g]
  have new: "?i \<notin> fst ` set (requestIDs g) \<union> fst ` set (retired g)"
    using W(16) [of ?i] by auto
  have int: "internal ?g = put ?i b (internal g)"
    using new unfolding internal_def F by (subst filter_put) auto
  have "wellformed ?g"
  proof (rule wellformedI)
    show "distinct (keys (sources ?g))" "distinct (keys (pending ?g))" "distinct (keys (requestIDs ?g))"
        "distinct (keys (retired ?g))"
      unfolding F using W(1-4) by simp_all
    show "live ?g (snd e)" if "e \<in> set (pending ?g)" for e
      using that set_put_subset [of ?i b "pending g"] W(9) b unfolding F by (metis insert_iff snd_conv subsetD)
    show "fst ` set (requestIDs ?g) \<subseteq> fst ` set (pending ?g)" "fst ` set (deadlines ?g) = fst ` set (pending ?g)"
        "fst ` set (retired ?g) \<inter> fst ` set (pending ?g) = {}"
      unfolding F keys_put using W(11-13) new by auto
    show "length (internal ?g) \<le> maxInternalRequests"
      unfolding int using room length_put_le [of ?i b "internal g"] by linarith
    show "\<exists>n. i = interestPrefix @ decimal n" if "i \<in> fst ` set (internal ?g)" for i
      using that W(17) [of i] unfolding int keys_put by blast
  qed (use W in \<open>simp_all add: F\<close>)
  then show ?thesis by (simp add: kept_def F)
qed

end
