(* ===== verification/Authority.thy ===== *)
theory Authority
  imports Invariant
begin

text \<open>
  What a publication preserves. \<open>pub_contract\<close> is the contract between \<open>publish\<close> and the
  operations that call it recursively: on a well-formed session with fewer than \<open>N\<close> sources it is
  safe (well-formed, no source added, no layout authority given to a second source) and does not
  run out of fuel. Each operation is proved safe once inside the locale, and \<open>publish_fuel n\<close> meets
  the contract for \<open>N = n\<close> by induction, because every nested publication follows the removal of
  a source.
\<close>

section \<open>Results\<close>

lemma fail_own:
  assumes w: "wellformed g" and b: "live g b" and "excl g" and "bSurface (hp g b)"
  shows "own (fail b e g)"
proof -
  obtain r where f: "fail b e g = remove b ((resetRecovery b g)\<lparr>recoveries := r\<rparr>)" (is "_ = remove b ?h")
    using w b by (simp add: fail_def Let_def live_current)
  have c: "core ?h = core g" by (simp add: session_simps)
  have h: "wellformed ?h" using w core_wellformed [OF c] by blast
  have "live ?h b" using core_live [OF c] b by simp
  note L = live_remove [OF h this]
  have "bSurface (hp (remove b ?h) x) = bSurface (hp g x)" for x
    by (simp only: remove_fields core_fields_of [OF c])
  then show ?thesis
    unfolding own_def f L using assms(3,4) b core_live [OF c] by (auto simp: excl_def)
qed

definition runs :: "result \<Rightarrow> bool" where
  "runs r \<longleftrightarrow> snd r \<noteq> Some EFuel \<and> snd r \<noteq> Some EPanic"

definition fine :: "session \<Rightarrow> result \<Rightarrow> bool" where
  "fine g r \<longleftrightarrow> safe g (fst r) \<and> runs r"

lemma fine_ok: "wellformed g \<Longrightarrow> fine g (g, None)"
  by (simp add: fine_def runs_def safe_refl)

lemma fine_err: "wellformed g \<Longrightarrow> e \<noteq> EFuel \<Longrightarrow> e \<noteq> EPanic \<Longrightarrow> fine g (g, Some e)"
  by (simp add: fine_def runs_def safe_refl)

lemma fine_wellformed: "fine g r \<Longrightarrow> wellformed (fst r)"
  unfolding fine_def by (blast intro: safe_wellformed)

lemma fine_length: "fine g r \<Longrightarrow> length (sources (fst r)) \<le> length (sources g)"
  unfolding fine_def by (blast intro: safe_length)

lemma fine_trans: "safe g h \<Longrightarrow> fine h r \<Longrightarrow> fine g r"
  unfolding fine_def by (blast intro: safe_trans)

lemma fine_andthen:
  assumes "fine g r" and "snd r = None \<Longrightarrow> fine (fst r) (k (fst r))"
  shows "fine g (andthen r k)"
  using assms by (cases r) (auto simp: andthen_def fine_def runs_def intro: safe_trans split: option.split)

lemma total_andthen:
  "runs r \<Longrightarrow> (\<And>h. runs (k h)) \<Longrightarrow> runs (andthen r k)"
  by (cases r) (auto simp: andthen_def runs_def split: option.split)

lemma total_write_out [session_simps]: "runs (write_out p g)"
  by (auto simp: write_out_def runs_def split: list.split bool.split)

lemma total_write_backend [session_simps]: "runs (write_backend b p g)"
  by (auto simp: write_backend_def runs_def split: list.split bool.split)

lemma total_frames [session_simps]:
  "runs (jsonControl kind v g)" "runs (response i v g)"
  "runs (failure i m g)" "runs (blankSurface g)"
  by (simp_all add: jsonControl_def response_def failure_def blankSurface_def Let_def session_simps)

lemma total_replayEffects [session_simps]: "runs (replayEffects g)"
proof -
  have "runs (replay_tags ts g)" for ts g
    by (induction ts arbitrary: g) (auto simp: Let_def session_simps runs_def [of "(_, _)"] intro!: total_andthen)
  then show ?thesis by (simp add: replayEffects_def runs_def [of "(_, _)"] del: replay_tags.simps)
qed

lemma total_sendSurface [session_simps]: "runs (sendSurface g)"
  unfolding sendSurface_def Let_def
  by (auto simp: session_simps runs_def [of "(_, _)"] split: option.split prod.split intro!: total_andthen)

lemma total_sendPatch [session_simps]: "runs (sendPatch b p g)"
  unfolding sendPatch_def Let_def
  by (auto simp: session_simps runs_def [of "(_, _)"] split: option.split prod.split intro!: total_andthen)

lemma quiet_fine: "wellformed g \<Longrightarrow> core (fst r) = core g \<Longrightarrow> runs r \<Longrightarrow> fine g r"
  by (simp add: fine_def core_safe)

text \<open>The state in which \<open>setInterest\<close> sends its request.\<close>

definition next_interest :: "nat \<Rightarrow> bool \<Rightarrow> session \<Rightarrow> session" where
  "next_interest b act g =
     (let g1 = g\<lparr>interestSequence := interestSequence g + 1\<rparr> in
      with_interest (interestPrefix @ decimal (unat (interestSequence g1))) b act g1)"

definition next_frame :: "nat \<Rightarrow> bool \<Rightarrow> session \<Rightarrow> bytes" where
  "next_frame b act g =
     interest_frame g b (interestPrefix @ decimal (unat (interestSequence g + 1))) act"

lemma setInterest_send: "setInterest pub b act g =
   (if ''client_shell.surface.set'' \<notin> set (methods (hp g b)) then pub (fail b protocolFailure g)
    else if int (length (pending g)) - int (length (requestIDs g)) \<ge> int maxInternalRequests then (g, None)
    else andthen (if act \<and> resize g \<noteq> [] then send pub (Some b) (resize g) g else (g, None))
      (\<lambda>g0. if act \<and> resize g \<noteq> [] \<and> \<not> current g0 b then (g0, None)
        else send pub (Some b) (next_frame b act g0) (next_interest b act g0)))"
  by (simp add: setInterest_def next_interest_def next_frame_def with_interest_def interest_frame_def
      Let_def cong: if_cong)

lemma andthen_ok: "andthen (g, None) k = k g"
  by (simp add: andthen_def)

lemma kept_next_interest:
  assumes w: "wellformed g" and b: "live g b" and r: "length (internal g) < maxInternalRequests"
  shows "kept g (next_interest b act g)"
proof -
  let ?g = "g\<lparr>interestSequence := interestSequence g + 1\<rparr>"
  have c: "core ?g = core g" by (simp add: session_simps)
  have "kept ?g (next_interest b act g)"
    unfolding next_interest_def Let_def
    using w b r by (intro kept_interest) (simp_all only: core_wellformed [OF c] core_live [OF c] core_internal [OF c])
  then show ?thesis
    using core_safe [OF c w] kept_trans unfolding safe_def by blast
qed

lemma next_interest_fields:
  "live (next_interest b act g) = live g" "active (next_interest b act g) = active g"
  "sources (next_interest b act g) = sources g"
  "bSurface (hp (next_interest b act g) c) = (if c = b then act else bSurface (hp g c))"
  by (simp_all add: next_interest_def Let_def with_interest_fields) (simp add: live_def fun_eq_iff)

lemma safe_next_interest_off:
  assumes "wellformed g" and "live g b" and "length (internal g) < maxInternalRequests"
  shows "safe g (next_interest b False g)"
  unfolding safe_def excl_def own_def next_interest_fields using kept_next_interest [OF assms] by auto

section \<open>References to live sources\<close>

lemma wellformed_refs:
  assumes w: "wellformed g" and "\<And>b. a = Some b \<Longrightarrow> live g b" "\<And>b. f = Some b \<Longrightarrow> live g b"
  shows "wellformed (g\<lparr>active := a, fenceSource := f\<rparr>)"
proof -
  have "live (g\<lparr>active := a, fenceSource := f\<rparr>) = live g"
      "internal (g\<lparr>active := a, fenceSource := f\<rparr>) = internal g"
    by (simp_all add: live_def internal_def fun_eq_iff)
  then show ?thesis
    using assms(2,3) wellformedD [OF w] by (intro wellformedI) (simp_all add: key_of_fields)
qed

lemma safe_fence:
  assumes w: "wellformed g" and a: "live g a"
  shows "safe g (g\<lparr>fenceSource := Some a, fenceUntil := t\<rparr>)"
proof -
  let ?h = "g\<lparr>fenceSource := Some a\<rparr>"
  have "wellformed ?h"
    using wellformed_refs [OF w, of "active g" "Some a"] wellformedD(7) [OF w] a by simp
  moreover have l: "live ?h = live g" by (simp add: live_def fun_eq_iff)
  moreover have "excl ?h = excl g" "own ?h = own g" by (simp_all only: excl_def own_def l) simp_all
  ultimately have "safe g ?h"
    by (simp add: safe_def kept_def key_of_fields)
  moreover have "core (?h\<lparr>fenceUntil := t\<rparr>) = core ?h" by (simp add: session_simps)
  ultimately show ?thesis
    using core_safe [of "?h\<lparr>fenceUntil := t\<rparr>" ?h] safe_trans safe_wellformed by blast
qed

lemma safe_choose:
  assumes w: "wellformed g" and a: "active g = None" and b: "live g b"
  shows "safe g (g\<lparr>active := Some b\<rparr>)"
proof -
  have "wellformed (g\<lparr>active := Some b\<rparr>)"
    using wellformed_refs [OF w, of "Some b" "fenceSource g"] wellformedD(8) [OF w] b by simp
  moreover have l: "live (g\<lparr>active := Some b\<rparr>) = live g" by (simp add: live_def fun_eq_iff)
  moreover have "excl (g\<lparr>active := Some b\<rparr>) = excl g" by (simp only: excl_def l) simp
  moreover have "own (g\<lparr>active := Some b\<rparr>)" if "own g"
    using that a unfolding own_def l by auto
  ultimately show ?thesis
    by (simp add: safe_def kept_def key_of_fields)
qed

lemma snapshotIDs_current: "i \<in> set (snapshotIDs g) \<Longrightarrow> \<exists>b. map_of (sources g) i = Some b \<and> live g b"
proof -
  assume "i \<in> set (snapshotIDs g)"
  then have "i \<in> fst ` set (sources g)" by (auto simp: snapshotIDs_def)
  then obtain b where b: "map_of (sources g) i = Some b"
    by (metis domD dom_map_of_conv_image_fst)
  then show ?thesis by (force simp: live_def dest: map_of_SomeD)
qed

lemma choose_active_fine:
  assumes w: "wellformed g"
  shows "fine g (choose_active g)"
proof (cases "active g = None \<and> snapshotIDs g \<noteq> []")
  case False
  then show ?thesis using w by (auto simp: choose_active_def fine_ok split: list.split option.split)
next
  case True
  then obtain i "is" where i: "snapshotIDs g = i # is" by (cases "snapshotIDs g") auto
  then obtain b where b: "map_of (sources g) i = Some b" "live g b"
    using snapshotIDs_current [of i g] by auto
  have a: "active g = None" using True by simp
  note S = safe_choose [OF w a b(2)]
  have "fine (g\<lparr>active := Some b\<rparr>) (replayEffects (g\<lparr>active := Some b\<rparr>))"
    by (rule quiet_fine [OF safe_wellformed [OF S]]) (simp_all only: session_simps)
  from fine_trans [OF S this] show ?thesis
    using a i b by (simp add: choose_active_def)
qed

section \<open>The contract\<close>

locale pub_contract =
  fixes pub :: "session \<Rightarrow> result" and N :: nat
  assumes pub_fine: "wellformed g \<Longrightarrow> length (sources g) < N \<Longrightarrow> fine g (pub g)"
begin

lemma pub_fail:
  assumes w: "wellformed g" and "length (sources g) \<le> N" and b: "live g b"
  shows "fine g (pub (fail b e g)) \<and> \<not> live (fst (pub (fail b e g))) b"
proof -
  note F = fail_safe [OF w]
  have w1: "wellformed (fail b e g)" by (rule safe_wellformed [OF F(1)])
  have "length (sources (fail b e g)) < N" using F(2) [OF b, of e] assms(2) by linarith
  from pub_fine [OF w1 this] show ?thesis
    using F(3) [of b e] fine_trans [OF F(1)] unfolding fine_def by (blast intro: safe_live)
qed

text \<open>A send either leaves the invariant's state alone or loses its target.\<close>

lemma send_cases:
  assumes w: "wellformed g" and n: "length (sources g) \<le> N" and b: "live g b"
  shows "fine g (send pub (Some b) p g) \<and>
    (core (fst (send pub (Some b) p g)) = core g \<or> \<not> live (fst (send pub (Some b) p g)) b)"
proof (cases "stream (hp g b)")
  case False
  then show ?thesis using pub_fail [OF assms] by (simp add: send_def)
next
  case True
  obtain g1 e where 1: "write_backend b p g = (g1, e)" by fastforce
  have c: "core g1 = core g" using core_write_backend [of b p g] by (simp add: 1)
  show ?thesis
  proof (cases e)
    case None
    with True 1 c show ?thesis by (simp add: send_def fine_def runs_def core_safe [OF c w])
  next
    case (Some x)
    have "wellformed g1" "length (sources g1) \<le> N" "live g1 b"
      using w n b core_wellformed [OF c] core_live [OF c] core_fields_of(3) [OF c] by simp_all
    from pub_fail [OF this, of x] show ?thesis
      using True 1 Some fine_trans [OF core_safe [OF c w]] by (simp add: send_def)
  qed
qed

lemmas send_fine = send_cases [THEN conjunct1]

lemma setInterest_off:
  assumes w: "wellformed g" and n: "length (sources g) \<le> N" and b: "live g b"
  shows "fine g (setInterest pub b False g)"
    and "excl g \<Longrightarrow> bSurface (hp g b) \<Longrightarrow>
      own (fst (setInterest pub b False g)) \<or> fst (setInterest pub b False g) = g"
proof -
  have s: "setInterest pub b False g =
     (if ''client_shell.surface.set'' \<notin> set (methods (hp g b)) then pub (fail b protocolFailure g)
      else if int (length (pending g)) - int (length (requestIDs g)) \<ge> int maxInternalRequests then (g, None)
      else send pub (Some b) (next_frame b False g) (next_interest b False g))"
    by (simp add: setInterest_send andthen_ok)
  have "fine g (setInterest pub b False g) \<and> (excl g \<and> bSurface (hp g b) \<longrightarrow>
      own (fst (setInterest pub b False g)) \<or> fst (setInterest pub b False g) = g)"
  proof (cases "''client_shell.surface.set'' \<notin> set (methods (hp g b))")
    case True
    have "fine (fail b protocolFailure g) (pub (fail b protocolFailure g))"
      using fail_safe(2) [OF w b, of protocolFailure] n
      by (intro pub_fine safe_wellformed [OF fail_safe(1) [OF w]]) linarith
    moreover have "own (fail b protocolFailure g)" if "excl g" "bSurface (hp g b)"
      using fail_own [OF w b that] .
    ultimately show ?thesis
      using True s pub_fail [OF w n b] by (auto simp: fine_def safe_def)
  next
    case False
    show ?thesis
    proof (cases "int (length (pending g)) - int (length (requestIDs g)) \<ge> int maxInternalRequests")
      case True
      with False s w show ?thesis by (simp add: fine_ok)
    next
      case room: False
      note S = safe_next_interest_off [OF w b internal_room [OF w room]]
      have F: "fine (next_interest b False g) (send pub (Some b) (next_frame b False g) (next_interest b False g))"
        using n b safe_wellformed [OF S] by (intro send_fine) (simp_all add: next_interest_fields)
      have O: "own (next_interest b False g)" if "excl g" "bSurface (hp g b)"
        using that b unfolding own_def excl_def next_interest_fields by auto
      from F have "own (next_interest b False g) \<longrightarrow>
          own (fst (send pub (Some b) (next_frame b False g) (next_interest b False g)))"
        by (simp add: fine_def safe_def)
      with O fine_trans [OF S F] False room s show ?thesis by simp
    qed
  qed
  then show "fine g (setInterest pub b False g)"
    and "excl g \<Longrightarrow> bSurface (hp g b) \<Longrightarrow>
      own (fst (setInterest pub b False g)) \<or> fst (setInterest pub b False g) = g"
    by blast+
qed

text \<open>Activation, once no other source holds the authority.\<close>

definition taken :: "session \<Rightarrow> result \<Rightarrow> bool" where
  "taken g r \<longleftrightarrow> kept g (fst r) \<and> (own g \<longrightarrow> own (fst r)) \<and> runs r"

lemma fine_taken: "fine g r \<Longrightarrow> taken g r"
  by (simp add: fine_def taken_def safe_def)

lemma setInterest_on:
  assumes w: "wellformed g" and n: "length (sources g) \<le> N" and a: "active g = Some b"
  shows "taken g (setInterest pub b True g)"
proof -
  have b: "live g b" using wellformedD(7) [OF w a] .
  show ?thesis
  proof (cases "''client_shell.surface.set'' \<notin> set (methods (hp g b))")
    case True
    then show ?thesis
      using fine_taken [OF pub_fail [OF w n b, THEN conjunct1]] by (simp add: setInterest_send)
  next
    case False
    show ?thesis
    proof (cases "int (length (pending g)) - int (length (requestIDs g)) \<ge> int maxInternalRequests")
      case True
      with False w show ?thesis by (simp add: setInterest_send fine_taken fine_ok)
    next
      case room: False
      have act: "taken h (send pub (Some b) (next_frame b True h) (next_interest b True h))"
        if c: "core h = core g" for h
      proof -
        note C = core_fields_of [OF c]
        have h: "wellformed h" "live h b" "length (internal h) < maxInternalRequests"
          using w b internal_room [OF w room] core_wellformed [OF c] core_live [OF c] core_internal [OF c] by simp_all
        note K = kept_next_interest [OF h, of True]
        have o: "own (next_interest b True h)" if "own g"
          using that a core_live [OF c] C unfolding own_def next_interest_fields by auto
        have "fine (next_interest b True h) (send pub (Some b) (next_frame b True h) (next_interest b True h))"
          using n h(2) C by (intro send_fine kept_wellformed [OF K]) (simp_all add: next_interest_fields)
        from fine_taken [OF this] show ?thesis
          using o core_own [OF c] kept_trans [OF K] by (simp add: taken_def)
      qed
      show ?thesis
      proof (cases "resize g = []")
        case True
        with False room act [OF refl] show ?thesis by (simp add: setInterest_send andthen_ok)
      next
        case r: False
        obtain g1 e where s: "send pub (Some b) (resize g) g = (g1, e)" by fastforce
        note S = send_cases [OF w n b, of "resize g", unfolded s fst_conv]
        then have T: "taken g (g1, e)" using fine_taken by blast
        have w1: "wellformed g1" using S fine_wellformed by fastforce
        have "taken g (andthen (g1, e) (\<lambda>g0. if \<not> current g0 b then (g0, None)
            else send pub (Some b) (next_frame b True g0) (next_interest b True g0)))"
        proof (cases "e = None \<and> live g1 b")
          case True
          then have "core g1 = core g" using S by blast
          from act [OF this] core_own [OF this] T True show ?thesis
            using w1 kept_trans by (auto simp: andthen_ok taken_def live_current)
        next
          case False
          then show ?thesis
            using T w1 by (cases e) (auto simp: andthen_def taken_def runs_def live_current)
        qed
        with False room r s show ?thesis by (simp add: setInterest_send)
      qed
    qed
  qed
qed

lemma relinquish_safe:
  assumes "wellformed g" and "length (sources g) \<le> N" and "relinquish pub ks g = (g', e, flag)"
  shows "safe g g' \<and> e \<noteq> Some EFuel \<and> e \<noteq> Some EPanic \<and>
    (flag \<and> excl g \<and> (\<forall>b. live g b \<and> bSurface (hp g b) \<longrightarrow> active g = Some b \<or> key_of g b \<in> set ks) \<longrightarrow> own g')"
  using assms
proof (induction ks arbitrary: g)
  case Nil
  then show ?case by (auto simp: safe_refl own_def)
next
  case (Cons k ks)
  note w = Cons.prems(1) and n = Cons.prems(2)
  show ?case
  proof (cases "map_of (sources g) k")
    case None
    then have "key_of g b \<noteq> k" if "live g b" for b
      using that w by (auto simp: live_current current_def)
    with Cons.IH [OF w n] Cons.prems(3) None show ?thesis by auto
  next
    case (Some b)
    have b: "live g b" using Some by (force simp: live_def dest: map_of_SomeD)
    have same: "x = b" if "live g x" "key_of g x = k" for x
      using that w Some by (simp add: live_current current_def)
    show ?thesis
    proof (cases "bSurface (hp g b) \<and> (active g \<noteq> Some b \<or> \<not> surfaceActive g)")
      case False
      with Cons.prems(3) Some have "relinquish pub ks g = (g', e, flag)"
        by (auto split: if_splits)
      from Cons.IH [OF w n this] same False show ?thesis by auto
    next
      case True
      obtain g1 e1 where s: "setInterest pub b False g = (g1, e1)" by fastforce
      note O = setInterest_off [OF w n b, unfolded s fst_conv]
      then have S: "safe g g1" "runs (g1, e1)" by (simp_all add: fine_def)
      show ?thesis
      proof (cases "e1 = None \<and> \<not> bSurface (hp g1 b)")
        case False
        with Cons.prems(3) Some True s have "g' = g1 \<and> e = e1 \<and> \<not> flag"
          by (cases e1) auto
        with S show ?thesis by (simp add: runs_def)
      next
        case go: True
        with Cons.prems(3) Some True s have r: "relinquish pub ks g1 = (g', e, flag)" by simp
        have "wellformed g1" "length (sources g1) \<le> N"
          using safe_wellformed [OF S(1)] safe_length [OF S(1)] n by simp_all
        note I = Cons.IH [OF this r]
        have "own g1" if "excl g" using O(2) [OF that] True go by auto
        then have "excl g1 \<and> (\<forall>b. live g1 b \<and> bSurface (hp g1 b) \<longrightarrow> active g1 = Some b)" if "excl g"
          using that own_excl by (auto simp: own_def)
        with I safe_trans [OF S(1)] show ?thesis by blast
      qed
    qed
  qed
qed

lemma syncInterest_fine:
  assumes w: "wellformed g" and n: "length (sources g) \<le> N"
  shows "fine g (syncInterest pub g)"
proof -
  obtain g1 e flag where r: "relinquish pub (keys (sources g)) g = (g1, e, flag)"
    using prod_cases3 by blast
  note R = relinquish_safe [OF w n r]
  have all: "live g b \<Longrightarrow> key_of g b \<in> set (keys (sources g))" for b
    using w by (force simp: live_current current_def dest: map_of_SomeD)
  show ?thesis
  proof (cases "flag \<and> (\<exists>b. active g1 = Some b \<and> surfaceActive g1 \<and> \<not> bSurface (hp g1 b) \<and>
      bboot (hp g1 b) \<noteq> [] \<and> stream (hp g1 b))")
    case False
    then have "\<exists>e'. syncInterest pub g = (g1, e') \<and> (e' = e \<or> e' = None)"
      using r by (auto simp: syncInterest_def split: bool.split option.split)
    with R show ?thesis by (auto simp: fine_def runs_def)
  next
    case True
    then obtain b where b: "active g1 = Some b"
      and s: "syncInterest pub g = setInterest pub b True g1"
      using r by (auto simp: syncInterest_def)
    have w1: "wellformed g1" "length (sources g1) \<le> N"
      using R safe_wellformed [of g g1] safe_length [of g g1] n by auto
    have "own g1" if "excl g" using R True all that by blast
    moreover have "taken g1 (syncInterest pub g)"
      using setInterest_on [OF w1 b] s by simp
    ultimately show ?thesis
      using R own_excl kept_trans [of g g1] unfolding fine_def safe_def taken_def by blast
  qed
qed

lemma resumeFence_fine:
  assumes w: "wellformed g" and n: "length (sources g) \<le> N"
  shows "fine g (resumeFence pub g)"
proof (cases "active g")
  case None
  then show ?thesis
    using w by (intro quiet_fine) (auto simp: resumeFence_def session_simps runs_def [of "(_, _)"])
next
  case (Some a)
  let ?g = "g\<lparr>fenceSource := Some a, fenceUntil := clk g + 10 * second\<rparr>"
  have a: "live g a" using wellformedD(7) [OF w Some] .
  note S = safe_fence [OF w a, of "clk g + 10 * second"]
  have "fine ?g (send pub (Some a) (control ''endpoint.presentation.sync.v1'' (fence ?g)) ?g)"
    using n a safe_wellformed [OF S] by (intro send_fine) (simp_all add: live_def)
  with fine_trans [OF S] w Some show ?thesis
    by (auto simp: resumeFence_def fine_ok Let_def)
qed

lemma publish_body_fine:
  assumes w: "wellformed g" and n: "length (sources g) \<le> N"
  shows "fine g (publish_body pub g)"
proof -
  have 1: "fine g (choose_active g)" using choose_active_fine [OF w] .
  have 2: "fine h (syncInterest pub h)" "fine h (resumeFence pub h)" "fine h (sendSurface h)"
      "fine h (let g2 = h\<lparr>srevision := srevision h + 1\<rparr>
             in jsonControl ''shell.snapshot.v1'' (JObj (finish_aggregate g2 (aggregate h))) g2)"
    if "safe g h" for h
  proof -
    have h: "wellformed h" "length (sources h) \<le> N"
      using that safe_wellformed [of g h] safe_length [of g h] n by simp_all
    show "fine h (syncInterest pub h)" "fine h (resumeFence pub h)" "fine h (sendSurface h)"
      using syncInterest_fine [OF h] resumeFence_fine [OF h] quiet_fine [OF h(1)]
      by (simp_all add: session_simps)
    show "fine h (let g2 = h\<lparr>srevision := srevision h + 1\<rparr>
             in jsonControl ''shell.snapshot.v1'' (JObj (finish_aggregate g2 (aggregate h))) g2)"
      using h by (intro quiet_fine) (simp_all add: Let_def session_simps)
  qed
  have seq: "fine g (andthen r k)" if "fine g r" "\<And>h. safe g h \<Longrightarrow> fine h (k h)" for r k
    using that by (intro fine_andthen) (simp_all add: fine_def)
  show ?thesis
    unfolding publish_body_def by (rule seq [OF seq [OF seq [OF seq [OF 1 2(1)] 2(4)] 2(3)] 2(2)])
qed

end

section \<open>The contract of the model's publish\<close>

lemma publish_fuel_contract: "pub_contract (publish_fuel n) n"
proof (induction n)
  case 0
  show ?case by unfold_locales simp
next
  case (Suc n)
  then show ?case
    using pub_contract.publish_body_fine [OF Suc] by unfold_locales simp
qed

interpretation fuel: pub_contract "publish_fuel n" n for n
  by (rule publish_fuel_contract)

lemma publish_contract: "pub_contract publish n"
  using fuel.pub_fine by unfold_locales (simp add: publish_def del: publish_fuel.simps)

interpretation agg: pub_contract publish n for n
  by (rule publish_contract)

lemma publish_fine: "wellformed g \<Longrightarrow> fine g (publish g)"
  using agg.pub_fine [of g "Suc (length (sources g))"] by simp

lemma publish_send: "wellformed g \<Longrightarrow> live g b \<Longrightarrow> fine g (send publish (Some b) p g)"
  using agg.send_fine [of g "length (sources g)"] by simp

lemma publish_sync: "wellformed g \<Longrightarrow> fine g (syncInterest publish g)"
  using agg.syncInterest_fine [of g "length (sources g)"] by simp

lemma publish_fence: "wellformed g \<Longrightarrow> fine g (resumeFence publish g)"
  using agg.resumeFence_fine [of g "length (sources g)"] by simp

section \<open>Enough fuel\<close>

text \<open>Two publications that agree where there are fewer sources make every operation agree.\<close>

locale pub_agree = pub_contract +
  fixes pub' :: "session \<Rightarrow> result"
  assumes agree: "wellformed g \<Longrightarrow> length (sources g) < N \<Longrightarrow> pub' g = pub g"
begin

lemma fail_agree: "wellformed g \<Longrightarrow> length (sources g) \<le> N \<Longrightarrow> live g b \<Longrightarrow> pub' (fail b e g) = pub (fail b e g)"
proof -
  assume w: "wellformed g" and n: "length (sources g) \<le> N" and b: "live g b"
  have "length (sources (fail b e g)) < N"
    using fail_safe(2) [OF w b, of e] n by linarith
  then show ?thesis by (rule agree [OF safe_wellformed [OF fail_safe(1) [OF w]]])
qed

lemma send_agree:
  assumes w: "wellformed g" and n: "length (sources g) \<le> N" and b: "live g b"
  shows "send pub' (Some b) p g = send pub (Some b) p g"
proof -
  obtain g1 e where 1: "write_backend b p g = (g1, e)" by fastforce
  have c: "core g1 = core g" using core_write_backend [of b p g] by (simp add: 1)
  have "wellformed g1" "length (sources g1) \<le> N" "live g1 b"
    using w n b core_wellformed [OF c] core_live [OF c] core_fields_of(3) [OF c] by simp_all
  note A = fail_agree [OF this] fail_agree [OF w n b]
  show ?thesis
    by (cases e) (simp_all add: send_def 1 A)
qed

lemma setInterest_agree:
  assumes w: "wellformed g" and n: "length (sources g) \<le> N" and b: "live g b"
  shows "setInterest pub' b act g = setInterest pub b act g"
proof (cases "int (length (pending g)) - int (length (requestIDs g)) \<ge> int maxInternalRequests")
  case True
  then show ?thesis by (simp add: setInterest_send fail_agree [OF w n b])
next
  case room: False
  have last: "send pub' (Some b) (next_frame b act h) (next_interest b act h) =
      send pub (Some b) (next_frame b act h) (next_interest b act h)" if c: "core h = core g" for h
  proof -
    have h: "wellformed h" "live h b" "length (internal h) < maxInternalRequests" "sources h = sources g"
      using w b internal_room [OF w room] core_wellformed [OF c] core_live [OF c] core_internal [OF c]
        core_fields_of [OF c] by simp_all
    from kept_next_interest [OF h(1-3), of act] show ?thesis
      using n h(2,4) by (intro send_agree kept_wellformed) (simp_all add: next_interest_fields)
  qed
  have "(if act \<and> resize g \<noteq> [] then send pub' (Some b) (resize g) g else (g, None)) =
      (if act \<and> resize g \<noteq> [] then send pub (Some b) (resize g) g else (g, None))" (is "?r' = ?r")
    by (simp add: send_agree [OF w n b])
  moreover have "andthen ?r (\<lambda>g0. if act \<and> resize g \<noteq> [] \<and> \<not> current g0 b then (g0, None)
        else send pub' (Some b) (next_frame b act g0) (next_interest b act g0)) =
      andthen ?r (\<lambda>g0. if act \<and> resize g \<noteq> [] \<and> \<not> current g0 b then (g0, None)
        else send pub (Some b) (next_frame b act g0) (next_interest b act g0))"
  proof (cases "act \<and> resize g \<noteq> []")
    case False
    then have c: "(act \<and> resize g \<noteq> []) = False" by blast
    show ?thesis unfolding c using last [OF refl] by (simp add: andthen_ok)
  next
    case True
    obtain g1 e where s: "send pub (Some b) (resize g) g = (g1, e)" by fastforce
    note S = send_cases [OF w n b, of "resize g", unfolded s fst_conv]
    then have "wellformed g1" using fine_wellformed by fastforce
    then have "current g1 b \<Longrightarrow> core g1 = core g" using S live_current by blast
    then show ?thesis
      using True last [of g1] by (cases e) (auto simp: s andthen_def)
  qed
  ultimately show ?thesis
    using room by (simp add: setInterest_send fail_agree [OF w n b])
qed

lemma relinquish_agree:
  "wellformed g \<Longrightarrow> length (sources g) \<le> N \<Longrightarrow> relinquish pub' ks g = relinquish pub ks g"
proof (induction ks arbitrary: g)
  case (Cons k ks)
  note w = Cons.prems(1) and n = Cons.prems(2)
  show ?case
  proof (cases "map_of (sources g) k")
    case None
    then show ?thesis using Cons by simp
  next
    case (Some b)
    then have b: "live g b" by (force simp: live_def dest: map_of_SomeD)
    obtain g1 e where s: "setInterest pub b False g = (g1, e)" by fastforce
    have "fine g (g1, e)" using setInterest_off(1) [OF w n b] by (simp add: s)
    then have "wellformed g1" "length (sources g1) \<le> N"
      using fine_wellformed fine_length n by fastforce+
    from Cons.IH [OF this] Cons.IH [OF w n] show ?thesis
      by (cases e) (simp_all add: Some setInterest_agree [OF w n b] s cong: if_cong)
  qed
qed simp

lemma syncInterest_agree:
  assumes w: "wellformed g" and n: "length (sources g) \<le> N"
  shows "syncInterest pub' g = syncInterest pub g"
proof -
  obtain g1 e flag where r: "relinquish pub (keys (sources g)) g = (g1, e, flag)"
    using prod_cases3 by blast
  have "safe g g1" using relinquish_safe [OF w n r] by blast
  then have w1: "wellformed g1" "length (sources g1) \<le> N"
    using safe_wellformed safe_length n by fastforce+
  have "setInterest pub' b True g1 = setInterest pub b True g1" if "active g1 = Some b" for b
    using setInterest_agree [OF w1] wellformedD(7) [OF w1(1) that] by blast
  then show ?thesis
    by (cases flag; cases "active g1") (simp_all add: syncInterest_def relinquish_agree [OF w n] r)
qed

lemma resumeFence_agree:
  assumes w: "wellformed g" and n: "length (sources g) \<le> N"
  shows "resumeFence pub' g = resumeFence pub g"
proof (cases "active g")
  case (Some a)
  let ?g = "g\<lparr>fenceSource := Some a, fenceUntil := clk g + 10 * second\<rparr>"
  have a: "live g a" using wellformedD(7) [OF w Some] .
  have "send pub' (Some a) p ?g = send pub (Some a) p ?g" for p
    using n a safe_wellformed [OF safe_fence [OF w a]] by (intro send_agree) (simp_all add: live_def)
  with Some show ?thesis by (simp add: resumeFence_def Let_def)
qed (simp add: resumeFence_def)

lemma publish_body_agree:
  assumes w: "wellformed g" and n: "length (sources g) \<le> N"
  shows "publish_body pub' g = publish_body pub g"
proof -
  have cong: "andthen r k' = andthen r k" if "fine g r" "\<And>h. safe g h \<Longrightarrow> k' h = k h" for r k k'
    using that by (cases r) (auto simp: andthen_def fine_def split: option.split)
  have seq: "fine g (andthen r k)" if "fine g r" "\<And>h. safe g h \<Longrightarrow> fine h (k h)" for r k
    using that by (intro fine_andthen) (simp_all add: fine_def)
  have h: "wellformed h" "length (sources h) \<le> N" if "safe g h" for h
    using safe_wellformed [OF that] safe_length [OF that] n by simp_all
  let ?s = "\<lambda>g1. let g2 = g1\<lparr>srevision := srevision g1 + 1\<rparr>
     in jsonControl ''shell.snapshot.v1'' (JObj (finish_aggregate g2 (aggregate g1))) g2"
  have q: "fine g1 (?s g1)" "fine g1 (sendSurface g1)" if "safe g g1" for g1
    using h [OF that] by (auto intro!: quiet_fine simp: Let_def session_simps)
  have 1: "fine g (andthen (choose_active g) (syncInterest pub))"
    using choose_active_fine [OF w] syncInterest_fine h by (blast intro: seq)
  have 2: "fine g (andthen (andthen (andthen (choose_active g) (syncInterest pub)) ?s) sendSurface)"
    by (rule seq [OF seq [OF 1 q(1)] q(2)])
  have "andthen (choose_active g) (syncInterest pub') = andthen (choose_active g) (syncInterest pub)"
    using choose_active_fine [OF w] syncInterest_agree h by (blast intro: cong)
  then show ?thesis
    unfolding publish_body_def using cong [OF 2, of "resumeFence pub'" "resumeFence pub"] resumeFence_agree h
    by simp
qed

end

lemma fuel_agree: "wellformed g \<Longrightarrow> length (sources g) < n \<Longrightarrow> publish_fuel (n + k) g = publish_fuel n g"
proof (induction n arbitrary: g)
  case (Suc n)
  have "pub_agree (publish_fuel n) n (publish_fuel (n + k))"
    using Suc.IH fuel.pub_contract_axioms unfolding pub_agree_def pub_agree_axioms_def by blast
  from pub_agree.publish_body_agree [OF this Suc.prems(1)] Suc.prems(2) show ?case by simp
qed simp

lemma publish_agree: "pub_agree (publish_fuel n) n publish"
proof -
  have "publish g = publish_fuel n g" if "wellformed g" "length (sources g) < n" for g
    using fuel_agree [of g "Suc (length (sources g))" "n - Suc (length (sources g))"] that
    by (simp add: publish_def del: publish_fuel.simps)
  then show ?thesis
    using fuel.pub_contract_axioms unfolding pub_agree_def pub_agree_axioms_def by blast
qed

interpretation tied: pub_agree "publish_fuel n" n publish for n
  by (rule publish_agree)

lemma publish_unfold: "wellformed g \<Longrightarrow> publish g = publish_body publish g"
  using tied.publish_body_agree [of g "length (sources g)"] by (simp add: publish_def)

end
