(* ===== verification/Lifecycle.thy ===== *)
theory Lifecycle
  imports Gateway Authority
begin

text \<open>
  The event loop keeps the invariant: every event, whatever a source or the viewer sends and
  whichever write fails, leads from a well-formed session in which at most one source holds the
  layout authority to another one, never dereferences a nil pointer and never runs out of fuel.
\<close>

section \<open>Good results\<close>

definition sound :: "session \<Rightarrow> bool" where
  "sound g \<longleftrightarrow> wellformed g \<and> excl g"

definition good :: "result \<Rightarrow> bool" where
  "good r \<longleftrightarrow> sound (fst r) \<and> runs r"

lemma sound_core: "core h = core g \<Longrightarrow> sound h = sound g"
  using core_wellformed [of h g] core_excl [of h g] by (simp add: sound_def)

lemma sound_wellformed: "sound g \<Longrightarrow> wellformed g"
  by (simp add: sound_def)

lemma sound_safe: "sound g \<Longrightarrow> safe g h \<Longrightarrow> sound h"
  unfolding sound_def safe_def by (blast intro: kept_wellformed)

lemma good_fine: "sound g \<Longrightarrow> fine g r \<Longrightarrow> good r"
  unfolding good_def fine_def using sound_safe by blast

lemma good_ok: "sound g \<Longrightarrow> good (g, None)"
  by (simp add: good_def runs_def)

lemma good_err: "sound g \<Longrightarrow> e \<noteq> EFuel \<Longrightarrow> e \<noteq> EPanic \<Longrightarrow> good (g, Some e)"
  by (simp add: good_def runs_def)

lemma good_protocol: "sound g \<Longrightarrow> good (g, Some protocolFailure)"
  by (simp add: good_err protocolFailure_def)

lemma good_andthen: "good r \<Longrightarrow> (\<And>h. sound h \<Longrightarrow> good (k h)) \<Longrightarrow> good (andthen r k)"
  by (cases r) (auto simp: andthen_def good_def runs_def split: option.split)

lemma good_quiet: "sound g \<Longrightarrow> core (fst r) = core g \<Longrightarrow> runs r \<Longrightarrow> good r"
  unfolding good_def using sound_core by blast

lemma good_frames:
  assumes "sound g"
  shows "good (write_out p g)" "good (response i v g)" "good (failure i m g)" "good (blankSurface g)"
    "good (replayEffects g)" "good (sendSurface g)" "good (sendPatch b p g)"
    "good (jsonControl kind v g)"
  by (rule good_quiet [OF assms], simp_all add: session_simps)+

lemma good_publish: "sound g \<Longrightarrow> good (publish g)"
  by (rule good_fine [OF _ publish_fine]) (simp_all add: sound_wellformed)

lemma good_send: "sound g \<Longrightarrow> live g b \<Longrightarrow> good (send publish (Some b) p g)"
  by (rule good_fine [OF _ publish_send]) (simp_all add: sound_wellformed)

lemma good_sync: "sound g \<Longrightarrow> good (syncInterest publish g)"
  by (rule good_fine [OF _ publish_sync]) (simp_all add: sound_wellformed)

lemma good_fence: "sound g \<Longrightarrow> good (resumeFence publish g)"
  by (rule good_fine [OF _ publish_fence]) (simp_all add: sound_wellformed)

lemma sound_upd: "sound g \<Longrightarrow> src (f (hp g b)) = src (hp g b) \<Longrightarrow> bSurface (f (hp g b)) = bSurface (hp g b) \<Longrightarrow>
    sound (upd b f g)"
  using sound_core [OF core_upd, of f g b] by blast

lemma sound_unfence:
  assumes "sound g"
  shows "sound (g\<lparr>fenceSource := None\<rparr>)"
proof -
  have "wellformed (g\<lparr>fenceSource := None\<rparr>)"
    using wellformed_refs [OF sound_wellformed [OF assms], of "active g" None]
      wellformedD(7) [OF sound_wellformed [OF assms]] by simp
  moreover have l: "live (g\<lparr>fenceSource := None\<rparr>) = live g" by (simp add: live_def fun_eq_iff)
  moreover have "excl (g\<lparr>fenceSource := None\<rparr>) = excl g" by (simp only: excl_def l) simp
  ultimately show ?thesis using assms by (simp add: sound_def)
qed

lemma sound_fence:
  assumes "sound g"
  shows "sound (g\<lparr>fence := x, fencePending := y, fenceSource := None\<rparr>)"
proof -
  have "core (g\<lparr>fence := x, fencePending := y\<rparr>) = core g" by (simp add: session_simps)
  then have "sound (g\<lparr>fence := x, fencePending := y\<rparr>)" using sound_core assms by blast
  then show ?thesis by (rule sound_unfence)
qed

lemma sound_active:
  assumes "sound g" and "live g b"
  shows "sound (g\<lparr>active := Some b\<rparr>)"
proof -
  have "wellformed (g\<lparr>active := Some b\<rparr>)"
    using wellformed_refs [OF sound_wellformed [OF assms(1)], of "Some b" "fenceSource g"]
      wellformedD(8) [OF sound_wellformed [OF assms(1)]] assms(2) by simp
  moreover have l: "live (g\<lparr>active := Some b\<rparr>) = live g" by (simp add: live_def fun_eq_iff)
  moreover have "excl (g\<lparr>active := Some b\<rparr>) = excl g" by (simp only: excl_def l) simp
  ultimately show ?thesis using assms by (simp add: sound_def)
qed

lemma sound_renderProgress: "sound g \<Longrightarrow> sound (renderProgress b g)"
  using sound_core [OF core_renderProgress] by blast

section \<open>Finished operations\<close>

text \<open>Some pending operations go; the expired ones that remain or come stay within the bounds.\<close>

lemma sound_prune:
  assumes s: "sound g"
    and p: "pending h = prune S (pending g)" "requestIDs h = prune S (requestIDs g)"
      "deadlines h = prune S (deadlines g)"
    and r: "distinct (keys (retired h))" "\<And>e. e \<in> set (retired h) \<Longrightarrow> live g (snd e)"
      "fst ` set (retired h) \<subseteq> fst ` set (retired g) \<union> (S \<inter> fst ` set (requestIDs g))"
      "length (requestIDs h) + length (retired h) \<le> maxRequests"
    and c: "key_of h = key_of g" "nextb h = nextb g" "sources h = sources g" "active h = active g"
      "fenceSource h = fenceSource g" "requestSequence h = requestSequence g"
      "\<And>b. bSurface (hp h b) = bSurface (hp g b)"
  shows "sound h"
proof -
  note W = wellformedD [OF sound_wellformed [OF s]]
  have l: "live h = live g" by (simp add: live_def c fun_eq_iff)
  have i: "internal h = filter (\<lambda>e. fst e \<notin> S) (internal g)"
    by (simp add: internal_def p prune_def) (rule filter_cong, auto)
  have "wellformed h"
  proof (rule wellformedI)
    show "distinct (keys (sources h))" "distinct (keys (pending h))" "distinct (keys (requestIDs h))"
      unfolding p c using W(1-3) by simp_all
    show "fst ` set (requestIDs h) \<subseteq> fst ` set (pending h)" "fst ` set (deadlines h) = fst ` set (pending h)"
      unfolding p keys_prune using W(11,12) by auto
    show "fst ` set (retired h) \<inter> fst ` set (pending h) = {}"
      unfolding p keys_prune using W(13) r(3) by blast
    show "length (internal h) \<le> maxInternalRequests"
      unfolding i using W(14) length_filter_le order_trans by blast
    show "\<exists>n. n \<le> unat (requestSequence h) \<and> j = requestPrefix @ decimal n"
      if "j \<in> fst ` set (requestIDs h) \<union> fst ` set (retired h)" for j
      using that W(16) [of j] r(3) unfolding p keys_prune c by blast
    show "\<exists>n. j = interestPrefix @ decimal n" if "j \<in> fst ` set (internal h)" for j
      using that W(17) [of j] unfolding i by auto
    show "live h (snd e)" if "e \<in> set (pending h)" for e
      using that W(9) by (simp add: p l set_prune)
  qed (use r W in \<open>simp_all add: c l\<close>)
  moreover have "excl h = excl g" by (simp add: excl_def l c)
  ultimately show ?thesis using s by (simp add: sound_def)
qed

lemma drop_pending_fields:
  "pending (drop_pending i g) = prune {i} (pending g)" "requestIDs (drop_pending i g) = prune {i} (requestIDs g)"
  "deadlines (drop_pending i g) = prune {i} (deadlines g)" "retired (drop_pending i g) = retired g"
  "key_of (drop_pending i g) = key_of g" "nextb (drop_pending i g) = nextb g"
  "sources (drop_pending i g) = sources g" "active (drop_pending i g) = active g"
  "fenceSource (drop_pending i g) = fenceSource g" "requestSequence (drop_pending i g) = requestSequence g"
  "hp (drop_pending i g) = hp g"
  using prune_del [of "{}" i "pending g"] prune_del [of "{}" i "requestIDs g"] prune_del [of "{}" i "deadlines g"]
  by (simp_all add: drop_pending_def key_of_def fun_eq_iff)

lemma sound_drop_pending:
  assumes "sound g"
  shows "sound (drop_pending i g)"
proof -
  note W = wellformedD [OF sound_wellformed [OF assms]]
  show ?thesis
    by (rule sound_prune [OF assms drop_pending_fields(1-3)], unfold drop_pending_fields)
       (use W length_prune [of "{i}" "requestIDs g"] in auto)
qed

text \<open>An operation that expires moves to the retired ones, within the same budget.\<close>

lemma sound_retire:
  assumes s: "sound g" and c: "map_of (requestIDs g) i = Some c" and b: "live g b"
  shows "sound ((drop_pending i g)\<lparr>retired := put i b (retired g)\<rparr>)" (is "sound ?h")
proof -
  note W = wellformedD [OF sound_wellformed [OF s]]
  have i: "i \<in> set (keys (requestIDs g))" using c by (force dest: map_of_SomeD)
  have "length (del i (requestIDs g)) < length (requestIDs g)" by (rule length_del_less [OF i])
  then have "length (prune {i} (requestIDs g)) < length (requestIDs g)"
    using prune_del [of "{}" i "requestIDs g"] by simp
  then have "length (prune {i} (requestIDs g)) + length (put i b (retired g)) \<le> maxRequests"
    using W(15) length_put_le [of i b "retired g"] by linarith
  moreover have "live g (snd e)" if "e \<in> set (put i b (retired g))" for e
    using that set_put_subset [of i b "retired g"] W(10) b by (metis insert_iff snd_conv subsetD)
  moreover have "fst ` set (put i b (retired g)) \<subseteq> fst ` set (retired g) \<union> ({i} \<inter> fst ` set (requestIDs g))"
    unfolding keys_put using i by auto
  ultimately show ?thesis
    using W(4) by (intro sound_prune [OF s, of ?h "{i}"]) (simp_all add: drop_pending_fields key_of_fields)
qed

lemma sound_retired_del:
  assumes "sound g"
  shows "sound (g\<lparr>retired := del i (retired g)\<rparr>)"
proof -
  note W = wellformedD [OF sound_wellformed [OF assms]]
  have "length (requestIDs g) + length (del i (retired g)) \<le> maxRequests"
    using W(15) length_del_le [of i "retired g"] by linarith
  then show ?thesis
    using W(4,10) by (intro sound_prune [OF assms, of _ "{}"]) (simp_all add: key_of_fields set_del, auto)
qed

section \<open>Frames from a source\<close>

lemma good_welcome: "sound g \<Longrightarrow> good (accept_welcome b v g)"
  by (auto simp: accept_welcome_def intro!: good_protocol good_ok sound_upd)

lemma good_snapshot: "sound g \<Longrightarrow> good (accept_snapshot b v g)"
  by (auto simp: accept_snapshot_def Let_def intro!: good_protocol good_publish sound_upd)

lemma good_control:
  assumes "sound g"
  shows "good (server_control b p d g)"
  using good_protocol [OF assms] good_ok [OF assms] good_welcome [OF assms] good_snapshot [OF assms]
    good_frames(1) [OF sound_fence [OF assms]]
  unfolding server_control_def by (simp split: prod.split option.split)

lemma good_surface:
  assumes "sound g"
  shows "good (server_surface b tag p d g)"
proof -
  let ?g = "\<lambda>s. upd b (\<lambda>x. x\<lparr>bframe := s\<rparr>) g"
  have 1: "sound (?g s)" for s
    using assms by (rule sound_upd) simp_all
  have 2: "sound (renderProgress b (upd b (\<lambda>x. x\<lparr>renderReady := True\<rparr>) (?g s)))" for s
    by (intro sound_renderProgress sound_upd assms) simp_all
  show ?thesis
    using good_protocol [OF assms] good_protocol [OF 1] good_frames [OF 1] good_frames [OF 2] good_ok [OF 1] good_ok [OF 2]
    unfolding server_surface_def Let_def by (simp split: prod.split option.split)
qed

lemma good_finish:
  assumes "sound g"
  shows "good (finish_response b c data g)"
proof -
  have "good (andthen (syncInterest publish (renderProgress b g)) (resumeFence publish))"
    by (intro good_andthen good_sync good_fence sound_renderProgress assms)
  then show ?thesis
    using good_protocol [OF assms] good_err [OF assms, of "EUpstream ''publisher rejected surface interest''"]
      good_frames(2) [OF assms]
    unfolding finish_response_def by (simp split: option.split)
qed

lemma good_deliver:
  assumes "sound g"
  shows "good (deliver b i fin data g)"
proof -
  have 1: "sound (upd b (\<lambda>x. x\<lparr>chunks := c\<rparr>) g)" for c
    using assms by (rule sound_upd) simp_all
  show ?thesis
    using good_protocol [OF assms] good_ok [OF assms] good_ok [OF 1] good_ok [OF sound_retired_del [OF assms]]
      good_finish [OF sound_drop_pending [OF 1]]
    unfolding deliver_def Let_def by (simp split: prod.split option.split)
qed

lemma good_response: "sound g \<Longrightarrow> good (server_response b p d g)"
  using good_protocol good_deliver by (simp add: server_response_def split: prod.split)

lemma good_effect:
  assumes "sound g"
  shows "good (server_effect b tag p g)"
proof -
  have "sound (upd b (\<lambda>x. x\<lparr>effects := put tag p (effects x)\<rparr>) g)"
    using assms by (rule sound_upd) simp_all
  then show ?thesis
    using assms by (auto simp: server_effect_def Let_def intro: good_frames good_ok)
qed

lemma good_server: "sound g \<Longrightarrow> good (server b p g)"
  using good_control good_surface good_response good_effect good_protocol good_ok good_err
  by (auto simp: server_def Let_def split: prod.split)

section \<open>Frames from the viewer\<close>

lemma resolve_live: "resolve g i = Some (b, loc) \<Longrightarrow> live g b"
  by (force simp: resolve_def live_def find_Some_iff split: option.splits dest: nth_mem)

lemma good_client_control:
  assumes "sound g"
  shows "good (client_control d g)"
  using good_err [OF assms, of EWire] good_frames(1) [OF assms] good_ok [OF assms] good_fence [OF sound_fence [OF assms]]
  unfolding client_control_def by (simp split: prod.split)

lemma good_input:
  assumes "sound g"
  shows "good (client_input p head d g)"
  using good_ok [OF assms] good_send [OF assms]
  by (auto simp: client_input_def split: prod.split option.split dest: resolve_live)

lemma good_set_surface:
  assumes "sound g"
  shows "good (set_surface i act g)"
proof -
  have 1: "sound (g\<lparr>surfaceActive := act\<rparr>)"
    using assms sound_core [of "g\<lparr>surfaceActive := act\<rparr>" g] by (simp add: session_simps)
  note good_frames(5) [OF 1] good_ok [OF 1]
  then show ?thesis
    unfolding set_surface_def Let_def by (intro good_andthen good_publish good_frames) (cases act, simp_all)
qed

text \<open>The next wire identifier is in no table.\<close>

lemma request_id_fresh:
  assumes s: "sound g" and n: "requestSequence g \<noteq> - 1"
  shows "requestPrefix @ decimal (unat (requestSequence g + 1)) \<notin>
    fst ` set (pending g) \<union> fst ` set (retired g) \<union> fst ` set (requestIDs g)" (is "?i \<notin> _")
proof -
  note W = wellformedD [OF sound_wellformed [OF s]]
  have new: "?i \<notin> fst ` set (requestIDs g) \<union> fst ` set (retired g)"
  proof
    assume "?i \<in> fst ` set (requestIDs g) \<union> fst ` set (retired g)"
    from W(16) [OF this] obtain m where "m \<le> unat (requestSequence g)" "?i = requestPrefix @ decimal m" by blast
    with u64_succ [OF n] show False by simp
  qed
  moreover have "?i \<notin> fst ` set (pending g)"
  proof
    assume "?i \<in> fst ` set (pending g)"
    with new have "?i \<in> fst ` set (internal g)" by (force simp: internal_def)
    from W(17) [OF this] show False by auto
  qed
  ultimately show ?thesis by blast
qed

text \<open>Registering a viewer's request, with room for it.\<close>

lemma sound_request:
  assumes s: "sound g" and t: "live g t"
    and room: "length (requestIDs g) + length (retired g) < maxRequests" and n: "requestSequence g \<noteq> - 1"
  defines "i \<equiv> requestPrefix @ decimal (unat (requestSequence g + 1))"
  shows "sound (g\<lparr>requestSequence := requestSequence g + 1, pending := put i t (pending g),
     requestIDs := put i c (requestIDs g), deadlines := put i d (deadlines g)\<rparr>)" (is "sound ?h")
proof -
  note W = wellformedD [OF sound_wellformed [OF s]]
  have l: "live ?h = live g" by (simp add: live_def fun_eq_iff)
  have seq: "unat (requestSequence g + 1) = unat (requestSequence g) + 1" using n by (rule u64_succ)
  have new: "i \<notin> fst ` set (requestIDs g) \<union> fst ` set (retired g)" and fresh: "i \<notin> fst ` set (pending g)"
    using request_id_fresh [OF s n] by (simp_all add: i_def)
  have int: "internal ?h = internal g"
  proof -
    have "filter (\<lambda>e. fst e \<notin> insert i (fst ` set (requestIDs g))) (pending g) = internal g"
      using fresh unfolding internal_def list.set_map by (intro filter_cong) (auto intro: rev_image_eqI)
    then show ?thesis
      using put_filter_fresh [of i "fst ` set (requestIDs g)" t "pending g"] by (simp add: internal_def)
  qed
  have "wellformed ?h"
  proof (rule wellformedI)
    show "distinct (keys (sources ?h))" "distinct (keys (pending ?h))" "distinct (keys (requestIDs ?h))"
        "distinct (keys (retired ?h))"
      using W(1-4) by simp_all
    show "live ?h (snd e)" if "e \<in> set (pending ?h)" for e
      using that set_put_subset [of i t "pending g"] W(9) t unfolding l by (simp, metis insert_iff snd_conv subsetD)
    show "fst ` set (requestIDs ?h) \<subseteq> fst ` set (pending ?h)" "fst ` set (deadlines ?h) = fst ` set (pending ?h)"
        "fst ` set (retired ?h) \<inter> fst ` set (pending ?h) = {}"
      using W(11-13) new by auto
    show "length (requestIDs ?h) + length (retired ?h) \<le> maxRequests"
      using room length_put_le [of i c "requestIDs g"] by simp
    show "\<exists>n. n \<le> unat (requestSequence ?h) \<and> j = requestPrefix @ decimal n"
      if "j \<in> fst ` set (requestIDs ?h) \<union> fst ` set (retired ?h)" for j
    proof (cases "j = i")
      case True
      then show ?thesis by (intro exI [of _ "unat (requestSequence g + 1)"]) (simp add: i_def)
    next
      case False
      with that have "j \<in> fst ` set (requestIDs g) \<union> fst ` set (retired g)" by auto
      from W(16) [OF this] obtain m where "m \<le> unat (requestSequence g)" "j = requestPrefix @ decimal m" by blast
      then show ?thesis using seq by (intro exI [of _ m]) simp
    qed
  qed (use W int in \<open>simp_all add: l key_of_fields\<close>)
  moreover have "excl ?h = excl g" by (simp only: excl_def l) simp
  ultimately show ?thesis using s by (simp add: sound_def)
qed

lemma good_forward:
  assumes s: "sound g" and room: "length (requestIDs g) + length (retired g) < maxRequests"
  shows "good (forward_request i t v g)"
proof (cases "current g t \<and> requestSequence g \<noteq> - 1")
  case False
  then show ?thesis using good_frames(3) [OF s] by (auto simp: forward_request_def)
next
  case True
  then have t: "live g t" using live_current [OF sound_wellformed [OF s]] by blast
  show ?thesis
    using True good_send [OF sound_request [OF s t room, where c = i], of _ t] t
    by (simp add: forward_request_def Let_def live_def)
qed

lemma good_route:
  assumes s: "sound g"
  shows "good (route_request i meth v g)"
proof -
  obtain v' target invalid where m: "transform_members (resolve_target g) v (None, False) = (v', target, invalid)"
    using prod_cases3 by blast
  let ?P = "\<lambda>s. \<forall>t. fst s = Some t \<longrightarrow> live g t"
  have f: "?P s \<Longrightarrow> ?P (snd (resolve_target g x s))" for x s
    by (auto simp: resolve_target_def dest: resolve_live split: option.split)
  have "?P (snd (transform_members (resolve_target g) v (None, False)))"
    by (rule transform_members_invariant [where P = ?P, OF f transform_invariant [where P = ?P, OF f]]) simp_all
  then have target: "target = Some t \<Longrightarrow> live g t" for t by (simp add: m)
  have "good (andthen (if has_suffix meth ''.focus'' \<and> active g \<noteq> Some t
      then andthen (replayEffects (g\<lparr>active := Some t\<rparr>)) publish else (g, None)) (forward_request i t v'))"
    if t: "live g t" and room: "length (requestIDs g) + length (retired g) < maxRequests" for t
  proof (cases "has_suffix meth ''.focus'' \<and> active g \<noteq> Some t")
    case False
    then show ?thesis using good_forward [OF s room] by (auto simp: andthen_ok)
  next
    case True
    let ?g = "g\<lparr>active := Some t\<rparr>"
    let ?r = "andthen (replayEffects ?g) publish"
    have a: "sound ?g" by (rule sound_active [OF s t])
    have r: "fine ?g ?r"
      using a by (intro fine_andthen quiet_fine publish_fine)
        (simp_all add: sound_wellformed session_simps core_wellformed [OF core_replayEffects])
    then have "sound (fst ?r)" using good_fine [OF a] by (simp add: good_def)
    moreover have "length (requestIDs (fst ?r)) + length (retired (fst ?r)) < maxRequests"
      using r room by (simp add: fine_def safe_def kept_def)
    ultimately show ?thesis
      using True good_forward [of "fst ?r" i t v'] r unfolding andthen_split [of good]
      by (cases "snd ?r") (simp_all add: good_def fine_def runs_def)
  qed
  then show ?thesis
    using good_frames(3) [OF s] target wellformedD(7) [OF sound_wellformed [OF s]]
    by (auto simp: route_request_def m andthen_ok intro: good_forward [OF s] split: option.split)
qed

lemma good_request:
  assumes s: "sound g"
  shows "good (client_request p d g)"
  using good_err [OF s, of EWire] good_frames(3) [OF s] good_set_surface [OF s] good_route [OF s]
  unfolding client_request_def Let_def by (simp split: prod.split option.split json.split)

lemma good_resize:
  assumes s: "sound g"
  shows "good (client_resize p g)"
proof -
  let ?h = "\<lambda>c r. g\<lparr>cols := c, rows := r, resize := p\<rparr>"
  have h: "sound (?h c r)" "live (?h c r) = live g" for c r
    using s sound_core [of "?h c r" g] core_live [of "?h c r" g] by (simp_all add: session_simps)
  then show ?thesis
    using good_err [OF s, of EWire] good_frames(4) [OF h(1)] good_send [OF h(1)]
      wellformedD(7) [OF sound_wellformed [OF s]]
    by (auto simp: client_resize_def Let_def split: option.split prod.split)
qed

lemma good_broadcast: "sound g \<Longrightarrow> good (broadcast p ks g)"
proof (induction ks arbitrary: g)
  case (Cons k ks)
  show ?case
  proof (cases "map_of (sources g) k")
    case None
    then show ?thesis using Cons by simp
  next
    case (Some b)
    then have "live g b" by (force simp: live_def dest: map_of_SomeD)
    from good_send [OF Cons.prems this] show ?thesis
      using Cons Some by (auto intro: good_andthen)
  qed
qed (simp add: good_ok)

lemma good_client:
  assumes s: "sound g"
  shows "good (client p g)"
proof -
  have "good (andthen (broadcast p (keys (sources g)) g)
      (\<lambda>g1. if active g1 = None then blankSurface g1 else (g1, None)))"
    using good_broadcast [OF s] good_frames(4) good_ok by (intro good_andthen) auto
  moreover have "good (send publish (active g) p g)" if "active g \<noteq> None"
    using that good_send [OF s] wellformedD(7) [OF sound_wellformed [OF s]] by auto
  ultimately show ?thesis
    using good_client_control [OF s] good_input [OF s] good_request [OF s] good_resize [OF s] good_ok [OF s]
      good_err [OF s, of EWire] good_err [OF s, of EEOF]
    unfolding client_def by (simp split: prod.split)
qed

section \<open>The periodic refresh\<close>

lemma sound_remove: "sound g \<Longrightarrow> live g b \<Longrightarrow> sound (remove b g)"
  using sound_safe [OF _ remove_safe(1)] sound_wellformed by blast

lemma sound_fail: "sound g \<Longrightarrow> sound (fail b e g)"
  using sound_safe [OF _ fail_safe(1)] sound_wellformed by blast

lemma found_live: "map_of (sources g) k = Some b \<Longrightarrow> live g b"
  by (force simp: live_def dest: map_of_SomeD)

lemma sound_retire_hidden: "sound (fst x) \<Longrightarrow> sound (fst (retire_hidden vis ks x))"
  by (induction vis ks x rule: retire_hidden.induct)
     (auto split: option.split simp: sound_remove [OF _ found_live])

lemma sound_expire_starting: "sound (fst x) \<Longrightarrow> sound (fst (expire_starting ks x))"
proof (induction ks arbitrary: x)
  case (Cons k ks)
  obtain g ch where x: "x = (g, ch)" by fastforce
  have r: "sound (resetRecovery b g)" for b
    using Cons x sound_core [OF core_resetRecovery] by simp
  then show ?case
    using Cons x sound_fail [OF r] by (simp add: Let_def split: option.split)
qed simp

lemma sound_expire_fence: "sound (fst x) \<Longrightarrow> sound (fst (expire_fence x))"
  by (auto simp: expire_fence_def sound_fail split: prod.split option.split)

text \<open>A deadline always belongs to a pending operation: the missing nil check is never needed.\<close>

lemma deadline_pending:
  assumes "sound g" and "map_of (deadlines g) i = Some t"
  shows "\<exists>b. map_of (pending g) i = Some b \<and> live g b"
proof -
  note W = wellformedD [OF sound_wellformed [OF assms(1)]]
  from assms(2) W(12) have "i \<in> fst ` set (pending g)" by (force dest: map_of_SomeD)
  then obtain b where b: "map_of (pending g) i = Some b" by (metis domD dom_map_of_conv_image_fst)
  then show ?thesis using W(9) by (force dest: map_of_SomeD)
qed

lemma sound_expired: "sound g \<Longrightarrow> sound (upd b (\<lambda>x. x\<lparr>chunks := del i (chunks x)\<rparr>) (drop_pending i g))"
  by (rule sound_upd [OF sound_drop_pending]) simp_all

lemma sound_expired_request:
  assumes s: "sound g" and c: "map_of (requestIDs g) i = Some c" and b: "map_of (pending g) i = Some b"
  defines "h \<equiv> upd b (\<lambda>x. x\<lparr>chunks := del i (chunks x)\<rparr>) (drop_pending i g)"
  shows "sound (h\<lparr>retired := put i b (retired h)\<rparr>)"
proof -
  have l: "live g b" using wellformedD(9) [OF sound_wellformed [OF s]] b by (force dest: map_of_SomeD)
  have "core (h\<lparr>retired := put i b (retired h)\<rparr>) = core ((drop_pending i g)\<lparr>retired := put i b (retired g)\<rparr>)"
    by (simp add: h_def core_def upd_def key_of_def drop_pending_fields fun_eq_iff)
  then show ?thesis using sound_core sound_retire [OF s c l] by blast
qed

lemma sound_expire_operations:
  "sound (fst x) \<Longrightarrow> \<exists>y. expire_operations is x = Some y \<and> sound (fst y)"
proof (induction "is" arbitrary: x)
  case (Cons i "is")
  obtain g ch where x: "x = (g, ch)" by fastforce
  from Cons.prems have s: "sound g" by (simp add: x)
  show ?case
  proof (cases "map_of (deadlines g) i")
    case None
    then show ?thesis using Cons x by simp
  next
    case d: (Some t)
    obtain b where b: "map_of (pending g) i = Some b" using deadline_pending [OF s d] by blast
    let ?g = "upd b (\<lambda>x. x\<lparr>chunks := del i (chunks x)\<rparr>) (drop_pending i g)"
    have v: "sound (failure_or_cancel c m (?g\<lparr>retired := put i b (retired ?g)\<rparr>))"
      if "map_of (requestIDs g) i = Some c" for c m
      using sound_core [OF core_response(4)] sound_expired_request [OF s that b] by blast
    show ?thesis
      using Cons x d b sound_fail [OF sound_expired [OF s]] v
      by (cases "clk g < t"; cases "map_of (requestIDs g) i") (simp_all add: Let_def)
  qed
qed simp

lemma sound_open:
  assumes s: "sound g" and n: "map_of (sources g) (src_id x) = None"
  shows "sound (open_source x g)" (is "sound ?h")
proof -
  note W = wellformedD [OF sound_wellformed [OF s]]
  have old: "b < nextb g" if "live g b" for b
    using that W(6) by (force simp: live_def)
  have k: "key_of ?h b = key_of g b" "bSurface (hp ?h b) = bSurface (hp g b)" if "b < nextb g" for b
    using that by (simp_all add: open_source_def key_of_def)
  have new: "key_of ?h (nextb g) = src_id x" "\<not> bSurface (hp ?h (nextb g))"
    by (simp_all add: open_source_def key_of_def new_backend_def)
  have set: "set (sources ?h) = insert (src_id x, nextb g) (set (sources g))"
    using n W(1) by (force simp: open_source_def set_put map_of_eq_None_iff)
  have l: "live ?h b \<longleftrightarrow> live g b \<or> b = nextb g" for b
    by (auto simp: live_def set)
  have f: "pending ?h = pending g" "requestIDs ?h = requestIDs g" "deadlines ?h = deadlines g" "retired ?h = retired g"
      "active ?h = active g" "fenceSource ?h = fenceSource g" "requestSequence ?h = requestSequence g"
      "nextb ?h = nextb g + 1" "internal ?h = internal g"
    by (simp_all add: open_source_def internal_def)
  have "wellformed ?h"
  proof (rule wellformedI)
    show "distinct (keys (sources ?h))" using W(1) by (simp add: open_source_def)
    show "key_of ?h (snd e) = fst e" "snd e < nextb ?h" if "e \<in> set (sources ?h)" for e
    proof -
      show "key_of ?h (snd e) = fst e" "snd e < nextb ?h"
        using that new(1) k(1) [of "snd e"] W(5,6) [of e] unfolding set f by auto
    qed
  qed (use W l in \<open>simp_all add: f\<close>)
  moreover have "excl ?h"
    using s l k(2) new(2) old unfolding sound_def excl_def by blast
  ultimately show ?thesis by (simp add: sound_def)
qed

lemma sound_relabel: "sound g \<Longrightarrow>
    sound (upd b (\<lambda>x. x\<lparr>src := (src (hp g b))\<lparr>src_name := n, src_label := l\<rparr>\<rparr>) g)"
proof -
  have "core (upd b (\<lambda>x. x\<lparr>src := (src (hp g b))\<lparr>src_name := n, src_label := l\<rparr>\<rparr>) g) = core g"
    by (simp add: core_def upd_def key_of_def fun_eq_iff)
  then show "sound g \<Longrightarrow> ?thesis" using sound_core by blast
qed

lemma sound_admit: "sound (fst x) \<Longrightarrow> sound (fst (admit ss x))"
proof (induction ss arbitrary: x)
  case (Cons s ss)
  obtain g ch where x: "x = (g, ch)" by fastforce
  show ?case
    using Cons x sound_open [of g s] sound_relabel [of g] by (simp add: Let_def split: option.split)
qed simp

lemma good_refresh:
  assumes s: "sound g"
  shows "good (refresh g)"
proof -
  let ?v = "visible (visible_list g)"
  obtain g1 c1 where 1: "retire_hidden ?v (keys (sources g)) (g, False) = (g1, c1)" by fastforce
  let ?g2 = "forget_recoveries ?v g1"
  obtain g3 c3 where 3: "expire_fence (expire_starting (keys (sources ?g2)) (?g2, c1)) = (g3, c3)" by fastforce
  have "sound g1" using sound_retire_hidden [of "(g, False)" ?v "keys (sources g)"] s by (simp add: 1)
  then have "sound ?g2"
    using sound_core [of ?g2 g1] by (simp add: forget_recoveries_def session_simps)
  then have "sound g3"
    using sound_expire_fence [OF sound_expire_starting, of "(?g2, c1)" "keys (sources ?g2)"] by (simp add: 3)
  then obtain y where 4: "expire_operations (keys (deadlines g3)) (g3, c3) = Some y" and y: "sound (fst y)"
    using sound_expire_operations [of "(g3, c3)" "keys (deadlines g3)"] by auto
  obtain g5 c5 where 5: "admit (visible_list g) y = (g5, c5)" by fastforce
  have s5: "sound g5" using sound_admit [OF y, of "visible_list g"] by (simp add: 5)
  have "sound (publish_or_cancel g5)"
    using good_publish [OF s5] sound_core [of "fst (publish g5)\<lparr>cancelled := True\<rparr>" "fst (publish g5)"]
    by (cases "publish g5") (auto simp: publish_or_cancel_def good_def session_simps split: option.split)
  then show ?thesis
    using s5 by (simp add: refresh_def Let_def 1 3 4 5 good_ok)
qed

section \<open>The event loop\<close>

lemma good_handle:
  assumes s: "sound g" and that: "\<And>x. e = ClientGone x \<Longrightarrow> x \<noteq> EFuel \<and> x \<noteq> EPanic"
  shows "good (handle e g)"
proof (cases e)
  case (FromSource b p)
  have "good (server b p g)" by (rule good_server [OF s])
  then show ?thesis
    using FromSource good_ok [OF s] good_publish [OF sound_fail]
    by (cases "server b p g"; cases "snd (server b p g)") (auto simp: good_def runs_def)
next
  case (Opened b)
  then show ?thesis using s by (auto intro!: good_ok sound_upd)
qed (use s that in \<open>auto intro: good_refresh good_client good_err good_ok good_publish sound_fail\<close>)

end
