(* ===== verification/Reachability.thy ===== *)
theory Reachability
  imports Lifecycle
begin

text \<open>
  The sessions \<open>Serve\<close> can reach, as a step relation: the environment lets time pass, changes the
  catalog and decides which of the next writes fail; the loop handles one event. The invariants of
  \<open>Lifecycle\<close> hold of every one of them.
\<close>

section \<open>Steps\<close>

text \<open>What the session takes from outside is not an error of the model.\<close>

fun external :: "event \<Rightarrow> bool" where
  "external (ClientGone e) = (e \<noteq> EFuel \<and> e \<noteq> EPanic)"
| "external (SourceGone b e) = (e \<noteq> EFuel \<and> e \<noteq> EPanic)"
| "external _ = True"

inductive gate_step :: "session \<Rightarrow> session \<Rightarrow> bool" where
  time: "t \<ge> clk g \<Longrightarrow> gate_step g (g\<lparr>clk := t\<rparr>)"
| catalog: "gate_step g (g\<lparr>catalog := ss\<rparr>)"
| viewer_weather: "gate_step g (g\<lparr>oplan := plan\<rparr>)"
| source_weather: "gate_step g (upd b (\<lambda>x. x\<lparr>wplan := plan\<rparr>) g)"
| event: "external e \<Longrightarrow> handle e g = (g', None) \<Longrightarrow> gate_step g g'"

inductive reachable :: "session \<Rightarrow> bool" where
  start: "serve b (new_session e ss now nonce) = (g, None) \<Longrightarrow> reachable g"
| step: "reachable g \<Longrightarrow> gate_step g h \<Longrightarrow> reachable h"

inductive_cases gate_stepE: "gate_step g h"

lemma sound_new: "sound (new_session e ss now nonce)"
proof -
  let ?g = "new_session e ss now nonce"
  have l: "\<not> live ?g b" for b by (simp add: live_def new_session_def)
  have "wellformed ?g"
    by (rule wellformedI)
       (simp_all add: new_session_def internal_def live_def maxInternalRequests_def maxRequests_def)
  with l show ?thesis by (simp add: sound_def excl_def)
qed

lemma good_serve:
  assumes "sound g"
  shows "good (serve b g)"
proof -
  let ?h = "\<lambda>n. g\<lparr>surfaceActive := nActive n, cols := nCols n, rows := nRows n, resize := nResize n,
      hello := nHello n\<rparr>"
  have h: "sound (?h n)" for n
    using assms sound_core [of "?h n" g] by (simp add: session_simps)
  have 1: "good (andthen (jsonControl k v g) (\<lambda>g1. (g1, Some (EText m))))" for k v m
    by (intro good_andthen good_frames assms good_err) simp_all
  have 2: "good (andthen (andthen (jsonControl k v (?h n)) publish) refresh)" for k v n
    by (intro good_andthen good_frames h good_publish good_refresh)
  show ?thesis
    unfolding serve_def Let_def
    by (auto split: option.split sum.split intro: 1 2 good_err [OF assms])
qed

lemma sound_step: "gate_step g h \<Longrightarrow> sound g \<Longrightarrow> sound h"
proof (induction rule: gate_step.induct)
  case (time t g)
  then show ?case using sound_core [of "g\<lparr>clk := t\<rparr>" g] by (simp add: core_def key_of_def fun_eq_iff)
next
  case (catalog g ss)
  then show ?case using sound_core [of "g\<lparr>catalog := ss\<rparr>" g] by (simp add: core_def key_of_def fun_eq_iff)
next
  case (viewer_weather g plan)
  then show ?case using sound_core [of "g\<lparr>oplan := plan\<rparr>" g] by (simp add: session_simps)
next
  case (source_weather b plan g)
  then show ?case by (intro sound_upd) simp_all
next
  case (event e g g')
  have "good (handle e g)" by (rule good_handle [OF event.prems]) (use event.hyps in auto)
  with event.hyps show ?case by (simp add: good_def)
qed

lemma reachable_is_sound: "reachable g \<Longrightarrow> sound g"
proof (induction rule: reachable.induct)
  case (start b e ss now nonce g)
  then show ?case using good_serve [OF sound_new, of b e ss now nonce] by (simp add: good_def)
next
  case (step g h)
  then show ?case by (blast intro: sound_step)
qed

section \<open>What holds of every reachable session\<close>

lemmas reachable_wellformed = sound_wellformed [OF reachable_is_sound]

lemma pending_split: "wellformed g \<Longrightarrow> length (pending g) = length (internal g) + length (requestIDs g)"
proof -
  assume w: "wellformed g"
  note W = wellformedD [OF w]
  let ?p = "\<lambda>e. fst e \<in> set (keys (requestIDs g))"
  have "length (filter ?p (pending g)) = card (set (map fst (filter ?p (pending g))))"
    using W(2) by (subst distinct_card) (simp_all add: distinct_map_filter)
  also have "map fst (filter ?p (pending g)) = filter (\<lambda>i. i \<in> set (keys (requestIDs g))) (keys (pending g))"
    by (simp add: filter_map comp_def)
  also have "set \<dots> = fst ` set (requestIDs g) \<inter> fst ` set (pending g)"
    by auto
  also have "\<dots> = fst ` set (requestIDs g)"
    using W(11) by (rule Int_absorb2)
  also have "card \<dots> = length (requestIDs g)"
    using distinct_card [OF W(3)] by simp
  finally show ?thesis
    using sum_length_filter_compl [of ?p "pending g"] by (simp add: internal_def)
qed

text \<open>
  C2. Bounded bookkeeping (\<open>server\<close>, \<open>client\<close>, \<open>refresh\<close>): in every reachable session at most
  64 viewer requests are outstanding or expired, at most 16 surface changes are outstanding, and
  every outstanding operation has a deadline, is addressed to a connected source, and is either
  outstanding or expired, never both.
\<close>

theorem reachable_bounds:
  assumes "reachable g"
  shows "length (requestIDs g) + length (retired g) \<le> 64 \<and>
    length (pending g) \<le> length (requestIDs g) + 16 \<and>
    set (keys (deadlines g)) = set (keys (pending g)) \<and>
    (\<forall>(i, b) \<in> set (pending g). live g b \<and> i \<notin> set (keys (retired g)))"
proof -
  note W = wellformedD [OF reachable_wellformed [OF assms]]
  have "live g (snd e) \<and> fst e \<notin> set (keys (retired g))" if "e \<in> set (pending g)" for e
    using W(9) [OF that] W(13) that by (auto simp: disjoint_iff)
  then have "\<forall>(i, b) \<in> set (pending g). live g b \<and> i \<notin> set (keys (retired g))"
    by (metis case_prodI2 fst_conv snd_conv)
  then show ?thesis
    using pending_split [OF reachable_wellformed [OF assms]] W(12,14,15)
    by (simp add: maxRequests_def maxInternalRequests_def MaxSources_def)
qed

text \<open>
  C1. One layout authority (\<open>syncInterest\<close>, \<open>setInterest\<close>): in every reachable session at most one
  connected source has been told that the viewer's surface is active on it; the active source and
  the source a presentation fence waits for are connected.
\<close>

theorem reachable_authority:
  assumes "reachable g"
  shows "(\<forall>a b. live g a \<and> live g b \<and> bSurface (hp g a) \<and> bSurface (hp g b) \<longrightarrow> a = b) \<and>
    (\<forall>b. active g = Some b \<or> fenceSource g = Some b \<longrightarrow> current g b)"
  using reachable_is_sound [OF assms] wellformedD(7,8) live_current
  unfolding sound_def excl_def by blast

text \<open>
  C26. The loop is total (\<open>Serve\<close>): whatever frame, expiry or failure arrives in a reachable session,
  the event is handled without dereferencing the entry \<open>g.pending[id]\<close> the code does not check, and the
  recursion of \<open>publish\<close> through failing sources ends; the session is then closed by an error or is
  reachable again.
\<close>

theorem events_handled:
  assumes "reachable g" and "external e"
  shows "snd (handle e g) \<noteq> Some EPanic \<and> snd (handle e g) \<noteq> Some EFuel \<and>
    (snd (handle e g) = None \<longrightarrow> reachable (fst (handle e g)))"
proof -
  have "good (handle e g)"
    by (rule good_handle [OF reachable_is_sound [OF assms(1)]]) (use assms(2) in auto)
  moreover have "reachable (fst (handle e g))" if "snd (handle e g) = None"
    using that assms by (metis gate_step.event prod.collapse reachable.step)
  ultimately show ?thesis by (auto simp: good_def runs_def)
qed

text \<open>
  C27. Publication terminates (\<open>publish\<close>): nested publications happen only after a source was removed,
  so more fuel than there are sources changes nothing, the result is never the bound of the model,
  and \<open>publish\<close> satisfies the recursive equation of the code.
\<close>

theorem publish_terminates:
  assumes "reachable g" and "length (sources g) < n"
  shows "publish_fuel n g = publish g \<and> snd (publish g) \<noteq> Some EFuel \<and> publish g = publish_body publish g"
proof -
  have w: "wellformed g" by (rule reachable_wellformed [OF assms(1)])
  have "publish_fuel n g = publish g"
    using tied.agree [OF w assms(2)] by simp
  with publish_fine [OF w] publish_unfold [OF w] show ?thesis by (simp add: fine_def runs_def)
qed

section \<open>A session to start from\<close>

definition sample_viewer :: "(bytes \<times> json) list" where
  "sample_viewer = put ''surface_active'' (JBool False) sample_hello"

definition sample_env :: environment where
  "sample_env = \<lparr>json = \<lparr>enc = (\<lambda>_. ''{}''), dec = (\<lambda>_. Some (JObj sample_viewer))\<rparr>,
     sha256 = (\<lambda>_. replicate 32 CHR ''s''), wide = (\<lambda>_. 0)\<rparr>"

definition sample_gate :: session where
  "sample_gate = fst (serve (control ''endpoint.hello.v1'' ''{}'') (new_session sample_env [] 0 []))"

lemma hello_data_control:
  "length data \<le> MaxFrame \<Longrightarrow> hello_data (control ''endpoint.hello.v1'' data) = Some data"
  using control_reads [of "''endpoint.hello.v1''" data] by (auto simp: hello_data_def MaxFrame_def)

lemma sample_negotiates: "\<exists>n. negotiateHello (json sample_env) ''{}'' = Inr n \<and> \<not> nActive n"
  by (simp add: negotiateHello_def sample_env_def sample_viewer_def sample_hello_def requiredCodecs_def strings_def
      hello_geometry_def member_def helloInteger_def)

text \<open>A session without sources whose viewer is still listening answers and goes on.\<close>

definition idle :: "session \<Rightarrow> bool" where
  "idle g \<longleftrightarrow> env g = sample_env \<and> sources g = [] \<and> active g = None \<and> \<not> surfaceActive g \<and>
     \<not> fencePending g \<and> fenceSource g = None \<and> deadlines g = [] \<and> catalog g = [] \<and> oplan g = []"

lemma idle_control: "idle g \<Longrightarrow> length k < 100 \<Longrightarrow> \<exists>h. jsonControl k v g = (h, None) \<and> idle h"
  using length_number [of "of_nat (length k)"] length_number [of "of_nat (length ''{}'')"]
  by (simp add: jsonControl_def write_out_def idle_def frame_ok_def control_def sample_env_def MaxFrame_def str_def)

lemma idle_publish:
  assumes "idle g"
  shows "\<exists>h. publish g = (h, None) \<and> idle h"
proof -
  let ?g = "g\<lparr>srevision := srevision g + 1\<rparr>"
  have i: "idle ?g" using assms by (simp add: idle_def)
  obtain h where h: "jsonControl ''shell.snapshot.v1'' (JObj (finish_aggregate ?g (aggregate g))) ?g = (h, None)" "idle h"
    using idle_control [OF i, of "''shell.snapshot.v1''"] by auto
  then show ?thesis
    using assms by (simp add: publish_def publish_body_def choose_active_def snapshotIDs_def syncInterest_def
        andthen_def idle_def sendSurface_def resumeFence_def Let_def)
qed

lemma idle_refresh: "idle g \<Longrightarrow> \<exists>h. refresh g = (h, None) \<and> idle h"
  by (simp add: refresh_def idle_def visible_list_def visible_def forget_recoveries_def expire_fence_def Let_def)

lemma sample_serves: "\<exists>g. serve (control ''endpoint.hello.v1'' ''{}'') (new_session sample_env [] 0 []) = (g, None) \<and> idle g"
proof -
  obtain n where n: "negotiateHello (json sample_env) ''{}'' = Inr n" "\<not> nActive n"
    using sample_negotiates by blast
  have e: "env (new_session sample_env [] 0 []) = sample_env" by (simp add: new_session_def)
  let ?g = "(new_session sample_env [] 0 [])\<lparr>surfaceActive := nActive n, cols := nCols n,
      rows := nRows n, resize := nResize n, hello := nHello n\<rparr>"
  have "idle ?g" using n(2) by (simp add: idle_def new_session_def)
  then obtain h1 h2 h3 where "jsonControl ''endpoint.welcome.v1'' (JObj welcomeValue) ?g = (h1, None)"
      "publish h1 = (h2, None)" "refresh h2 = (h3, None)" "idle h3"
    using idle_control [of ?g "''endpoint.welcome.v1''" "JObj welcomeValue"] idle_publish idle_refresh by auto metis
  then show ?thesis
    unfolding serve_def hello_data_control [of "''{}''", simplified MaxFrame_def, simplified] option.case e n(1) sum.case
    by (simp add: Let_def andthen_def)
qed

lemma sample_reachable: "reachable sample_gate" and sample_idle: "idle sample_gate"
  using sample_serves reachable.start by (fastforce simp: sample_gate_def)+

lemma reachable_bounds_witness: "length (requestIDs sample_gate) + length (retired sample_gate) \<le> 64"
  using reachable_bounds [OF sample_reachable] by blast

lemma reachable_authority_witness:
  "reachable sample_gate \<and> \<not> (\<exists>a b. live sample_gate a \<and> live sample_gate b \<and> bSurface (hp sample_gate a) \<and>
     bSurface (hp sample_gate b) \<and> a \<noteq> b)"
  using reachable_authority [OF sample_reachable] sample_reachable by blast

lemma events_handled_witness:
  "snd (handle Tick sample_gate) = None \<and> reachable (fst (handle Tick sample_gate))"
  using events_handled [OF sample_reachable, of Tick] idle_refresh [OF sample_idle] by fastforce

lemma publish_terminates_witness:
  "publish_fuel 1 sample_gate = publish sample_gate \<and> publish sample_gate = publish_body publish sample_gate"
  using publish_terminates [OF sample_reachable, of 1] sample_idle by (simp add: idle_def)

text \<open>And one with a source.\<close>

definition sample_source :: source where
  "sample_source = \<lparr>src_id = ''s'', src_name = ''box'', src_label = ''default'', src_gen = ''1''\<rparr>"

definition sample_open :: session where
  "sample_open = open_source sample_source (new_session sample_env [] 0 [])"

lemma sample_open_sound: "sound sample_open"
  unfolding sample_open_def by (rule sound_open [OF sound_new]) (simp add: new_session_def)

lemma sample_open_live: "live sample_open b \<longleftrightarrow> b = 0"
  by (auto simp: sample_open_def live_def open_source_def new_session_def sample_source_def)

end
