(* ===== verification/Routing.thy ===== *)
theory Routing
  imports Reachability
begin

text \<open>
  What the gateway promises about requests, responses, recovery and the aggregate: a response
  reaches a viewer only from the source the request went to, a late one never does, the requests of
  a source that goes away are answered, and a source that fails is retried with growing delays or
  not at all.
\<close>

section \<open>Responses\<close>

definition source_response :: "bytes \<Rightarrow> bytes \<Rightarrow> bool \<Rightarrow> bytes \<Rightarrow> bytes" where
  "source_response bt ident final data =
     number 18 @ str bt @ str ident @ [if final then CHR 0x01 else CHR 0x00] @ str data"

lemma server_encoded:
  assumes "length bt \<le> MaxFrame" and "length ident \<le> MaxFrame" and "length data \<le> MaxFrame"
  shows "server b (source_response bt ident final data) g =
    (if bt \<noteq> bboot (hp g b) then (g, Some protocolFailure) else deliver b ident final data g)"
proof -
  let ?f = "[if final then CHR 0x01 else CHR 0x00]" and ?p = "source_response bt ident final data"
  let ?d = "decoder_of ?p"
  have r0: "reads ?d (number 18 @ str bt @ str ident @ ?f @ str data)"
    by (simp add: source_response_def)
  note r1 = reads_advance [OF r0]
  note r2 = reads_advance [OF r1]
  note r3 = reads_advance [OF r2]
  note r4 = reads_advance [OF r3]
  have r4': "reads (advance (advance (advance (advance ?d (number 18)) (str bt)) (str ident)) ?f) (str data @ [])"
    using r4 by simp
  have f: "raw 1 (advance (advance (advance ?d (number 18)) (str bt)) (str ident)) =
      (?f, advance (advance (advance (advance ?d (number 18)) (str bt)) (str ident)) ?f)"
    by (rule raw_readsN [OF r3]) simp
  have "server b ?p g = server_response b ?p (advance ?d (number 18)) g"
    by (simp add: server_def num_reads [OF r0])
  then show ?thesis
    unfolding server_response_def text_reads [OF r1 assms(1)] prod.case text_reads [OF r2 assms(2)] f
      text_reads [OF r4' assms(3)]
    by (simp add: decoder_simps decoder_of_def source_response_def)
qed

text \<open>
  C28. Responses cannot cross sources (\<open>server\<close>, tag 18): a response whose identifier is neither
  pending nor expired at the source that sent it is refused as a protocol failure and leaves the
  session untouched, so nothing of it reaches the viewer.
\<close>

theorem response_isolation:
  assumes "map_of (pending g) ident \<noteq> Some b" and "map_of (retired g) ident \<noteq> Some b"
    and "length bt \<le> MaxFrame" and "length ident \<le> MaxFrame" and "length data \<le> MaxFrame"
  shows "server b (source_response bt ident final data) g = (g, Some protocolFailure)"
  using assms by (simp add: server_encoded deliver_def split: option.split)

lemma response_isolation_witness:
  "server 0 (source_response ''b'' ''hive:request:9'' True ''{}'') sample_open = (sample_open, Some protocolFailure)"
  by (rule response_isolation)
     (simp_all add: sample_open_def open_source_def new_session_def MaxFrame_def)

text \<open>
  Late responses are drained (\<open>refresh\<close> and \<open>server\<close>, tag 18): chunks of a request that has
  expired change nothing but the list of expired requests, and only the final one frees its slot;
  in particular nothing is written to the viewer, whose request identifier may be in use again.
\<close>

theorem late_response_drained:
  assumes "map_of (retired g) ident = Some b" and "bt = bboot (hp g b)"
    and "length bt \<le> MaxFrame" and "length ident \<le> MaxFrame" and "length data \<le> MaxFrame"
  shows "server b (source_response bt ident final data) g =
    (if final then g\<lparr>retired := del ident (retired g)\<rparr> else g, None)"
  using assms by (simp add: server_encoded deliver_def)

lemma late_response_drained_witness:
  "let g = sample_open\<lparr>retired := [(''hive:request:1'', 0)]\<rparr>
   in server 0 (source_response [] ''hive:request:1'' True ''{}'') g = (sample_open\<lparr>retired := []\<rparr>, None)"
proof -
  have "bboot (hp sample_open 0) = []"
    by (simp add: sample_open_def open_source_def new_session_def new_backend_def)
  then show ?thesis
    using late_response_drained [of "sample_open\<lparr>retired := [(''hive:request:1'', 0)]\<rparr>" "''hive:request:1''" 0 "[]" "''{}''" True]
    by (simp add: MaxFrame_def)
qed

text \<open>
  An undecodable final response (\<open>server\<close>, tag 18): the pending request is forgotten before the
  JSON is decoded, so when decoding fails no answer is written and none can follow; the failure of
  the source that comes next no longer finds the request.
\<close>

theorem malformed_response_unanswered:
  assumes "map_of (requestIDs g) ident = Some c" and "map_of (pending g) ident = Some b"
    and "map_of (retired g) ident = None" and "chunks (hp g b) = []" and "length data \<le> MaxFrame"
    and "dec (json (env g)) data = None"
  shows "\<exists>g'. deliver b ident True data g = (g', Some protocolFailure) \<and> olog g' = olog g \<and>
    map_of (requestIDs g') ident = None \<and> map_of (pending g') ident = None"
  using assms
  by (simp add: deliver_def Let_def finish_response_def drop_pending_def upd_def maxRequests_def)

lemma malformed_response_unanswered_witness:
  "let g = sample_open\<lparr>pending := [(''i'', 0)], requestIDs := [(''i'', ''c'')],
       env := sample_env\<lparr>json := \<lparr>enc = (\<lambda>_. []), dec = (\<lambda>_. None)\<rparr>\<rparr>\<rparr>
   in \<exists>g'. deliver 0 ''i'' True ''{'' g = (g', Some protocolFailure) \<and> olog g' = olog g"
proof -
  let ?g = "sample_open\<lparr>pending := [(''i'', 0)], requestIDs := [(''i'', ''c'')],
       env := sample_env\<lparr>json := \<lparr>enc = (\<lambda>_. []), dec = (\<lambda>_. None)\<rparr>\<rparr>\<rparr>"
  have "\<exists>g'. deliver 0 ''i'' True ''{'' ?g = (g', Some protocolFailure) \<and> olog g' = olog ?g \<and>
      map_of (requestIDs g') ''i'' = None \<and> map_of (pending g') ''i'' = None"
    by (rule malformed_response_unanswered)
       (simp_all add: sample_open_def open_source_def new_session_def new_backend_def MaxFrame_def)
  then show ?thesis by (auto simp: Let_def)
qed

section \<open>The presentation fence\<close>

text \<open>
  A presentation is acknowledged by the source it was sent to (\<open>server\<close>,
  \<open>endpoint.presentation.ready.v1\<close>): the viewer is told that its presentation is ready, and the
  fence is lifted, exactly when the source the fence waits for returns the fence's own data; any
  other acknowledgement is dropped without a trace.
\<close>

theorem fence_acknowledged:
  assumes "length data \<le> MaxFrame"
  shows "server b (control ''endpoint.presentation.ready.v1'' data) g =
    (if fenceSource g = Some b \<and> data = fence g
     then write_out (control ''endpoint.presentation.ready.v1'' data)
            (g\<lparr>fence := [], fencePending := False, fenceSource := None\<rparr>)
     else (g, None))"
proof -
  obtain d1 d2 d3 where d: "num (decoder_of (control ''endpoint.presentation.ready.v1'' data)) = (20, d1)"
    "text_dec d1 = (''endpoint.presentation.ready.v1'', d2)" "text_dec d2 = (data, d3)" "\<not> derr d3"
    "pos d3 = length (control ''endpoint.presentation.ready.v1'' data)"
    using control_reads [of "''endpoint.presentation.ready.v1''" data] assms by (auto simp: MaxFrame_def)
  then show ?thesis by (simp add: server_def server_control_def)
qed

lemma fence_acknowledged_witness:
  "let g = sample_open\<lparr>fence := ''f'', fencePending := True, fenceSource := Some 0\<rparr>
   in server 0 (control ''endpoint.presentation.ready.v1'' ''f'') g =
        write_out (control ''endpoint.presentation.ready.v1'' ''f'')
          (g\<lparr>fence := [], fencePending := False, fenceSource := None\<rparr>) \<and>
      server 0 (control ''endpoint.presentation.ready.v1'' ''x'') g = (g, None)"
  by (simp add: Let_def fence_acknowledged MaxFrame_def del: session.update_convs)

section \<open>Requests\<close>

text \<open>
  Wire identifiers are fresh (\<open>client\<close>, tag 15): a request is forwarded to the target under an
  identifier that is neither outstanding nor expired, and the viewer's own identifier is kept only
  in the gateway's table.
\<close>

theorem forwarded_request_fresh:
  assumes "sound g" and "live g t" and "requestSequence g \<noteq> - 1"
  shows "\<exists>wire h. forward_request ident t v g =
      send publish (Some t) (request_frame h t (put ''id'' (JStr wire) v)) h \<and>
    wire \<notin> set (keys (pending g)) \<union> set (keys (retired g)) \<union> set (keys (requestIDs g)) \<and>
    pending h = put wire t (pending g) \<and> requestIDs h = put wire ident (requestIDs g) \<and>
    map_of (deadlines h) wire = Some (clk g + operationTimeout)"
proof -
  note W = wellformedD [OF sound_wellformed [OF assms(1)]]
  let ?i = "requestPrefix @ decimal (unat (requestSequence g + 1))"
  have c: "current g t" using assms(1,2) live_current sound_wellformed by blast
  note F = request_id_fresh [OF assms(1,3)]
  show ?thesis
    using c assms(3) F
    by (intro exI [of _ ?i] exI [of _ "g\<lparr>requestSequence := requestSequence g + 1,
        pending := put ?i t (pending g), requestIDs := put ?i ident (requestIDs g),
        deadlines := put ?i (clk g + operationTimeout) (deadlines g)\<rparr>"])
       (simp add: forward_request_def Let_def)
qed

lemma forwarded_request_fresh_witness:
  "live sample_open 0 \<and> (\<exists>wire h. forward_request ''c'' 0 [] sample_open =
      send publish (Some 0) (request_frame h 0 (put ''id'' (JStr wire) [])) h)"
proof -
  have l: "live sample_open 0" by (simp add: sample_open_live)
  have "requestSequence sample_open \<noteq> - 1" by (simp add: sample_open_def open_source_def new_session_def)
  from forwarded_request_fresh [OF sample_open_sound l this, of "''c''" "[]"] l show ?thesis by blast
qed

section \<open>Requests of a source that goes away\<close>

definition failure_frame :: "session \<Rightarrow> bytes \<Rightarrow> bytes \<Rightarrow> bytes" where
  "failure_frame g ident message = response_frame g ident (JObj [(''id'', JStr ident),
     (''error'', JObj [(''code'', JStr ''invalid_request''), (''message'', JStr message)])])"

lemma failure_written: "oplan g = [] \<Longrightarrow> frame_ok (failure_frame g c m) \<Longrightarrow>
    failure_or_cancel c m g = g\<lparr>olog := olog g @ [failure_frame g c m]\<rparr>"
  by (simp add: failure_or_cancel_def failure_def response_def write_out_def failure_frame_def)

lemma failure_or_cancel_fields:
  "oplan g = [] \<Longrightarrow> oplan (failure_or_cancel c m g) = []" "boot (failure_or_cancel c m g) = boot g"
  "env (failure_or_cancel c m g) = env g" "set (olog g) \<subseteq> set (olog (failure_or_cancel c m g))"
  "pending (failure_or_cancel c m g) = pending g" "requestIDs (failure_or_cancel c m g) = requestIDs g"
  by (auto simp: failure_or_cancel_def failure_def response_def write_out_def split: list.split bool.split)

lemma failure_frame_cong: "boot h = boot g \<Longrightarrow> env h = env g \<Longrightarrow> failure_frame h c m = failure_frame g c m"
  by (simp add: failure_frame_def response_frame_def)

lemma remove_pending_answers:
  assumes "oplan g = []"
  shows "set (olog g) \<subseteq> set (olog (remove_pending b is g)) \<and>
    (\<forall>i c. i \<in> set is \<and> map_of (pending g) i = Some b \<and> map_of (requestIDs g) i = Some c \<and> c \<noteq> [] \<and>
       frame_ok (failure_frame g c ''sharing disconnected'') \<longrightarrow>
       failure_frame g c ''sharing disconnected'' \<in> set (olog (remove_pending b is g)))"
  using assms
proof (induction "is" arbitrary: g)
  case (Cons i "is")
  show ?case
  proof (cases "map_of (pending g) i = Some b")
    case False
    with Cons.IH [OF Cons.prems] show ?thesis by auto
  next
    case True
    define c where "c = (case map_of (requestIDs g) i of None \<Rightarrow> [] | Some c \<Rightarrow> c)"
    define h where "h = (if c \<noteq> [] then failure_or_cancel c ''sharing disconnected'' (drop_pending i g) else drop_pending i g)"
    have d: "oplan (drop_pending i g) = []" "boot (drop_pending i g) = boot g" "env (drop_pending i g) = env g"
        "olog (drop_pending i g) = olog g"
      using Cons.prems by (simp_all add: drop_pending_def)
    have h: "oplan h = []" "boot h = boot g" "env h = env g" "set (olog g) \<subseteq> set (olog h)"
        "map_of (pending h) j = (if j = i then None else map_of (pending g) j)"
        "map_of (requestIDs h) j = (if j = i then None else map_of (requestIDs g) j)" for j
      using failure_or_cancel_fields [where g = "drop_pending i g" and c = c and m = "''sharing disconnected''"] d
      by (auto simp: h_def) (auto simp: drop_pending_def)
    have now: "failure_frame g c ''sharing disconnected'' \<in> set (olog h)"
      if "c \<noteq> []" "frame_ok (failure_frame g c ''sharing disconnected'')"
      using that failure_written [OF d(1), of c "''sharing disconnected''"] failure_frame_cong [OF d(2,3)]
      by (simp add: h_def)
    have r: "remove_pending b (i # is) g = remove_pending b is h"
      using True by (simp add: Let_def h_def c_def)
    note I = Cons.IH [OF h(1), unfolded failure_frame_cong [OF h(2,3)]]
    have "failure_frame g x ''sharing disconnected'' \<in> set (olog (remove_pending b is h))"
      if "j \<in> set (i # is)" "map_of (pending g) j = Some b" "map_of (requestIDs g) j = Some x" "x \<noteq> []"
        "frame_ok (failure_frame g x ''sharing disconnected'')" for j x
    proof (cases "j = i")
      case True
      with that have "x = c" by (simp add: c_def)
      with that now I show ?thesis by blast
    next
      case False
      with that I h(5) [of j] h(6) [of j] show ?thesis by simp
    qed
    then show ?thesis
      unfolding r using I h(4) by blast
  qed
qed simp

text \<open>
  C38. No silent loss (\<open>remove\<close>): when a source goes away every viewer request pending at it is
  answered with a failure under the viewer's own identifier, as long as the viewer's connection
  accepts the frame.
\<close>

theorem removed_requests_answered:
  assumes "oplan g = []" and "map_of (pending g) i = Some b" and "map_of (requestIDs g) i = Some c"
    and "c \<noteq> []" and "frame_ok (failure_frame g c ''sharing disconnected'')"
  shows "failure_frame g c ''sharing disconnected'' \<in> set (olog (remove b g))"
proof -
  let ?h = "if fenceSource g = Some b then g\<lparr>fenceSource := None\<rparr> else g"
  have h: "oplan ?h = []" "pending ?h = pending g" "requestIDs ?h = requestIDs g" "boot ?h = boot g" "env ?h = env g"
    using assms(1) by simp_all
  have i: "i \<in> set (keys (pending ?h))" using assms(2) h(2) by (force dest: map_of_SomeD)
  have "olog (remove b g) = olog (remove_pending b (keys (pending ?h)) ?h)"
    by (simp add: remove_def Let_def upd_def)
  then show ?thesis
    using remove_pending_answers [OF h(1), of b "keys (pending ?h)"] assms(2-5) i
    unfolding failure_frame_cong [OF h(4,5)] h(2,3) by metis
qed

lemma removed_requests_answered_witness:
  "let g = sample_open\<lparr>pending := [(''i'', 0)], requestIDs := [(''i'', ''c'')]\<rparr>
   in failure_frame g ''c'' ''sharing disconnected'' \<in> set (olog (remove 0 g))"
  unfolding Let_def
  by (rule removed_requests_answered [where i = "''i''"])
     (simp_all add: sample_open_def open_source_def new_session_def failure_frame_def response_frame_def
        frame_ok_def MaxFrame_def sample_env_def str_def number_def hex_def put_le.simps)

section \<open>Recovery\<close>

lemma backoff_step: "\<not> blocks e \<Longrightarrow> attempts r = min n 5 \<Longrightarrow>
    attempts (next_record t e r) = min (Suc n) 5 \<and> \<not> blocked (next_record t e r) \<and>
    retryAt (next_record t e r) = t + second * 2 ^ (min (Suc n) 5 - 1)"
  by (auto simp: next_record_def Let_def min_def)

text \<open>
  Bounded exponential backoff (\<open>fail\<close>): after \<open>n\<close> retryable failures of one publication
  generation the source may be tried again 1, 2, 4, 8 and from then on 16 seconds after the last.
\<close>

theorem backoff_delays:
  assumes "ts \<noteq> []" and "\<forall>(t, e) \<in> set ts. \<not> blocks e"
  shows "let r = foldl (\<lambda>r (t, e). next_record t e r) \<lparr>rec_gen = gen, attempts = 0, retryAt = 0, blocked = False\<rparr> ts
    in attempts r = min (length ts) 5 \<and> \<not> blocked r \<and>
       retryAt r = fst (last ts) + second * 2 ^ (min (length ts) 5 - 1) \<and>
       retryAt r \<le> fst (last ts) + 16 * second"
proof -
  let ?r = "foldl (\<lambda>r (t, e). next_record t e r) \<lparr>rec_gen = gen, attempts = 0, retryAt = 0, blocked = False\<rparr> ts"
  have "attempts ?r = min (length ts) 5 \<and> (ts \<noteq> [] \<longrightarrow> \<not> blocked ?r \<and>
      retryAt ?r = fst (last ts) + second * 2 ^ (min (length ts) 5 - 1))"
    using assms(2)
  proof (induction ts rule: rev_induct)
    case (snoc x ts)
    obtain t e where x: "x = (t, e)" by fastforce
    from snoc backoff_step [of e _ "length ts" t] show ?case by (simp add: x)
  qed simp
  moreover have "(2::nat) ^ (min (length ts) 5 - 1) \<le> 2 ^ 4"
    by (rule power_increasing) auto
  ultimately show ?thesis
    using assms(1) by (simp add: Let_def mult.commute)
qed

lemma backoff_delays_witness:
  "let r = foldl (\<lambda>r (t, e). next_record t e r) \<lparr>rec_gen = ''1'', attempts = 0, retryAt = 0, blocked = False\<rparr>
       [(3, EEOF), (7, EIO)]
   in attempts r = 2 \<and> retryAt r = 7 + 2 * second"
  using backoff_delays [of "[(3, EEOF), (7, EIO)]" "''1''"] by (simp add: Let_def)

lemma remove_recoveries: "recoveries (remove b g) = recoveries g"
proof -
  have "recoveries (remove_pending b is g) = recoveries g" for "is" g
    by (induction "is" arbitrary: g)
       (auto simp: Let_def drop_pending_def failure_or_cancel_def failure_def response_def write_out_def
          split: list.split bool.split)
  then show ?thesis by (simp add: remove_def Let_def upd_def)
qed

text \<open>
  Quarantine (\<open>fail\<close> and \<open>refresh\<close>): once a current source has failed for good (an invalid frame
  or a failure that is not retryable) its publication is not opened again, however late, as long
  as the same generation stays in the catalog.
\<close>

theorem blocked_source_quarantined:
  assumes "wellformed g" and "live g b" and "blocks e" and "src_id s = key_of g b"
  shows "src_id s \<notin> set (keys (sources (fst (admit [s] ((fail b e g)\<lparr>clk := t\<rparr>, changed)))))"
proof -
  have c: "current g b" using assms(1,2) live_current by blast
  have f: "\<exists>r. map_of (recoveries (fail b e g)) (src_id s) = Some r \<and> blocked r"
    using c assms(3,4) by (simp add: fail_def Let_def remove_recoveries next_record_def)
  have n: "map_of (sources (fail b e g)) (src_id s) = None"
  proof -
    have k: "key_of (fail b e g) = key_of g" using fail_safe(1) [OF assms(1)] by (simp add: safe_def kept_def)
    note w = safe_wellformed [OF fail_safe(1) [OF assms(1)]]
    have "\<not> (\<exists>x. map_of (sources (fail b e g)) (src_id s) = Some x)"
    proof
      assume "\<exists>x. map_of (sources (fail b e g)) (src_id s) = Some x"
      then obtain x where x: "map_of (sources (fail b e g)) (src_id s) = Some x" by blast
      then have l: "live (fail b e g) x" by (rule found_live)
      have "key_of g x = src_id s"
        using wellformedD(5) [OF w, OF map_of_SomeD [OF x]] k by simp
      moreover have "live g x" using l safe_live [OF fail_safe(1) [OF assms(1)]] by blast
      ultimately have "x = b"
        using assms(4) c live_current [OF assms(1)] by (simp add: current_def)
      with l fail_safe(3) [OF assms(1)] show False by blast
    qed
    then show ?thesis by auto
  qed
  moreover obtain r where "map_of (recoveries (fail b e g)) (src_id s) = Some r" "blocked r"
    using f by blast
  ultimately have "sources (fst (admit [s] ((fail b e g)\<lparr>clk := t\<rparr>, changed))) = sources (fail b e g)"
    by simp
  with n show ?thesis by (metis domIff dom_map_of_conv_image_fst list.set_map)
qed

lemma blocked_source_quarantined_witness:
  "''s'' \<notin> set (keys (sources (fst (admit [sample_source] ((fail 0 EWire sample_open)\<lparr>clk := 99 * second\<rparr>, False)))))"
proof -
  have l: "live sample_open 0" by (simp add: sample_open_live)
  have k: "src_id sample_source = key_of sample_open 0"
    by (simp add: sample_open_def open_source_def new_backend_def new_session_def key_of_def)
  show ?thesis
    using blocked_source_quarantined [OF sound_wellformed [OF sample_open_sound] l _ k, of EWire "99 * second" False]
    by (simp add: sample_source_def)
qed

end
