(* ===== verification/Projection.thy ===== *)
theory Projection
  imports Reachability
begin

text \<open>
  The aggregate the viewer sees: identifiers carry the prefix of their source and find their way
  back, the workspaces of all sources are numbered through, and only visible publications take part.
\<close>

section \<open>Identifiers\<close>

definition prefixed :: "session \<Rightarrow> bool" where
  "prefixed g \<longleftrightarrow> (\<forall>b. live g b \<longrightarrow> bprefix (hp g b) = [] \<or>
     (\<exists>bt. bprefix (hp g b) = source_prefix g (src (hp g b)) bt))"

lemma source_prefix_length:
  assumes "\<And>x. length (sha256 (env g) x) = 32"
  shows "length (source_prefix g s bt) = 18"
  by (simp add: source_prefix_def assms)

text \<open>
  Identifiers round trip (\<open>publish\<close>, \<open>resolve\<close>): what the aggregate shows as an identifier of
  a source resolves to that source and to the source's own identifier, for any identifier text,
  provided two sources do not share a prefix (a collision of SHA-256 truncated to eight bytes).
\<close>

theorem identifier_round_trip:
  assumes "\<And>x. length (sha256 (env g) x) = 32" and "prefixed g" and "live g b" and "bprefix (hp g b) \<noteq> []"
    and unique: "\<And>c. live g c \<Longrightarrow> bprefix (hp g c) = bprefix (hp g b) \<Longrightarrow> c = b"
  shows "resolve g (with_prefix g b ident) = Some (b, ident)"
proof -
  let ?P = "\<lambda>(k, c). bprefix (hp g c) \<noteq> [] \<and> has_prefix (with_prefix g b ident) (bprefix (hp g c))"
  have len: "length (bprefix (hp g c)) = 18" if "live g c" "bprefix (hp g c) \<noteq> []" for c
    using assms(2) that source_prefix_length [OF assms(1)] by (auto simp: prefixed_def)
  have same: "c = b" if "live g c" "bprefix (hp g c) \<noteq> []" "has_prefix (with_prefix g b ident) (bprefix (hp g c))" for c
  proof (rule unique [OF that(1)])
    have "take 18 (bprefix (hp g b) @ ident) = bprefix (hp g c)"
      using that len [OF that(1,2)] by (simp add: has_prefix_def with_prefix_def)
    then show "bprefix (hp g c) = bprefix (hp g b)"
      using len [OF assms(3,4)] by simp
  qed
  have "?P e \<longleftrightarrow> snd e = b" if "e \<in> set (sources g)" for e
  proof -
    have "live g (snd e)" using that by (auto simp: live_def)
    then show ?thesis using same [of "snd e"] assms(4) by (auto simp: with_prefix_def case_prod_beta)
  qed
  moreover obtain k where "(k, b) \<in> set (sources g)" using assms(3) by (auto simp: live_def)
  ultimately have "\<exists>e. List.find ?P (sources g) = Some e \<and> snd e = b"
    by (smt (verit, ccfv_threshold) find_None_iff find_Some_iff nth_mem option.exhaust snd_conv)
  then show ?thesis
    by (auto simp: resolve_def with_prefix_def split: prod.split)
qed

lemma identifier_round_trip_witness:
  "let g = upd 0 (\<lambda>x. x\<lparr>bboot := ''b'', bprefix := source_prefix sample_open sample_source ''b''\<rparr>) sample_open
   in resolve g (with_prefix g 0 ''pane-1'') = Some (0, ''pane-1'')"
proof -
  define g where "g = upd 0 (\<lambda>x. x\<lparr>bboot := ''b'', bprefix := source_prefix sample_open sample_source ''b''\<rparr>) sample_open"
  have l: "live g b \<longleftrightarrow> b = 0" for b
    using sample_open_live by (simp add: g_def live_def upd_def)
  have p: "bprefix (hp g 0) = source_prefix g (src (hp g 0)) ''b''"
    by (simp add: g_def upd_def source_prefix_def sample_open_def open_source_def new_session_def new_backend_def)
  have "resolve g (with_prefix g 0 ''pane-1'') = Some (0, ''pane-1'')"
  proof (rule identifier_round_trip)
    show "length (sha256 (env g) x) = 32" for x
      by (simp add: g_def upd_def sample_open_def open_source_def new_session_def sample_env_def)
    show "prefixed g" using p by (auto simp: prefixed_def l)
    show "live g 0" by (simp add: l)
    show "bprefix (hp g 0) \<noteq> []" unfolding p by (simp add: source_prefix_def)
    show "c = 0" if "live g c" for c using that by (simp add: l)
  qed
  then show ?thesis by (simp add: g_def Let_def)
qed

section \<open>Workspaces\<close>

definition numbered :: "(bytes \<times> json) list \<Rightarrow> bool" where
  "numbered out \<longleftrightarrow> (\<forall>i < length (array (map_of out ''workspaces'')).
     \<exists>m. array (map_of out ''workspaces'') ! i = JObj m \<and> map_of m ''number'' = Some (JNum (of_nat (i + 1))) \<and>
       map_of m ''custom_label'' = Some (JBool True))"

lemma numbered_other: "k \<noteq> ''workspaces'' \<Longrightarrow> numbered (put k v out) = numbered out"
  by (simp add: numbered_def)

lemma numbered_item: "numbered out \<Longrightarrow> numbered (merge_item g b k out v)"
  by (cases "k = ''workspaces''")
     (auto simp: merge_item_def Let_def numbered_other split: option.split,
      auto simp: numbered_def nth_append less_Suc_eq)

lemma foldl_keeps: "(\<And>x y. P x \<Longrightarrow> P (f x y)) \<Longrightarrow> P a \<Longrightarrow> P (foldl f a ys)"
  by (induction ys arbitrary: a) auto

lemma numbered_source: "numbered out \<Longrightarrow> numbered (merge_source g out b)"
  unfolding merge_source_def Let_def
  by (subst numbered_other) (auto intro!: foldl_keeps [where P = numbered] numbered_item)

text \<open>
  The aggregate numbers its workspaces through (\<open>publish\<close>): whatever the sources send, the
  workspaces of the aggregate are objects numbered 1, 2, 3 and so on in the order of the sources'
  identifiers, and each carries a label of the gateway's own.
\<close>

theorem workspaces_numbered: "numbered (aggregate g)"
proof -
  have "numbered (put ''workspaces'' (JArr []) out)" for out
    by (simp add: numbered_def)
  then have "numbered (foldl (\<lambda>o' k. put k (JArr []) o') out
      [''workspaces'', ''tabs'', ''panes'', ''agents'', ''agent_order''])" for out
    by (simp add: numbered_other)
  then show ?thesis
    unfolding aggregate_def Let_def by - (rule foldl_keeps [where P = numbered, OF numbered_source])
qed

section \<open>Visible sources\<close>

lemma remove_sources: "wellformed g \<Longrightarrow> map_of (sources g) k = Some b \<Longrightarrow>
    map_of (sources (remove b g)) = (map_of (sources g))(k := None)"
  using wellformedD(5) [of g "(k, b)"] by (auto simp: remove_fields dest: map_of_SomeD)

lemma hidden_step: "A \<subseteq> {x \<in> B'. x \<in> set ks \<longrightarrow> x \<in> V} \<Longrightarrow> B' = B - {k} \<Longrightarrow>
    A \<subseteq> {x \<in> B. x \<in> set (k # ks) \<longrightarrow> x \<in> V}"
  by auto

lemma retire_hidden_sources:
  "sound (fst x) \<Longrightarrow> dom (map_of (sources (fst (retire_hidden vis ks x)))) \<subseteq>
     {k \<in> dom (map_of (sources (fst x))). k \<in> set ks \<longrightarrow> k \<in> dom (map_of vis)}"
proof (induction vis ks x rule: retire_hidden.induct)
  case (2 vis k ks g ch)
  from "2.prems" have s: "sound g" by simp
  show ?case
  proof (cases "map_of (sources g) k")
    case None
    have "retire_hidden vis (k # ks) (g, ch) = retire_hidden vis ks (g, ch)" using None by simp
    with "2.IH"(1) [OF None "2.prems"] None show ?thesis by (auto simp: domIff)
  next
    case (Some b)
    let ?gone = "case map_of vis k of None \<Rightarrow> True | Some s \<Rightarrow> src_gen (src (hp g b)) \<noteq> src_gen s"
    have r: "sound (fst (remove b g, True))" using sound_remove [OF s found_live [OF Some]] by simp
    note k = remove_sources [OF sound_wellformed [OF s] Some]
    show ?thesis
    proof (cases ?gone)
      case True
      then have "retire_hidden vis (k # ks) (g, ch) = retire_hidden vis ks (remove b g, True)" using Some by simp
      moreover have "dom (map_of (sources (remove b g))) = dom (map_of (sources g)) - {k}" by (simp add: k)
      ultimately show ?thesis
        using hidden_step [OF "2.IH"(2) [OF Some True r, unfolded fst_conv]] by (simp only: fst_conv)
    next
      case False
      then have "retire_hidden vis (k # ks) (g, ch) = retire_hidden vis ks (g, ch)" using Some by simp
      moreover have "k \<in> dom (map_of vis)" using False by (auto split: option.splits)
      ultimately show ?thesis using "2.IH"(3) [OF Some False "2.prems"] by auto
    qed
  qed
qed auto

text \<open>Between the removals only further removals happen; admission adds visible publications.\<close>

definition inside :: "bytes set \<Rightarrow> session \<Rightarrow> bool" where
  "inside V g \<longleftrightarrow> sound g \<and> dom (map_of (sources g)) \<subseteq> V"

lemma inside_safe: "inside V g \<Longrightarrow> safe g h \<Longrightarrow> inside V h"
proof -
  assume w: "inside V g" and s: "safe g h"
  have h: "sound h" using w s sound_safe by (auto simp: inside_def)
  have "k \<in> V" if k: "map_of (sources h) k = Some b" for k b
  proof -
    have "key_of h b = k" using wellformedD(5) [OF sound_wellformed [OF h] map_of_SomeD [OF k]] by simp
    moreover have "live g b" using safe_live [OF s found_live [OF k]] .
    moreover have "key_of h b = key_of g b" using s by (simp add: safe_def kept_def)
    ultimately have "map_of (sources g) k = Some b"
      using w live_current sound_wellformed by (auto simp: inside_def current_def)
    then show ?thesis using w by (auto simp: inside_def)
  qed
  with h show ?thesis by (auto simp: inside_def)
qed

lemma inside_wellformed: "inside V g \<Longrightarrow> wellformed g"
  by (simp add: inside_def sound_wellformed)

lemma inside_core: "inside V g \<Longrightarrow> core h = core g \<Longrightarrow> inside V h"
  by (rule inside_safe [OF _ core_safe [OF _ inside_wellformed]])

lemma inside_fail: "inside V g \<Longrightarrow> inside V (fail b e g)"
  by (rule inside_safe [OF _ fail_safe(1) [OF inside_wellformed]])

lemma inside_expire_starting: "inside V (fst x) \<Longrightarrow> inside V (fst (expire_starting ks x))"
proof (induction ks arbitrary: x)
  case (Cons k ks)
  obtain g ch where x: "x = (g, ch)" by fastforce
  have r: "inside V (resetRecovery b g)" for b
    using Cons x inside_core [OF _ core_resetRecovery] by simp
  then show ?case
    using Cons x inside_fail [OF r] by (simp add: Let_def split: option.split)
qed simp

lemma inside_same: "inside V g \<Longrightarrow> sound h \<Longrightarrow> sources h = sources g \<Longrightarrow> inside V h"
  by (simp add: inside_def)

lemma inside_expire_operations:
  "inside V (fst x) \<Longrightarrow> expire_operations is x = Some y \<Longrightarrow> inside V (fst y)"
proof (induction "is" arbitrary: x)
  case (Cons i "is")
  obtain g ch where x: "x = (g, ch)" by fastforce
  from Cons.prems(1) have w: "inside V g" by (simp add: x)
  then have s: "sound g" by (simp add: inside_def)
  have go: "inside V a \<Longrightarrow> expire_operations is (a, c) = Some y \<Longrightarrow> inside V (fst y)" for a c
    using Cons.IH [of "(a, c)"] by simp
  show ?case
  proof (cases "map_of (deadlines g) i")
    case None
    then show ?thesis using Cons.prems(2) x by (intro Cons.IH [of "(g, ch)"]) (simp_all add: w)
  next
    case d: (Some t)
    obtain b where b: "map_of (pending g) i = Some b" using deadline_pending [OF s d] by blast
    let ?g = "upd b (\<lambda>x. x\<lparr>chunks := del i (chunks x)\<rparr>) (drop_pending i g)"
    have f: "inside V (fail b e ?g)" for e
      using inside_same [OF w sound_expired [OF s]] by (intro inside_fail) (simp add: upd_def drop_pending_fields)
    have r: "inside V (failure_or_cancel c m (?g\<lparr>retired := put i b (retired ?g)\<rparr>))"
      if "map_of (requestIDs g) i = Some c" for c m
    proof -
      have "inside V (?g\<lparr>retired := put i b (retired ?g)\<rparr>)"
        using inside_same [OF w sound_expired_request [OF s that b]] by (simp add: upd_def drop_pending_fields)
      then show ?thesis using inside_core core_response(4) by blast
    qed
    show ?thesis
      using Cons.prems(2) d b go [OF w] go [OF f] go [OF r] unfolding x
      by (cases "clk g < t"; cases "map_of (requestIDs g) i") (simp_all add: Let_def)
  qed
qed simp

lemma inside_admit: "inside V (fst x) \<Longrightarrow> src_id ` set ss \<subseteq> V \<Longrightarrow> inside V (fst (admit ss x))"
proof (induction ss arbitrary: x)
  case (Cons s ss)
  obtain g ch where x: "x = (g, ch)" by fastforce
  from Cons.prems have w: "inside V g" and s: "sound g" and i: "src_id s \<in> V" by (auto simp: inside_def x)
  have u: "inside V (upd b (\<lambda>x. x\<lparr>src := (src (hp g b))\<lparr>src_name := n, src_label := l\<rparr>\<rparr>) g)" for b n l
    by (rule inside_same [OF w sound_relabel [OF s]]) (simp add: upd_def)
  have o: "inside V (open_source s g)" if "map_of (sources g) (src_id s) = None"
  proof -
    have "sources (open_source s g) = put (src_id s) (nextb g) (sources g)" by (simp add: open_source_def)
    then show ?thesis using sound_open [OF s that] w i by (simp add: inside_def)
  qed
  show ?case
    using Cons x u o w by (simp add: Let_def split: option.split)
qed simp

lemma visible_keys: "dom (map_of (visible ss)) = src_id ` set ss"
proof -
  have "dom (map_of (foldl (\<lambda>m s. put (src_id s) s m) m ss)) = dom (map_of m) \<union> src_id ` set ss" for m
    by (induction ss arbitrary: m) auto
  then show ?thesis by (simp add: visible_def)
qed

lemma refresh_inside:
  assumes "sound g" and "refresh g = (h, None)"
  shows "inside (src_id ` set (visible_list g)) h"
proof -
  let ?ss = "visible_list g"
  let ?v = "visible ?ss" and ?V = "src_id ` set ?ss"
  obtain g1 c1 where 1: "retire_hidden ?v (keys (sources g)) (g, False) = (g1, c1)" by fastforce
  let ?g2 = "forget_recoveries ?v g1"
  obtain g3 c3 where 3: "expire_fence (expire_starting (keys (sources ?g2)) (?g2, c1)) = (g3, c3)" by fastforce
  obtain y where 4: "expire_operations (keys (deadlines g3)) (g3, c3) = Some y"
    using assms(2) by (cases "expire_operations (keys (deadlines g3)) (g3, c3)") (auto simp: refresh_def Let_def 1 3)
  obtain g5 c5 where 5: "admit ?ss y = (g5, c5)" by fastforce
  have "dom (map_of (sources g1)) \<subseteq> ?V"
  proof -
    have "dom (map_of (sources g1)) \<subseteq> {k \<in> dom (map_of (sources g)). k \<in> set (keys (sources g)) \<longrightarrow> k \<in> ?V}"
      using retire_hidden_sources [of "(g, False)" ?v "keys (sources g)"] assms(1)
      unfolding visible_keys by (simp add: 1)
    moreover have "dom (map_of (sources g)) = set (keys (sources g))"
      by (simp add: dom_map_of_conv_image_fst)
    ultimately show ?thesis by blast
  qed
  then have "inside ?V g1"
    using sound_retire_hidden [of "(g, False)" ?v "keys (sources g)"] assms(1) by (simp add: inside_def 1)
  then have "inside ?V ?g2"
    using inside_core by (simp add: forget_recoveries_def session_simps)
  then have "inside ?V (fst (expire_starting (keys (sources ?g2)) (?g2, c1)))"
    using inside_expire_starting by simp
  then have "inside ?V g3"
    using 3 inside_fail by (auto simp: expire_fence_def split: prod.splits option.splits if_splits)
  then have "inside ?V (fst y)" using inside_expire_operations [OF _ 4] by simp
  then have 6: "inside ?V g5" using inside_admit [of ?V y ?ss] by (simp add: 5)
  show ?thesis
  proof (cases c5)
    case True
    have p: "inside ?V (fst (publish g5))"
      using inside_safe [OF 6] publish_fine [of g5] 6 sound_wellformed by (simp add: fine_def inside_def)
    then have "inside ?V ((fst (publish g5))\<lparr>cancelled := True\<rparr>)"
      by (rule inside_core) (simp add: session_simps)
    with p True assms(2) show ?thesis
      by (auto simp: refresh_def Let_def 1 3 4 5 publish_or_cancel_def split: prod.splits option.splits)
  next
    case False
    with 6 assms(2) show ?thesis by (simp add: refresh_def Let_def 1 3 4 5)
  qed
qed

text \<open>
  Bounded and visible sources (\<open>refresh\<close>): after a refresh the gateway is connected only to
  publications that are in the catalog under the identifier it knows, and to at most \<open>MaxSources\<close>.
\<close>

theorem refresh_sources:
  assumes "sound g" and "refresh g = (h, None)"
  shows "set (keys (sources h)) \<subseteq> src_id ` set (visible_list g) \<and>
    src_id ` set (visible_list g) \<subseteq> src_id ` set (catalog g) \<and> length (sources h) \<le> MaxSources"
proof -
  let ?ss = "visible_list g" let ?V = "src_id ` set ?ss"
  have "inside ?V h" using refresh_inside [OF assms] .
  then have k: "set (keys (sources h)) \<subseteq> ?V" and d: "distinct (keys (sources h))"
    using wellformedD(1) sound_wellformed by (auto simp: inside_def dom_map_of_conv_image_fst)
  have "length (sources h) = card (set (keys (sources h)))" using distinct_card [OF d] by simp
  also have "\<dots> \<le> card ?V" using k by (intro card_mono) auto
  also have "\<dots> \<le> length ?ss" by (metis card_image_le card_length List.finite_set le_trans)
  also have "\<dots> \<le> MaxSources" by (simp add: visible_list_def)
  finally show ?thesis
    using k by (auto simp: visible_list_def dest: in_set_takeD)
qed

lemma refresh_sources_witness:
  "\<exists>h. refresh ((new_session sample_env [] 0 [])\<lparr>catalog := [sample_source]\<rparr>) = (h, None) \<and>
     keys (sources h) = [''s''] \<and> length (sources h) \<le> MaxSources"
proof -
  let ?g = "(new_session sample_env [] 0 [])\<lparr>catalog := [sample_source]\<rparr>"
  have s: "sound ?g"
    using sound_step [OF gate_step.catalog sound_new] .
  obtain h where h: "refresh ?g = (h, None)" "keys (sources h) = [''s'']"
    by (simp add: refresh_def new_session_def visible_list_def visible_def forget_recoveries_def
        expire_fence_def Let_def sample_source_def open_source_def MaxSources_def)
  from refresh_sources [OF s h(1)] h show ?thesis by simp
qed

end
