(* ===== verification/Registry.thy ===== *)
theory Registry
  imports GoStrings Json
begin

text \<open>
  The registry of public names (\<open>hive/internal/registry/registry.go\<close>): every device owner has a name
  no other owner has, kept in memory and in one JSON file. The file is replaced atomically, so it
  holds either the old or the new names; whether a replacement succeeds is the argument \<open>saved\<close>.
\<close>

section \<open>State\<close>

record registry =
  Names :: "(bytes, bytes) gomap"
  disk :: "(bytes, bytes) gomap option"    \<comment> \<open>the names in the file, \<open>None\<close> without a file\<close>

datatype registry_error = RegistryUnreadable | RegistryInvalid | RegistryNull | RegistryFull | RegistryUnsaved

text \<open>\<open>json.Unmarshal\<close> into a \<open>map[string]string\<close>: an object of strings; a null member is the empty string.\<close>

fun string_members :: "(bytes \<times> json) list \<Rightarrow> (bytes, bytes) gomap option" where
  "string_members [] = Some []"
| "string_members ((k, v) # ms) =
     (case (v, string_members ms) of
        (JStr s, Some r) \<Rightarrow> Some ((k, s) # r)
      | (JNull, Some r) \<Rightarrow> Some ((k, []) # r)
      | _ \<Rightarrow> None)"

definition Open :: "codec \<Rightarrow> bytes stored \<Rightarrow> registry_error + registry" where
  "Open j f =
     (case f of
        NoFile \<Rightarrow> Inr \<lparr>Names = [], disk = None\<rparr>
      | Unreadable \<Rightarrow> Inl RegistryUnreadable
      | Contents b \<Rightarrow>
          (case dec j b of
             Some JNull \<Rightarrow> Inl RegistryNull
           | Some (JObj ms) \<Rightarrow>
               (case string_members ms of
                  None \<Rightarrow> Inl RegistryInvalid
                | Some m \<Rightarrow> Inr \<lparr>Names = m, disk = Some m\<rparr>)
           | _ \<Rightarrow> Inl RegistryInvalid))"

section \<open>Naming\<close>

definition taken :: "(bytes, bytes) gomap \<Rightarrow> bytes \<Rightarrow> bytes \<Rightarrow> bool" where
  "taken m owner n \<longleftrightarrow> list_ex (\<lambda>(k, v). k \<noteq> owner \<and> v = n) m"

definition numbered_name :: "bytes \<Rightarrow> nat \<Rightarrow> bytes" where
  "numbered_name wanted n = wanted @ ''-'' @ decimal n"

lemma numbered_name_inject [simp]: "numbered_name w m = numbered_name w n \<longleftrightarrow> m = n"
  by (simp add: numbered_name_def)

lemma taken_val: "taken m owner n \<Longrightarrow> n \<in> snd ` set m"
  by (force simp: taken_def list_ex_iff)

lemma finite_candidates: "finite {k. n \<le> k \<and> taken m owner (numbered_name w k)}"
proof -
  have "finite (numbered_name w -` (snd ` set m))"
    by (rule finite_vimageI) (simp_all add: inj_def)
  then show ?thesis by (rule finite_subset [rotated]) (auto dest: taken_val)
qed

text \<open>The loop: the wanted name, then \<open>wanted-2\<close>, \<open>wanted-3\<close> and so on. The names of the others are
  finitely many and the candidates are all different, so the loop ends.\<close>

function free_name :: "(bytes, bytes) gomap \<Rightarrow> bytes \<Rightarrow> bytes \<Rightarrow> bytes \<Rightarrow> nat \<Rightarrow> bytes" where
  "free_name m owner wanted name n =
     (if taken m owner name then free_name m owner wanted (numbered_name wanted n) (n + 1) else name)"
  by pat_completeness auto

termination
proof (relation "measure (\<lambda>(m, owner, wanted, name, n).
    2 * card {k. n \<le> k \<and> taken m owner (numbered_name wanted k)} + (if taken m owner name then 1 else 0))")
  fix m :: "(bytes, bytes) gomap" and owner wanted name :: bytes and n :: nat
  assume t: "taken m owner name"
  let ?C = "\<lambda>n. {k. n \<le> k \<and> taken m owner (numbered_name wanted k)}"
  have C: "?C n = (if taken m owner (numbered_name wanted n) then insert n (?C (n + 1)) else ?C (n + 1))"
    by (auto simp: Suc_le_eq le_less)
  have "card (?C n) = (if taken m owner (numbered_name wanted n) then 1 else 0) + card (?C (n + 1))"
    unfolding C by (simp add: finite_candidates [of "Suc n", simplified])
  then show "((m, owner, wanted, numbered_name wanted n, n + 1), (m, owner, wanted, name, n)) \<in>
      measure (\<lambda>(m, owner, wanted, name, n).
        2 * card {k. n \<le> k \<and> taken m owner (numbered_name wanted k)} + (if taken m owner name then 1 else 0))"
    using t by simp
qed simp

declare free_name.simps [simp del]

definition Name :: "bool \<Rightarrow> bytes \<Rightarrow> bytes \<Rightarrow> registry \<Rightarrow> registry \<times> (registry_error + bytes)" where
  "Name saved owner wanted r =
     (let name = free_name (Names r) owner wanted wanted 2 in
      if map_of (Names r) owner = Some name \<or> (map_of (Names r) owner = None \<and> name = [])
      then (r, Inr name)
      else if map_of (Names r) owner = None \<and> length (Names r) \<ge> 1024 then (r, Inl RegistryFull)
      else
        (let r1 = r\<lparr>Names := put owner name (Names r)\<rparr> in
         if saved then (r1\<lparr>disk := Some (Names r1)\<rparr>, Inr name)
         else
           (r1\<lparr>Names := (case map_of (Names r) owner of
                           Some old \<Rightarrow> put owner old (Names r1)
                         | None \<Rightarrow> del owner (Names r1))\<rparr>, Inl RegistryUnsaved)))"

section \<open>What a name guarantees\<close>

lemma free_name_ok: "\<not> taken m owner (free_name m owner wanted name n)"
proof (induction m owner wanted name n rule: free_name.induct)
  case (1 m owner wanted name n)
  then show ?case by (subst free_name.simps) simp
qed

lemma free_name_shape: "\<exists>k \<ge> n. free_name m owner wanted name n \<in> {name, numbered_name wanted k} \<and>
    (free_name m owner wanted name n \<noteq> name \<longrightarrow>
       taken m owner name \<and> (\<forall>j. n \<le> j \<and> j < k \<longrightarrow> taken m owner (numbered_name wanted j)))"
proof (induction m owner wanted name n rule: free_name.induct)
  case (1 m owner wanted name n)
  show ?case
  proof (cases "taken m owner name")
    case False
    then show ?thesis by (subst (1 2) free_name.simps) auto
  next
    case t: True
    let ?f = "free_name m owner wanted (numbered_name wanted n) (n + 1)"
    from "1.IH" [OF t] obtain k where k: "n + 1 \<le> k" "?f \<in> {numbered_name wanted n, numbered_name wanted k}"
      and all: "?f \<noteq> numbered_name wanted n \<Longrightarrow> taken m owner (numbered_name wanted n) \<and>
         (\<forall>j. n + 1 \<le> j \<and> j < k \<longrightarrow> taken m owner (numbered_name wanted j))"
      by blast
    have f: "free_name m owner wanted name n = ?f" using t by (subst free_name.simps) simp
    show ?thesis
    proof (cases "?f = numbered_name wanted n")
      case True
      with f t show ?thesis by (intro exI [of _ n]) auto
    next
      case False
      with all have "taken m owner (numbered_name wanted j)" if "n \<le> j" "j < k" for j
        using that by (cases "j = n") auto
      with f t k False show ?thesis by (intro exI [of _ k]) auto
    qed
  qed
qed

text \<open>The contract of the naming service: what a caller may rely on, whatever keeps the names.\<close>

definition owner_name :: "registry \<Rightarrow> bytes \<Rightarrow> bytes option" where
  "owner_name r o' = map_of (Names r) o'"

definition unique_names :: "registry \<Rightarrow> bool" where
  "unique_names r \<longleftrightarrow> distinct (keys (Names r)) \<and>
     (\<forall>a b n. owner_name r a = Some n \<and> owner_name r b = Some n \<longrightarrow> a = b)"

locale naming =
  fixes assign :: "bool \<Rightarrow> bytes \<Rightarrow> bytes \<Rightarrow> 'r \<Rightarrow> 'r \<times> ('e + bytes)"
    and names :: "'r \<Rightarrow> bytes \<Rightarrow> bytes option"
    and wf :: "'r \<Rightarrow> bool"
  assumes wf_unique: "wf r \<Longrightarrow> names r a = Some n \<Longrightarrow> names r b = Some n \<Longrightarrow> a = b"
    and assign_wf: "wf r \<Longrightarrow> wf (fst (assign s a w r))"
    and assign_other: "b \<noteq> a \<Longrightarrow> names (fst (assign s a w r)) b = names r b"
    and assign_named: "wf r \<Longrightarrow> assign s a w r = (r', Inr n) \<Longrightarrow> n \<noteq> [] \<Longrightarrow> names r' a = Some n"
    and assign_error: "assign s a w r = (r', Inl e) \<Longrightarrow> names r' = names r"
begin

lemma assigned_fresh:
  "wf r \<Longrightarrow> assign s a w r = (r', Inr n) \<Longrightarrow> n \<noteq> [] \<Longrightarrow> b \<noteq> a \<Longrightarrow> names r b \<noteq> Some n"
  using assign_named [of r s a w r' n] assign_wf [of r s a w] assign_other [of b a s w r] wf_unique [of r' a n b] by auto

end

section \<open>The registry provides it\<close>

lemma Name_cases:
  obtains (kept) n where "Name s a w r = (r, Inr n)" "n = free_name (Names r) a w w 2"
      "owner_name r a = Some n \<or> n = []"
  | (full) "Name s a w r = (r, Inl RegistryFull)" "owner_name r a = None" "length (Names r) \<ge> 1024"
  | (saved) n where "Name s a w r = (r\<lparr>Names := put a n (Names r), disk := Some (put a n (Names r))\<rparr>, Inr n)"
      "n = free_name (Names r) a w w 2" "s" "owner_name r a \<noteq> None \<or> length (Names r) < 1024"
  | (lost) m where "Name s a w r = (r\<lparr>Names := m\<rparr>, Inl RegistryUnsaved)" "\<not> s" "map_of m = map_of (Names r)"
      "distinct (keys (Names r)) \<Longrightarrow> distinct (keys m)" "length m \<le> length (Names r)"
proof -
  let ?n = "free_name (Names r) a w w 2"
  let ?kept = "owner_name r a = Some ?n \<or> (owner_name r a = None \<and> ?n = [])"
  let ?full = "owner_name r a = None \<and> length (Names r) \<ge> 1024"
  consider ?kept | "\<not> ?kept" ?full | "\<not> ?kept" "\<not> ?full" s | "\<not> ?kept" "\<not> ?full" "\<not> s" by blast
  then show thesis
  proof cases
    case 1
    then show ?thesis by (intro kept [of ?n]) (auto simp: Name_def Let_def owner_name_def)
  next
    case 2
    then show ?thesis by (intro full) (auto simp: Name_def Let_def owner_name_def)
  next
    case 3
    then show ?thesis by (intro saved [of ?n]) (auto simp: Name_def Let_def owner_name_def)
  next
    case 4
    show ?thesis
    proof (cases "owner_name r a")
      case None
      let ?m = "del a (put a ?n (Names r))"
      have u: "a \<notin> fst ` set (Names r)" using None by (simp add: owner_name_def map_of_eq_None_iff)
      show ?thesis
        using 4 None u length_del_less [of a "put a ?n (Names r)"]
        by (intro lost [of ?m]) (auto simp: Name_def Let_def owner_name_def length_put)
    next
      case (Some old)
      let ?m = "put a old (put a ?n (Names r))"
      have "a \<in> fst ` set (Names r)" using Some by (force simp: owner_name_def dest: map_of_SomeD)
      then show ?thesis
        using 4 Some by (intro lost [of ?m]) (auto simp: Name_def Let_def owner_name_def length_put)
    qed
  qed
qed

lemma untaken_iff: "distinct (keys (Names r)) \<Longrightarrow>
    taken (Names r) a n \<longleftrightarrow> (\<exists>b. b \<noteq> a \<and> owner_name r b = Some n)"
  by (force simp: taken_def list_ex_iff owner_name_def)

lemma unique_saved:
  assumes u: "unique_names r" and n: "n = free_name (Names r) a w w 2"
  shows "unique_names (r\<lparr>Names := put a n (Names r), disk := d\<rparr>)"
proof -
  have "\<not> (\<exists>b. b \<noteq> a \<and> owner_name r b = Some n)"
    using free_name_ok [of "Names r" a w w 2] untaken_iff [of r a n] u n by (simp add: unique_names_def)
  then show ?thesis using u by (auto simp: unique_names_def owner_name_def)
qed

interpretation names: naming Name owner_name unique_names
proof
  fix r a b n s w e r'
  show "unique_names r \<Longrightarrow> owner_name r a = Some n \<Longrightarrow> owner_name r b = Some n \<Longrightarrow> a = b"
    by (auto simp: unique_names_def)
  show "unique_names (fst (Name s a w r))" if "unique_names r"
  proof (cases rule: Name_cases [of s a w r])
    case (saved n)
    then show ?thesis using unique_saved [OF that saved(2), of "Some (put a n (Names r))"] by simp
  next
    case (lost m)
    then show ?thesis using that by (simp add: unique_names_def owner_name_def)
  qed (use that in simp_all)
  show "owner_name (fst (Name s a w r)) b = owner_name r b" if "b \<noteq> a"
    by (cases rule: Name_cases [of s a w r]) (use that in \<open>auto simp: owner_name_def\<close>)
  show "owner_name r' a = Some n" if "unique_names r" "Name s a w r = (r', Inr n)" "n \<noteq> []"
    by (cases rule: Name_cases [of s a w r]) (use that in \<open>auto simp: owner_name_def\<close>)
  show "owner_name r' = owner_name r" if "Name s a w r = (r', Inl e)"
    by (cases rule: Name_cases [of s a w r]) (use that in \<open>auto simp: owner_name_def fun_eq_iff\<close>)
qed

text \<open>
  Names identify devices (\<open>Registry.Name\<close>): while every owner has a name of its own, assigning
  another keeps it so. The owner gets the name it wants when no other owner has it, otherwise the
  first free one of \<open>wanted-2\<close>, \<open>wanted-3\<close> and so on; the names of all other owners stay.
\<close>

theorem name_assigned:
  assumes "unique_names r" and "Name s a w r = (r', Inr n)" and "n \<noteq> []"
  shows "unique_names r' \<and> owner_name r' a = Some n \<and> (\<forall>b. b \<noteq> a \<longrightarrow> owner_name r' b = owner_name r b \<and>
      owner_name r b \<noteq> Some n) \<and>
    (n = w \<or> (\<exists>b. b \<noteq> a \<and> owner_name r b = Some w) \<and>
       (\<exists>k \<ge> 2. n = numbered_name w k \<and>
          (\<forall>j. 2 \<le> j \<and> j < k \<longrightarrow> (\<exists>b. b \<noteq> a \<and> owner_name r b = Some (numbered_name w j)))))"
proof -
  have n: "n = free_name (Names r) a w w 2"
    by (cases rule: Name_cases [of s a w r]) (use assms(2) in auto)
  have d: "distinct (keys (Names r))" using assms(1) by (simp add: unique_names_def)
  have "n = w \<or> taken (Names r) a w \<and> (\<exists>k \<ge> 2. n = numbered_name w k \<and>
      (\<forall>j. 2 \<le> j \<and> j < k \<longrightarrow> taken (Names r) a (numbered_name w j)))"
    using free_name_shape [of 2 "Names r" a w w] unfolding n by blast
  then show ?thesis
    unfolding untaken_iff [OF d]
    using names.assign_wf [OF assms(1), of s a w] names.assign_named [OF assms] names.assign_other [of _ a s w r]
      names.assigned_fresh [OF assms] assms(2) by auto
qed

lemma name_assigned_witness:
  "let r = \<lparr>Names = [(''k1'', ''box''), (''k2'', ''box-2'')], disk = None\<rparr>
   in snd (Name True ''k3'' ''box'' r) = Inr ''box-3'' \<and>
      owner_name (fst (Name True ''k3'' ''box'' r)) ''k3'' = Some ''box-3''"
proof -
  let ?r = "\<lparr>Names = [(''k1'', ''box''), (''k2'', ''box-2'')], disk = None\<rparr>"
  have u: "unique_names ?r" by (simp add: unique_names_def owner_name_def)
  have d: "decimal 2 = ''2''" "decimal 3 = ''3''" by (simp_all add: decimal.simps char_of_def bit_0)
  have f: "free_name (Names ?r) ''k3'' ''box'' ''box'' 2 = ''box-3''"
    by (simp add: free_name.simps taken_def numbered_name_def d)
  obtain r' where r: "Name True ''k3'' ''box'' ?r = (r', Inr ''box-3'')"
    by (cases rule: Name_cases [of True "''k3''" "''box''" ?r]) (simp_all add: f [simplified] owner_name_def)
  from name_assigned [OF u r] r show ?thesis by simp
qed

text \<open>
  A failed save leaves no trace (\<open>Registry.Name\<close>): when the registry is full or its file cannot be
  replaced every owner keeps its old name or none, in memory and on disk; when it succeeds the file
  holds exactly the names in memory; and at most 1024 owners are ever named.
\<close>

theorem name_durable:
  assumes "Name s a w r = (r', res)" and "disk r = Some (Names r) \<or> Names r = []"
  shows "(\<forall>e. res = Inl e \<longrightarrow> owner_name r' = owner_name r \<and> disk r' = disk r) \<and>
    (\<forall>n. res = Inr n \<longrightarrow> disk r' = Some (Names r') \<or> r' = r) \<and>
    length (Names r') \<le> max 1024 (length (Names r))"
proof (cases rule: Name_cases [of s a w r])
  case (saved n)
  have "a \<in> fst ` set (Names r)" if "owner_name r a \<noteq> None"
    using that by (force simp: owner_name_def dest: map_of_SomeD)
  then show ?thesis using assms(1) saved by (auto simp: length_put)
next
  case (lost m)
  then show ?thesis using assms(1) by (auto simp: owner_name_def fun_eq_iff)
qed (use assms(1) in auto)

lemma name_durable_witness:
  "let r = \<lparr>Names = [(''k1'', ''box'')], disk = Some [(''k1'', ''box'')]\<rparr>
   in owner_name (fst (Name False ''k1'' ''desk'' r)) = owner_name r"
proof -
  let ?r = "\<lparr>Names = [(''k1'', ''box'')], disk = Some [(''k1'', ''box'')]\<rparr>"
  have f: "free_name (Names ?r) ''k1'' ''desk'' ''desk'' 2 = ''desk''"
    by (simp add: free_name.simps taken_def)
  obtain r' where "Name False ''k1'' ''desk'' ?r = (r', Inl RegistryUnsaved)"
    by (cases rule: Name_cases [of False "''k1''" "''desk''" ?r]) (simp_all add: f [simplified] owner_name_def)
  from name_durable [OF this] this show ?thesis by simp
qed

end
