(* ===== verification/Adapter.thy ===== *)
theory Adapter
  imports GoStrings
begin

text \<open>
  The recognition of native SSH bootstrap requests (\<open>hive/internal/herdr/adapter.go\<close> and
  \<open>discovery.go\<close>). A request is compared with a fixed list of commands; a discovery script is checked
  line by line, against the shape Herdr generates, and never executed.
\<close>

section \<open>Strings\<close>

text \<open>\<open>strings.Contains\<close>, \<open>strings.ReplaceAll(s, old, "")\<close> for a non-empty \<open>old\<close>, and \<open>strings.Cut\<close>.\<close>

fun contains :: "bytes \<Rightarrow> bytes \<Rightarrow> bool" where
  "contains [] w = (w = [])"
| "contains (c # s) w = (has_prefix (c # s) w \<or> contains s w)"

function erase :: "bytes \<Rightarrow> bytes \<Rightarrow> bytes" where
  "erase w [] = []"
| "erase w (c # s) = (if w \<noteq> [] \<and> has_prefix (c # s) w then erase w (drop (length w) (c # s)) else c # erase w s)"
  by pat_completeness auto
termination by (relation "measure (length \<circ> snd)") auto

lemma contains_iff: "contains s w \<longleftrightarrow> (\<exists>a b. s = a @ w @ b)"
proof (induction s)
  case (Cons c s)
  have "(\<exists>a b. c # s = a @ w @ b) \<longleftrightarrow> (\<exists>b. c # s = w @ b) \<or> (\<exists>a b. s = a @ w @ b)"
    by (metis append_Cons append_Nil list.exhaust list.inject)
  with Cons show ?case by (simp add: has_prefix_iff)
qed simp

section \<open>Versions\<close>

definition digit :: "char \<Rightarrow> bool" where
  "digit c \<longleftrightarrow> 48 \<le> (of_char c :: nat) \<and> of_char c \<le> (57 :: nat)"

definition letter :: "char \<Rightarrow> bool" where
  "letter c \<longleftrightarrow> (97 \<le> (of_char c :: nat) \<and> of_char c \<le> (122 :: nat)) \<or> (65 \<le> (of_char c :: nat) \<and> of_char c \<le> (90 :: nat))"

text \<open>\<open>strconv.Atoi\<close> on a text without a sign.\<close>

definition Atoi :: "bytes \<Rightarrow> nat option" where
  "Atoi s = (if s \<noteq> [] \<and> list_all digit s \<and> numeral_value s < 2 ^ 63 then Some (numeral_value s) else None)"

definition validIdentifier :: "bool \<Rightarrow> bytes \<Rightarrow> bool" where
  "validIdentifier prerelease i \<longleftrightarrow> i \<noteq> [] \<and> list_all (\<lambda>c. digit c \<or> letter c \<or> c = CHR ''-'') i \<and>
     \<not> (prerelease \<and> list_all digit i \<and> length i > 1 \<and> hd i = CHR ''0'')"

definition validIdentifiers :: "bytes \<Rightarrow> bool \<Rightarrow> bool" where
  "validIdentifiers value prerelease \<longleftrightarrow> list_all (validIdentifier prerelease) (split_on CHR ''.'' value)"

text \<open>The number of one field, without leading zeros.\<close>

definition version_field :: "bytes \<Rightarrow> nat option" where
  "version_field f = (if f = [] \<or> (length f > 1 \<and> hd f = CHR ''0'') then None else Atoi f)"

text \<open>The loop over the parts and the minimum: the first difference decides.\<close>

fun at_least :: "nat list \<Rightarrow> nat list \<Rightarrow> bool \<Rightarrow> bool" where
  "at_least (p # ps) (m # ms) eq = (if p \<noteq> m then p > m else at_least ps ms eq)"
| "at_least _ _ eq = eq"

definition supportedVersion :: "bytes \<Rightarrow> bool" where
  "supportedVersion version =
     (case cut_on CHR ''+'' version of (coreAndPre, build, hasBuild) \<Rightarrow>
      if hasBuild \<and> (\<not> validIdentifiers build False \<or> CHR ''+'' \<in> set build) then False
      else case cut_on CHR ''-'' coreAndPre of (core, prerelease, hasPrerelease) \<Rightarrow>
        if hasPrerelease \<and> \<not> validIdentifiers prerelease True then False
        else if length (split_on CHR ''.'' core) \<noteq> 3 then False
        else case those (map version_field (split_on CHR ''.'' core)) of
          None \<Rightarrow> False
        | Some parts \<Rightarrow> at_least parts [0, 9, 0] (\<not> hasPrerelease))"

section \<open>Discovery scripts\<close>

definition discoveryFunction :: "bytes list" where
  "discoveryFunction = [''emit() {'', ''    path=$1'',
     ''    if [ -n '' @ [CHR 0x22] @ ''$path'' @ [CHR 0x22] @ '' ] && [ -x '' @ [CHR 0x22] @ ''$path'' @ [CHR 0x22] @ '' ]; then'',
     ''        printf '' @ [CHR 0x27] @ ''%s'' @ [CHR 0x5C] @ ''n'' @ [CHR 0x27] @ '' '' @ [CHR 0x22] @ ''$path'' @ [CHR 0x22],
     ''    fi'', ''}'']"

definition quoted :: "bytes \<Rightarrow> bytes" where
  "quoted s = [CHR 0x22] @ s @ [CHR 0x22]"

definition if_line :: "bytes \<Rightarrow> bytes" where
  "if_line var = ''if [ -n '' @ quoted var @ '' ]; then''"

definition emit_path :: "bytes \<Rightarrow> bytes" where
  "emit_path line = trim_suffix (trim_prefix line (''emit '' @ [CHR 0x22])) [CHR 0x22]"

definition safeEmitLine :: "bytes \<Rightarrow> bytes \<Rightarrow> bool" where
  "safeEmitLine line block =
     (if \<not> has_prefix line (''emit '' @ [CHR 0x22]) \<or> \<not> has_suffix line [CHR 0x22] then False
      else
        (let path = emit_path line in
         if path = [] \<or> \<not> has_suffix path ''/herdr'' then False
         else if \<not> list_all (\<lambda>c. letter c \<or> digit c \<or> c \<in> set ''/._-$'') path then False
         else if block = [] then CHR ''$'' \<notin> set path
         else contains path block \<and> CHR ''$'' \<notin> set (erase ''$version'' (erase block path))))"

text \<open>The loop over the lines: \<open>block\<close> is the variable of the open \<open>if\<close>, or nothing.\<close>

fun discovery_lines :: "bytes list \<Rightarrow> bool \<Rightarrow> bool \<Rightarrow> bytes \<Rightarrow> bool" where
  "discovery_lines [] seen has block = (seen \<and> block = [])"
| "discovery_lines (raw # ls) seen has block =
     (let line = trim_space raw in
      if line = if_line ''$home'' \<or> line = if_line ''$user'' then
        (if block \<noteq> [] then False
         else discovery_lines ls seen False (if line = if_line ''$user'' then ''$user'' else ''$home''))
      else if line = ''fi'' then
        (if block = [] \<or> \<not> has then False else discovery_lines ls seen has [])
      else if \<not> safeEmitLine line block then False
      else discovery_lines ls True (has \<or> block \<noteq> []) block)"

definition supportedDiscoveryScript :: "bytes \<Rightarrow> bool" where
  "supportedDiscoveryScript command =
     (let lines = split_on CHR 0x0A command in
      if length lines < 12 \<or> lines ! 0 \<noteq> ''home=${HOME:-}'' \<or> lines ! 1 \<noteq> ''user=${USER:-}'' \<or>
         \<not> has_prefix (lines ! 2) ''version='' then False
      else if \<not> supportedVersion (trim_prefix (lines ! 2) ''version='') then False
      else if \<not> list_all (\<lambda>i. lines ! (i + 3) = discoveryFunction ! i) [0..<length discoveryFunction] then False
      else discovery_lines (drop (3 + length discoveryFunction) lines) False False [])"

section \<open>Requests\<close>

datatype framing = Unframed | Framed

record action =
  aKind :: bytes
  aOutput :: bytes
  aFraming :: framing

definition remoteOutputReadyMarker :: bytes where
  "remoteOutputReadyMarker = ''herdr-remote-output-ready:1''"

definition framedCommandPrefix :: bytes where
  "framedCommandPrefix = ''printf '' @ [CHR 0x27, CHR 0x0A] @ ''%s'' @ [CHR 0x0A, CHR 0x27] @ '' '' @ [CHR 0x27] @
     remoteOutputReadyMarker @ [CHR 0x27, CHR 0x0A]"

definition framedOutputPrefix :: bytes where
  "framedOutputPrefix = [CHR 0x0A] @ remoteOutputReadyMarker @ [CHR 0x0A]"

definition BeginResponse :: "action \<Rightarrow> bytes" where
  "BeginResponse a = (if aFraming a \<noteq> Framed then [] else framedOutputPrefix)"

text \<open>The quoted path of Hive's virtual binary.\<close>

definition q_herdr :: bytes where
  "q_herdr = [CHR 0x27] @ ''/herdr'' @ [CHR 0x27]"

definition fixed_action :: "bytes \<Rightarrow> (bytes \<times> bytes) option" where
  "fixed_action c =
     (if c = ''uname -s'' @ [CHR 0x0A] @ ''uname -m'' then Some (''platform'', [])
      else if c = ''command -v herdr'' then Some ([], ''/herdr'' @ [CHR 0x0A])
      else if c = ''test -x '' @ q_herdr \<or> c = ''test -x /herdr'' then Some ([], [])
      else if c = ''test -x '' @ q_herdr @ '' && '' @ q_herdr @ '' status client --json'' \<or>
              c = ''test -x /herdr && /herdr status client --json'' then Some (''status-client'', [])
      else if c = q_herdr @ '' status server --json'' \<or> c = ''/herdr status server --json''
      then Some (''status-server'', [])
      else if c = ''exec '' @ q_herdr @ '' remote-client-bridge'' \<or> c = ''exec /herdr remote-client-bridge''
      then Some (''client'', [])
      else if c = ''exec '' @ q_herdr @ '' remote-client-bridge </dev/null'' \<or>
              c = ''exec /herdr remote-client-bridge </dev/null'' then Some (''check'', [])
      else None)"

definition Resolve :: "bytes \<Rightarrow> bytes \<Rightarrow> action option" where
  "Resolve command script =
     (let c0 = (if command = ''/bin/sh -s'' then trim_space script else command);
          fr = (if has_prefix c0 framedCommandPrefix then Framed else Unframed);
          c = trim_prefix c0 framedCommandPrefix
      in case fixed_action c of
           Some (kind, out) \<Rightarrow> Some \<lparr>aKind = kind, aOutput = out, aFraming = fr\<rparr>
         | None \<Rightarrow>
             if supportedDiscoveryScript c
             then Some \<lparr>aKind = [], aOutput = ''/herdr'' @ [CHR 0x0A], aFraming = fr\<rparr> else None)"

section \<open>What a discovery script can be\<close>

text \<open>The grammar of the scripts: plain emissions and blocks of emissions for one variable.\<close>

datatype item = Plain bytes | Block bytes "bytes list"

fun item_ok :: "item \<Rightarrow> bool" where
  "item_ok (Plain l) = safeEmitLine l []"
| "item_ok (Block v ls) = (v \<in> {''$home'', ''$user''} \<and> ls \<noteq> [] \<and> list_all (\<lambda>l. safeEmitLine l v) ls)"

fun render :: "item \<Rightarrow> bytes list" where
  "render (Plain l) = [l]"
| "render (Block v ls) = if_line v # ls @ [''fi'']"

definition script_body :: "item list \<Rightarrow> bytes list" where
  "script_body items = concat (map render items)"

lemma emit_not_keyword: "safeEmitLine l b \<Longrightarrow> l \<noteq> ''fi'' \<and> l \<noteq> if_line v"
  by (auto simp: safeEmitLine_def if_line_def has_prefix_def split: if_splits)

lemma vars_nonempty: "v \<in> {''$home'', ''$user''} \<Longrightarrow> v \<noteq> []"
  by auto

lemma if_line_inject: "if_line v = if_line w \<longleftrightarrow> v = w"
  by (simp add: if_line_def quoted_def)

text \<open>The body of an open block, up to its \<open>fi\<close>, and what follows.\<close>

definition rest_ok :: "bytes \<Rightarrow> bytes list \<Rightarrow> bool \<Rightarrow> bool" where
  "rest_ok v ls has \<longleftrightarrow> (\<exists>body items. ls = body @ ''fi'' # script_body items \<and> list_all (\<lambda>l. safeEmitLine l v) body \<and>
     (has \<or> body \<noteq> []) \<and> list_all item_ok items)"

definition whole_ok :: "bytes list \<Rightarrow> bool \<Rightarrow> bool" where
  "whole_ok ls seen \<longleftrightarrow> (\<exists>items. ls = script_body items \<and> list_all item_ok items \<and> (seen \<or> items \<noteq> []))"

lemma rest_ok_Nil: "\<not> rest_ok v [] has"
  by (simp add: rest_ok_def)

lemma rest_ok_Cons: "rest_ok v (l # ls) has \<longleftrightarrow>
    (if l = ''fi'' then has \<and> whole_ok ls True else safeEmitLine l v \<and> rest_ok v ls True)"
proof (cases "l = ''fi''")
  case True
  have n: "\<not> safeEmitLine ''fi'' v" using emit_not_keyword by blast
  have "rest_ok v (l # ls) has \<longleftrightarrow> (\<exists>items. ls = script_body items \<and> has \<and> list_all item_ok items)"
    unfolding rest_ok_def True
  proof (intro iffI; elim exE conjE)
    fix body items
    assume b: "''fi'' # ls = body @ ''fi'' # script_body items" "list_all (\<lambda>l. safeEmitLine l v) body"
      "has \<or> body \<noteq> []" "list_all item_ok items"
    then have "body = []" using n by (cases body) auto
    with b show "\<exists>items. ls = script_body items \<and> has \<and> list_all item_ok items" by auto
  next
    fix items assume "ls = script_body items" has "list_all item_ok items"
    then show "\<exists>body items. ''fi'' # ls = body @ ''fi'' # script_body items \<and> list_all (\<lambda>l. safeEmitLine l v) body \<and>
       (has \<or> body \<noteq> []) \<and> list_all item_ok items"
      by (intro exI [of _ "[]"] exI [of _ items]) simp
  qed
  with True show ?thesis by (auto simp: whole_ok_def)
next
  case False
  have "rest_ok v (l # ls) has \<longleftrightarrow> safeEmitLine l v \<and> rest_ok v ls True"
  proof
    assume "rest_ok v (l # ls) has"
    then obtain body items where b: "l # ls = body @ ''fi'' # script_body items" "list_all (\<lambda>l. safeEmitLine l v) body"
        "list_all item_ok items" unfolding rest_ok_def by blast
    then obtain body' where "body = l # body'" using False by (cases body) auto
    with b show "safeEmitLine l v \<and> rest_ok v ls True" by (auto simp: rest_ok_def)
  next
    assume "safeEmitLine l v \<and> rest_ok v ls True"
    then obtain body items where "ls = body @ ''fi'' # script_body items" "list_all (\<lambda>l. safeEmitLine l v) (l # body)"
        "list_all item_ok items" by (auto simp: rest_ok_def)
    then show "rest_ok v (l # ls) has"
      unfolding rest_ok_def by (intro exI [of _ "l # body"] exI [of _ items]) simp
  qed
  with False show ?thesis by simp
qed

lemma render_nonempty: "render i \<noteq> []"
  by (cases i) auto

lemma whole_ok_Nil: "whole_ok [] seen \<longleftrightarrow> seen"
proof -
  have "[] = script_body items \<longleftrightarrow> items = []" for items
    by (cases items) (simp_all add: script_body_def render_nonempty)
  then show ?thesis by (simp add: whole_ok_def)
qed

lemma whole_ok_Cons: "whole_ok (l # ls) seen \<longleftrightarrow>
    (if l = if_line ''$home'' then rest_ok ''$home'' ls False else if l = if_line ''$user'' then rest_ok ''$user'' ls False
     else safeEmitLine l [] \<and> whole_ok ls True)"
proof -
  have plain: "\<exists>items'. items = Plain l # items' \<and> ls = script_body items'"
    if "l # ls = script_body items" "list_all item_ok items" "\<not> (\<exists>v \<in> {''$home'', ''$user''}. l = if_line v)" for items
  proof (cases items)
    case (Cons i items')
    with that show ?thesis by (cases i) (auto simp: script_body_def)
  qed (use that in \<open>simp add: script_body_def\<close>)
  have block: "\<exists>body items'. items = Block v body # items' \<and> ls = body @ ''fi'' # script_body items'"
    if "if_line v # ls = script_body items" "list_all item_ok items" for items v
  proof (cases items)
    case (Cons i items')
    with that emit_not_keyword [of "if_line v" "[]" v] show ?thesis
      by (cases i) (auto simp: script_body_def if_line_inject)
  qed (use that in \<open>simp add: script_body_def\<close>)
  have b: "whole_ok (if_line v # ls) seen \<longleftrightarrow> rest_ok v ls False" if v: "v \<in> {''$home'', ''$user''}" for v
  proof
    assume "whole_ok (if_line v # ls) seen"
    then obtain items where i: "if_line v # ls = script_body items" "list_all item_ok items" by (auto simp: whole_ok_def)
    from block [OF i] i(2) show "rest_ok v ls False" by (fastforce simp: rest_ok_def)
  next
    assume "rest_ok v ls False"
    then obtain body items where "ls = body @ ''fi'' # script_body items" "list_all (\<lambda>l. safeEmitLine l v) body"
      "body \<noteq> []" "list_all item_ok items" by (auto simp: rest_ok_def)
    with v show "whole_ok (if_line v # ls) seen"
      by (auto simp: whole_ok_def script_body_def intro!: exI [of _ "Block v body # items"])
  qed
  have p: "whole_ok (l # ls) seen \<longleftrightarrow> safeEmitLine l [] \<and> whole_ok ls True"
    if n: "\<not> (\<exists>v \<in> {''$home'', ''$user''}. l = if_line v)"
  proof
    assume "whole_ok (l # ls) seen"
    then obtain items where i: "l # ls = script_body items" "list_all item_ok items" by (auto simp: whole_ok_def)
    from plain [OF i n] i(2) show "safeEmitLine l [] \<and> whole_ok ls True" by (auto simp: whole_ok_def)
  next
    assume "safeEmitLine l [] \<and> whole_ok ls True"
    then obtain items where "ls = script_body items" "list_all item_ok items" "safeEmitLine l []" by (auto simp: whole_ok_def)
    then show "whole_ok (l # ls) seen"
      by (auto simp: whole_ok_def script_body_def intro!: exI [of _ "Plain l # items"])
  qed
  show ?thesis
    using b [of "''$home''"] b [of "''$user''"] p
    by (cases "l = if_line ''$home''"; cases "l = if_line ''$user''") (simp_all add: if_line_inject)
qed

lemma discovery_lines_iff:
  "(block = [] \<longrightarrow> discovery_lines ls seen has block = whole_ok (map trim_space ls) seen) \<and>
   (block \<in> {''$home'', ''$user''} \<longrightarrow> (has \<longrightarrow> seen) \<longrightarrow>
      discovery_lines ls seen has block = rest_ok block (map trim_space ls) has)"
proof (induction ls arbitrary: seen has block)
  case (Cons l ls)
  let ?l = "trim_space l"
  have fi: "\<not> safeEmitLine ''fi'' b" "''fi'' \<noteq> if_line v" "\<not> safeEmitLine (if_line v) b" for b v
    using emit_not_keyword [of "''fi''" b v] emit_not_keyword [of "if_line v" b v] by (auto simp: if_line_def)
  note IH = Cons [of "''$home''" seen False] Cons [of "''$user''" seen False] Cons [of "[]" seen has]
      Cons [of block True "has \<or> block \<noteq> []"] Cons [of "[]" True has] Cons [of "[]" seen True]
  consider (h) "?l = if_line ''$home''" | (u) "?l = if_line ''$user''" "?l \<noteq> if_line ''$home''"
    | (f) "?l = ''fi''" "?l \<noteq> if_line ''$home''" "?l \<noteq> if_line ''$user''"
    | (e) "?l \<noteq> if_line ''$home''" "?l \<noteq> if_line ''$user''" "?l \<noteq> ''fi''" by blast
  then show ?case
  proof cases
    case h
    then show ?thesis using IH(1) fi fi(2) [symmetric] by (simp add: Let_def whole_ok_Cons rest_ok_Cons if_line_inject)
  next
    case u
    then show ?thesis using IH(2) fi fi(2) [symmetric] by (simp add: Let_def whole_ok_Cons rest_ok_Cons if_line_inject)
  next
    case f
    then show ?thesis using IH(3,5,6) fi by (cases has) (simp_all add: Let_def whole_ok_Cons rest_ok_Cons)
  next
    case e
    then show ?thesis using IH(4,5) by (simp add: Let_def whole_ok_Cons rest_ok_Cons)
  qed
qed (auto simp: whole_ok_Nil rest_ok_Nil)

text \<open>
  C33. Discovery scripts are data (\<open>supportedDiscoveryScript\<close>): the lines after the fixed header that
  the checker accepts are exactly, up to surrounding white space, the sequences of plain emissions and
  of non-empty blocks for \<open>$home\<close> or \<open>$user\<close> closed by \<open>fi\<close>, where an emission names a path ending in
  \<open>/herdr\<close> without any character the shell would interpret, and a variable only within its block.
\<close>

theorem discovery_grammar:
  "discovery_lines ls False False [] \<longleftrightarrow>
     (\<exists>items. map trim_space ls = concat (map render items) \<and> items \<noteq> [] \<and> list_all item_ok items)"
  using discovery_lines_iff [of "[]" ls False False] by (auto simp: whole_ok_def script_body_def)

section \<open>What versions are supported\<close>

lemma decimal_digits: "c \<in> set (decimal n) \<Longrightarrow> digit c"
proof (induction n rule: decimal.induct)
  case (1 n)
  have "digit (char_of (48 + m))" if "m < 10" for m :: nat using that by (simp add: digit_def)
  from this [of n] this [of "n mod 10"] 1 show ?case
    by (subst (asm) (2) decimal.simps) (auto split: if_splits)
qed

lemma decimal_nonempty [simp]: "decimal n \<noteq> []"
  by (subst decimal.simps) simp

lemma decimal_head: "n > 0 \<Longrightarrow> hd (decimal n) \<noteq> CHR ''0''"
proof (induction n rule: decimal.induct)
  case (1 n)
  show ?case
  proof (cases "n < 10")
    case True
    have "(of_char (char_of (48 + n) :: char) :: nat) = 48 + n" using True by simp
    then have "char_of (48 + n) \<noteq> CHR ''0''" using 1(2) by (auto dest: arg_cong [where f = "of_char :: char \<Rightarrow> nat"])
    then show ?thesis using True by (subst decimal.simps) simp
  next
    case False
    then show ?thesis using 1 by (subst decimal.simps) simp
  qed
qed

lemma version_field_decimal: "n < 2 ^ 63 \<Longrightarrow> version_field (decimal n) = Some n"
proof -
  assume n: "n < 2 ^ 63"
  have "\<not> (length (decimal n) > 1 \<and> hd (decimal n) = CHR ''0'')"
  proof (cases "n = 0")
    case True
    then show ?thesis by (subst (1 2) decimal.simps) simp
  qed (use decimal_head in simp)
  with n decimal_digits show ?thesis
    by (auto simp: version_field_def Atoi_def numeral_value_decimal list_all_iff)
qed

definition core_version :: "nat \<Rightarrow> nat \<Rightarrow> nat \<Rightarrow> bytes" where
  "core_version a b c = decimal a @ ''.'' @ decimal b @ ''.'' @ decimal c"

lemma not_digit: "\<not> digit CHR ''.''" "\<not> digit CHR ''-''" "\<not> digit CHR ''+''"
  by (simp_all add: digit_def)

lemma decimal_plain: "CHR ''.'' \<notin> set (decimal n)" "CHR ''-'' \<notin> set (decimal n)" "CHR ''+'' \<notin> set (decimal n)"
  using decimal_digits not_digit by blast+

lemma core_split: "split_on CHR ''.'' (core_version a b c) = [decimal a, decimal b, decimal c]"
  by (simp add: core_version_def split_on_append split_on_single decimal_plain)

lemma core_plain: "CHR ''-'' \<notin> set (core_version a b c)" "CHR ''+'' \<notin> set (core_version a b c)"
  by (simp_all add: core_version_def decimal_plain)

lemma identifiers_plain: "validIdentifiers s p \<Longrightarrow> CHR ''+'' \<notin> set s"
proof
  assume v: "validIdentifiers s p" and m: "CHR ''+'' \<in> set s"
  have "\<exists>f \<in> set (split_on CHR ''.'' s). CHR ''+'' \<in> set f"
    using m
  proof (induction s)
    case (Cons c s)
    obtain f fs where "split_on CHR ''.'' s = f # fs" by (cases "split_on CHR ''.'' s") auto
    with Cons show ?case by auto
  qed simp
  then obtain f where "validIdentifier p f" "CHR ''+'' \<in> set f"
    using v by (auto simp: validIdentifiers_def list_all_iff)
  then have "digit CHR ''+'' \<or> letter CHR ''+'' \<or> CHR ''+'' = CHR ''-''"
    unfolding validIdentifier_def list_all_iff by blast
  then show False by (simp add: digit_def letter_def)
qed

definition pre_part :: "bytes option \<Rightarrow> bytes" where
  "pre_part p = (case p of None \<Rightarrow> [] | Some s \<Rightarrow> CHR ''-'' # s)"

definition build_part :: "bytes option \<Rightarrow> bytes" where
  "build_part p = (case p of None \<Rightarrow> [] | Some s \<Rightarrow> CHR ''+'' # s)"

text \<open>
  Supported versions (\<open>supportedVersion\<close>): of the versions with numeric parts below 2^63 and valid
  prerelease and build identifiers, exactly those that follow 0.9.0 in the order of semantic versions,
  or are 0.9.0 itself, are supported; build metadata makes no difference.
\<close>

theorem supported_versions:
  assumes "a < 2 ^ 63" and "b < 2 ^ 63" and "c < 2 ^ 63"
    and "\<forall>s. pre = Some s \<longrightarrow> validIdentifiers s True" and "\<forall>s. build = Some s \<longrightarrow> validIdentifiers s False"
  shows "supportedVersion (core_version a b c @ pre_part pre @ build_part build) \<longleftrightarrow>
    a > 0 \<or> b > 9 \<or> (b = 9 \<and> (c > 0 \<or> pre = None))"
proof -
  let ?core = "core_version a b c"
  have f: "those (map version_field (split_on CHR ''.'' ?core)) = Some [a, b, c]"
    using assms(1-3) by (simp add: core_split version_field_decimal)
  have p: "CHR ''+'' \<notin> set (?core @ pre_part pre)"
    using assms(4) identifiers_plain core_plain by (auto simp: pre_part_def split: option.split)
  have cut1: "cut_on CHR ''+'' (?core @ pre_part pre @ build_part build) =
      (?core @ pre_part pre, (case build of None \<Rightarrow> [] | Some s \<Rightarrow> s), build \<noteq> None)"
    using p cut_on_append [OF p] cut_on_not_found [OF p] by (auto simp: build_part_def split: option.split)
  have cut2: "cut_on CHR ''-'' (?core @ pre_part pre) = (?core, (case pre of None \<Rightarrow> [] | Some s \<Rightarrow> s), pre \<noteq> None)"
    using cut_on_append [OF core_plain(1)] cut_on_not_found [OF core_plain(1)]
    by (auto simp: pre_part_def split: option.split)
  have "supportedVersion (?core @ pre_part pre @ build_part build) = at_least [a, b, c] [0, 9, 0] (pre = None)"
  proof -
    have l: "length (split_on CHR ''.'' ?core) = 3" by (simp add: core_split)
    have h: "(build \<noteq> None \<and> (\<not> validIdentifiers (case build of None \<Rightarrow> [] | Some s \<Rightarrow> s) False \<or>
        CHR ''+'' \<in> set (case build of None \<Rightarrow> [] | Some s \<Rightarrow> s))) = False"
      "(pre \<noteq> None \<and> \<not> validIdentifiers (case pre of None \<Rightarrow> [] | Some s \<Rightarrow> s) True) = False"
      using assms(4,5) identifiers_plain by (cases build; cases pre; auto)+
    show ?thesis
      unfolding supportedVersion_def cut1 prod.case cut2 f option.case l h if_False by simp
  qed
  then show ?thesis by auto
qed

lemma supported_versions_witness:
  "\<not> supportedVersion (core_version 0 9 0 @ pre_part (Some ''rc-1'') @ build_part None) \<and>
   supportedVersion (core_version 0 10 2 @ pre_part (Some ''rc-1'') @ build_part (Some ''7f''))"
  by (simp add: supported_versions validIdentifiers_def validIdentifier_def digit_def letter_def)

end
