(* ===== verification/Hub.thy ===== *)
theory Hub
  imports Registry Adapter Session
begin

text \<open>
  The SSH server (\<open>hive/internal/server/server.go\<close>, \<open>gateway.go\<close>, \<open>api.go\<close>, \<open>inspect.go\<close>): which
  sessions are published by which connection, who may see and open them, and the slots that bound
  connections, channels, viewers and enrollments. Connections, channels and \<open>*binding\<close> pointers are
  natural numbers; everything under the server's mutex is one operation on the state.
\<close>

section \<open>State\<close>

definition maxControl :: nat where "maxControl = 64 * 1024"
definition maxGatewayViewers :: nat where "maxGatewayViewers = 8"
definition maxEnrollSlots :: nat where "maxEnrollSlots = 4"

record share =
  shKey :: bytes
  shLabel :: bytes
  shID :: bytes
  shName :: bytes
  shAPI :: bool
  shGeneration :: bytes

record publication =
  pVersion :: int
  pName :: bytes
  pShares :: "share list"

record binding =
  bShare :: share
  bConn :: nat
  bActive :: "nat list"      \<comment> \<open>the set of channels\<close>
  bOpening :: bool
  bUp :: u64
  bDown :: u64

record peer =
  cUser :: bytes
  cOwner :: bytes            \<comment> \<open>the fingerprint the key authenticated with\<close>

record hub =
  peers :: "nat \<Rightarrow> peer"
  names :: registry
  shares :: "(bytes, nat) gomap"
  bindings :: "nat \<Rightarrow> binding"
  nextBinding :: nat
  owners :: "(bytes, nat) gomap"
  hconns :: "nat list"       \<comment> \<open>one slot of \<open>sem\<close> each\<close>
  ended :: "nat list"        \<comment> \<open>connections whose \<open>unpublish\<close> has run\<close>
  maxConns :: nat
  maxChannels :: nat
  slots :: "nat list"        \<comment> \<open>channel slots, by connection\<close>
  enrollSlots :: "nat list"
  viewers :: "nat list"      \<comment> \<open>\<open>gatewaySlots\<close>\<close>
  streams :: "(nat \<times> nat) list"   \<comment> \<open>open gateway streams: binding and channel\<close>
  upstreams :: int
  hRejected :: u64
  hEnrollRejected :: u64
  closedCh :: "nat list"

definition updb :: "nat \<Rightarrow> (binding \<Rightarrow> binding) \<Rightarrow> hub \<Rightarrow> hub" where
  "updb b f h = h\<lparr>bindings := (bindings h)(b := f (bindings h b))\<rparr>"

definition foreign :: "hub \<Rightarrow> nat \<Rightarrow> nat \<Rightarrow> bool" where
  "foreign h c b \<longleftrightarrow> cOwner (peers h (bConn (bindings h b))) \<noteq> cOwner (peers h c)"

section \<open>Publishing\<close>

datatype publish_error = BadPublication | BadShare | AlreadyPublishing | NameError registry_error | NoRandom

definition validLabel :: "bytes \<Rightarrow> bool" where
  "validLabel v \<longleftrightarrow> 0 < length v \<and> length v \<le> 128 \<and> \<not> has_control v"

fun check_shares :: "share list \<Rightarrow> bytes list \<Rightarrow> bool" where
  "check_shares [] seen = True"
| "check_shares (v # vs) seen =
     (if length (shKey v) \<noteq> 32 \<or> \<not> validLabel (shLabel v) \<or> shKey v \<in> set seen then False
      else if unhex (shKey v) = None then False
      else check_shares vs (shKey v # seen))"

definition share_id :: "(bytes \<Rightarrow> bytes) \<Rightarrow> bytes \<Rightarrow> bytes \<Rightarrow> bytes" where
  "share_id sha owner key = ''s-'' @ hex (take 12 (sha (owner @ [CHR 0x00] @ key)))"

definition published :: "(bytes \<Rightarrow> bytes) \<Rightarrow> bytes \<Rightarrow> bytes \<Rightarrow> bytes \<Rightarrow> share \<Rightarrow> share" where
  "published sha owner name nonce v =
     v\<lparr>shID := share_id sha owner (shKey v), shName := name, shGeneration := hex nonce\<rparr>"

definition add_share :: "nat \<Rightarrow> share \<Rightarrow> hub \<Rightarrow> hub" where
  "add_share c v h = h\<lparr>shares := put (shID v) (nextBinding h) (shares h),
     bindings := (bindings h)(nextBinding h :=
       \<lparr>bShare = v, bConn = c, bActive = [], bOpening = False, bUp = 0, bDown = 0\<rparr>),
     nextBinding := nextBinding h + 1\<rparr>"

text \<open>\<open>saved\<close> is whether the registry file could be replaced, \<open>nonce\<close> the random bytes, if any.\<close>

definition publish_shares :: "(bytes \<Rightarrow> bytes) \<Rightarrow> bool \<Rightarrow> bytes option \<Rightarrow> nat \<Rightarrow> publication \<Rightarrow> hub \<Rightarrow>
    hub \<times> (publish_error + share list)" where
  "publish_shares sha saved nonce c p h =
     (if pVersion p \<noteq> 1 \<or> \<not> validLabel (pName p) \<or> pShares p = [] \<or> length (pShares p) > 32
      then (h, Inl BadPublication)
      else if \<not> check_shares (pShares p) [] then (h, Inl BadShare)
      else
        (let owner = cOwner (peers h c) in
         if map_of (owners h) owner \<noteq> None then (h, Inl AlreadyPublishing)
         else case Name saved owner (pName p) (names h) of
           (r, Inl e) \<Rightarrow> (h\<lparr>names := r\<rparr>, Inl (NameError e))
         | (r, Inr name) \<Rightarrow>
             (case nonce of
                None \<Rightarrow> (h\<lparr>names := r\<rparr>, Inl NoRandom)
              | Some n \<Rightarrow>
                  (let out = map (published sha owner name n) (pShares p);
                       h1 = foldl (\<lambda>h v. add_share c v h) (h\<lparr>names := r\<rparr>) out
                   in (h1\<lparr>owners := put owner c (owners h1)\<rparr>, Inr out)))))"

definition unpublish :: "nat \<Rightarrow> hub \<Rightarrow> hub" where
  "unpublish c h =
     (let gone = filter (\<lambda>(i, b). bConn (bindings h b) = c) (shares h) in
      h\<lparr>shares := filter (\<lambda>(i, b). bConn (bindings h b) \<noteq> c) (shares h),
        owners := filter (\<lambda>(o', d). d \<noteq> c) (owners h),
        closedCh := closedCh h @ concat (map (\<lambda>(i, b). bActive (bindings h b)) gone)\<rparr>)"

text \<open>The handling of one global request (\<open>requests\<close>): the reply, and the counter of refused
  enrollments. \<open>payload\<close> is what the JSON decodes to.\<close>

datatype greply = No | NoText bytes | Yes | YesShares "share list"

definition requests :: "(bytes \<Rightarrow> bytes) \<Rightarrow> bool \<Rightarrow> bytes option \<Rightarrow> nat \<Rightarrow> bytes \<Rightarrow> nat \<Rightarrow> publication option \<Rightarrow> hub \<Rightarrow>
    hub \<times> greply" where
  "requests sha saved nonce c kind size' payload h =
     (if kind = ''enroll@herdr-hive/v1'' then (h\<lparr>hEnrollRejected := hEnrollRejected h + 1\<rparr>, No)
      else if kind = ''keepalive@openssh.com'' then (h, Yes)
      else if kind = ''publish@herdr-hive/v1'' then
        (if cUser (peers h c) \<noteq> ''bee'' \<or> size' > maxControl then (h, No)
         else case payload of
           None \<Rightarrow> (h, NoText ''invalid or conflicting publication'')
         | Some p \<Rightarrow>
             (case publish_shares sha saved nonce c p h of
                (h', Inr out) \<Rightarrow> (h', YesShares out)
              | (h', Inl _) \<Rightarrow> (h', NoText ''invalid or conflicting publication'')))
      else (h, No))"

section \<open>Seeing\<close>

definition share_list :: "hub \<Rightarrow> share list" where
  "share_list h = sort_key shID (map (\<lambda>(i, b). bShare (bindings h b)) (shares h))"

definition visible_shares :: "hub \<Rightarrow> nat \<Rightarrow> share list" where
  "visible_shares h c =
     sort_key shID (map (\<lambda>(i, b). bShare (bindings h b)) (filter (\<lambda>(i, b). foreign h c b) (shares h)))"

text \<open>The catalog \<open>aggregate\<close> hands to the gateway.\<close>

definition source_of :: "share \<Rightarrow> source" where
  "source_of s = \<lparr>src_id = shID s, src_name = shName s, src_label = shLabel s, src_gen = shGeneration s\<rparr>"

definition catalog_of :: "hub \<Rightarrow> nat \<Rightarrow> source list" where
  "catalog_of h c =
     map (\<lambda>(i, b). source_of (bShare (bindings h b))) (filter (\<lambda>(i, b). foreign h c b) (shares h))"

text \<open>The session a connection names as its user, unless it is its own.\<close>

definition execute_target :: "hub \<Rightarrow> nat \<Rightarrow> nat option" where
  "execute_target h c =
     (case map_of (shares h) (cUser (peers h c)) of
        None \<Rightarrow> None | Some b \<Rightarrow> if foreign h c b then Some b else None)"

definition attach :: "nat \<Rightarrow> nat \<Rightarrow> hub \<Rightarrow> hub" where
  "attach b ch h = updb b (\<lambda>x. x\<lparr>bActive := List.insert ch (bActive x)\<rparr>) h"

definition detach :: "nat \<Rightarrow> nat \<Rightarrow> hub \<Rightarrow> hub" where
  "detach b ch h = updb b (\<lambda>x. x\<lparr>bActive := removeAll ch (bActive x)\<rparr>) h"

section \<open>Executing\<close>

text \<open>What a session channel answers: a listing, text, a JSON value after the framing, a stream from a
  publisher or the aggregate gateway after the framing, or an error.\<close>

datatype answer =
    Listing "share list"
  | Text bytes
  | Value bytes json
  | Stream nat bytes bytes
  | Viewer bytes
  | Failed bytes

definition read_script :: "bytes \<Rightarrow> bytes \<Rightarrow> bytes + bytes" where
  "read_script command input =
     (if command = ''/bin/sh -s''
      then (if length input > maxControl then Inl ''bootstrap too large'' else Inr input) else Inr [])"

definition beginHerdrRequest :: "bytes \<Rightarrow> bytes \<Rightarrow> bytes + action \<times> bytes" where
  "beginHerdrRequest command script =
     (case Resolve command script of
        None \<Rightarrow> Inl ''unsupported Herdr SSH request; use a tested Herdr version (see compatibility documentation)''
      | Some a \<Rightarrow> Inr (a, BeginResponse a))"

definition status_client :: json where
  "status_client = JObj [(''version'', JStr ''0.9.0''), (''channel'', JStr ''stable''), (''protocol'', JNum 22),
     (''endpoint_protocol_generation'', JNum 1),
     (''endpoint_capabilities'', strings [''surface_interest'', ''presentation_effects_fence'', ''health_check'']),
     (''binary'', JStr ''/herdr''), (''session'', JNull)]"

definition status_server :: json where
  "status_server = JObj [(''status'', JStr ''running''), (''running'', JBool True), (''version'', JStr ''0.9.0''),
     (''protocol'', JNum 22),
     (''capabilities'', JObj [(''endpoint_protocol_generation'', JNum 1), (''health_check'', JBool True),
        (''surface_interest'', JBool True), (''live_handoff'', JBool False), (''detached_server_daemon'', JBool True)]),
     (''compatible'', JBool True), (''endpoint_compatible'', JBool True), (''socket'', JStr []), (''session'', JNull),
     (''restart_needed'', JBool False), (''server_binary_stale'', JBool False)]"

definition aggregate_action :: "action \<Rightarrow> bytes \<Rightarrow> nat \<Rightarrow> hub \<Rightarrow> hub \<times> answer" where
  "aggregate_action a pre ch h =
     (let k = aKind a in
      if aOutput a \<noteq> [] then (h, Text (pre @ aOutput a))
      else if k = [] \<or> k = ''check'' then (h, Text pre)
      else if k = ''platform'' then (h, Text (pre @ ''Linux'' @ [CHR 0x0A] @ ''x86_64'' @ [CHR 0x0A]))
      else if k = ''status-client'' then (h, Value pre status_client)
      else if k = ''status-server'' then (h, Value pre status_server)
      else if k = ''client'' then
        (if length (viewers h) \<ge> maxGatewayViewers then (h, Failed ''gateway viewer capacity reached'')
         else (h\<lparr>viewers := ch # viewers h\<rparr>, Viewer pre))
      else (h, Failed ''unsupported gateway request''))"

definition aggregate_request :: "bytes \<Rightarrow> bytes \<Rightarrow> nat \<Rightarrow> hub \<Rightarrow> hub \<times> answer" where
  "aggregate_request command input ch h =
     (case read_script command input of
        Inl e \<Rightarrow> (h, Failed e)
      | Inr script \<Rightarrow>
          (case beginHerdrRequest command script of
             Inl e \<Rightarrow> (h, Failed e) | Inr (a, pre) \<Rightarrow> aggregate_action a pre ch h))"

definition execute :: "bytes \<Rightarrow> bytes \<Rightarrow> nat \<Rightarrow> nat \<Rightarrow> hub \<Rightarrow> hub \<times> answer" where
  "execute command input c ch h =
     (if cUser (peers h c) = ''hive'' then
        (if command = ''list --json'' then (h, Listing (visible_shares h c))
         else aggregate_request command input ch h)
      else case execute_target h c of
        None \<Rightarrow> (h, Failed ''shared session is offline'')
      | Some b \<Rightarrow>
          (attach b ch h,
           case read_script command input of
             Inl e \<Rightarrow> Failed e
           | Inr script \<Rightarrow>
               (case beginHerdrRequest command script of
                  Inl e \<Rightarrow> Failed e
                | Inr (a, pre) \<Rightarrow>
                    if aOutput a \<noteq> [] then Text (pre @ aOutput a)
                    else if aKind a = [] then Text pre
                    else Stream b (aKind a) pre)))"

section \<open>Opening a source for the gateway\<close>

text \<open>\<open>openGatewaySource\<close> in its phases: the check under the mutex, the end of the pending open, the
  second check that attaches the opened channel, and \<open>Close\<close>, which runs once.\<close>

definition open_begin :: "nat \<Rightarrow> hub \<Rightarrow> hub \<times> bytes option" where
  "open_begin b h =
     (if map_of (shares h) (shID (bShare (bindings h b))) \<noteq> Some b then (h, Some ''sharing changed'')
      else if bOpening (bindings h b) then (h, Some ''publisher channel opening is still pending'')
      else (updb b (\<lambda>x. x\<lparr>bOpening := True\<rparr>) h, None))"

definition open_done :: "nat \<Rightarrow> hub \<Rightarrow> hub" where
  "open_done b h = updb b (\<lambda>x. x\<lparr>bOpening := False\<rparr>) h"

definition open_attach :: "nat \<Rightarrow> nat \<Rightarrow> hub \<Rightarrow> hub \<times> bytes option" where
  "open_attach b ch h =
     (if map_of (shares h) (shID (bShare (bindings h b))) \<noteq> Some b then (h, Some ''sharing changed'')
      else ((attach b ch h)\<lparr>upstreams := upstreams h + 1, streams := (b, ch) # streams h\<rparr>, None))"

definition stream_close :: "nat \<Rightarrow> nat \<Rightarrow> hub \<Rightarrow> hub" where
  "stream_close b ch h =
     (if (b, ch) \<in> set (streams h)
      then (detach b ch h)\<lparr>upstreams := upstreams h - 1, streams := remove1 (b, ch) (streams h)\<rparr> else h)"

text \<open>The failure reports of a stream (\<open>readRequests\<close>): the first valid one counts.\<close>

definition validFailureCode :: "bytes \<Rightarrow> bool" where
  "validFailureCode code \<longleftrightarrow> 0 < length code \<and> length code \<le> 64 \<and>
     list_all (\<lambda>c. c = CHR ''_'' \<or> (97 \<le> (of_char c :: nat) \<and> of_char c \<le> (122 :: nat)) \<or> digit c) code"

definition report :: "bytes \<Rightarrow> nat \<Rightarrow> (bytes \<times> bool option) option \<Rightarrow> gerr option \<Rightarrow> gerr option \<times> bool" where
  "report kind size' payload fl =
     (case payload of
        Some (code, Some retryable) \<Rightarrow>
          (if kind = ''stream-failure@herdr-hive/v1'' \<and> size' \<le> 256 \<and> validFailureCode code \<and> fl = None
           then (Some (EFailure code retryable), True) else (fl, False))
      | _ \<Rightarrow> (fl, False))"

definition failureError :: "gerr option \<Rightarrow> gerr option \<Rightarrow> gerr option" where
  "failureError fl err = (case err of None \<Rightarrow> None | Some e \<Rightarrow> (case fl of Some f \<Rightarrow> Some f | None \<Rightarrow> Some e))"

section \<open>The API\<close>

record api_request =
  rShare :: bytes
  rGeneration :: bytes

definition api_target :: "nat \<Rightarrow> nat \<Rightarrow> api_request option \<Rightarrow> hub \<Rightarrow> nat option" where
  "api_target c size' payload h =
     (case payload of
        None \<Rightarrow> None
      | Some r \<Rightarrow>
          if cUser (peers h c) \<noteq> ''hive'' \<or> size' > 4096 \<or> rGeneration r = [] then None
          else (case map_of (shares h) (rShare r) of
                  None \<Rightarrow> None
                | Some b \<Rightarrow>
                    if \<not> shAPI (bShare (bindings h b)) \<or> shGeneration (bShare (bindings h b)) \<noteq> rGeneration r \<or>
                       \<not> foreign h c b then None else Some b))"

definition api_attach :: "bytes \<Rightarrow> nat \<Rightarrow> nat \<Rightarrow> nat \<Rightarrow> hub \<Rightarrow> hub \<times> bool" where
  "api_attach i b ch remote h =
     (if map_of (shares h) i \<noteq> Some b then (h, False) else (attach b remote (attach b ch h), True))"

section \<open>Connections and slots\<close>

text \<open>\<open>Serve\<close>: a connection beyond the limit is closed and counted; an enrolling one needs a slot of
  its own after the handshake; when it ends it is unpublished before its slot is free.\<close>

definition accept_conn :: "nat \<Rightarrow> peer \<Rightarrow> hub \<Rightarrow> hub" where
  "accept_conn c p h =
     (if length (hconns h) \<ge> maxConns h then h\<lparr>hRejected := hRejected h + 1\<rparr>
      else h\<lparr>peers := (peers h)(c := p), hconns := c # hconns h\<rparr>)"

definition enroll_slot :: "nat \<Rightarrow> hub \<Rightarrow> hub \<times> bool" where
  "enroll_slot c h =
     (if length (enrollSlots h) \<ge> maxEnrollSlots then (h\<lparr>hEnrollRejected := hEnrollRejected h + 1\<rparr>, False)
      else (h\<lparr>enrollSlots := c # enrollSlots h\<rparr>, True))"

definition hangup :: "nat \<Rightarrow> hub \<Rightarrow> hub" where
  "hangup c h = (unpublish c h)\<lparr>ended := c # ended h\<rparr>"

definition release_conn :: "nat \<Rightarrow> hub \<Rightarrow> hub" where
  "release_conn c h = h\<lparr>hconns := remove1 c (hconns h), enrollSlots := removeAll c (enrollSlots h),
     ended := removeAll c (ended h)\<rparr>"

definition channel_open :: "nat \<Rightarrow> bytes \<Rightarrow> hub \<Rightarrow> hub \<times> bool" where
  "channel_open c kind h =
     (if cUser (peers h c) = ''enroll'' \<or> (kind \<noteq> ''session'' \<and> kind \<noteq> ''bee-api-v1'') then (h, False)
      else if length (slots h) \<ge> maxChannels h then (h\<lparr>hRejected := hRejected h + 1\<rparr>, False)
      else (h\<lparr>slots := c # slots h\<rparr>, True))"

definition channel_done :: "nat \<Rightarrow> hub \<Rightarrow> hub" where
  "channel_done c h = h\<lparr>slots := remove1 c (slots h)\<rparr>"

section \<open>Inspection\<close>

record detail =
  dID :: bytes
  dName :: bytes
  dSession :: bytes
  dConnections :: nat
  dUp :: u64
  dDown :: u64

record overview =
  oViewers :: nat
  oMaxViewers :: nat
  oUpstreams :: int
  oMaxUpstreams :: nat
  oConnections :: nat
  oChannels :: nat
  oMaxConnections :: nat
  oMaxChannels :: nat
  oRejected :: u64
  oEnrollRejected :: u64
  oShares :: "detail list"

definition detail_of :: "binding \<Rightarrow> detail" where
  "detail_of b = \<lparr>dID = shID (bShare b), dName = shName (bShare b), dSession = shLabel (bShare b),
     dConnections = length (bActive b), dUp = bUp b, dDown = bDown b\<rparr>"

definition Snapshot :: "hub \<Rightarrow> overview" where
  "Snapshot h =
     \<lparr>oViewers = length (viewers h), oMaxViewers = maxGatewayViewers, oUpstreams = upstreams h,
      oMaxUpstreams = maxGatewayViewers * MaxSources, oConnections = length (hconns h), oChannels = length (slots h),
      oMaxConnections = maxConns h, oMaxChannels = maxChannels h, oRejected = hRejected h,
      oEnrollRejected = hEnrollRejected h,
      oShares = sort_key dID (map (\<lambda>(i, b). detail_of (bindings h b)) (shares h))\<rparr>"

end
