(* ===== verification/HubSafety.thy ===== *)
theory HubSafety
  imports Hub "HOL-Library.Multiset"
begin

text \<open>
  The server as a step relation, one step for every critical section, and what holds of every state
  it reaches: one live publisher per owner, names that identify owners, no channel left open on a
  session that is no longer published, and counters and slots within their bounds.
\<close>

section \<open>Steps\<close>

text \<open>Pointers of new connections and channels are new. That the twelve bytes of the SHA-256 of an owner
  and a key tell the published sessions apart is a condition of the step that publishes.\<close>

definition fresh_conn :: "nat \<Rightarrow> hub \<Rightarrow> bool" where
  "fresh_conn c h \<longleftrightarrow> c \<notin> set (hconns h) \<and> c \<notin> set (ended h) \<and> (\<forall>b < nextBinding h. bConn (bindings h b) \<noteq> c)"

definition fresh_ids :: "(bytes \<Rightarrow> bytes) \<Rightarrow> nat \<Rightarrow> publication option \<Rightarrow> hub \<Rightarrow> bool" where
  "fresh_ids sha c payload h \<longleftrightarrow> (\<forall>p. payload = Some p \<longrightarrow>
     (let ids = map (\<lambda>v. share_id sha (cOwner (peers h c)) (shKey v)) (pShares p)
      in distinct ids \<and> set ids \<inter> set (keys (shares h)) = {}))"

definition running :: "nat \<Rightarrow> hub \<Rightarrow> bool" where
  "running c h \<longleftrightarrow> c \<in> set (hconns h) \<and> c \<notin> set (ended h)"

inductive hub_step :: "(bytes \<Rightarrow> bytes) \<Rightarrow> hub \<Rightarrow> hub \<Rightarrow> bool" for sha :: "bytes \<Rightarrow> bytes" where
  accepted: "fresh_conn c h \<Longrightarrow> hub_step sha h (accept_conn c p h)"
| enrolling: "running c h \<Longrightarrow> cUser (peers h c) = ''enroll'' \<Longrightarrow> hub_step sha h (fst (enroll_slot c h))"
| ending: "running c h \<Longrightarrow> hub_step sha h (hangup c h)"
| released: "c \<in> set (ended h) \<Longrightarrow> c \<notin> set (slots h) \<Longrightarrow> hub_step sha h (release_conn c h)"
| request: "running c h \<Longrightarrow> cUser (peers h c) \<noteq> ''enroll'' \<Longrightarrow> fresh_ids sha c payload h \<Longrightarrow>
    hub_step sha h (fst (requests sha saved nonce c kind size' payload h))"
| opened: "c \<in> set (hconns h) \<Longrightarrow> hub_step sha h (fst (channel_open c kind h))"
| closed: "hub_step sha h (channel_done c h)"
| executed: "c \<in> set (hconns h) \<Longrightarrow> hub_step sha h (fst (execute command input c ch h))"
| finished: "b < nextBinding h \<Longrightarrow> (b, ch) \<notin> set (streams h) \<Longrightarrow> hub_step sha h (detach b ch h)"
| viewed: "hub_step sha h (h\<lparr>viewers := remove1 ch (viewers h)\<rparr>)"
| dialing: "b < nextBinding h \<Longrightarrow> hub_step sha h (fst (open_begin b h))"
| dialed: "b < nextBinding h \<Longrightarrow> hub_step sha h (open_done b h)"
| connected: "b < nextBinding h \<Longrightarrow> (b, ch) \<notin> set (streams h) \<Longrightarrow> hub_step sha h (fst (open_attach b ch h))"
| disconnected: "hub_step sha h (stream_close b ch h)"
| calling: "b < nextBinding h \<Longrightarrow> hub_step sha h (fst (api_attach i b ch remote h))"
| moved: "b < nextBinding h \<Longrightarrow> hub_step sha h (updb b (\<lambda>x. x\<lparr>bUp := bUp x + n, bDown := bDown x + m\<rparr>) h)"

definition new_hub :: "nat \<Rightarrow> nat \<Rightarrow> registry \<Rightarrow> hub" where
  "new_hub connections channels r =
     \<lparr>peers = (\<lambda>_. \<lparr>cUser = [], cOwner = []\<rparr>), names = r, shares = [],
      bindings = (\<lambda>_. \<lparr>bShare = \<lparr>shKey = [], shLabel = [], shID = [], shName = [], shAPI = False, shGeneration = []\<rparr>,
         bConn = 0, bActive = [], bOpening = False, bUp = 0, bDown = 0\<rparr>), nextBinding = 0, owners = [],
      hconns = [], ended = [], maxConns = connections, maxChannels = channels, slots = [], enrollSlots = [],
      viewers = [], streams = [], upstreams = 0, hRejected = 0, hEnrollRejected = 0, closedCh = []\<rparr>"

inductive hub_reachable :: "(bytes \<Rightarrow> bytes) \<Rightarrow> hub \<Rightarrow> bool" for sha :: "bytes \<Rightarrow> bytes" where
  boot_h: "unique_names r \<Longrightarrow> hub_reachable sha (new_hub connections channels r)"
| step_h: "hub_reachable sha h \<Longrightarrow> hub_step sha h h' \<Longrightarrow> hub_reachable sha h'"

section \<open>The invariant\<close>

definition owner_of :: "hub \<Rightarrow> nat \<Rightarrow> bytes" where
  "owner_of h b = cOwner (peers h (bConn (bindings h b)))"

definition share_ok :: "hub \<Rightarrow> bytes \<times> nat \<Rightarrow> bool" where
  "share_ok h e \<longleftrightarrow> (case e of (i, b) \<Rightarrow> b < nextBinding h \<and> shID (bShare (bindings h b)) = i \<and>
     map_of (owners h) (owner_of h b) = Some (bConn (bindings h b)) \<and>
     owner_name (names h) (owner_of h b) = Some (shName (bShare (bindings h b))))"

definition hub_ok :: "hub \<Rightarrow> bool" where
  "hub_ok h \<longleftrightarrow> distinct (keys (shares h)) \<and> distinct (keys (owners h)) \<and> unique_names (names h) \<and>
     (\<forall>e \<in> set (shares h). share_ok h e) \<and>
     (\<forall>(o', c) \<in> set (owners h). cOwner (peers h c) = o' \<and> running c h) \<and>
     (\<forall>b < nextBinding h. b \<notin> set (vals (shares h)) \<longrightarrow> set (bActive (bindings h b)) \<subseteq> set (closedCh h)) \<and>
     (\<forall>(b, ch) \<in> set (streams h). b < nextBinding h \<and> ch \<in> set (bActive (bindings h b))) \<and>
     distinct (streams h) \<and> upstreams h = int (length (streams h)) \<and>
     set (ended h) \<subseteq> set (hconns h) \<and> distinct (hconns h) \<and>
     length (hconns h) \<le> maxConns h \<and> length (slots h) \<le> maxChannels h \<and> length (viewers h) \<le> maxGatewayViewers \<and>
     length (enrollSlots h) \<le> maxEnrollSlots"

text \<open>Steps that touch a binding change neither its share nor its connection.\<close>

lemma updb_fields [server_simps]:
  "peers (updb b f h) = peers h" "names (updb b f h) = names h" "shares (updb b f h) = shares h"
  "nextBinding (updb b f h) = nextBinding h" "owners (updb b f h) = owners h" "hconns (updb b f h) = hconns h"
  "ended (updb b f h) = ended h" "maxConns (updb b f h) = maxConns h" "maxChannels (updb b f h) = maxChannels h"
  "slots (updb b f h) = slots h" "enrollSlots (updb b f h) = enrollSlots h" "viewers (updb b f h) = viewers h"
  "streams (updb b f h) = streams h" "upstreams (updb b f h) = upstreams h" "closedCh (updb b f h) = closedCh h"
  "hRejected (updb b f h) = hRejected h" "hEnrollRejected (updb b f h) = hEnrollRejected h"
  "bindings (updb b f h) d = (if d = b then f (bindings h b) else bindings h d)"
  by (simp_all add: updb_def)

lemma updb_ok:
  assumes "hub_ok h" and "bShare (f (bindings h b)) = bShare (bindings h b)" "bConn (f (bindings h b)) = bConn (bindings h b)"
    and "b \<in> set (vals (shares h)) \<or> set (bActive (f (bindings h b))) \<subseteq> set (bActive (bindings h b))"
    and "\<forall>ch. (b, ch) \<in> set (streams h) \<longrightarrow> ch \<in> set (bActive (f (bindings h b)))"
  shows "hub_ok (updb b f h)"
proof -
  have o: "owner_of (updb b f h) d = owner_of h d" for d
    using assms(3) by (simp add: owner_of_def updb_fields)
  have s: "share_ok (updb b f h) e = share_ok h e" for e
    using assms(2,3) by (auto simp: share_ok_def updb_fields o split: prod.split)
  have r: "running c (updb b f h) = running c h" for c by (simp add: running_def updb_fields)
  from assms show ?thesis unfolding hub_ok_def s r updb_fields by auto blast
qed

lemma attach_fields: "attach b ch h = updb b (\<lambda>x. x\<lparr>bActive := List.insert ch (bActive x)\<rparr>) h"
  by (simp add: attach_def)

lemma attach_ok: "hub_ok h \<Longrightarrow> b \<in> set (vals (shares h)) \<Longrightarrow> hub_ok (attach b ch h)"
  unfolding attach_def by (rule updb_ok) (auto simp: hub_ok_def)

lemma detach_ok: "hub_ok h \<Longrightarrow> (b, ch) \<notin> set (streams h) \<Longrightarrow> hub_ok (detach b ch h)"
  unfolding detach_def by (rule updb_ok) (auto simp: hub_ok_def)

lemma shared_pointer: "map_of (shares h) i = Some b \<Longrightarrow> b \<in> set (vals (shares h))"
  by (force dest: map_of_SomeD)

text \<open>States that differ only in what the invariant does not relate.\<close>

lemma hub_ok_same:
  assumes "hub_ok h" and "peers h' = peers h" "names h' = names h" "shares h' = shares h" "bindings h' = bindings h"
    "nextBinding h' = nextBinding h" "owners h' = owners h" "closedCh h' = closedCh h" "streams h' = streams h"
    "upstreams h' = upstreams h" "hconns h' = hconns h" "ended h' = ended h" "maxConns h' = maxConns h" "maxChannels h' = maxChannels h"
    and "length (slots h') \<le> maxChannels h" "length (viewers h') \<le> maxGatewayViewers" "length (enrollSlots h') \<le> maxEnrollSlots"
  shows "hub_ok h'"
proof -
  have s: "share_ok h' e = share_ok h e" for e
    using assms by (auto simp: share_ok_def owner_of_def split: prod.split)
  have r: "running c h' = running c h" for c using assms by (simp add: running_def)
  show ?thesis using assms unfolding hub_ok_def s r by simp
qed

section \<open>Publishing keeps it\<close>

lemma Name_nonempty: "Name s a w r = (r', Inr n) \<Longrightarrow> w \<noteq> [] \<Longrightarrow> n \<noteq> []"
proof -
  assume "Name s a w r = (r', Inr n)" "w \<noteq> []"
  then have "n = free_name (Names r) a w w 2"
    by (cases rule: Name_cases [of s a w r]) auto
  with \<open>w \<noteq> []\<close> free_name_shape [of 2 "Names r" a w w] show ?thesis by (auto simp: numbered_name_def)
qed

lemma add_share_fields:
  "peers (add_share c v h) = peers h" "names (add_share c v h) = names h" "owners (add_share c v h) = owners h"
  "nextBinding (add_share c v h) = nextBinding h + 1" "running d (add_share c v h) = running d h"
  "keys (shares (add_share c v h)) = keys (put (shID v) (nextBinding h) (shares h))"
  by (simp_all add: add_share_def running_def)

lemma add_share_ok:
  assumes "hub_ok h" and "running c h" and "map_of (owners h) (cOwner (peers h c)) = Some c"
    and "owner_name (names h) (cOwner (peers h c)) = Some (shName v)" and "shID v \<notin> set (keys (shares h))"
  shows "hub_ok (add_share c v h)"
proof -
  let ?h = "add_share c v h"
  have "distinct (keys (shares h))" using assms(1) by (simp add: hub_ok_def)
  moreover have "{e \<in> set (shares h). fst e \<noteq> shID v} = set (shares h)" using assms(5) by force
  ultimately have set: "set (shares ?h) = insert (shID v, nextBinding h) (set (shares h))"
    by (simp add: add_share_def set_put)
  have b: "bindings ?h b = bindings h b" if "b < nextBinding h" for b
    using that by (simp add: add_share_def)
  have old: "share_ok ?h e" if "e \<in> set (shares h)" for e
  proof -
    have "share_ok h e" using that assms(1) by (simp add: hub_ok_def)
    then show ?thesis using b by (auto simp: share_ok_def owner_of_def add_share_fields)
  qed
  have new: "share_ok ?h (shID v, nextBinding h)"
    using assms(3,4) by (simp add: share_ok_def owner_of_def add_share_def)
  have dist: "distinct (keys (shares ?h))"
    unfolding add_share_fields using assms(1) by (simp add: hub_ok_def)
  have closed: "set (bActive (bindings ?h b)) \<subseteq> set (closedCh h)"
    if "b < nextBinding h + 1" "b \<notin> snd ` set (shares ?h)" for b
    using that assms(1) b [of b] by (cases "b = nextBinding h") (auto simp: set hub_ok_def)
  have str: "\<forall>(b, ch) \<in> set (streams h). b < nextBinding ?h \<and> ch \<in> set (bActive (bindings ?h b))"
    using assms(1) b by (fastforce simp: hub_ok_def add_share_fields)
  have rest: "closedCh ?h = closedCh h" "streams ?h = streams h" "upstreams ?h = upstreams h" "ended ?h = ended h"
    "hconns ?h = hconns h" "maxConns ?h = maxConns h" "maxChannels ?h = maxChannels h" "slots ?h = slots h"
    "viewers ?h = viewers h" "enrollSlots ?h = enrollSlots h"
    by (simp_all add: add_share_def)
  show ?thesis
    unfolding hub_ok_def rest add_share_fields(1-5) using assms(1) old new dist closed str
    by (auto simp: hub_ok_def set add_share_fields(4))
qed

lemma add_shares_ok:
  assumes "hub_ok h" and "running c h" and "map_of (owners h) (cOwner (peers h c)) = Some c"
    and "\<forall>v \<in> set vs. owner_name (names h) (cOwner (peers h c)) = Some (shName v)"
    and "distinct (map shID vs)" and "shID ` set vs \<inter> set (keys (shares h)) = {}"
  shows "hub_ok (foldl (\<lambda>h v. add_share c v h) h vs)"
  using assms
proof (induction vs arbitrary: h)
  case (Cons v vs)
  let ?h = "add_share c v h"
  have "hub_ok ?h" using Cons.prems by (intro add_share_ok) auto
  moreover have "running c ?h" "map_of (owners ?h) (cOwner (peers ?h c)) = Some c"
    using Cons.prems(2,3) by (simp_all add: add_share_fields)
  moreover have "\<forall>u \<in> set vs. owner_name (names ?h) (cOwner (peers ?h c)) = Some (shName u)"
    using Cons.prems(4) unfolding add_share_fields list.set by blast
  moreover have "distinct (map shID vs)" using Cons.prems(5) by simp
  moreover have "shID ` set vs \<inter> set (keys (shares ?h)) = {}"
    using Cons.prems(5,6) by (auto simp: add_share_def)
  ultimately have "hub_ok (foldl (\<lambda>h v. add_share c v h) ?h vs)" by (rule Cons.IH)
  then show ?case by simp
qed simp

definition new_binding :: "nat \<Rightarrow> share \<Rightarrow> binding" where
  "new_binding c v = \<lparr>bShare = v, bConn = c, bActive = [], bOpening = False, bUp = 0, bDown = 0\<rparr>"

lemma add_shares_published:
  assumes "distinct (map shID vs)" and "h' = foldl (\<lambda>h v. add_share c v h) h vs"
  shows "(\<forall>v \<in> set vs. \<exists>b. map_of (shares h') (shID v) = Some b \<and> bindings h' b = new_binding c v) \<and>
    (\<forall>b < nextBinding h. bindings h' b = bindings h b) \<and>
    (\<forall>i. i \<notin> shID ` set vs \<longrightarrow> map_of (shares h') i = map_of (shares h) i)"
  using assms
proof (induction vs arbitrary: h)
  case (Cons v vs)
  let ?h = "add_share c v h"
  have h1: "map_of (shares ?h) = (map_of (shares h))(shID v \<mapsto> nextBinding h)"
    "bindings ?h = (bindings h)(nextBinding h := new_binding c v)" "nextBinding ?h = nextBinding h + 1"
    by (simp_all add: add_share_def new_binding_def)
  have d: "distinct (map shID vs)" "shID v \<notin> shID ` set vs" using Cons.prems(1) by auto
  note IH = Cons.IH [OF d(1), of ?h]
  have t: "h' = foldl (\<lambda>h v. add_share c v h) ?h vs" using Cons.prems(2) by simp
  have rest: "\<forall>v \<in> set vs. \<exists>b. map_of (shares h') (shID v) = Some b \<and> bindings h' b = new_binding c v"
    and old: "\<forall>b < nextBinding ?h. bindings h' b = bindings ?h b"
    and same: "\<forall>i. i \<notin> shID ` set vs \<longrightarrow> map_of (shares h') i = map_of (shares ?h) i"
    using IH [OF t] by blast+
  have "map_of (shares h') (shID v) = Some (nextBinding h)" using same d(2) by (simp add: h1)
  moreover have "bindings h' (nextBinding h) = new_binding c v" using old by (simp add: h1)
  moreover have "\<forall>b < nextBinding h. bindings h' b = bindings h b" using old by (simp add: h1)
  moreover have "\<forall>i. i \<notin> shID ` set (v # vs) \<longrightarrow> map_of (shares h') i = map_of (shares h) i"
    using same by (simp add: h1)
  ultimately show ?case using rest by auto
qed simp

lemma add_shares_owners:
  "(foldl (\<lambda>h v. add_share c v h) h vs)\<lparr>owners := x\<rparr> = foldl (\<lambda>h v. add_share c v h) (h\<lparr>owners := x\<rparr>) vs"
proof (induction vs arbitrary: h)
  case (Cons v vs)
  have "(add_share c v h)\<lparr>owners := x\<rparr> = add_share c v (h\<lparr>owners := x\<rparr>)" by (simp add: add_share_def)
  with Cons [of "add_share c v h"] show ?case by simp
qed simp

lemma add_shares_keep: "owners (foldl (\<lambda>h v. add_share c v h) h vs) = owners h"
  "peers (foldl (\<lambda>h v. add_share c v h) h vs) = peers h" "names (foldl (\<lambda>h v. add_share c v h) h vs) = names h"
  by (induction vs arbitrary: h) (simp_all add: add_share_fields)

lemma named_ok:
  assumes "hub_ok h" and "map_of (owners h) a = None"
  shows "hub_ok (h\<lparr>names := fst (Name s a w (names h))\<rparr>)"
proof -
  let ?h = "h\<lparr>names := fst (Name s a w (names h))\<rparr>"
  have "share_ok ?h e" if "e \<in> set (shares h)" for e
  proof -
    obtain i b where e: "e = (i, b)" by fastforce
    have ok: "share_ok h e" using that assms(1) by (simp add: hub_ok_def)
    then have "owner_of h b \<noteq> a" using assms(2) by (auto simp: share_ok_def e)
    with ok show ?thesis using names.assign_other by (simp add: share_ok_def e owner_of_def)
  qed
  moreover have "unique_names (names ?h)" using assms(1) names.assign_wf by (simp add: hub_ok_def)
  ultimately show ?thesis using assms(1) by (simp add: hub_ok_def running_def)
qed

lemma published_owner_ok:
  assumes "hub_ok h" and "map_of (owners h) (cOwner (peers h c)) = None" and "running c h"
  shows "hub_ok (h\<lparr>owners := put (cOwner (peers h c)) c (owners h)\<rparr>)"
proof -
  let ?h = "h\<lparr>owners := put (cOwner (peers h c)) c (owners h)\<rparr>"
  have "share_ok ?h e" if "e \<in> set (shares h)" for e
  proof -
    obtain i b where e: "e = (i, b)" by fastforce
    have ok: "share_ok h e" using that assms(1) by (simp add: hub_ok_def)
    then have "owner_of h b \<noteq> cOwner (peers h c)" using assms(2) by (auto simp: share_ok_def e)
    with ok show ?thesis by (simp add: share_ok_def e owner_of_def)
  qed
  moreover have "\<forall>(o', d) \<in> set (owners ?h). cOwner (peers h d) = o' \<and> running d h"
    using assms set_put_subset [of "cOwner (peers h c)" c "owners h"] by (fastforce simp: hub_ok_def)
  ultimately show ?thesis using assms(1) by (simp add: hub_ok_def running_def)
qed

lemma publish_ok:
  assumes h: "hub_ok h" and c: "running c h" and f: "fresh_ids sha c (Some p) h"
  shows "hub_ok (fst (publish_shares sha saved nonce c p h))"
proof -
  let ?a = "cOwner (peers h c)"
  show ?thesis
  proof (cases "(pVersion p \<noteq> 1 \<or> \<not> validLabel (pName p) \<or> pShares p = [] \<or> length (pShares p) > 32) \<or>
      \<not> check_shares (pShares p) [] \<or> map_of (owners h) ?a \<noteq> None")
    case True
    then show ?thesis using h by (auto simp: publish_shares_def Let_def)
  next
    case False
    obtain r res where n: "Name saved ?a (pName p) (names h) = (r, res)" by fastforce
    have n1: "hub_ok (h\<lparr>names := r\<rparr>)" using named_ok [OF h, of ?a saved "pName p"] False n by simp
    show ?thesis
    proof (cases res)
      case (Inl e)
      with n1 n False show ?thesis by (simp add: publish_shares_def Let_def)
    next
      case (Inr name)
      show ?thesis
      proof (cases nonce)
        case None
        with n1 n False Inr show ?thesis by (simp add: publish_shares_def Let_def)
      next
        case (Some nn)
        let ?out = "map (published sha ?a name nn) (pShares p)"
        let ?h = "h\<lparr>names := r, owners := put ?a c (owners h)\<rparr>"
        have "pName p \<noteq> []" using False by (auto simp: validLabel_def)
        then have name: "owner_name r ?a = Some name"
          using names.assign_named [of "names h"] n Inr Name_nonempty h by (auto simp: hub_ok_def)
        have ok: "hub_ok ?h"
          using published_owner_ok [OF n1, of c] False c by (simp add: running_def)
        have ids: "map shID ?out = map (\<lambda>v. share_id sha ?a (shKey v)) (pShares p)"
          by (simp add: published_def comp_def)
        have "distinct (map shID ?out)" "shID ` set ?out \<inter> set (keys (shares ?h)) = {}"
          unfolding ids using f ids by (simp_all only: fresh_ids_def Let_def set_map [symmetric] hub.simps) auto
        moreover have "running c ?h" "map_of (owners ?h) (cOwner (peers ?h c)) = Some c"
          using c by (simp_all add: running_def)
        moreover have "\<forall>v \<in> set ?out. owner_name (names ?h) (cOwner (peers ?h c)) = Some (shName v)"
          using name by (simp add: published_def)
        ultimately have "hub_ok (foldl (\<lambda>h v. add_share c v h) ?h ?out)"
          using ok by (intro add_shares_ok)
        then have "hub_ok ((foldl (\<lambda>h v. add_share c v h) (h\<lparr>names := r\<rparr>) ?out)
            \<lparr>owners := put ?a c (owners (foldl (\<lambda>h v. add_share c v h) (h\<lparr>names := r\<rparr>) ?out))\<rparr>)"
          unfolding add_shares_owners add_shares_keep by simp
        with n False Inr Some show ?thesis by (simp add: publish_shares_def Let_def)
      qed
    qed
  qed
qed

section \<open>Every step keeps it\<close>

lemma requests_ok:
  assumes "hub_ok h" and "running c h" and "fresh_ids sha c payload h"
  shows "hub_ok (fst (requests sha saved nonce c kind size' payload h))"
proof -
  have rejected: "hub_ok (h\<lparr>hEnrollRejected := hEnrollRejected h + 1\<rparr>)"
    using assms(1) by (rule hub_ok_same) (use assms(1) in \<open>simp_all add: hub_ok_def\<close>)
  show ?thesis
  proof (cases payload)
    case None
    with rejected assms(1) show ?thesis by (simp add: requests_def)
  next
    case (Some p)
    then have "hub_ok (fst (publish_shares sha saved nonce c p h))" using publish_ok assms by blast
    with rejected assms(1) Some show ?thesis
      by (cases "publish_shares sha saved nonce c p h") (auto simp: requests_def split: sum.split)
  qed
qed

lemma accept_ok:
  assumes "hub_ok h" and "fresh_conn c h"
  shows "hub_ok (accept_conn c p h)"
proof (cases "length (hconns h) \<ge> maxConns h")
  case True
  have "hub_ok (h\<lparr>hRejected := hRejected h + 1\<rparr>)"
    using assms(1) by (rule hub_ok_same) (use assms(1) in \<open>simp_all add: hub_ok_def\<close>)
  with True show ?thesis by (simp add: accept_conn_def)
next
  case False
  let ?h = "h\<lparr>peers := (peers h)(c := p), hconns := c # hconns h\<rparr>"
  have "share_ok ?h e" if "e \<in> set (shares h)" for e
  proof -
    obtain i b where e: "e = (i, b)" by fastforce
    have ok: "share_ok h (i, b)" using that assms(1) by (simp add: hub_ok_def e)
    then have "bConn (bindings h b) \<noteq> c" using assms(2) by (auto simp: share_ok_def fresh_conn_def)
    then have "owner_of ?h b = owner_of h b" by (simp add: owner_of_def)
    with ok show ?thesis by (simp add: share_ok_def e)
  qed
  moreover have "\<forall>(o', d) \<in> set (owners h). cOwner (peers ?h d) = o' \<and> running d ?h"
    using assms by (fastforce simp: hub_ok_def running_def fresh_conn_def)
  ultimately have "hub_ok ?h"
    using assms False by (auto simp: hub_ok_def fresh_conn_def)
  with False show ?thesis by (simp add: accept_conn_def)
qed

lemma map_of_filter_vals: "distinct (keys m) \<Longrightarrow> map_of m k = Some v \<Longrightarrow> P v \<Longrightarrow>
    map_of (filter (\<lambda>(k, v). P v) m) k = Some v"
  by (induction m) (auto split: if_splits intro: map_of_is_SomeI)

lemma hangup_ok:
  assumes "hub_ok h" and "running c h"
  shows "hub_ok (hangup c h)"
proof -
  let ?h = "hangup c h"
  have keep: "peers ?h = peers h" "names ?h = names h" "bindings ?h = bindings h" "nextBinding ?h = nextBinding h"
    "streams ?h = streams h" "upstreams ?h = upstreams h" "ended ?h = c # ended h" "hconns ?h = hconns h"
    "maxConns ?h = maxConns h" "maxChannels ?h = maxChannels h" "slots ?h = slots h" "viewers ?h = viewers h"
    "enrollSlots ?h = enrollSlots h"
    by (simp_all add: hangup_def unpublish_def Let_def)
  have sh: "shares ?h = filter (\<lambda>(i, b). bConn (bindings h b) \<noteq> c) (shares h)"
    and ow: "owners ?h = filter (\<lambda>(o', d). d \<noteq> c) (owners h)"
    and cl: "closedCh ?h = closedCh h @ concat (map (\<lambda>(i, b). bActive (bindings h b))
        (filter (\<lambda>(i, b). bConn (bindings h b) = c) (shares h)))"
    by (simp_all add: hangup_def unpublish_def Let_def)
  have do: "distinct (keys (owners h))" and ds: "distinct (keys (shares h))" using assms(1) by (simp_all add: hub_ok_def)
  have "share_ok ?h e" if "e \<in> set (shares ?h)" for e
  proof -
    obtain i b where e: "e = (i, b)" by fastforce
    have ok: "share_ok h (i, b)" and "bConn (bindings h b) \<noteq> c" using that assms(1) by (auto simp: hub_ok_def e sh)
    then have "map_of (owners ?h) (owner_of h b) = Some (bConn (bindings h b))"
      unfolding ow using map_of_filter_vals [OF do, of "owner_of h b" _ "\<lambda>d. d \<noteq> c"] by (simp add: share_ok_def)
    with ok show ?thesis by (simp add: share_ok_def e owner_of_def keep)
  qed
  moreover have "\<forall>(o', d) \<in> set (owners ?h). cOwner (peers ?h d) = o' \<and> running d ?h"
    using assms by (fastforce simp: hub_ok_def running_def keep ow)
  moreover have "set (bActive (bindings h b)) \<subseteq> set (closedCh ?h)"
    if "b < nextBinding h" "b \<notin> set (vals (shares ?h))" for b
  proof (cases "b \<in> set (vals (shares h))")
    case True
    then obtain i where "(i, b) \<in> set (shares h)" by auto
    then show ?thesis using that(2) by (force simp: cl sh)
  next
    case False
    then show ?thesis using that(1) assms(1) by (auto simp: cl hub_ok_def)
  qed
  moreover have "distinct (keys (shares ?h))" "distinct (keys (owners ?h))"
    unfolding sh ow using ds do by (simp_all add: distinct_map_filter)
  ultimately show ?thesis
    using assms by (simp add: hub_ok_def keep running_def)
qed

lemma length_remove1_le: "length (remove1 x xs) \<le> length xs"
  by (simp add: length_remove1)

lemma release_ok:
  assumes "hub_ok h" and "c \<in> set (ended h)"
  shows "hub_ok (release_conn c h)"
proof -
  let ?h = "release_conn c h"
  have keep: "peers ?h = peers h" "names ?h = names h" "bindings ?h = bindings h" "nextBinding ?h = nextBinding h"
    "streams ?h = streams h" "upstreams ?h = upstreams h" "closedCh ?h = closedCh h" "shares ?h = shares h"
    "owners ?h = owners h" "ended ?h = removeAll c (ended h)" "hconns ?h = remove1 c (hconns h)"
    "maxConns ?h = maxConns h" "maxChannels ?h = maxChannels h" "slots ?h = slots h" "viewers ?h = viewers h"
    "enrollSlots ?h = removeAll c (enrollSlots h)"
    by (simp_all add: release_conn_def)
  have run: "running d ?h" if "running d h" for d
  proof -
    have "d \<noteq> c" using that assms(2) by (auto simp: running_def)
    with that show ?thesis by (simp add: running_def keep)
  qed
  have s: "share_ok ?h e = share_ok h e" for e
    by (auto simp: share_ok_def owner_of_def keep split: prod.split)
  have "\<forall>(o', d) \<in> set (owners h). cOwner (peers h d) = o' \<and> running d ?h"
    using assms(1) run by (fastforce simp: hub_ok_def)
  moreover have "length (remove1 c (hconns h)) \<le> maxConns h" "length (removeAll c (enrollSlots h)) \<le> maxEnrollSlots"
    using assms(1) le_trans [OF length_remove1_le [of c "hconns h"], of "maxConns h"]
      le_trans [OF length_removeAll_less_eq [of c "enrollSlots h"], of maxEnrollSlots]
    unfolding hub_ok_def by blast+
  moreover have "set (removeAll c (ended h)) \<subseteq> set (remove1 c (hconns h))"
    using assms by (auto simp: hub_ok_def)
  ultimately show ?thesis
    using assms(1) unfolding hub_ok_def s keep by simp
qed

lemma stream_ok:
  assumes "hub_ok h" and "b \<in> set (vals (shares h))" and "(b, ch) \<notin> set (streams h)"
  shows "hub_ok ((attach b ch h)\<lparr>upstreams := upstreams h + 1, streams := (b, ch) # streams h\<rparr>)"
proof -
  let ?a = "attach b ch h" let ?h = "?a\<lparr>upstreams := upstreams h + 1, streams := (b, ch) # streams h\<rparr>"
  have ok: "hub_ok ?a" using assms attach_ok by blast
  have same: "streams ?a = streams h" "upstreams ?a = upstreams h" by (simp_all add: attach_def updb_fields)
  have s: "share_ok ?h e = share_ok ?a e" for e by (auto simp: share_ok_def owner_of_def split: prod.split)
  have r: "running c ?h = running c ?a" for c by (simp add: running_def)
  have "b < nextBinding ?a" using ok assms(2) by (fastforce simp: hub_ok_def share_ok_def attach_def updb_fields)
  moreover have "ch \<in> set (bActive (bindings ?a b))" by (simp add: attach_def updb_fields)
  ultimately show ?thesis using ok assms(3) unfolding hub_ok_def s r by (simp add: same)
qed

lemma stream_close_ok: "hub_ok h \<Longrightarrow> hub_ok (stream_close b ch h)"
proof (cases "(b, ch) \<in> set (streams h)")
  case True
  assume ok: "hub_ok h"
  let ?s = "h\<lparr>upstreams := upstreams h - 1, streams := remove1 (b, ch) (streams h)\<rparr>"
  have s: "share_ok ?s e = share_ok h e" for e by (auto simp: share_ok_def owner_of_def split: prod.split)
  have r: "running c ?s = running c h" for c by (simp add: running_def)
  have "upstreams h = int (length (streams h))" using ok by (simp add: hub_ok_def)
  moreover have "int (length (streams h)) - 1 = int (length (streams h) - 1)" using True by (cases "streams h") auto
  ultimately have up: "upstreams h - 1 = int (length (remove1 (b, ch) (streams h)))"
    using True by (simp only: length_remove1 if_True)
  have "\<forall>(b, ch) \<in> set (remove1 (b, ch) (streams h)). b < nextBinding h \<and> ch \<in> set (bActive (bindings h b))"
    using ok set_remove1_subset [of "(b, ch)" "streams h"] unfolding hub_ok_def by blast
  then have "hub_ok ?s" using ok up unfolding hub_ok_def s r by simp
  moreover have "(b, ch) \<notin> set (streams ?s)" using ok by (simp add: hub_ok_def)
  ultimately have "hub_ok (detach b ch ?s)" by (rule detach_ok)
  moreover have "detach b ch ?s = (detach b ch h)\<lparr>upstreams := upstreams h - 1, streams := remove1 (b, ch) (streams h)\<rparr>"
    by (simp add: detach_def updb_def)
  ultimately show ?thesis using True by (simp add: stream_close_def)
qed (simp add: stream_close_def)

lemma slots_ok:
  assumes "hub_ok h"
  shows "hub_ok (fst (enroll_slot c h))" "hub_ok (fst (channel_open c kind h))" "hub_ok (channel_done c h)"
    "hub_ok (h\<lparr>viewers := remove1 ch (viewers h)\<rparr>)" "hub_ok (fst (aggregate_request command input ch h))"
proof -
  have bound: "length (slots h) \<le> maxChannels h" "length (viewers h) \<le> maxGatewayViewers"
    "length (enrollSlots h) \<le> maxEnrollSlots"
    using assms by (simp_all add: hub_ok_def)
  have e: "hub_ok (h\<lparr>enrollSlots := e\<rparr>)" if "length e \<le> maxEnrollSlots" for e
    by (rule hub_ok_same [OF assms]; use that bound in simp)
  have t: "hub_ok (h\<lparr>slots := t\<rparr>)" if "length t \<le> maxChannels h" for t
    by (rule hub_ok_same [OF assms]; use that bound in simp)
  have u: "hub_ok (h\<lparr>viewers := u\<rparr>)" if "length u \<le> maxGatewayViewers" for u
    by (rule hub_ok_same [OF assms]; use that bound in simp)
  have r: "hub_ok (h\<lparr>hRejected := r\<rparr>)" "hub_ok (h\<lparr>hEnrollRejected := r\<rparr>)" for r
    by (rule hub_ok_same [OF assms]; use bound in simp)+
  show "hub_ok (fst (enroll_slot c h))"
    unfolding enroll_slot_def using e r bound by (simp add: Suc_le_eq)
  show "hub_ok (fst (channel_open c kind h))"
    unfolding channel_open_def using assms t r bound by (simp add: Suc_le_eq)
  show "hub_ok (channel_done c h)"
    unfolding channel_done_def by (rule t [OF le_trans [OF length_remove1_le bound(1)]])
  show "hub_ok (h\<lparr>viewers := remove1 ch (viewers h)\<rparr>)"
    by (rule u [OF le_trans [OF length_remove1_le bound(2)]])
  have "hub_ok (h\<lparr>viewers := ch # viewers h\<rparr>)" if "\<not> maxGatewayViewers \<le> length (viewers h)"
    using bound that by (intro u) simp_all
  then show "hub_ok (fst (aggregate_request command input ch h))"
    using assms by (auto simp: aggregate_request_def aggregate_action_def Let_def split: sum.split prod.split)
qed

lemma execute_ok: "hub_ok h \<Longrightarrow> hub_ok (fst (execute command input c ch h))"
proof -
  assume ok: "hub_ok h"
  have "hub_ok (attach b ch h)" if "execute_target h c = Some b" for b
    using that ok attach_ok shared_pointer
    by (fastforce simp: execute_target_def split: option.splits if_splits)
  then show ?thesis using ok slots_ok(5) by (simp add: execute_def split: option.split)
qed

lemma open_ok:
  assumes "hub_ok h" and "b < nextBinding h"
  shows "hub_ok (fst (open_begin b h))" "hub_ok (open_done b h)"
    "hub_ok (updb b (\<lambda>x. x\<lparr>bUp := bUp x + n, bDown := bDown x + m\<rparr>) h)"
proof -
  have str: "\<forall>ch. (b, ch) \<in> set (streams h) \<longrightarrow> ch \<in> set (bActive (bindings h b))" using assms(1) by (auto simp: hub_ok_def)
  then have op: "hub_ok (updb b (\<lambda>x. x\<lparr>bOpening := v\<rparr>) h)" for v
    using assms(1) by (intro updb_ok) simp_all
  then show "hub_ok (fst (open_begin b h))" "hub_ok (open_done b h)"
    using assms(1) by (simp_all add: open_begin_def open_done_def)
  show "hub_ok (updb b (\<lambda>x. x\<lparr>bUp := bUp x + n, bDown := bDown x + m\<rparr>) h)"
    using assms(1) str by (intro updb_ok) simp_all
qed

lemma open_attach_ok: "hub_ok h \<Longrightarrow> (b, ch) \<notin> set (streams h) \<Longrightarrow> hub_ok (fst (open_attach b ch h))"
proof (cases "map_of (shares h) (shID (bShare (bindings h b))) = Some b")
  case True
  assume "hub_ok h" and "(b, ch) \<notin> set (streams h)"
  with shared_pointer [OF True] have "hub_ok ((attach b ch h)\<lparr>upstreams := upstreams h + 1, streams := (b, ch) # streams h\<rparr>)"
    by (intro stream_ok)
  with True show ?thesis by (simp add: open_attach_def)
qed (simp add: open_attach_def)

lemma api_attach_ok: "hub_ok h \<Longrightarrow> hub_ok (fst (api_attach i b ch remote h))"
proof (cases "map_of (shares h) i = Some b")
  case True
  assume ok: "hub_ok h"
  have b: "b \<in> set (vals (shares h))" using shared_pointer True by fast
  with ok have "hub_ok (attach b ch h)" by (rule attach_ok)
  moreover have "b \<in> set (vals (shares (attach b ch h)))" using b by (simp add: attach_def updb_fields)
  ultimately show ?thesis using True attach_ok by (simp add: api_attach_def)
qed (simp add: api_attach_def)

lemma hub_step_ok: "hub_step sha h h' \<Longrightarrow> hub_ok h \<Longrightarrow> hub_ok h'"
proof (induction rule: hub_step.induct)
  case (request c h payload saved nonce kind size') then show ?case using requests_ok by blast
next
  case (opened c h kind) then show ?case using slots_ok by blast
next
  case (connected b h ch) then show ?case using open_attach_ok by blast
next
  case (dialing b h) then show ?case using open_ok by blast
next
  case (moved b h n m) then show ?case using open_ok by blast
qed (simp_all add: accept_ok slots_ok hangup_ok release_ok execute_ok detach_ok open_ok stream_close_ok api_attach_ok)

lemma hub_reachable_ok: "hub_reachable sha h \<Longrightarrow> hub_ok h"
proof (induction rule: hub_reachable.induct)
  case (boot_h r connections channels)
  then show ?case by (simp add: hub_ok_def new_hub_def)
next
  case (step_h h h')
  then show ?case using hub_step_ok by blast
qed

section \<open>Properties\<close>

lemma live_ids: "hub_ok h \<Longrightarrow> map_of (shares h) i = Some b \<longleftrightarrow> (i, b) \<in> set (shares h)"
  by (simp add: hub_ok_def)

lemma listed_ids: "hub_ok h \<Longrightarrow>
    map (shID \<circ> (\<lambda>(i, b). bShare (bindings h b))) (filter P (shares h)) = map fst (filter P (shares h))"
  by (auto simp: hub_ok_def share_ok_def)

lemma visible_sorted:
  assumes "hub_ok h"
  shows "sorted (map shID (visible_shares h c))" "distinct (map shID (visible_shares h c))"
proof -
  let ?f = "filter (\<lambda>(i, b). foreign h c b) (shares h)"
  show "sorted (map shID (visible_shares h c))" by (simp add: visible_shares_def)
  have "mset (map shID (visible_shares h c)) = mset (map fst ?f)"
    unfolding visible_shares_def mset_map mset_sort unfolding mset_map [symmetric] map_map listed_ids [OF assms] ..
  moreover have "distinct (map fst ?f)" using assms by (simp add: hub_ok_def distinct_map_filter)
  ultimately show "distinct (map shID (visible_shares h c))" by (metis mset_eq_imp_distinct_iff)
qed

text \<open>
  C4. Isolation (\<open>execute\<close>, \<open>api\<close>): a connection is listed exactly the live sessions that other keys
  publish, once each and in order; and the stream or the API of a session is opened for it exactly
  when it is one of those, for the API also of the generation it names.
\<close>

theorem session_isolation:
  assumes "hub_reachable sha h"
  shows "set (visible_shares h c) = {bShare (bindings h b) |i b. (i, b) \<in> set (shares h) \<and> owner_of h b \<noteq> cOwner (peers h c)} \<and>
    sorted (map shID (visible_shares h c)) \<and> distinct (map shID (visible_shares h c)) \<and>
    (execute_target h c = Some b \<longleftrightarrow> (cUser (peers h c), b) \<in> set (shares h) \<and> owner_of h b \<noteq> cOwner (peers h c)) \<and>
    (api_target c n (Some r) h = Some b \<longleftrightarrow>
       cUser (peers h c) = ''hive'' \<and> n \<le> 4096 \<and> rGeneration r \<noteq> [] \<and> (rShare r, b) \<in> set (shares h) \<and>
       shAPI (bShare (bindings h b)) \<and> shGeneration (bShare (bindings h b)) = rGeneration r \<and>
       owner_of h b \<noteq> cOwner (peers h c))"
proof -
  have ok: "hub_ok h" using hub_reachable_ok [OF assms] .
  have "set (visible_shares h c) = {bShare (bindings h b) |i b. (i, b) \<in> set (shares h) \<and> owner_of h b \<noteq> cOwner (peers h c)}"
    by (force simp: visible_shares_def foreign_def owner_of_def)
  moreover have "execute_target h c = Some b \<longleftrightarrow> (cUser (peers h c), b) \<in> set (shares h) \<and> owner_of h b \<noteq> cOwner (peers h c)"
    unfolding live_ids [OF ok, symmetric] by (auto simp: execute_target_def foreign_def owner_of_def split: option.split)
  moreover have "api_target c n (Some r) h = Some b \<longleftrightarrow>
       cUser (peers h c) = ''hive'' \<and> n \<le> 4096 \<and> rGeneration r \<noteq> [] \<and> (rShare r, b) \<in> set (shares h) \<and>
       shAPI (bShare (bindings h b)) \<and> shGeneration (bShare (bindings h b)) = rGeneration r \<and>
       owner_of h b \<noteq> cOwner (peers h c)"
    unfolding live_ids [OF ok, symmetric] by (auto simp: api_target_def foreign_def owner_of_def split: option.split)
  ultimately show ?thesis using visible_sorted [OF ok] by simp
qed

text \<open>
  C31. Who publishes (\<open>publish\<close>): in every reachable state two live sessions of one key belong to one
  running connection, and the name a session is shown under tells its key: no other key's session has it.
\<close>

theorem one_publisher:
  assumes "hub_reachable sha h" and "(i, b) \<in> set (shares h)" and "(j, d) \<in> set (shares h)"
  shows "running (bConn (bindings h b)) h \<and>
    (owner_of h b = owner_of h d \<longleftrightarrow> bConn (bindings h b) = bConn (bindings h d)) \<and>
    (owner_of h b = owner_of h d \<longleftrightarrow> shName (bShare (bindings h b)) = shName (bShare (bindings h d)))"
proof -
  have ok: "hub_ok h" using hub_reachable_ok [OF assms(1)] .
  have b: "share_ok h (i, b)" and d: "share_ok h (j, d)" using ok assms(2,3) by (simp_all add: hub_ok_def)
  then have "(owner_of h b, bConn (bindings h b)) \<in> set (owners h)" by (simp add: share_ok_def map_of_SomeD)
  then have "running (bConn (bindings h b)) h" using ok by (auto simp: hub_ok_def)
  moreover have "owner_of h b = owner_of h d" if "shName (bShare (bindings h b)) = shName (bShare (bindings h d))"
    using that b d ok names.wf_unique [of "names h"] by (simp add: share_ok_def hub_ok_def)
  moreover have "owner_of h b = owner_of h d" if "bConn (bindings h b) = bConn (bindings h d)"
    using that by (simp add: owner_of_def)
  ultimately show ?thesis using b d by (auto simp: share_ok_def)
qed

text \<open>
  C32. Withdrawn sessions (\<open>unpublish\<close>, \<open>openGatewaySource\<close>, \<open>api\<close>): in every reachable state the
  channels attached to a session that is no longer published are all closed, and no new one can be
  attached to it, however the opening was under way.
\<close>

theorem withdrawn_is_closed:
  assumes "hub_reachable sha h" and "b < nextBinding h" and "map_of (shares h) (shID (bShare (bindings h b))) \<noteq> Some b"
  shows "set (bActive (bindings h b)) \<subseteq> set (closedCh h) \<and> fst (open_attach b ch h) = h \<and>
    fst (api_attach (shID (bShare (bindings h b))) b ch remote h) = h \<and>
    execute_target h c \<noteq> Some b"
proof -
  have ok: "hub_ok h" using hub_reachable_ok [OF assms(1)] .
  have out: "(i, b) \<notin> set (shares h)" for i
  proof
    assume i: "(i, b) \<in> set (shares h)"
    then have "share_ok h (i, b)" using ok by (simp add: hub_ok_def)
    then have "shID (bShare (bindings h b)) = i" by (simp add: share_ok_def)
    with i assms(3) live_ids [OF ok] show False by blast
  qed
  then have "b \<notin> set (vals (shares h))" by auto
  then have "set (bActive (bindings h b)) \<subseteq> set (closedCh h)" using ok assms(2) by (simp add: hub_ok_def)
  moreover have "execute_target h c \<noteq> Some b"
    using out live_ids [OF ok] by (auto simp: execute_target_def split: option.splits if_splits)
  ultimately show ?thesis using assms(3) by (simp add: open_attach_def api_attach_def)
qed

text \<open>
  Publishing is all or nothing (\<open>publish\<close>): when it succeeds every session of the publication is
  published by the connection, under its own identifier, one name and the generation, and the key's
  earlier connection was gone; when it fails no session, publisher or channel changes.
\<close>

theorem publish_atomic:
  assumes "hub_reachable sha h" and "running c h" and "fresh_ids sha c (Some p) h"
    and "publish_shares sha saved nonce c p h = (h', r)"
  shows "(case r of
      Inl e \<Rightarrow> shares h' = shares h \<and> owners h' = owners h \<and> bindings h' = bindings h \<and> closedCh h' = closedCh h
    | Inr out \<Rightarrow> map_of (owners h) (cOwner (peers h c)) = None \<and> map_of (owners h') (cOwner (peers h c)) = Some c \<and>
        map shKey out = map shKey (pShares p) \<and>
        list_all (\<lambda>v. \<exists>b. map_of (shares h') (shID v) = Some b \<and> bShare (bindings h' b) = v \<and> bConn (bindings h' b) = c \<and>
          bActive (bindings h' b) = [] \<and> owner_name (names h') (cOwner (peers h c)) = Some (shName v)) out)"
proof -
  let ?a = "cOwner (peers h c)"
  have ok: "hub_ok h" using hub_reachable_ok [OF assms(1)] .
  show ?thesis
  proof (cases r)
    case (Inl e)
    then have "shares h' = shares h \<and> owners h' = owners h \<and> bindings h' = bindings h \<and> closedCh h' = closedCh h"
      using assms(4) by (auto simp: publish_shares_def Let_def split: if_splits prod.splits sum.splits option.splits)
    with Inl show ?thesis by simp
  next
    case (Inr out)
    obtain nn rr n where v: "validLabel (pName p)" and free: "map_of (owners h) ?a = None"
      and named: "Name saved ?a (pName p) (names h) = (rr, Inr n)"
      and out: "out = map (published sha ?a n nn) (pShares p)"
      and h': "h' = (let h1 = foldl (\<lambda>h v. add_share c v h) (h\<lparr>names := rr\<rparr>) out
        in h1\<lparr>owners := put ?a c (owners h1)\<rparr>)"
      using assms(4) Inr by (auto simp: publish_shares_def Let_def split: if_splits prod.splits sum.splits option.splits)
    let ?h1 = "foldl (\<lambda>h v. add_share c v h) (h\<lparr>names := rr\<rparr>) out"
    have "n \<noteq> []" using Name_nonempty [OF named] v by (auto simp: validLabel_def)
    then have name: "owner_name rr ?a = Some n"
      using names.assign_named [OF _ named] ok by (simp add: hub_ok_def)
    have ids: "map shID out = map (\<lambda>v. share_id sha ?a (shKey v)) (pShares p)" "map shKey out = map shKey (pShares p)"
      by (simp_all add: out published_def)
    then have "distinct (map shID out)" using assms(3) by (simp add: fresh_ids_def Let_def)
    then have new: "\<forall>v \<in> set out. \<exists>b. map_of (shares ?h1) (shID v) = Some b \<and> bindings ?h1 b = new_binding c v"
      using add_shares_published [OF _ refl] by blast
    have "list_all (\<lambda>v. \<exists>b. map_of (shares h') (shID v) = Some b \<and> bShare (bindings h' b) = v \<and> bConn (bindings h' b) = c \<and>
          bActive (bindings h' b) = [] \<and> owner_name (names h') ?a = Some (shName v)) out"
      unfolding list_all_iff
    proof
      fix v assume m: "v \<in> set out"
      then obtain b where "map_of (shares ?h1) (shID v) = Some b" "bindings ?h1 b = new_binding c v" using new by blast
      moreover have "shName v = n" using m by (auto simp: out published_def)
      ultimately show "\<exists>b. map_of (shares h') (shID v) = Some b \<and> bShare (bindings h' b) = v \<and> bConn (bindings h' b) = c \<and>
          bActive (bindings h' b) = [] \<and> owner_name (names h') ?a = Some (shName v)"
        using name by (auto simp: h' Let_def new_binding_def add_shares_keep)
    qed
    moreover have "map_of (owners h') ?a = Some c" by (simp add: h' Let_def)
    ultimately show ?thesis using Inr free ids(2) by simp
  qed
qed

text \<open>
  Bounded service (\<open>Serve\<close>, \<open>aggregate\<close>, \<open>openGatewaySource\<close>): connections, channels, viewers and
  enrollments stay within their slots, the counter of upstreams is the number of open gateway streams,
  and a connection that finds no slot changes nothing but the counter of refusals.
\<close>

theorem service_bounded:
  assumes "hub_reachable sha h"
  shows "length (hconns h) \<le> maxConns h \<and> length (slots h) \<le> maxChannels h \<and> length (enrollSlots h) \<le> 4 \<and>
    oViewers (Snapshot h) \<le> 8 \<and> oUpstreams (Snapshot h) = int (length (streams h)) \<and>
    length (oShares (Snapshot h)) = length (shares h) \<and>
    (length (hconns h) = maxConns h \<longrightarrow> accept_conn c p h = h\<lparr>hRejected := hRejected h + 1\<rparr>)"
  using hub_reachable_ok [OF assms]
  by (simp add: hub_ok_def Snapshot_def accept_conn_def maxEnrollSlots_def maxGatewayViewers_def)

section \<open>A publisher and a viewer\<close>

definition sample_pub :: publication where
  "sample_pub = \<lparr>pVersion = 1, pName = ''desk'', pShares =
     [\<lparr>shKey = replicate 32 CHR ''a'', shLabel = ''work'', shID = [], shName = [], shAPI = True, shGeneration = []\<rparr>]\<rparr>"

lemma sample_checks: "validLabel (pName sample_pub)" "check_shares (pShares sample_pub) []" "length (pShares sample_pub) = 1"
  "share_id (\<lambda>x. x) ''A'' (replicate 32 CHR ''a'') = ''s-4100'' @ concat (replicate 10 ''61'')"
  "Name True ''A'' ''desk'' \<lparr>Names = [], disk = None\<rparr> = (\<lparr>Names = [(''A'', ''desk'')], disk = Some [(''A'', ''desk'')]\<rparr>, Inr ''desk'')"
  by code_simp+

definition sample_share :: share where
  "sample_share = \<lparr>shKey = replicate 32 CHR ''a'', shLabel = ''work'', shID = ''s-4100'' @ concat (replicate 10 ''61''),
     shName = ''desk'', shAPI = True, shGeneration = ''30''\<rparr>"

lemma sample_published: "map (published (\<lambda>x. x) ''A'' ''desk'' ''0'') (pShares sample_pub) = [sample_share]"
  by code_simp

definition hub_started :: hub where
  "hub_started = accept_conn 3 \<lparr>cUser = ''bee'', cOwner = ''A''\<rparr> (new_hub 64 16 \<lparr>Names = [], disk = None\<rparr>)"

lemma started_fields: "cUser (peers hub_started 3) = ''bee''" "cOwner (peers hub_started 3) = ''A''" "owners hub_started = []"
  "names hub_started = \<lparr>Names = [], disk = None\<rparr>" "shares hub_started = []" "nextBinding hub_started = 0"
  "hconns hub_started = [3]" "ended hub_started = []" "closedCh hub_started = []" "maxConns hub_started = 64"
  by (simp_all add: hub_started_def accept_conn_def new_hub_def)

lemma sample_fields: "pVersion sample_pub = 1" "pName sample_pub = ''desk''" "pShares sample_pub \<noteq> []"
  by (simp_all add: sample_pub_def)

definition hub_published :: "hub \<times> (publish_error + share list)" where
  "hub_published = publish_shares (\<lambda>x. x) True (Some ''0'') 3 sample_pub hub_started"

lemma published_eq: "hub_published = ((add_share 3 sample_share (hub_started\<lparr>names := \<lparr>Names = [(''A'', ''desk'')],
    disk = Some [(''A'', ''desk'')]\<rparr>\<rparr>))\<lparr>owners := [(''A'', 3)]\<rparr>, Inr [sample_share])"
  using sample_checks(1-3,5)
  by (simp add: hub_published_def publish_shares_def Let_def sample_published sample_fields started_fields add_share_fields)

lemma started_reachable: "hub_reachable (\<lambda>x. x) hub_started"
proof -
  have "hub_reachable (\<lambda>x. x) (new_hub 64 16 \<lparr>Names = [], disk = None\<rparr>)"
    by (rule boot_h) (simp add: unique_names_def owner_name_def)
  then show ?thesis unfolding hub_started_def
    by (rule step_h [OF _ accepted]) (simp add: fresh_conn_def new_hub_def)
qed

lemma sample_fresh: "running 3 hub_started" "fresh_ids (\<lambda>x. x) 3 (Some sample_pub) hub_started"
proof -
  show "running 3 hub_started" by (simp add: running_def started_fields)
  have "map (\<lambda>v. share_id (\<lambda>x. x) ''A'' (shKey v)) (pShares sample_pub) = [share_id (\<lambda>x. x) ''A'' (replicate 32 CHR ''a'')]"
    by (simp add: sample_pub_def)
  then show "fresh_ids (\<lambda>x. x) 3 (Some sample_pub) hub_started"
    by (simp only: fresh_ids_def started_fields option.inject Let_def) simp
qed

lemma published_reachable: "hub_reachable (\<lambda>x. x) (fst hub_published)"
proof -
  have "fst (requests (\<lambda>x. x) True (Some ''0'') 3 ''publish@herdr-hive/v1'' 0 (Some sample_pub) hub_started) = fst hub_published"
    by (simp add: requests_def started_fields published_eq [unfolded hub_published_def] hub_published_def)
  moreover have "hub_step (\<lambda>x. x) hub_started
      (fst (requests (\<lambda>x. x) True (Some ''0'') 3 ''publish@herdr-hive/v1'' 0 (Some sample_pub) hub_started))"
    using sample_fresh by (intro request) (simp_all add: started_fields)
  ultimately show ?thesis using step_h [OF started_reachable] by simp
qed

definition hub_viewed :: hub where
  "hub_viewed = accept_conn 4 \<lparr>cUser = ''hive'', cOwner = ''B''\<rparr> (fst hub_published)"

definition hub_left :: hub where
  "hub_left = hangup 3 hub_viewed"

lemma published_fields: "shares (fst hub_published) = [(shID sample_share, 0)]" "bindings (fst hub_published) 0 = new_binding 3 sample_share"
  "nextBinding (fst hub_published) = 1" "hconns (fst hub_published) = [3]" "ended (fst hub_published) = []"
  "maxConns (fst hub_published) = 64" "cOwner (peers (fst hub_published) 3) = ''A''" "owners (fst hub_published) = [(''A'', 3)]"
  by (simp_all add: published_eq add_share_def started_fields new_binding_def)

lemma viewed_fields: "shares hub_viewed = [(shID sample_share, 0)]" "bindings hub_viewed 0 = new_binding 3 sample_share"
  "nextBinding hub_viewed = 1" "hconns hub_viewed = [4, 3]" "ended hub_viewed = []" "maxConns hub_viewed = 64"
  "peers hub_viewed 4 = \<lparr>cUser = ''hive'', cOwner = ''B''\<rparr>" "cOwner (peers hub_viewed 3) = ''A''" "owners hub_viewed = [(''A'', 3)]"
  by (simp_all add: hub_viewed_def accept_conn_def published_fields)

lemma viewed_reachable: "hub_reachable (\<lambda>x. x) hub_viewed"
  unfolding hub_viewed_def
  by (rule step_h [OF published_reachable accepted]) (auto simp: fresh_conn_def published_fields new_binding_def)

lemma left_reachable: "hub_reachable (\<lambda>x. x) hub_left"
  unfolding hub_left_def
  by (rule step_h [OF viewed_reachable ending]) (simp add: running_def viewed_fields)

lemma session_isolation_witness: "set (visible_shares hub_viewed 4) = {sample_share} \<and> visible_shares hub_viewed 3 = []"
  using session_isolation [OF viewed_reachable, of 4] session_isolation [OF viewed_reachable, of 3]
  by (simp add: viewed_fields owner_of_def new_binding_def)

lemma one_publisher_witness: "running 3 hub_viewed \<and> shares hub_viewed = [(shID sample_share, 0)]"
  using one_publisher [OF viewed_reachable, of "shID sample_share" 0 "shID sample_share" 0]
  by (simp add: viewed_fields new_binding_def)

lemma withdrawn_is_closed_witness: "fst (open_attach 0 7 hub_left) = hub_left \<and> bShare (bindings hub_left 0) = sample_share"
proof -
  have f: "shares hub_left = []" "nextBinding hub_left = 1" "bindings hub_left 0 = new_binding 3 sample_share"
    by (simp_all add: hub_left_def hangup_def unpublish_def Let_def viewed_fields new_binding_def)
  show ?thesis using withdrawn_is_closed [OF left_reachable, of 0 7] f by (simp add: new_binding_def)
qed

lemma publish_atomic_witness: "\<exists>h'. publish_shares (\<lambda>x. x) True (Some ''0'') 3 sample_pub hub_started = (h', Inr [sample_share]) \<and>
    map_of (owners h') ''A'' = Some 3"
proof -
  have e: "publish_shares (\<lambda>x. x) True (Some ''0'') 3 sample_pub hub_started = (fst hub_published, Inr [sample_share])"
    using published_eq by (simp add: hub_published_def)
  show ?thesis using publish_atomic [OF started_reachable sample_fresh e] e by (simp add: started_fields)
qed

lemma service_bounded_witness: "length (hconns hub_viewed) \<le> maxConns hub_viewed \<and> oUpstreams (Snapshot hub_viewed) = int (length (streams hub_viewed))"
  using service_bounded [OF viewed_reachable] by simp

end
