(* ===== verification/Enrollment.thy ===== *)
theory Enrollment
  imports GoStrings
begin

text \<open>
  Enrollment (\<open>hive/internal/enrollment/enrollment.go\<close>): the administrator's tokens, the usage each
  token has had, and the keys registered with them, in three files that are replaced atomically.
  An \<open>outcome\<close> says how a replacement ends: \<open>Late\<close> is \<open>ErrCommitted\<close>, where the new contents are in
  place but the directory could not be synced; the process may also die right before or right after
  the new contents are in place, which is the error \<open>Dead\<close>, after which no code runs.
  Times are seconds and 0 is Go's zero time; an SSH key is its wire encoding (\<open>key.Marshal()\<close>).
  The two JSON files are the values they hold; how many bytes a value takes, SHA-256 and
  \<open>golang.org/x/crypto/ssh\<close> are the parameters \<open>elib\<close>.
\<close>

section \<open>Data\<close>

definition MaxFileBytes :: nat where "MaxFileBytes = 64 * 1024"
definition MaxTokens :: nat where "MaxTokens = 1024"
definition MaxKeys :: nat where "MaxKeys = 1024"
definition Prefix :: bytes where "Prefix = ''hreg-''"
definition SecretBytes :: nat where "SecretBytes = 32"

type_synonym pubkey = bytes

record token =
  tID :: bytes
  tSHA256 :: bytes
  tCreated :: nat
  tExpires :: "nat option"
  tMaxUses :: int
  tLabel :: bytes

record usage =
  uUses :: int
  uKeys :: "bytes list"

type_synonym uses = "(bytes, usage) gomap"

record authorized =
  akey :: pubkey
  acert :: bool
  aopts :: "bytes list"
  arest :: bytes

record elib =
  size_tokens :: "token list \<Rightarrow> nat"
  size_uses :: "uses \<Rightarrow> nat"
  parse_authorized :: "bytes \<Rightarrow> authorized option"
  marshal_authorized :: "pubkey \<Rightarrow> bytes"
  fingerprint :: "pubkey \<Rightarrow> bytes"
  sha :: "bytes \<Rightarrow> bytes"

datatype eerror = Msg bytes | IO | ErrCommitted | Dead
datatype outcome = Written | Late | Lost | DiesBefore | DiesAfter

section \<open>Secrets\<close>

definition Hash :: "elib \<Rightarrow> bytes \<Rightarrow> bytes" where
  "Hash L secret = hex (sha L secret)"

definition ValidateSecret :: "bytes \<Rightarrow> bool" where
  "ValidateSecret secret \<longleftrightarrow> has_prefix secret Prefix \<and> validHex (trim_prefix secret Prefix) SecretBytes"

text \<open>\<open>Generate\<close> with the random bytes \<open>b\<close> and the time \<open>now\<close>; \<open>ttl\<close> in seconds.\<close>

definition Generate :: "elib \<Rightarrow> bytes \<Rightarrow> nat \<Rightarrow> int \<Rightarrow> int \<Rightarrow> bytes \<Rightarrow> eerror + token \<times> bytes" where
  "Generate L b now ttl maxUses label =
     (if ttl < 0 \<or> maxUses < 0 \<or> length label > 128 \<or> has_control label then Inl (Msg ''invalid token options'')
      else
        (let secret = Prefix @ hex b in
         Inr (\<lparr>tID = ''t-'' @ take 16 (Hash L secret), tSHA256 = Hash L secret, tCreated = now,
               tExpires = (if ttl > 0 then Some (now + nat ttl) else None), tMaxUses = maxUses, tLabel = label\<rparr>,
              secret)))"

section \<open>Files\<close>

text \<open>\<open>read\<close>: a missing file is no contents where \<open>missing\<close> allows it.\<close>

definition read_file :: "('a \<Rightarrow> bool) \<Rightarrow> 'a stored \<Rightarrow> bool \<Rightarrow> eerror + 'a option" where
  "read_file large f missing =
     (case f of
        NoFile \<Rightarrow> if missing then Inr None else Inl IO
      | Unreadable \<Rightarrow> Inl IO
      | Contents b \<Rightarrow> if large b then Inl (Msg ''enrollment file exceeds 64 KiB'') else Inr (Some b))"

text \<open>\<open>atomicWrite\<close> of contents \<open>v\<close> that take \<open>n\<close> bytes.\<close>

definition atomicWrite :: "outcome \<Rightarrow> nat \<Rightarrow> 'a \<Rightarrow> 'a stored \<Rightarrow> 'a stored \<times> eerror option" where
  "atomicWrite o' n v f =
     (if n > MaxFileBytes then (f, Some (Msg ''enrollment file exceeds 64 KiB''))
      else case o' of
             Written \<Rightarrow> (Contents v, None)
           | Late \<Rightarrow> (Contents v, Some ErrCommitted)
           | Lost \<Rightarrow> (f, Some IO)
           | DiesBefore \<Rightarrow> (f, Some Dead)
           | DiesAfter \<Rightarrow> (Contents v, Some Dead))"

definition syncDirectory :: "outcome \<Rightarrow> eerror option" where
  "syncDirectory o' =
     (case o' of Written \<Rightarrow> None | Late \<Rightarrow> Some ErrCommitted | Lost \<Rightarrow> Some ErrCommitted | _ \<Rightarrow> Some Dead)"

section \<open>Tokens\<close>

definition valid_id :: "bytes \<Rightarrow> bool" where
  "valid_id i \<longleftrightarrow> has_prefix i ''t-'' \<and> validHex (trim_prefix i ''t-'') 8"

fun check_tokens :: "token list \<Rightarrow> bytes list \<Rightarrow> bytes list \<Rightarrow> bool" where
  "check_tokens [] ids hashes = True"
| "check_tokens (t # ts) ids hashes =
     (if \<not> valid_id (tID t) \<or> tID t \<in> set ids \<or> tSHA256 t \<in> set hashes \<or> \<not> validHex (tSHA256 t) 32 \<or>
         tCreated t = 0 \<or> tMaxUses t < 0 \<or> length (tLabel t) > 128 \<or> has_control (tLabel t)
      then False
      else check_tokens ts (tID t # ids) (tSHA256 t # hashes))"

definition validateTokens :: "token list \<Rightarrow> eerror option" where
  "validateTokens ts =
     (if length ts > MaxTokens then Some (Msg ''invalid token list'')
      else if check_tokens ts [] [] then None else Some (Msg ''invalid token record''))"

definition LoadTokens :: "token list doc stored \<Rightarrow> eerror + token list" where
  "LoadTokens f =
     (case read_file ((=) Oversized) f False of
        Inl e \<Rightarrow> Inl e
      | Inr (Some (Value ts)) \<Rightarrow> (case validateTokens ts of Some e \<Rightarrow> Inl e | None \<Rightarrow> Inr ts)
      | Inr (Some Null) \<Rightarrow> Inl (Msg ''invalid token list'')
      | Inr _ \<Rightarrow> Inl (Msg ''JSON''))"

definition SaveTokens :: "elib \<Rightarrow> outcome \<Rightarrow> token list \<Rightarrow> token list doc stored \<Rightarrow> token list doc stored \<times> eerror option" where
  "SaveTokens L o' ts f =
     (case validateTokens ts of
        Some e \<Rightarrow> (f, Some e)
      | None \<Rightarrow> atomicWrite o' (size_tokens L ts) (Value ts) f)"

section \<open>Usage\<close>

fun check_keys :: "bytes list \<Rightarrow> bytes list \<Rightarrow> bool" where
  "check_keys [] seen = True"
| "check_keys (k # ks) seen =
     (if \<not> has_prefix k ''SHA256:'' \<or> length k \<noteq> 50 \<or> k \<in> set seen then False else check_keys ks (k # seen))"

fun check_uses :: "uses \<Rightarrow> eerror option" where
  "check_uses [] = None"
| "check_uses ((i, v) # u) =
     (if \<not> valid_id i \<or> uUses v < 0 \<or> uUses v \<noteq> int (length (uKeys v)) then Some (Msg ''invalid usage record'')
      else if \<not> check_keys (uKeys v) [] then Some (Msg ''invalid usage key'')
      else check_uses u)"

definition total_keys :: "uses \<Rightarrow> nat" where
  "total_keys u = sum_list (map (length \<circ> uKeys \<circ> snd) u)"

definition LoadUses :: "uses doc stored \<Rightarrow> eerror + uses" where
  "LoadUses f =
     (case read_file ((=) Oversized) f True of
        Inl e \<Rightarrow> Inl e
      | Inr None \<Rightarrow> Inr []
      | Inr (Some (Value u)) \<Rightarrow>
          (if length u > MaxTokens then Inl (Msg ''invalid usage state'')
           else (case check_uses u of
                   Some e \<Rightarrow> Inl e
                 | None \<Rightarrow> if total_keys u > MaxKeys then Inl (Msg ''too many usage keys'') else Inr u))
      | Inr (Some Null) \<Rightarrow> Inl (Msg ''invalid usage state'')
      | Inr (Some _) \<Rightarrow> Inl (Msg ''JSON''))"

text \<open>\<open>u[id]\<close>: the zero \<open>Use\<close> when there is none.\<close>

definition use_of :: "uses \<Rightarrow> bytes \<Rightarrow> usage" where
  "use_of u i = (case map_of u i of None \<Rightarrow> \<lparr>uUses = 0, uKeys = []\<rparr> | Some v \<Rightarrow> v)"

definition save_uses :: "elib \<Rightarrow> outcome \<Rightarrow> uses \<Rightarrow> uses doc stored \<Rightarrow> uses doc stored \<times> eerror option" where
  "save_uses L o' u f = atomicWrite o' (size_uses L u) (Value u) f"

text \<open>The results are the file, whether a use was reserved by this call, and the error.\<close>

definition ReserveUse :: "elib \<Rightarrow> outcome \<Rightarrow> token \<Rightarrow> bytes \<Rightarrow> uses doc stored \<Rightarrow> uses doc stored \<times> bool \<times> eerror option" where
  "ReserveUse L o' t key f =
     (case LoadUses f of
        Inl e \<Rightarrow> (f, False, Some e)
      | Inr u \<Rightarrow>
          (let v = use_of u (tID t) in
           if key \<in> set (uKeys v) then (f, False, syncDirectory o')
           else if tMaxUses t > 0 \<and> uUses v \<ge> tMaxUses t then (f, False, Some (Msg ''token exhausted''))
           else if length u \<ge> MaxTokens \<and> uUses v = 0 then (f, False, Some (Msg ''usage limit''))
           else if total_keys u \<ge> MaxKeys then (f, False, Some (Msg ''usage key limit''))
           else
             (case save_uses L o' (put (tID t) \<lparr>uUses = uUses v + 1, uKeys = uKeys v @ [key]\<rparr> u) f of
                (f', e) \<Rightarrow> (f', True, e))))"

definition ReleaseUse :: "elib \<Rightarrow> outcome \<Rightarrow> bytes \<Rightarrow> bytes \<Rightarrow> uses doc stored \<Rightarrow> uses doc stored \<times> eerror option" where
  "ReleaseUse L o' i key f =
     (case LoadUses f of
        Inl e \<Rightarrow> (f, Some e)
      | Inr u \<Rightarrow>
          (let v = use_of u i;
               v' = (if key \<in> set (uKeys v) then \<lparr>uUses = uUses v - 1, uKeys = remove1 key (uKeys v)\<rparr> else v)
           in save_uses L o' (if uUses v' = 0 then del i u else put i v' u) f))"

section \<open>Registered keys\<close>

fun authorized_lines :: "elib \<Rightarrow> bytes list \<Rightarrow> pubkey list \<Rightarrow> eerror + pubkey list" where
  "authorized_lines L [] ks = Inr ks"
| "authorized_lines L (l # ls) ks =
     (let line = trim_space l in
      if line = [] \<or> hd line = CHR ''#'' then authorized_lines L ls ks
      else case parse_authorized L line of
             None \<Rightarrow> Inl (Msg ''invalid authorized keys file'')
           | Some a \<Rightarrow>
               if aopts a \<noteq> [] \<or> trim_space (arest a) \<noteq> [] then Inl (Msg ''invalid authorized keys file'')
               else if acert a then Inl (Msg ''certificates unsupported'')
               else if length ks + 1 > MaxKeys then Inl (Msg ''too many registered keys'')
               else authorized_lines L ls (ks @ [akey a]))"

definition too_large :: "bytes \<Rightarrow> bool" where
  "too_large b \<longleftrightarrow> length b > MaxFileBytes"

definition ReadAuthorizedKeys :: "elib \<Rightarrow> bytes stored \<Rightarrow> bool \<Rightarrow> eerror + pubkey list" where
  "ReadAuthorizedKeys L f missing =
     (case read_file too_large f missing of
        Inl e \<Rightarrow> Inl e
      | Inr b \<Rightarrow> authorized_lines L (split_on CHR 0x0A (case b of None \<Rightarrow> [] | Some b \<Rightarrow> b)) [])"

definition key_line :: "elib \<Rightarrow> bytes \<Rightarrow> pubkey \<Rightarrow> bytes \<Rightarrow> bytes" where
  "key_line L stamp key i =
     trim_space (marshal_authorized L key) @ '' enrolled='' @ stamp @ '' token='' @ i @ [CHR 0x0A]"

definition AppendAuthorizedKey :: "elib \<Rightarrow> outcome \<Rightarrow> bytes \<Rightarrow> pubkey \<Rightarrow> bytes \<Rightarrow> bytes stored \<Rightarrow> bytes stored \<times> eerror option" where
  "AppendAuthorizedKey L o' stamp key i f =
     (case ReadAuthorizedKeys L f True of
        Inl e \<Rightarrow> (f, Some e)
      | Inr ks \<Rightarrow>
          if key \<in> set ks then (f, None)
          else if length ks \<ge> MaxKeys then (f, Some (Msg ''registered key limit''))
          else
            (case read_file too_large f True of
               Inl e \<Rightarrow> (f, Some e)
             | Inr b0 \<Rightarrow>
                 (let b = (case b0 of None \<Rightarrow> [] | Some b \<Rightarrow> b);
                      b1 = (if b \<noteq> [] \<and> last b \<noteq> CHR 0x0A then b @ [CHR 0x0A] else b)
                  in atomicWrite o' (length (b1 @ key_line L stamp key i)) (b1 @ key_line L stamp key i) f)))"

section \<open>Valid usage\<close>

definition key_format :: "bytes \<Rightarrow> bool" where
  "key_format k \<longleftrightarrow> has_prefix k ''SHA256:'' \<and> length k = 50"

definition use_ok :: "usage \<Rightarrow> bool" where
  "use_ok v \<longleftrightarrow> uUses v = int (length (uKeys v)) \<and> distinct (uKeys v) \<and> (\<forall>k \<in> set (uKeys v). key_format k)"

definition uses_ok :: "uses \<Rightarrow> bool" where
  "uses_ok u \<longleftrightarrow> distinct (keys u) \<and> length u \<le> MaxTokens \<and> total_keys u \<le> MaxKeys \<and>
     (\<forall>(i, v) \<in> set u. valid_id i \<and> use_ok v)"

lemma check_keys_iff: "check_keys ks seen \<longleftrightarrow> distinct ks \<and> set ks \<inter> set seen = {} \<and> (\<forall>k \<in> set ks. key_format k)"
  by (induction ks arbitrary: seen) (auto simp: key_format_def)

lemma check_uses_iff: "check_uses u = None \<longleftrightarrow> (\<forall>(i, v) \<in> set u. valid_id i \<and> use_ok v)"
  by (induction u rule: check_uses.induct) (auto simp: check_keys_iff use_ok_def)

text \<open>The file holds a Go map, so its keys are distinct.\<close>

definition is_map :: "uses doc stored \<Rightarrow> bool" where
  "is_map f \<longleftrightarrow> (\<forall>u. f = Contents (Value u) \<longrightarrow> distinct (keys u))"

lemma LoadUses_ok: "LoadUses f = Inr u \<Longrightarrow> is_map f \<Longrightarrow> uses_ok u"
  by (auto simp: LoadUses_def read_file_def is_map_def uses_ok_def check_uses_iff total_keys_def
      split: stored.splits doc.splits if_splits option.splits)

lemma LoadUses_value: "uses_ok u \<Longrightarrow> LoadUses (Contents (Value u)) = Inr u"
  by (auto simp: LoadUses_def read_file_def uses_ok_def simp flip: check_uses_iff)

lemma is_map_value: "uses_ok u \<Longrightarrow> is_map (Contents (Value u))"
  by (simp add: is_map_def uses_ok_def)

lemma use_of_put [simp]: "use_of (put i v u) j = (if j = i then v else use_of u j)"
  by (simp add: use_of_def)

lemma use_of_del [simp]: "use_of (del i u) j = (if j = i then \<lparr>uUses = 0, uKeys = []\<rparr> else use_of u j)"
  by (simp add: use_of_def)

lemma use_of_ok: "uses_ok u \<Longrightarrow> use_ok (use_of u i)"
  by (force simp: use_of_def uses_ok_def use_ok_def split: option.split dest: map_of_SomeD)

lemma total_put: "distinct (keys u) \<Longrightarrow> total_keys (put i v u) + length (uKeys (use_of u i)) = total_keys u + length (uKeys v)"
  by (induction u) (auto simp: total_keys_def use_of_def map_of_eq_None_iff)

lemma total_del: "distinct (keys u) \<Longrightarrow> total_keys (del i u) + length (uKeys (use_of u i)) = total_keys u"
proof (induction u)
  case (Cons e u)
  have d: "del i (e # u) = (if fst e = i then del i u else e # del i u)"
    by (cases e) (simp add: AList.delete_eq)
  from Cons show ?case
    by (cases "fst e = i") (auto simp: d total_keys_def use_of_def del_id map_of_eq_None_iff)
qed (simp add: total_keys_def use_of_def)

lemma unused_iff: "uses_ok u \<Longrightarrow> uUses (use_of u i) \<noteq> 0 \<Longrightarrow> i \<in> set (keys u)"
  by (force simp: use_of_def split: option.splits dest: map_of_SomeD)

lemma uses_ok_put:
  assumes "uses_ok u" and "valid_id i" and "use_ok v" and "i \<in> set (keys u) \<or> length u < MaxTokens"
    and "total_keys u + length (uKeys v) \<le> MaxKeys + length (uKeys (use_of u i))"
  shows "uses_ok (put i v u)"
  using assms total_put [of u i v] by (auto simp: uses_ok_def length_put set_put)

lemma uses_ok_del: "uses_ok u \<Longrightarrow> uses_ok (del i u)"
  using total_del [of u i] length_del_le [of i u] by (auto simp: uses_ok_def set_del)

section \<open>Reserving and releasing\<close>

text \<open>What a replacement leaves in the file: the old contents, or the new.\<close>

lemma save_uses_cases:
  "save_uses L o' u f = (f', e) \<Longrightarrow>
     (f' = f \<and> e \<noteq> None \<and> e \<noteq> Some ErrCommitted) \<or> (f' = Contents (Value u) \<and> (e = None \<or> e = Some ErrCommitted \<or> e = Some Dead))"
  by (auto simp: save_uses_def atomicWrite_def split: if_splits outcome.splits)

lemma save_uses_file: "save_uses L o' u f = (f', e) \<Longrightarrow> (f' = f \<and> e \<noteq> None) \<or> f' = Contents (Value u)"
  by (auto dest: save_uses_cases)

text \<open>The use a reservation writes.\<close>

definition reserved_use :: "uses \<Rightarrow> bytes \<Rightarrow> bytes \<Rightarrow> usage" where
  "reserved_use u i key = \<lparr>uUses = uUses (use_of u i) + 1, uKeys = uKeys (use_of u i) @ [key]\<rparr>"

lemma ReserveUse_cases:
  assumes "LoadUses f = Inr u" and "is_map f" and "valid_id (tID t)" and "key_format key"
  obtains (known) "ReserveUse L o' t key f = (f, False, syncDirectory o')" "key \<in> set (uKeys (use_of u (tID t)))"
  | (refused) e where "ReserveUse L o' t key f = (f, False, Some e)" "e \<noteq> ErrCommitted" "e \<noteq> Dead"
  | (reserved) f' e where "ReserveUse L o' t key f = (f', True, e)" "key \<notin> set (uKeys (use_of u (tID t)))"
      "save_uses L o' (put (tID t) (reserved_use u (tID t) key) u) f = (f', e)"
      "tMaxUses t > 0 \<Longrightarrow> int (length (uKeys (use_of u (tID t)))) < tMaxUses t"
      "uses_ok (put (tID t) (reserved_use u (tID t) key) u)"
proof -
  let ?v = "use_of u (tID t)"
  have u: "uses_ok u" by (rule LoadUses_ok [OF assms(1,2)])
  have v: "use_ok ?v" by (rule use_of_ok [OF u])
  consider "key \<in> set (uKeys ?v)"
    | "key \<notin> set (uKeys ?v)" "tMaxUses t > 0 \<and> uUses ?v \<ge> tMaxUses t \<or> length u \<ge> MaxTokens \<and> uUses ?v = 0 \<or> total_keys u \<ge> MaxKeys"
    | "key \<notin> set (uKeys ?v)" "\<not> (tMaxUses t > 0 \<and> uUses ?v \<ge> tMaxUses t \<or> length u \<ge> MaxTokens \<and> uUses ?v = 0 \<or> total_keys u \<ge> MaxKeys)"
    by blast
  then show thesis
  proof cases
    case 1
    then show ?thesis using assms(1) by (intro known) (simp_all add: ReserveUse_def Let_def)
  next
    case 2
    then have "\<exists>m. ReserveUse L o' t key f = (f, False, Some (Msg m))"
      using assms(1) by (elim disjE) (simp_all add: ReserveUse_def Let_def)
    then show ?thesis by (blast intro: refused)
  next
    case 3
    obtain f' e where s: "save_uses L o' (put (tID t) (reserved_use u (tID t) key) u) f = (f', e)" by fastforce
    have "uses_ok (put (tID t) (reserved_use u (tID t) key) u)"
      using 3 u v assms(3,4) unused_iff [OF u, of "tID t"]
      by (intro uses_ok_put) (auto simp: reserved_use_def use_ok_def)
    with 3 s v show ?thesis
      using assms(1)
      by (intro reserved [of f' e]) (simp_all add: ReserveUse_def Let_def reserved_use_def use_ok_def not_le)
  qed
qed

definition released :: "uses \<Rightarrow> bytes \<Rightarrow> bytes \<Rightarrow> uses" where
  "released u i key =
     (let v = use_of u i;
          v' = (if key \<in> set (uKeys v) then \<lparr>uUses = uUses v - 1, uKeys = remove1 key (uKeys v)\<rparr> else v)
      in if uUses v' = 0 then del i u else put i v' u)"

lemma ReleaseUse_save: "LoadUses f = Inr u \<Longrightarrow> ReleaseUse L o' i key f = save_uses L o' (released u i key) f"
  by (simp add: ReleaseUse_def released_def Let_def)

lemma use_of_released:
  assumes "uses_ok u"
  shows "uKeys (use_of (released u i key) j) = (if j = i then remove1 key (uKeys (use_of u i)) else uKeys (use_of u j))"
proof -
  have "uUses v' = 0 \<longleftrightarrow> uKeys v' = []" if "use_ok v'" for v' using that by (simp add: use_ok_def)
  moreover have "use_ok \<lparr>uUses = uUses (use_of u i) - 1, uKeys = remove1 key (uKeys (use_of u i))\<rparr>"
    if "key \<in> set (uKeys (use_of u i))"
    using use_of_ok [OF assms, of i] that by (auto simp: use_ok_def length_remove1 dest: notin_set_remove1)
      (metis Suc_pred length_pos_if_in_set of_nat_Suc diff_add_cancel add_diff_cancel_right' add.commute)
  ultimately show ?thesis
    using use_of_ok [OF assms, of i] by (auto simp: released_def Let_def remove1_idem)
qed

lemma uses_ok_released: "uses_ok u \<Longrightarrow> uses_ok (released u i key)"
proof -
  assume u: "uses_ok u"
  let ?v = "use_of u i"
  note v = use_of_ok [OF u, of i]
  have w: "use_ok (\<lparr>uUses = uUses ?v - 1, uKeys = remove1 key (uKeys ?v)\<rparr>)" if "key \<in> set (uKeys ?v)"
    using v that length_pos_if_in_set [OF that]
    by (auto simp: use_ok_def length_remove1 of_nat_diff Suc_le_eq dest: notin_set_remove1)
  have i: "i \<in> set (keys u) \<and> valid_id i" if "uKeys ?v \<noteq> []"
    using u that by (force simp: use_of_def uses_ok_def split: option.splits dest: map_of_SomeD)
  have "uses_ok (put i v' u)" if "use_ok v'" "length (uKeys v') \<le> length (uKeys ?v)" "uUses v' \<noteq> 0" for v'
  proof -
    have "uKeys ?v \<noteq> []" using that by (auto simp: use_ok_def)
    with i that u show ?thesis by (intro uses_ok_put) (auto simp: uses_ok_def)
  qed
  then show ?thesis
    using w v by (auto simp: released_def Let_def length_remove1 intro: uses_ok_del [OF u])
qed

section \<open>Registering a key\<close>

text \<open>What the ssh package does with the keys of \<open>K\<close>: the marshalled line has no newline, and it is
  parsed back, without options, when a comment follows it. Fingerprints are those of OpenSSH.\<close>

definition ssh_ok :: "elib \<Rightarrow> pubkey set \<Rightarrow> bool" where
  "ssh_ok L K \<longleftrightarrow> (\<forall>k \<in> K. let m = trim_space (marshal_authorized L k) in
     m \<noteq> [] \<and> CHR 0x0A \<notin> set m \<and> 48 \<le> (of_char (hd m) :: nat) \<and> of_char (hd m) < (128 :: nat) \<and>
     (\<forall>c. CHR 0x0A \<notin> set c \<longrightarrow>
        parse_authorized L (m @ CHR '' '' # c) = Some \<lparr>akey = k, acert = False, aopts = [], arest = []\<rparr>) \<and>
     key_format (fingerprint L k) \<and> (\<forall>k' \<in> K. fingerprint L k' = fingerprint L k \<longrightarrow> k' = k))"

lemma split_on_append_general: "split_on c (xs @ c # ys) = split_on c xs @ split_on c ys"
proof (induction xs)
  case (Cons x xs)
  obtain f fs where "split_on c xs = f # fs" by (cases "split_on c xs") auto
  with Cons show ?case by auto
qed simp

lemma authorized_append: "authorized_lines L (xs @ ys) ks =
    (case authorized_lines L xs ks of Inl e \<Rightarrow> Inl e | Inr ks' \<Rightarrow> authorized_lines L ys ks')"
  by (induction L xs ks rule: authorized_lines.induct) (auto simp: Let_def split: option.split)

lemma hex_range: "c \<in> set (hex b) \<Longrightarrow> 48 \<le> (of_char c :: nat) \<and> of_char c < (128 :: nat)"
proof -
  have d: "48 \<le> (of_char (hex_digit n) :: nat) \<and> of_char (hex_digit n) < (128 :: nat)" if "n < 16" for n
    using that by auto
  have "of_char x div 16 < (16::nat)" for x :: char
    using less_mult_imp_div_less [of "of_char x" 16 16] by simp
  then show "c \<in> set (hex b) \<Longrightarrow> ?thesis"
    by (auto simp: hex_def simp del: hex_digit.simps intro: d [THEN conjunct1] d [THEN conjunct2])
qed

lemma valid_id_range: "valid_id i \<Longrightarrow> i \<noteq> [] \<and> 48 \<le> (of_char (last i) :: nat) \<and> of_char (last i) < (128 :: nat) \<and>
    CHR 0x0A \<notin> set i"
proof -
  assume "valid_id i"
  then obtain b where i: "i = ''t-'' @ hex b" and b: "length b = 8"
    using trim_prefix_append [of "''t-''"] by (auto simp: valid_id_def validHex_iff has_prefix_iff)
  then have "hex b \<noteq> []" by (cases b) (simp_all add: hex_def)
  then have "last i \<in> set (hex b)" by (simp add: i)
  moreover have "CHR 0x0A \<notin> set (hex b)" using hex_range by fastforce
  ultimately show ?thesis using hex_range by (simp add: i)
qed

lemma key_line_parts:
  assumes "ssh_ok L K" and "k \<in> K" and "valid_id i" and "CHR 0x0A \<notin> set stamp"
  obtains l where "key_line L stamp k i = l @ [CHR 0x0A]" "CHR 0x0A \<notin> set l" "trim_space l = l" "l \<noteq> []" "hd l \<noteq> CHR ''#''"
    "parse_authorized L l = Some \<lparr>akey = k, acert = False, aopts = [], arest = []\<rparr>"
proof -
  let ?m = "trim_space (marshal_authorized L k)" and ?c = "''enrolled='' @ stamp @ '' token='' @ i"
  let ?l = "?m @ CHR '' '' # ?c"
  from assms(1,2) have m: "?m \<noteq> []" "CHR 0x0A \<notin> set ?m" "48 \<le> (of_char (hd ?m) :: nat)" "of_char (hd ?m) < (128 :: nat)"
    and p: "CHR 0x0A \<notin> set ?c \<Longrightarrow> parse_authorized L ?l = Some \<lparr>akey = k, acert = False, aopts = [], arest = []\<rparr>"
    by (auto simp: ssh_ok_def Let_def)
  note i = valid_id_range [OF assms(3)]
  have c: "CHR 0x0A \<notin> set ?c" using assms(4) i by auto
  show thesis
  proof
    show "key_line L stamp k i = ?l @ [CHR 0x0A]" by (simp add: key_line_def)
    show "CHR 0x0A \<notin> set ?l" using m(2) c by auto
    show "trim_space ?l = ?l" using m i by (intro trim_space_ascii) simp_all
    show "?l \<noteq> []" by simp
    show "hd ?l \<noteq> CHR ''#''" using m by auto
    show "parse_authorized L ?l = Some \<lparr>akey = k, acert = False, aopts = [], arest = []\<rparr>" by (rule p [OF c])
  qed
qed

lemma append_registers:
  assumes "ssh_ok L K" and "k \<in> K" and "valid_id i" and "CHR 0x0A \<notin> set stamp"
    and r: "ReadAuthorizedKeys L f True = Inr ks" and a: "AppendAuthorizedKey L o' stamp k i f = (f', e)"
  shows "(f' = f \<and> e \<noteq> Some ErrCommitted \<and> (e = None \<longrightarrow> k \<in> set ks)) \<or>
    (k \<notin> set ks \<and> ReadAuthorizedKeys L f' True = Inr (ks @ [k]) \<and> (e = None \<or> e = Some ErrCommitted \<or> e = Some Dead))"
proof (cases "k \<in> set ks \<or> length ks \<ge> MaxKeys")
  case True
  then show ?thesis
    by (rule disjE) (use a r in \<open>auto simp: AppendAuthorizedKey_def split: if_splits\<close>)
next
  case False
  obtain b0 where b0: "read_file too_large f True = Inr b0"
    using r by (auto simp: ReadAuthorizedKeys_def split: sum.splits)
  define b where "b = (case b0 of None \<Rightarrow> [] | Some b \<Rightarrow> b)"
  define b1 where "b1 = (if b \<noteq> [] \<and> last b \<noteq> CHR 0x0A then b @ [CHR 0x0A] else b)"
  obtain l where l: "key_line L stamp k i = l @ [CHR 0x0A]" "CHR 0x0A \<notin> set l" "trim_space l = l" "l \<noteq> []" "hd l \<noteq> CHR ''#''"
    "parse_authorized L l = Some \<lparr>akey = k, acert = False, aopts = [], arest = []\<rparr>"
    by (rule key_line_parts [OF assms(1-4)])
  have ks: "authorized_lines L (split_on CHR 0x0A b) [] = Inr ks"
    using r b0 by (simp add: ReadAuthorizedKeys_def b_def)
  have empty: "authorized_lines L [[]] x = Inr x" for x by (simp add: trim_space_def)
  have one: "authorized_lines L [l, []] x = Inr (x @ [k])" if "length x < MaxKeys" for x
    using l that by (simp add: Let_def trim_space_def [of "[]"])
  have sl: "split_on CHR 0x0A (l @ [CHR 0x0A]) = [l, []]"
    using split_on_append_general [of "CHR 0x0A" l "[]"] l(2) by (simp add: split_on_single)
  have new: "authorized_lines L (split_on CHR 0x0A (b1 @ l @ [CHR 0x0A])) [] = Inr (ks @ [k])"
  proof (cases "b = []")
    case True
    then show ?thesis using ks one [of "[]"] False empty by (simp add: b1_def sl del: authorized_lines.simps)
  next
    case ne: False
    then obtain b' where b': "b1 = b' @ [CHR 0x0A]" "b = b' \<or> b = b' @ [CHR 0x0A]"
      by (cases "last b = CHR 0x0A") (auto simp: b1_def dest: append_butlast_last_id [symmetric])
    have "authorized_lines L (split_on CHR 0x0A b') [] = Inr ks"
      using b'(2) ks split_on_append_general [of "CHR 0x0A" b' "[]"] empty
      by (auto simp: authorized_append simp del: authorized_lines.simps split: sum.splits)
    then show ?thesis
      using split_on_append_general [of "CHR 0x0A" b' "l @ [CHR 0x0A]"] one [of ks] False
      by (simp add: b'(1) authorized_append sl del: authorized_lines.simps)
  qed
  have w: "atomicWrite o' (length (b1 @ l @ [CHR 0x0A])) (b1 @ l @ [CHR 0x0A]) f = (f', e)"
  proof -
    have "(k \<in> set ks) = False" "(MaxKeys \<le> length ks) = False" using False by simp_all
    then show ?thesis
      using a unfolding AppendAuthorizedKey_def Let_def l(1)
      by (simp only: r b0 sum.case if_False b_def [symmetric] b1_def [symmetric])
  qed
  have "ReadAuthorizedKeys L (Contents (b1 @ l @ [CHR 0x0A])) True = Inr (ks @ [k])"
    if "length (b1 @ l @ [CHR 0x0A]) \<le> MaxFileBytes"
    using that new by (simp add: ReadAuthorizedKeys_def read_file_def too_large_def)
  with w False show ?thesis
    by (auto simp: atomicWrite_def split: if_splits outcome.splits)
qed

end
