(* ===== verification/Enroll.thy ===== *)
theory Enroll
  imports Enrollment
begin

text \<open>
  Enrolling a device (\<open>hive/internal/server/enroll.go\<close>) and administering tokens
  (\<open>hive/cmd/hive/enroll.go\<close>). A use of the token is reserved on disk before the key is registered,
  and the reservation is released only when the key certainly was not written, so that no crash and
  no failed write leaves a registered key no token counts. \<open>os n\<close> is the outcome of the \<open>n\<close>th write.
\<close>

section \<open>Operations\<close>

record estate =
  tokensF :: "token list doc stored"
  usesF :: "uses doc stored"
  keysF :: "bytes stored"

definition rejected :: eerror where
  "rejected = Msg ''enrollment rejected''"

text \<open>The key types of \<open>enrollAuth\<close>.\<close>

definition enrollAuth :: "bool \<Rightarrow> bytes \<Rightarrow> bool" where
  "enrollAuth enabled kind \<longleftrightarrow> enabled \<and> kind \<in> {''ssh-ed25519'', ''ssh-rsa'', ''ecdsa-sha2-nistp256'',
     ''ecdsa-sha2-nistp384'', ''ecdsa-sha2-nistp521''}"

text \<open>Reserving, registering and, where that is safe, releasing.\<close>

definition grant :: "(outcome \<Rightarrow> 's \<Rightarrow> 's \<times> bool \<times> eerror option) \<Rightarrow> (outcome \<Rightarrow> 's \<Rightarrow> 's \<times> eerror option) \<Rightarrow>
    (outcome \<Rightarrow> 's \<Rightarrow> 's \<times> eerror option) \<Rightarrow> (nat \<Rightarrow> outcome) \<Rightarrow> 's \<Rightarrow> 's \<times> eerror option" where
  "grant reserve register release os s =
     (case reserve (os 0) s of
        (s1, _, Some e) \<Rightarrow> (s1, Some e)
      | (s1, reserved, None) \<Rightarrow>
          (case register (os (Suc 0)) s1 of
             (s2, None) \<Rightarrow> (s2, None)
           | (s2, Some e) \<Rightarrow>
               if e = Dead then (s2, Some Dead)
               else if reserved \<and> e \<noteq> ErrCommitted
               then (case release (os 2) s2 of (s3, e3) \<Rightarrow> (s3, Some (if e3 = Some Dead then Dead else e)))
               else (s2, Some e)))"

definition reserve_op :: "elib \<Rightarrow> token \<Rightarrow> pubkey \<Rightarrow> outcome \<Rightarrow> estate \<Rightarrow> estate \<times> bool \<times> eerror option" where
  "reserve_op L t k o' s = (case ReserveUse L o' t (fingerprint L k) (usesF s) of (f, r, e) \<Rightarrow> (s\<lparr>usesF := f\<rparr>, r, e))"

definition append_op :: "elib \<Rightarrow> bytes \<Rightarrow> token \<Rightarrow> pubkey \<Rightarrow> outcome \<Rightarrow> estate \<Rightarrow> estate \<times> eerror option" where
  "append_op L stamp t k o' s =
     (case AppendAuthorizedKey L o' stamp k (tID t) (keysF s) of (f, e) \<Rightarrow> (s\<lparr>keysF := f\<rparr>, e))"

definition release_op :: "elib \<Rightarrow> token \<Rightarrow> pubkey \<Rightarrow> outcome \<Rightarrow> estate \<Rightarrow> estate \<times> eerror option" where
  "release_op L t k o' s =
     (case ReleaseUse L o' (tID t) (fingerprint L k) (usesF s) of (f, e) \<Rightarrow> (s\<lparr>usesF := f\<rparr>, e))"

text \<open>The last token with the hash: the loop does not stop at the first.\<close>

definition find_token :: "elib \<Rightarrow> bytes \<Rightarrow> token list \<Rightarrow> token option" where
  "find_token L secret ts = List.find (\<lambda>t. tSHA256 t = Hash L secret) (rev ts)"

definition expired :: "nat \<Rightarrow> token \<Rightarrow> bool" where
  "expired now t = (case tExpires t of None \<Rightarrow> False | Some x \<Rightarrow> \<not> now < x)"

text \<open>\<open>key\<close> is \<open>None\<close> when the key of the connection does not decode; every failure is the same
  rejection for the device, except the death of the process.\<close>

definition enroll :: "elib \<Rightarrow> (nat \<Rightarrow> outcome) \<Rightarrow> bool \<Rightarrow> nat \<Rightarrow> bytes \<Rightarrow> bytes \<Rightarrow> pubkey option \<Rightarrow> estate \<Rightarrow>
    estate \<times> (eerror + bytes)" where
  "enroll L os enabled now stamp secret key s =
     (if \<not> enabled \<or> \<not> ValidateSecret secret then (s, Inl rejected)
      else case LoadTokens (tokensF s) of
        Inl _ \<Rightarrow> (s, Inl rejected)
      | Inr ts \<Rightarrow>
          (case find_token L secret ts of
             None \<Rightarrow> (s, Inl rejected)
           | Some t \<Rightarrow>
               if expired now t then (s, Inl rejected)
               else case key of
                 None \<Rightarrow> (s, Inl rejected)
               | Some k \<Rightarrow>
                   (case (ReadAuthorizedKeys L (keysF s) True, LoadUses (usesF s)) of
                      (Inl _, _) \<Rightarrow> (s, Inl rejected)
                    | (_, Inl _) \<Rightarrow> (s, Inl rejected)
                    | (Inr registered, Inr _) \<Rightarrow>
                        if k \<in> set registered then (s, Inr (fingerprint L k))
                        else
                          (case grant (reserve_op L t k) (append_op L stamp t k) (release_op L t k) os s of
                             (s', None) \<Rightarrow> (s', Inr (fingerprint L k))
                           | (s', Some e) \<Rightarrow> (s', Inl (if e = Dead then Dead else rejected))))))"

text \<open>One enrollment request per connection: the reply, and which counter it advances. \<open>payload\<close> is
  what the JSON decodes to.\<close>

datatype reply = Accepted bytes | Refused

definition enrollmentRequests :: "elib \<Rightarrow> (nat \<Rightarrow> outcome) \<Rightarrow> bool \<Rightarrow> nat \<Rightarrow> bytes \<Rightarrow> pubkey option \<Rightarrow>
    bytes \<Rightarrow> bool \<Rightarrow> nat \<Rightarrow> (int \<times> bytes) option \<Rightarrow> estate \<Rightarrow> estate \<times> reply option" where
  "enrollmentRequests L os enabled now stamp key kind wantReply size' payload s =
     (if kind \<noteq> ''enroll@herdr-hive/v1'' \<or> \<not> wantReply \<or> size' > 64 * 1024 then (s, Some Refused)
      else case payload of
        None \<Rightarrow> (s, Some Refused)
      | Some (version, secret) \<Rightarrow>
          if version \<noteq> 1 then (s, Some Refused)
          else (case enroll L os enabled now stamp secret key s of
                  (s', Inr fp) \<Rightarrow> (s', Some (Accepted fp))
                | (s', Inl Dead) \<Rightarrow> (s', None)
                | (s', Inl _) \<Rightarrow> (s', Some Refused)))"

text \<open>The administrator's commands, under a lock: \<open>issue\<close> and \<open>revoke\<close>.\<close>

definition issue :: "elib \<Rightarrow> outcome \<Rightarrow> bytes \<Rightarrow> nat \<Rightarrow> int \<Rightarrow> int \<Rightarrow> bytes \<Rightarrow> token list doc stored \<Rightarrow>
    token list doc stored \<times> (eerror + token \<times> bytes)" where
  "issue L o' b now ttl maxUses label f =
     (case (if f = NoFile then Inr [] else LoadTokens f) of
        Inl e \<Rightarrow> (f, Inl e)
      | Inr ts \<Rightarrow>
          (case Generate L b now ttl maxUses label of
             Inl e \<Rightarrow> (f, Inl e)
           | Inr (t, secret) \<Rightarrow>
               (case SaveTokens L o' (ts @ [t]) f of
                  (f', Some e) \<Rightarrow> (f', Inl e)
                | (f', None) \<Rightarrow> (f', Inr (t, secret)))))"

fun without :: "bytes \<Rightarrow> token list \<Rightarrow> token list option" where
  "without i [] = None"
| "without i (t # ts) = (if tID t = i then Some ts else map_option ((#) t) (without i ts))"

definition revoke :: "elib \<Rightarrow> outcome \<Rightarrow> bytes \<Rightarrow> token list doc stored \<Rightarrow> token list doc stored \<times> eerror option" where
  "revoke L o' i f =
     (case LoadTokens f of
        Inl e \<Rightarrow> (f, Some e)
      | Inr ts \<Rightarrow>
          (case without i ts of
             None \<Rightarrow> (f, Some (Msg ''token not found''))
           | Some ts' \<Rightarrow> SaveTokens L o' ts' f))"

section \<open>The contract of the ledger\<close>

text \<open>What \<open>grant\<close> relies on, for one key: reserving counts the key before it reports success and
  forgets no other; appending registers it or reports that it did not, and \<open>ErrCommitted\<close> and death
  may hide a registration; releasing does not touch the registered keys.\<close>

locale ledger =
  fixes reserve :: "outcome \<Rightarrow> 's \<Rightarrow> 's \<times> bool \<times> eerror option"
    and register :: "outcome \<Rightarrow> 's \<Rightarrow> 's \<times> eerror option"
    and release :: "outcome \<Rightarrow> 's \<Rightarrow> 's \<times> eerror option"
    and ok :: "'s \<Rightarrow> bool" and counted :: "'s \<Rightarrow> bool" and registered :: "'s \<Rightarrow> bool"
    and frame :: "'s \<Rightarrow> 's \<Rightarrow> bool"
  assumes reserve_law: "ok s \<Longrightarrow> reserve o' s = (s1, r, e) \<Longrightarrow>
      ok s1 \<and> frame s s1 \<and> (registered s1 \<longleftrightarrow> registered s) \<and> (counted s \<longrightarrow> counted s1) \<and> (e = None \<longrightarrow> counted s1)"
    and append_law: "ok s \<Longrightarrow> register o' s = (s1, e) \<Longrightarrow>
      ok s1 \<and> frame s s1 \<and> (counted s1 \<longleftrightarrow> counted s) \<and> (e = None \<longrightarrow> registered s1) \<and>
      (registered s1 \<longrightarrow> registered s \<or> e = None \<or> e = Some ErrCommitted \<or> e = Some Dead)"
    and release_law: "ok s \<Longrightarrow> release o' s = (s1, e) \<Longrightarrow>
      ok s1 \<and> frame s s1 \<and> (registered s1 \<longleftrightarrow> registered s)"
    and frame_trans: "frame a b \<Longrightarrow> frame b c \<Longrightarrow> frame a c"
begin

lemma grant_counted:
  assumes "ok s" and "\<not> registered s" and "grant reserve register release os s = (s', e)"
  shows "ok s' \<and> frame s s' \<and> (registered s' \<longrightarrow> counted s') \<and> (e = None \<longrightarrow> registered s')"
proof -
  obtain s1 r e1 where 1: "reserve (os 0) s = (s1, r, e1)" by (cases "reserve (os 0) s") auto
  note R = reserve_law [OF assms(1) 1]
  show ?thesis
  proof (cases e1)
    case (Some x)
    with 1 assms R show ?thesis by (auto simp: grant_def)
  next
    case None
    obtain s2 e2 where 2: "register (os (Suc 0)) s1 = (s2, e2)" by fastforce
    note A = append_law [OF conjunct1 [OF R] 2]
    obtain s3 e3 where 3: "release (os 2) s2 = (s3, e3)" by fastforce
    note Q = release_law [OF conjunct1 [OF A] 3]
    from None assms R A Q frame_trans [of s s1 s2] frame_trans [of s s2 s3] show ?thesis
      by (auto simp: grant_def 1 2 3 split: if_splits option.splits)
  qed
qed

end

section \<open>The enrollment files keep it\<close>

definition the_uses :: "estate \<Rightarrow> uses" where
  "the_uses s = (case LoadUses (usesF s) of Inr u \<Rightarrow> u | Inl _ \<Rightarrow> [])"

definition the_keys :: "elib \<Rightarrow> estate \<Rightarrow> pubkey list" where
  "the_keys L s = (case ReadAuthorizedKeys L (keysF s) True of Inr ks \<Rightarrow> ks | Inl _ \<Rightarrow> [])"

definition spent :: "estate \<Rightarrow> bytes \<Rightarrow> bytes list" where
  "spent s i = uKeys (use_of (the_uses s) i)"

text \<open>Both files can be read.\<close>

definition readable :: "elib \<Rightarrow> estate \<Rightarrow> bool" where
  "readable L s \<longleftrightarrow> is_map (usesF s) \<and> LoadUses (usesF s) = Inr (the_uses s) \<and>
     ReadAuthorizedKeys L (keysF s) True = Inr (the_keys L s)"

definition same_but :: "elib \<Rightarrow> token \<Rightarrow> pubkey \<Rightarrow> estate \<Rightarrow> estate \<Rightarrow> bool" where
  "same_but L t k s s' \<longleftrightarrow> tokensF s' = tokensF s \<and> set (the_keys L s') - {k} = set (the_keys L s) - {k} \<and>
     (\<forall>i. i \<noteq> tID t \<longrightarrow> spent s' i = spent s i) \<and>
     set (spent s' (tID t)) - {fingerprint L k} = set (spent s (tID t)) - {fingerprint L k} \<and>
     (tMaxUses t > 0 \<and> int (length (spent s (tID t))) \<le> tMaxUses t \<longrightarrow> int (length (spent s' (tID t))) \<le> tMaxUses t)"

definition ledger_ok :: "elib \<Rightarrow> pubkey set \<Rightarrow> bytes \<Rightarrow> token \<Rightarrow> pubkey \<Rightarrow> estate \<Rightarrow> bool" where
  "ledger_ok L K stamp t k s \<longleftrightarrow> ssh_ok L K \<and> k \<in> K \<and> valid_id (tID t) \<and> CHR 0x0A \<notin> set stamp \<and> readable L s"

definition counted_at :: "elib \<Rightarrow> token \<Rightarrow> pubkey \<Rightarrow> estate \<Rightarrow> bool" where
  "counted_at L t k s \<longleftrightarrow> fingerprint L k \<in> set (spent s (tID t))"

lemma readable_uses: "is_map f \<Longrightarrow> LoadUses f = Inr u \<Longrightarrow> readable L s \<Longrightarrow>
    readable L (s\<lparr>usesF := f\<rparr>) \<and> the_uses (s\<lparr>usesF := f\<rparr>) = u \<and> the_keys L (s\<lparr>usesF := f\<rparr>) = the_keys L s"
  by (simp add: readable_def the_uses_def the_keys_def)

lemma readable_keys: "ReadAuthorizedKeys L f True = Inr ks \<Longrightarrow> readable L s \<Longrightarrow>
    readable L (s\<lparr>keysF := f\<rparr>) \<and> the_uses (s\<lparr>keysF := f\<rparr>) = the_uses s \<and> the_keys L (s\<lparr>keysF := f\<rparr>) = ks"
  by (simp add: readable_def the_uses_def the_keys_def)

lemma readable_ok: "readable L s \<Longrightarrow> uses_ok (the_uses s)"
  using LoadUses_ok by (auto simp: readable_def)

lemma keyed_format: "ssh_ok L K \<Longrightarrow> k \<in> K \<Longrightarrow> key_format (fingerprint L k)"
  by (simp add: ssh_ok_def Let_def)

lemma reserve_keeps:
  assumes "ledger_ok L K stamp t k s" and "reserve_op L t k o' s = (s1, r, e)"
  shows "ledger_ok L K stamp t k s1 \<and> same_but L t k s s1 \<and> keysF s1 = keysF s \<and>
    (counted_at L t k s \<longrightarrow> counted_at L t k s1) \<and> (e = None \<longrightarrow> counted_at L t k s1)"
proof -
  let ?u = "the_uses s" and ?fp = "fingerprint L k"
  from assms(1) have a: "ssh_ok L K" "k \<in> K" "valid_id (tID t)" and r: "readable L s"
    by (auto simp: ledger_ok_def)
  then have l: "LoadUses (usesF s) = Inr ?u" "is_map (usesF s)" by (auto simp: readable_def)
  obtain f where f: "ReserveUse L o' t ?fp (usesF s) = (f, r, e)" "s1 = s\<lparr>usesF := f\<rparr>"
    using assms(2) by (auto simp: reserve_op_def split: prod.splits)
  have same: ?thesis if "f = usesF s" "e = None \<longrightarrow> counted_at L t k s"
    using that assms(1) f(2) by (simp add: same_but_def)
  show ?thesis
  proof (cases rule: ReserveUse_cases [OF l a(3) keyed_format [OF a(1,2)], of L o', case_names known refused reserved])
    case known
    with f same show ?thesis by (auto simp: counted_at_def spent_def)
  next
    case (refused x)
    with f same show ?thesis by auto
  next
    case (reserved f' e')
    let ?u' = "put (tID t) (reserved_use ?u (tID t) ?fp) ?u"
    from reserved(1) f have e: "f' = f" "e' = e" by auto
    from save_uses_file [OF reserved(3)] show ?thesis
    proof (elim disjE conjE)
      assume "f' = usesF s" "e' \<noteq> None"
      with e same show ?thesis by auto
    next
      assume n: "f' = Contents (Value ?u')"
      note R = readable_uses [OF is_map_value [OF reserved(5)] LoadUses_value [OF reserved(5)] r]
      then have sp: "spent s1 i = (if i = tID t then spent s i @ [?fp] else spent s i)" for i
        using f n e by (simp add: spent_def reserved_use_def)
      have "tMaxUses t > 0 \<Longrightarrow> int (length (spent s (tID t))) < tMaxUses t"
        using reserved(4) by (simp add: spent_def)
      moreover have "readable L s1" "the_keys L s1 = the_keys L s" "tokensF s1 = tokensF s" "keysF s1 = keysF s"
        using R n f e by simp_all
      ultimately show ?thesis
        using assms(1) by (auto simp: ledger_ok_def same_but_def counted_at_def sp)
    qed
  qed
qed

lemma register_keeps:
  assumes "ledger_ok L K stamp t k s" and "append_op L stamp t k o' s = (s1, e)"
  shows "ledger_ok L K stamp t k s1 \<and> same_but L t k s s1 \<and> usesF s1 = usesF s \<and>
    (e = None \<longrightarrow> k \<in> set (the_keys L s1)) \<and>
    (k \<in> set (the_keys L s1) \<longrightarrow> k \<in> set (the_keys L s) \<or> e = None \<or> e = Some ErrCommitted \<or> e = Some Dead)"
proof -
  from assms(1) have a: "ssh_ok L K" "k \<in> K" "valid_id (tID t)" "CHR 0x0A \<notin> set stamp" and r: "readable L s"
    by (auto simp: ledger_ok_def)
  obtain f where f: "AppendAuthorizedKey L o' stamp k (tID t) (keysF s) = (f, e)" "s1 = s\<lparr>keysF := f\<rparr>"
    using assms(2) by (auto simp: append_op_def split: prod.splits)
  have l: "ReadAuthorizedKeys L (keysF s) True = Inr (the_keys L s)" using r by (simp add: readable_def)
  from append_registers [OF a l f(1)] show ?thesis
  proof (elim disjE conjE)
    assume "f = keysF s" "e = None \<longrightarrow> k \<in> set (the_keys L s)"
    then show ?thesis using assms(1) f(2) by (simp add: same_but_def)
  qed (use readable_keys [OF _ r] assms(1) f(2) in \<open>auto simp: ledger_ok_def same_but_def spent_def\<close>)
qed

lemma release_keeps:
  assumes "ledger_ok L K stamp t k s" and "release_op L t k o' s = (s1, e)"
  shows "ledger_ok L K stamp t k s1 \<and> same_but L t k s s1 \<and> keysF s1 = keysF s"
proof -
  let ?u = "the_uses s" and ?fp = "fingerprint L k"
  from assms(1) have r: "readable L s" by (simp add: ledger_ok_def)
  note u = readable_ok [OF r]
  obtain f where f: "ReleaseUse L o' (tID t) ?fp (usesF s) = (f, e)" "s1 = s\<lparr>usesF := f\<rparr>"
    using assms(2) by (auto simp: release_op_def split: prod.splits)
  have "save_uses L o' (released ?u (tID t) ?fp) (usesF s) = (f, e)"
    using f(1) ReleaseUse_save [of "usesF s" ?u] r by (simp add: readable_def)
  from save_uses_file [OF this] show ?thesis
  proof (elim disjE conjE)
    assume "f = usesF s"
    then show ?thesis using assms(1) f(2) by (simp add: same_but_def)
  next
    assume n: "f = Contents (Value (released ?u (tID t) ?fp))"
    note R = readable_uses [OF is_map_value [OF uses_ok_released [OF u]] LoadUses_value [OF uses_ok_released [OF u]] r]
    have sp: "spent s1 i = (if i = tID t then remove1 ?fp (spent s i) else spent s i)" for i
      using R f n use_of_released [OF u, of "tID t" ?fp i] by (auto simp: spent_def)
    have d: "distinct (spent s (tID t))" using use_of_ok [OF u] by (simp add: use_ok_def spent_def)
    have "length (spent s1 (tID t)) \<le> length (spent s (tID t))" by (simp add: sp length_remove1)
    moreover have "readable L s1" "the_keys L s1 = the_keys L s" "tokensF s1 = tokensF s" "keysF s1 = keysF s"
      using R n f by simp_all
    ultimately show ?thesis
      using assms(1) d by (auto simp: ledger_ok_def same_but_def sp)
  qed
qed

interpretation files: ledger "reserve_op L t k" "append_op L stamp t k" "release_op L t k"
    "ledger_ok L K stamp t k" "counted_at L t k" "\<lambda>s. k \<in> set (the_keys L s)" "same_but L t k"
  for L K stamp t k
proof
  fix o' s s1 r e
  show "ledger_ok L K stamp t k s1 \<and> same_but L t k s s1 \<and> (k \<in> set (the_keys L s1) \<longleftrightarrow> k \<in> set (the_keys L s)) \<and>
      (counted_at L t k s \<longrightarrow> counted_at L t k s1) \<and> (e = None \<longrightarrow> counted_at L t k s1)"
    if "ledger_ok L K stamp t k s" "reserve_op L t k o' s = (s1, r, e)"
    using reserve_keeps [OF that] by (simp add: the_keys_def)
  show "ledger_ok L K stamp t k s1 \<and> same_but L t k s s1 \<and> (counted_at L t k s1 \<longleftrightarrow> counted_at L t k s) \<and>
      (e = None \<longrightarrow> k \<in> set (the_keys L s1)) \<and>
      (k \<in> set (the_keys L s1) \<longrightarrow> k \<in> set (the_keys L s) \<or> e = None \<or> e = Some ErrCommitted \<or> e = Some Dead)"
    if "ledger_ok L K stamp t k s" "append_op L stamp t k o' s = (s1, e)"
    using register_keeps [OF that] by (simp add: counted_at_def spent_def the_uses_def)
  show "ledger_ok L K stamp t k s1 \<and> same_but L t k s s1 \<and> (k \<in> set (the_keys L s1) \<longleftrightarrow> k \<in> set (the_keys L s))"
    if "ledger_ok L K stamp t k s" "release_op L t k o' s = (s1, e)"
    using release_keeps [OF that] by (simp add: the_keys_def)
qed (auto simp: same_but_def)

section \<open>Tokens\<close>

lemma check_tokens_iff: "check_tokens ts ids hashes \<longleftrightarrow>
    distinct (map tID ts) \<and> distinct (map tSHA256 ts) \<and> tID ` set ts \<inter> set ids = {} \<and> tSHA256 ` set ts \<inter> set hashes = {} \<and>
    (\<forall>t \<in> set ts. valid_id (tID t) \<and> validHex (tSHA256 t) 32 \<and> tCreated t \<noteq> 0 \<and> tMaxUses t \<ge> 0 \<and>
       length (tLabel t) \<le> 128 \<and> \<not> has_control (tLabel t))"
  by (induction ts arbitrary: ids hashes) auto

lemma LoadTokens_valid: "LoadTokens f = Inr ts \<Longrightarrow> f = Contents (Value ts) \<and> validateTokens ts = None"
  by (auto simp: LoadTokens_def read_file_def split: stored.splits doc.splits option.splits if_splits)

lemma LoadTokens_value: "validateTokens ts = None \<Longrightarrow> LoadTokens (Contents (Value ts)) = Inr ts"
  by (simp add: LoadTokens_def read_file_def)

lemma tokens_distinct: "LoadTokens f = Inr ts \<Longrightarrow> distinct (map tID ts) \<and> (\<forall>t \<in> set ts. valid_id (tID t))"
  by (auto simp: validateTokens_def check_tokens_iff dest!: LoadTokens_valid split: if_splits)

lemma SaveTokens_cases: "SaveTokens L o' ts f = (f', e) \<Longrightarrow>
    f' = f \<or> f' = Contents (Value ts) \<and> validateTokens ts = None"
  by (auto simp: SaveTokens_def atomicWrite_def split: option.splits if_splits outcome.splits)

lemma without_set: "without i ts = Some ts' \<Longrightarrow> set ts' \<subseteq> set ts \<and> (\<forall>t \<in> set ts. tID t \<noteq> i \<longrightarrow> t \<in> set ts')"
  by (induction i ts arbitrary: ts' rule: without.induct) (auto split: if_splits)

section \<open>Enrolling\<close>

text \<open>Every call either changes nothing or is a grant for a token in the file.\<close>

lemma enroll_cases:
  assumes "enroll L os enabled now stamp secret key s = (s', r)"
  obtains (refused) "s' = s" "r = Inl rejected"
  | (known) k where "s' = s" "key = Some k" "r = Inr (fingerprint L k)" "k \<in> set (the_keys L s)"
      "ValidateSecret secret" "enabled"
  | (granted) ts t k e where "LoadTokens (tokensF s) = Inr ts" "t \<in> set ts" "tSHA256 t = Hash L secret"
      "\<not> expired now t" "key = Some k" "k \<notin> set (the_keys L s)" "ValidateSecret secret" "enabled"
      "grant (reserve_op L t k) (append_op L stamp t k) (release_op L t k) os s = (s', e)"
      "r = (case e of None \<Rightarrow> Inr (fingerprint L k) | Some e \<Rightarrow> Inl (if e = Dead then Dead else rejected))"
proof -
  have f: "t \<in> set ts \<and> tSHA256 t = Hash L secret" if "find_token L secret ts = Some t" for ts t
    using that by (auto simp: find_token_def find_Some_iff) (metis nth_mem length_rev set_rev)
  have "(s' = s \<and> r = Inl rejected) \<or>
      (\<exists>k. s' = s \<and> key = Some k \<and> r = Inr (fingerprint L k) \<and> k \<in> set (the_keys L s) \<and> ValidateSecret secret \<and> enabled) \<or>
      (\<exists>ts t k e. LoadTokens (tokensF s) = Inr ts \<and> find_token L secret ts = Some t \<and> \<not> expired now t \<and> key = Some k \<and>
         k \<notin> set (the_keys L s) \<and> ValidateSecret secret \<and> enabled \<and>
         grant (reserve_op L t k) (append_op L stamp t k) (release_op L t k) os s = (s', e) \<and>
         r = (case e of None \<Rightarrow> Inr (fingerprint L k) | Some e \<Rightarrow> Inl (if e = Dead then Dead else rejected)))"
    using assms by (auto simp: enroll_def the_keys_def split: if_splits sum.splits option.splits prod.splits)
  then show thesis
    using refused known granted f by blast
qed

definition enrolled_state :: "elib \<Rightarrow> pubkey set \<Rightarrow> pubkey set \<Rightarrow> estate \<Rightarrow> bool" where
  "enrolled_state L K K0 s \<longleftrightarrow> ssh_ok L K \<and> readable L s \<and>
     (\<forall>k \<in> set (the_keys L s) - K0. k \<in> K \<and> (\<exists>i. fingerprint L k \<in> set (spent s i))) \<and>
     (\<forall>ts. LoadTokens (tokensF s) = Inr ts \<longrightarrow>
        (\<forall>t \<in> set ts. tMaxUses t > 0 \<longrightarrow> int (length (spent s (tID t))) \<le> tMaxUses t))"

lemma enrolled_grant:
  assumes s: "enrolled_state L K K0 s" and k: "k \<in> K" "k \<notin> set (the_keys L s)" and st: "CHR 0x0A \<notin> set stamp"
    and ts: "LoadTokens (tokensF s) = Inr ts" "t \<in> set ts"
    and g: "grant (reserve_op L t k) (append_op L stamp t k) (release_op L t k) os s = (s', e)"
  shows "enrolled_state L K K0 s' \<and> (e = None \<longrightarrow> k \<in> set (the_keys L s')) \<and>
    (k \<in> set (the_keys L s') \<longrightarrow> fingerprint L k \<in> set (spent s' (tID t)))"
proof -
  have ok: "ledger_ok L K stamp t k s"
    using s k st ts tokens_distinct by (simp add: ledger_ok_def enrolled_state_def)
  note G = files.grant_counted [OF ok k(2) g]
  then have b: "same_but L t k s s'" and r: "readable L s'" and S: "ssh_ok L K"
    by (simp_all add: ledger_ok_def)
  have c: "k \<in> set (the_keys L s') \<longrightarrow> fingerprint L k \<in> set (spent s' (tID t))"
    using G by (simp add: counted_at_def)
  have others: "k' \<in> K \<and> (\<exists>i. fingerprint L k' \<in> set (spent s' i))" if "k' \<in> set (the_keys L s') - K0" for k'
  proof (cases "k' = k")
    case True
    with that c k(1) show ?thesis by blast
  next
    case False
    then have "k' \<in> set (the_keys L s) - K0" using that b by (auto simp: same_but_def)
    then obtain i where i: "k' \<in> K" "fingerprint L k' \<in> set (spent s i)"
      using s unfolding enrolled_state_def by blast
    have "fingerprint L k' \<noteq> fingerprint L k" using S i(1) k(1) False by (auto simp: ssh_ok_def Let_def)
    then have "fingerprint L k' \<in> set (spent s' i)"
      using i(2) b by (cases "i = tID t") (auto simp: same_but_def)
    with i(1) show ?thesis by blast
  qed
  have "int (length (spent s' (tID t'))) \<le> tMaxUses t'"
    if "LoadTokens (tokensF s') = Inr ts'" "t' \<in> set ts'" "tMaxUses t' > 0" for ts' t'
  proof -
    have m: "t' \<in> set ts" using that(1,2) ts(1) b by (simp add: same_but_def)
    then have l: "int (length (spent s (tID t'))) \<le> tMaxUses t'"
      using s ts(1) that(3) by (simp add: enrolled_state_def)
    show ?thesis
    proof (cases "tID t' = tID t")
      case True
      then have "t' = t" using tokens_distinct [OF ts(1)] m ts(2) by (metis distinct_map inj_onD)
      with l that(3) b show ?thesis by (simp add: same_but_def)
    next
      case False
      with l b show ?thesis by (simp add: same_but_def)
    qed
  qed
  with r S others G c show ?thesis by (simp add: enrolled_state_def)
qed

lemma enrolled_enroll:
  "enrolled_state L K K0 s \<Longrightarrow> (\<And>k. key = Some k \<Longrightarrow> k \<in> K) \<Longrightarrow> CHR 0x0A \<notin> set stamp \<Longrightarrow>
     enroll L os enabled now stamp secret key s = (s', r) \<Longrightarrow> enrolled_state L K K0 s'"
  by (erule enroll_cases) (auto dest: enrolled_grant)

lemma enroll_registers:
  assumes "enrolled_state L K K0 s" and "k \<in> K" and "CHR 0x0A \<notin> set stamp"
    and "enroll L os enabled now stamp secret (Some k) s = (s', Inr fp)"
  shows "fp = fingerprint L k \<and> k \<in> set (the_keys L s')"
proof (cases rule: enroll_cases [OF assms(4), case_names refused known granted])
  case (granted ts t k' e)
  with enrolled_grant [OF assms(1,2) _ assms(3) granted(1,2)] show ?thesis
    by (auto split: option.splits if_splits)
qed (use assms in \<open>auto simp: rejected_def\<close>)

text \<open>Histories: devices enroll, with any outcome of every write and a crash at any of them, and the
  administrator issues tokens whose identifier was never used, and revokes tokens.\<close>

inductive estep :: "elib \<Rightarrow> pubkey set \<Rightarrow> estate \<Rightarrow> estate \<Rightarrow> bool" for L :: elib and K :: "pubkey set" where
  enrolls: "(\<forall>k. key = Some k \<longrightarrow> k \<in> K) \<Longrightarrow> CHR 0x0A \<notin> set stamp \<Longrightarrow>
      estep L K s (fst (enroll L os enabled now stamp secret key s))"
| issues: "spent s (''t-'' @ take 16 (Hash L (Prefix @ hex b))) = [] \<Longrightarrow>
      estep L K s (s\<lparr>tokensF := fst (issue L o' b now ttl maxUses label (tokensF s))\<rparr>)"
| revokes: "estep L K s (s\<lparr>tokensF := fst (revoke L o' i (tokensF s))\<rparr>)"

inductive ehistory :: "elib \<Rightarrow> pubkey set \<Rightarrow> estate \<Rightarrow> estate \<Rightarrow> bool" for L :: elib and K :: "pubkey set" and s :: estate where
  begin_h: "ehistory L K s s"
| more_h: "ehistory L K s s' \<Longrightarrow> estep L K s' s'' \<Longrightarrow> ehistory L K s s''"

lemma spent_tokens [simp]: "spent (s\<lparr>tokensF := f\<rparr>) i = spent s i" "the_keys L (s\<lparr>tokensF := f\<rparr>) = the_keys L s"
  "readable L (s\<lparr>tokensF := f\<rparr>) = readable L s"
  by (simp_all add: spent_def the_uses_def the_keys_def readable_def)

lemma enrolled_tokens:
  assumes "enrolled_state L K K0 s"
    and "\<And>ts t. LoadTokens f = Inr ts \<Longrightarrow> t \<in> set ts \<Longrightarrow> spent s (tID t) = [] \<or> (\<exists>ts. LoadTokens (tokensF s) = Inr ts \<and> t \<in> set ts)"
  shows "enrolled_state L K K0 (s\<lparr>tokensF := f\<rparr>)"
proof -
  have "int (length (spent s (tID t))) \<le> tMaxUses t"
    if "LoadTokens f = Inr ts" "t \<in> set ts" "0 < tMaxUses t" for ts t
    using assms(2) [OF that(1,2)] assms(1) that(3) by (auto simp: enrolled_state_def)
  with assms(1) show ?thesis by (simp add: enrolled_state_def)
qed

lemma enrolled_step: "estep L K s s' \<Longrightarrow> enrolled_state L K K0 s \<Longrightarrow> enrolled_state L K K0 s'"
proof (induction rule: estep.induct)
  case (enrolls key stamp s os enabled now secret)
  then show ?case
    using enrolled_enroll [of L K K0 s key stamp os enabled now secret] by (metis prod.collapse)
next
  case (issues s b o' now ttl maxUses label)
  obtain f r where i: "issue L o' b now ttl maxUses label (tokensF s) = (f, r)" by fastforce
  show ?case
  proof (rule enrolled_tokens [OF issues.prems])
    fix ts t
    assume t: "LoadTokens (fst (issue L o' b now ttl maxUses label (tokensF s))) = Inr ts" "t \<in> set ts"
    consider "f = tokensF s"
      | old new where "f = Contents (Value (old @ [new]))" "validateTokens (old @ [new]) = None"
          "old = [] \<or> LoadTokens (tokensF s) = Inr old" "tID new = ''t-'' @ take 16 (Hash L (Prefix @ hex b))"
      using i by (auto simp: issue_def Generate_def Let_def split: if_splits sum.splits prod.splits option.splits
          dest: SaveTokens_cases)
    then show "spent s (tID t) = [] \<or> (\<exists>ts. LoadTokens (tokensF s) = Inr ts \<and> t \<in> set ts)"
    proof cases
      case 2
      then have "ts = old @ [new]" using t i LoadTokens_value by auto
      with t(2) 2 issues.hyps show ?thesis by auto
    qed (use t i in auto)
  qed
next
  case (revokes s o' i)
  obtain f e where r: "revoke L o' i (tokensF s) = (f, e)" by fastforce
  show ?case
  proof (rule enrolled_tokens [OF revokes.prems])
    fix ts t
    assume t: "LoadTokens (fst (revoke L o' i (tokensF s))) = Inr ts" "t \<in> set ts"
    consider "f = tokensF s" | old new where "LoadTokens (tokensF s) = Inr old" "without i old = Some new"
        "f = Contents (Value new)" "validateTokens new = None"
      using r by (auto simp: revoke_def split: sum.splits option.splits dest: SaveTokens_cases)
    then show "spent s (tID t) = [] \<or> (\<exists>ts. LoadTokens (tokensF s) = Inr ts \<and> t \<in> set ts)"
    proof cases
      case 2
      then have "ts = new" using t r LoadTokens_value by auto
      with t(2) 2 without_set show ?thesis by blast
    qed (use t r in auto)
  qed
qed

section \<open>Properties\<close>

lemma enrolled_history: "ehistory L K s0 s \<Longrightarrow> enrolled_state L K K0 s0 \<Longrightarrow> enrolled_state L K K0 s"
  by (induction rule: ehistory.induct) (auto intro: enrolled_step)

text \<open>
  C5. No uncounted key (\<open>enroll\<close>): whatever writes fail or are only committed, and wherever the
  process dies, every key in the registered file is one of the administrator's own or is counted
  against a token; and no token that is still issued has admitted more devices than it allows.
\<close>

theorem registered_keys_counted:
  assumes "enrolled_state L K K0 s0" and "ehistory L K s0 s"
  shows "(\<forall>k \<in> set (the_keys L s). k \<in> K0 \<or> (\<exists>i. fingerprint L k \<in> set (spent s i))) \<and>
    (\<forall>ts t. LoadTokens (tokensF s) = Inr ts \<and> t \<in> set ts \<and> tMaxUses t > 0 \<longrightarrow>
       int (length (spent s (tID t))) \<le> tMaxUses t)"
  using enrolled_history [OF assms(2,1)] unfolding enrolled_state_def by blast

text \<open>
  Who is admitted (\<open>enroll\<close>): a device is told its fingerprint only when enrollment is enabled, its
  secret is well formed and its key is in the registered file afterwards; and unless the key was
  registered before, an issued and unexpired token has the hash of the secret and counts the key.
\<close>

theorem enroll_admits:
  assumes "enrolled_state L K K0 s" and "k \<in> K" and "CHR 0x0A \<notin> set stamp"
    and "enroll L os enabled now stamp secret (Some k) s = (s', Inr fp)"
  shows "enabled \<and> ValidateSecret secret \<and> fp = fingerprint L k \<and> k \<in> set (the_keys L s') \<and>
    (k \<in> set (the_keys L s) \<or>
     (\<exists>ts t. LoadTokens (tokensF s) = Inr ts \<and> t \<in> set ts \<and> tSHA256 t = Hash L secret \<and> \<not> expired now t \<and>
        fp \<in> set (spent s' (tID t))))"
proof (cases rule: enroll_cases [OF assms(4), case_names refused known granted])
  case (granted ts t k' e)
  with enrolled_grant [OF assms(1,2) _ assms(3) granted(1,2)] show ?thesis
    by (auto split: option.splits if_splits)
qed (use assms in \<open>auto simp: rejected_def\<close>)

text \<open>
  Generated tokens work (\<open>Generate\<close>): the secret has the right form, the token has its hash, is not
  expired when issued with a lifetime, and passes the validation of the token file.
\<close>

theorem generated_token:
  assumes "Generate L b now ttl maxUses label = Inr (t, secret)" and "length b = 32" and "now > 0"
    and "\<And>x. length (sha L x) = 32"
  shows "ValidateSecret secret \<and> find_token L secret [t] = Some t \<and> \<not> expired now t \<and> validateTokens [t] = None \<and>
    tMaxUses t = maxUses \<and> (ttl > 0 \<longrightarrow> expired (now + nat ttl) t)"
proof -
  from assms(1) have v: "ttl \<ge> 0" "maxUses \<ge> 0" "length label \<le> 128" "\<not> has_control label"
    and s: "secret = Prefix @ hex b" and t: "tID t = ''t-'' @ take 16 (Hash L secret)" "tSHA256 t = Hash L secret"
      "tCreated t = now" "tExpires t = (if ttl > 0 then Some (now + nat ttl) else None)" "tMaxUses t = maxUses"
      "tLabel t = label"
    by (auto simp: Generate_def Let_def split: if_splits)
  have h: "hex (take 8 (sha L secret)) = take 16 (Hash L secret)"
    using hex_take [of 8 "sha L secret"] by (simp add: Hash_def)
  have "validHex (take 16 (Hash L secret)) 8"
    unfolding h [symmetric] using validHex_hex [of "take 8 (sha L secret)"] assms(4) [of secret] by simp
  then have "valid_id (tID t)" using trim_prefix_append [of "''t-''"] by (simp add: valid_id_def t has_prefix_def)
  moreover have "validHex (Hash L secret) 32"
    using validHex_hex [of "sha L secret"] assms(4) by (simp add: Hash_def)
  ultimately have "validateTokens [t] = None"
    using v t assms(3) by (simp add: validateTokens_def MaxTokens_def)
  moreover have "ValidateSecret secret"
    using validHex_hex [of b] assms(2) by (simp add: ValidateSecret_def s SecretBytes_def)
  ultimately show ?thesis
    using t assms(3) v by (auto simp: find_token_def expired_def)
qed

text \<open>
  Reserving and releasing (\<open>ReserveUse\<close>, \<open>ReleaseUse\<close>): a released reservation leaves every token
  with the keys it had; a successful reservation counts the key and respects the token's limit; and a
  key that is already reserved is not counted again, even when the token is exhausted.
\<close>

theorem reserve_release:
  assumes "LoadUses f = Inr u" and "is_map f" and "valid_id (tID t)" and "key_format key"
    and "ReserveUse L o1 t key f = (f1, reserved, None)"
  shows "\<exists>u1. LoadUses f1 = Inr u1 \<and> key \<in> set (uKeys (use_of u1 (tID t))) \<and>
    (reserved \<longleftrightarrow> key \<notin> set (uKeys (use_of u (tID t)))) \<and> (\<not> reserved \<longrightarrow> f1 = f) \<and>
    (reserved \<and> tMaxUses t > 0 \<longrightarrow> int (length (uKeys (use_of u1 (tID t)))) \<le> tMaxUses t) \<and>
    (reserved \<longrightarrow> (\<forall>o2 f2. ReleaseUse L o2 (tID t) key f1 = (f2, None) \<longrightarrow>
       (\<exists>u2. LoadUses f2 = Inr u2 \<and> (\<forall>i. uKeys (use_of u2 i) = uKeys (use_of u i)))))"
proof (cases rule: ReserveUse_cases [OF assms(1-4), of L o1, case_names known refused reserved])
  case (reserved f' e)
  let ?u1 = "put (tID t) (reserved_use u (tID t) key) u"
  have f1: "f1 = Contents (Value ?u1)" "reserved"
    using save_uses_file [OF reserved(3)] reserved(1) assms(5) by auto
  note l1 = LoadUses_value [OF reserved(5)]
  have "\<exists>u2. LoadUses f2 = Inr u2 \<and> (\<forall>i. uKeys (use_of u2 i) = uKeys (use_of u i))"
    if r: "ReleaseUse L o2 (tID t) key f1 = (f2, None)" for o2 f2
  proof (intro exI conjI allI)
    have "save_uses L o2 (released ?u1 (tID t) key) f1 = (f2, None)"
      using r ReleaseUse_save [OF l1] f1(1) by simp
    then have "f2 = Contents (Value (released ?u1 (tID t) key))" using save_uses_file by blast
    then show "LoadUses f2 = Inr (released ?u1 (tID t) key)"
      using LoadUses_value [OF uses_ok_released [OF reserved(5)]] by simp
    show "uKeys (use_of (released ?u1 (tID t) key) i) = uKeys (use_of u i)" for i
      using use_of_released [OF reserved(5), of "tID t" key i] reserved(2)
      by (simp add: reserved_use_def remove1_append)
  qed
  then show ?thesis
    using l1 f1 reserved(2,4) by (auto simp: reserved_use_def)
qed (use assms in auto)

section \<open>A first device\<close>

definition sample_lib :: elib where
  "sample_lib = \<lparr>size_tokens = (\<lambda>_. 100), size_uses = (\<lambda>_. 100),
     parse_authorized = (\<lambda>l. case cut_on CHR '' '' l of (a, _, _) \<Rightarrow>
       Some \<lparr>akey = drop 4 a, acert = False, aopts = [], arest = []\<rparr>),
     marshal_authorized = (\<lambda>k. ''ssh-'' @ k),
     fingerprint = (\<lambda>k. ''SHA256:'' @ take 43 (k @ replicate 43 CHR ''0'')),
     sha = (\<lambda>x. take 32 (rev x @ replicate 32 CHR ''0''))\<rparr>"

definition sample_secret :: bytes where
  "sample_secret = Prefix @ hex (replicate 32 CHR ''s'')"

definition sample_token :: token where
  "sample_token = \<lparr>tID = ''t-'' @ take 16 (Hash sample_lib sample_secret), tSHA256 = Hash sample_lib sample_secret,
     tCreated = 7, tExpires = None, tMaxUses = 1, tLabel = ''desk''\<rparr>"

lemma sample_generated: "Generate sample_lib (replicate 32 CHR ''s'') 7 0 1 ''desk'' = Inr (sample_token, sample_secret)"
  by (simp add: Generate_def sample_token_def sample_secret_def Let_def)

definition sample_files :: estate where
  "sample_files = \<lparr>tokensF = Contents (Value [sample_token]), usesF = NoFile, keysF = NoFile\<rparr>"

lemma sample_sha: "length (sha sample_lib x) = 32"
  by (simp add: sample_lib_def)

lemma generated_token_witness: "ValidateSecret sample_secret \<and> validateTokens [sample_token] = None \<and>
    find_token sample_lib sample_secret [sample_token] = Some sample_token"
  using generated_token [OF sample_generated _ _ sample_sha] by simp

lemma sample_token_ok: "ValidateSecret sample_secret" "validateTokens [sample_token] = None" "valid_id (tID sample_token)"
proof -
  have "validHex (hex (replicate 32 CHR ''s'')) 32" using validHex_hex [of "replicate 32 CHR ''s''"] by simp
  then show "ValidateSecret sample_secret"
    by (simp add: ValidateSecret_def sample_secret_def SecretBytes_def)
  have h: "take 16 (Hash sample_lib sample_secret) = hex (take 8 (sha sample_lib sample_secret))"
    using hex_take [of 8 "sha sample_lib sample_secret"] by (simp add: Hash_def)
  have l: "length (take 8 (sha sample_lib sample_secret)) = 8" by (simp add: sample_sha)
  show v: "valid_id (tID sample_token)"
    using validHex_hex [of "take 8 (sha sample_lib sample_secret)"] l trim_prefix_append [of "''t-''"]
    by (simp add: sample_token_def h valid_id_def has_prefix_def)
  have "validHex (tSHA256 sample_token) 32"
    using validHex_hex [of "sha sample_lib sample_secret"] sample_sha by (simp add: sample_token_def Hash_def)
  with v show "validateTokens [sample_token] = None"
    by (simp add: validateTokens_def MaxTokens_def) (simp add: sample_token_def)
qed

lemma sample_ssh: "ssh_ok sample_lib {''alice''}"
proof -
  have t: "trim_space ''ssh-alice'' = ''ssh-alice''" by (rule trim_space_ascii) simp_all
  have c: "cut_on CHR '' '' (''ssh-alice'' @ CHR '' '' # c) = (''ssh-alice'', c, True)" for c
    by (rule cut_on_append) simp
  show ?thesis
    using t c by (simp add: ssh_ok_def sample_lib_def Let_def key_format_def has_prefix_def)
qed

lemma sample_start: "enrolled_state sample_lib {''alice''} {} sample_files"
  using sample_ssh by (simp add: enrolled_state_def sample_files_def readable_def is_map_def the_uses_def the_keys_def
      LoadUses_def read_file_def ReadAuthorizedKeys_def trim_space_def spent_def use_of_def)

definition sample_enrolled :: estate where
  "sample_enrolled = fst (enroll sample_lib (\<lambda>_. Written) True 9 ''now'' sample_secret (Some ''alice'') sample_files)"

lemma sample_line: "length (key_line sample_lib ''now'' ''alice'' (tID sample_token)) \<le> MaxFileBytes"
proof -
  have t: "trim_space ''ssh-alice'' = ''ssh-alice''" by (rule trim_space_ascii) simp_all
  have "length (tID sample_token) \<le> 18" by (simp add: sample_token_def)
  then show ?thesis using t by (simp add: key_line_def sample_lib_def MaxFileBytes_def)
qed

lemma sample_enrolls: "enroll sample_lib (\<lambda>_. Written) True 9 ''now'' sample_secret (Some ''alice'') sample_files =
    (sample_enrolled, Inr (fingerprint sample_lib ''alice''))"
proof -
  have f: "find_token sample_lib sample_secret [sample_token] = Some sample_token"
    by (simp add: find_token_def sample_token_def)
  have l: "LoadTokens (tokensF sample_files) = Inr [sample_token]"
    using LoadTokens_value [OF sample_token_ok(2)] by (simp add: sample_files_def)
  have k: "ReadAuthorizedKeys sample_lib NoFile True = Inr []" "LoadUses NoFile = Inr []"
    by (simp_all add: ReadAuthorizedKeys_def LoadUses_def read_file_def trim_space_def)
  have x: "\<not> expired 9 sample_token" "tMaxUses sample_token = 1" by (simp_all add: expired_def sample_token_def)
  have r: "\<exists>f. ReserveUse sample_lib Written sample_token fp NoFile = (f, True, None)" for fp
    using k by (simp add: ReserveUse_def use_of_def x MaxTokens_def MaxKeys_def total_keys_def save_uses_def
        atomicWrite_def sample_lib_def MaxFileBytes_def)
  have a: "\<exists>f. AppendAuthorizedKey sample_lib Written ''now'' ''alice'' (tID sample_token) NoFile = (f, None)"
    using k sample_line by (simp add: AppendAuthorizedKey_def read_file_def atomicWrite_def MaxKeys_def)
  have "\<exists>s. grant (reserve_op sample_lib sample_token ''alice'') (append_op sample_lib ''now'' sample_token ''alice'')
      (release_op sample_lib sample_token ''alice'') (\<lambda>_. Written) sample_files = (s, None)"
    using r [of "fingerprint sample_lib ''alice''"] a
    by (auto simp: grant_def reserve_op_def append_op_def sample_files_def)
  then have "snd (enroll sample_lib (\<lambda>_. Written) True 9 ''now'' sample_secret (Some ''alice'') sample_files) =
      Inr (fingerprint sample_lib ''alice'')"
    using sample_token_ok(1) l f x k by (auto simp: enroll_def sample_files_def)
  then show ?thesis by (simp add: sample_enrolled_def prod_eq_iff)
qed

lemma enroll_admits_witness:
  "''alice'' \<in> set (the_keys sample_lib sample_enrolled) \<and> ValidateSecret sample_secret"
  using enroll_admits [OF sample_start _ _ sample_enrolls] by simp

lemma registered_keys_counted_witness:
  "\<exists>i. fingerprint sample_lib ''alice'' \<in> set (spent sample_enrolled i)"
proof -
  have "ehistory sample_lib {''alice''} sample_files sample_enrolled"
    using ehistory.more_h [OF ehistory.begin_h, OF estep.enrolls [of "Some ''alice''" _ "''now''"]]
    unfolding sample_enrolled_def by simp
  moreover have "''alice'' \<in> set (the_keys sample_lib sample_enrolled)"
    using enroll_registers [OF sample_start _ _ sample_enrolls] by simp
  ultimately show ?thesis using registered_keys_counted [OF sample_start] by blast
qed

lemma reserve_release_witness:
  "\<exists>f1 u1. ReserveUse sample_lib Written sample_token (fingerprint sample_lib ''alice'') NoFile = (f1, True, None) \<and>
     LoadUses f1 = Inr u1 \<and> fingerprint sample_lib ''alice'' \<in> set (uKeys (use_of u1 (tID sample_token)))"
proof -
  have k: "LoadUses NoFile = Inr []" by (simp add: LoadUses_def read_file_def)
  obtain f1 where r: "ReserveUse sample_lib Written sample_token (fingerprint sample_lib ''alice'') NoFile = (f1, True, None)"
    using k by (simp add: ReserveUse_def use_of_def sample_token_def MaxTokens_def MaxKeys_def total_keys_def save_uses_def
        atomicWrite_def sample_lib_def MaxFileBytes_def)
  have "key_format (fingerprint sample_lib ''alice'')" using keyed_format [OF sample_ssh] by simp
  from reserve_release [OF k _ sample_token_ok(3) this r] r show ?thesis by (auto simp: is_map_def)
qed

end
