(* ===== verification/System.thy ===== *)
theory System
  imports Projection HubSafety Enroll
begin

text \<open>
  The parts of Hive together: the keys that enrollment registers are those the SSH server authenticates
  with (\<open>auth\<close> in \<open>hive/internal/server/server.go\<close>), and the catalog the server hands to a gateway is all
  the gateway ever connects to.
\<close>

section \<open>Authentication\<close>

text \<open>A key file that cannot be read or has a bad line admits nobody, and leaves the other file as it is.\<close>

definition admits :: "elib \<Rightarrow> bytes stored \<Rightarrow> bool \<Rightarrow> pubkey \<Rightarrow> bool" where
  "admits L f missing k = (case ReadAuthorizedKeys L f missing of Inl _ \<Rightarrow> False | Inr ks \<Rightarrow> k \<in> set ks)"

text \<open>\<open>registered\<close> is \<open>None\<close> when no file of registered keys is configured. An enrolling connection has no
  owner; the connection of a device has the fingerprint of its key.\<close>

definition auth :: "elib \<Rightarrow> bool \<Rightarrow> bytes stored \<Rightarrow> bytes stored option \<Rightarrow> bytes \<Rightarrow> pubkey \<Rightarrow> bool \<Rightarrow> bytes \<Rightarrow> hub \<Rightarrow>
    hub \<times> peer option" where
  "auth L enabled hosted registered user k certificate kind h =
     (if certificate then (h, None)
      else if user = ''enroll'' then
        (if enrollAuth enabled kind then (h, Some \<lparr>cUser = user, cOwner = []\<rparr>)
         else (h\<lparr>hEnrollRejected := hEnrollRejected h + 1\<rparr>, None))
      else if admits L hosted False k \<or> (case registered of None \<Rightarrow> False | Some f \<Rightarrow> admits L f True k)
      then (h, Some \<lparr>cUser = user, cOwner = fingerprint L k\<rparr>)
      else (h, None))"

section \<open>Registered keys stay\<close>

lemma grant_keys:
  assumes s: "enrolled_state L K K0 s" and k: "k \<in> K" "k \<notin> set (the_keys L s)" and st: "CHR 0x0A \<notin> set stamp"
    and ts: "LoadTokens (tokensF s) = Inr ts" "t \<in> set ts"
    and g: "grant (reserve_op L t k) (append_op L stamp t k) (release_op L t k) os s = (s', e)"
  shows "set (the_keys L s) \<subseteq> set (the_keys L s')"
proof -
  have "ledger_ok L K stamp t k s"
    using s k st ts tokens_distinct by (simp add: ledger_ok_def enrolled_state_def)
  from files.grant_counted [OF this k(2) g] have "same_but L t k s s'" by simp
  with k(2) show ?thesis by (auto simp: same_but_def)
qed

lemma step_keys: "estep L K s s' \<Longrightarrow> enrolled_state L K K0 s \<Longrightarrow> set (the_keys L s) \<subseteq> set (the_keys L s')"
proof (induction rule: estep.induct)
  case (enrolls key stamp s os enabled now secret)
  obtain s' r where e: "enroll L os enabled now stamp secret key s = (s', r)" by fastforce
  have "set (the_keys L s) \<subseteq> set (the_keys L s')"
  proof (cases rule: enroll_cases [OF e, case_names refused known granted])
    case (granted ts t k e)
    have k: "k \<in> K" using enrolls(1) granted(5) by blast
    show ?thesis by (rule grant_keys [OF enrolls(3) k granted(6) enrolls(2) granted(1,2,9)])
  qed simp_all
  with e show ?case by simp
qed simp_all

lemma history_keys:
  "ehistory L K s s' \<Longrightarrow> enrolled_state L K K0 s \<Longrightarrow> set (the_keys L s) \<subseteq> set (the_keys L s')"
proof (induction rule: ehistory.induct)
  case (more_h s' s'')
  then show ?case using step_keys enrolled_history by blast
qed simp

section \<open>Properties\<close>

text \<open>
  C6. Enrolled devices log in (\<open>enroll\<close>, \<open>auth\<close>): once a device was told that it is registered it is
  authenticated as the owner of that fingerprint, whatever happens to the files afterwards through
  enrollments, crashes and the administration of tokens, and whatever the other key file holds; and no
  other device that enrolls can be authenticated as that owner.
\<close>

theorem enrolled_device_admitted:
  assumes "enrolled_state L K K0 s" and "k \<in> K" and "CHR 0x0A \<notin> set stamp"
    and "enroll L os enabled now stamp secret (Some k) s = (s1, Inr fp)" and "ehistory L K s1 s2" and "user \<noteq> ''enroll''"
  shows "auth L on hosted (Some (keysF s2)) user k False kind h = (h, Some \<lparr>cUser = user, cOwner = fp\<rparr>) \<and>
    \<not> (\<exists>k' \<in> K. k' \<noteq> k \<and> snd (auth L on hosted (Some (keysF s2)) user k' False kind h) = Some \<lparr>cUser = user, cOwner = fp\<rparr>)"
proof -
  have fp: "fp = fingerprint L k" and m: "k \<in> set (the_keys L s1)"
    using enroll_registers [OF assms(1-4)] by auto
  have s1: "enrolled_state L K K0 s1" using enrolled_enroll [OF assms(1) _ assms(3,4)] assms(2) by blast
  have "k \<in> set (the_keys L s2)" using history_keys [OF assms(5) s1] m by blast
  then have "admits L (keysF s2) True k" by (auto simp: admits_def the_keys_def split: sum.splits)
  moreover have "fingerprint L k' \<noteq> fp" if "k' \<in> K" "k' \<noteq> k" for k'
    using that assms(1,2) fp unfolding enrolled_state_def ssh_ok_def Let_def by blast
  ultimately show ?thesis using assms(6) fp by (auto simp: auth_def)
qed

text \<open>
  C3. The gateway sees only what its owner may see (\<open>aggregate\<close>, \<open>refresh\<close>): after a refresh with the
  catalog the server gives a connection, the gateway is connected to at most \<open>MaxSources\<close> sessions, each of
  them published at that moment and by another key.
\<close>

theorem gateway_isolation:
  assumes "hub_reachable digest h" and "sound g" and "catalog g = catalog_of h c" and "refresh g = (g', None)"
  shows "(\<forall>i \<in> set (keys (sources g')). \<exists>b. map_of (shares h) i = Some b \<and> shID (bShare (bindings h b)) = i \<and>
      owner_of h b \<noteq> cOwner (peers h c)) \<and> sound g'"
proof -
  have ok: "hub_ok h" using hub_reachable_ok [OF assms(1)] .
  have v: "inside (src_id ` set (visible_list g)) g'" using refresh_inside [OF assms(2,4)] .
  then have "set (keys (sources g')) \<subseteq> src_id ` set (visible_list g)"
    by (simp add: inside_def dom_map_of_conv_image_fst)
  moreover have "set (visible_list g) \<subseteq> set (catalog g)"
    by (auto simp: visible_list_def dest: in_set_takeD)
  moreover have "\<exists>b. map_of (shares h) i = Some b \<and> shID (bShare (bindings h b)) = i \<and> owner_of h b \<noteq> cOwner (peers h c)"
    if i: "i \<in> src_id ` set (catalog g)" for i
  proof -
    obtain j b where b: "(j, b) \<in> set (shares h)" "foreign h c b" "i = shID (bShare (bindings h b))"
      using i by (auto simp: assms(3) catalog_of_def source_of_def)
    have "share_ok h (j, b)" using ok b(1) by (simp add: hub_ok_def)
    then have "j = i" using b(3) by (simp add: share_ok_def)
    with b live_ids [OF ok] show ?thesis by (auto simp: foreign_def owner_of_def)
  qed
  ultimately have "\<forall>i \<in> set (keys (sources g')). \<exists>b. map_of (shares h) i = Some b \<and> shID (bShare (bindings h b)) = i \<and>
      owner_of h b \<noteq> cOwner (peers h c)" by blast
  then show ?thesis using v by (simp add: inside_def)
qed

lemma enrolled_device_admitted_witness:
  "auth sample_lib True NoFile (Some (keysF sample_enrolled)) ''bee'' ''alice'' False ''ssh-ed25519'' hub_viewed =
     (hub_viewed, Some \<lparr>cUser = ''bee'', cOwner = fingerprint sample_lib ''alice''\<rparr>)"
  using enrolled_device_admitted [OF sample_start _ _ sample_enrolls ehistory.begin_h] by simp

lemma gateway_isolation_witness:
  "\<exists>g'. refresh ((new_session sample_env [] 0 [])\<lparr>catalog := catalog_of hub_viewed 4\<rparr>) = (g', None) \<and>
     keys (sources g') = [shID sample_share] \<and> owner_of hub_viewed 0 \<noteq> cOwner (peers hub_viewed 4)"
proof -
  let ?g = "(new_session sample_env [] 0 [])\<lparr>catalog := catalog_of hub_viewed 4\<rparr>"
  have s: "sound ?g" using sound_step [OF gate_step.catalog sound_new] .
  have c: "catalog_of hub_viewed 4 = [source_of sample_share]"
    by (simp add: catalog_of_def foreign_def viewed_fields new_binding_def)
  obtain g' where g': "refresh ?g = (g', None)" "keys (sources g') = [shID sample_share]"
    by (simp add: refresh_def new_session_def visible_list_def visible_def forget_recoveries_def c source_of_def
        expire_fence_def Let_def open_source_def MaxSources_def)
  have "catalog ?g = catalog_of hub_viewed 4" by simp
  from gateway_isolation [OF viewed_reachable s this g'(1)] g' show ?thesis
    by (auto simp: viewed_fields split: if_splits)
qed

end
