(* ===== verification/Update.thy ===== *)
theory Update
  imports Adapter "HOL-Library.List_Lexorder" "HOL-Library.Char_ord"
begin

text \<open>
  Self-update (\<open>internal/update/update.go\<close>): the order of release versions, the search for the latest
  release, the checksum list, the archive, and the installation, which replaces the executable only by a
  newer release whose archive has the published checksum. HTTP, gzip, tar, SHA-256 and the run of a
  binary for its version are parameters: what they answer is an argument.
\<close>

section \<open>Versions\<close>

text \<open>The expression \<open>stable\<close>: three numbers without leading zeros.\<close>

definition stable_field :: "bytes \<Rightarrow> bool" where
  "stable_field f \<longleftrightarrow> f \<noteq> [] \<and> list_all digit f \<and> (hd f = CHR ''0'' \<longrightarrow> length f = 1)"

definition stable :: "bytes \<Rightarrow> bool" where
  "stable v \<longleftrightarrow> length (split_on CHR ''.'' v) = 3 \<and> list_all stable_field (split_on CHR ''.'' v)"

text \<open>The loop over the fields: the longer one, or else the greater text, decides.\<close>

fun newer_fields :: "bytes list \<Rightarrow> bytes list \<Rightarrow> bool \<Rightarrow> bool" where
  "newer_fields (a # as) (b # bs) same =
     (if length a \<noteq> length b then length a > length b
      else if a \<noteq> b then a > b
      else newer_fields as bs same)"
| "newer_fields _ _ same = same"

definition newer :: "bytes \<Rightarrow> bytes \<Rightarrow> bool" where
  "newer a b =
     (case cut_on CHR ''-'' b of (core, prerelease, _) \<Rightarrow>
      if \<not> stable core then True
      else newer_fields (split_on CHR ''.'' a) (split_on CHR ''.'' core) (prerelease \<noteq> []))"

section \<open>The latest release\<close>

record release =
  relTag :: bytes
  relDraft :: bool
  relPrerelease :: bool

datatype uerror = Transport | BadCatalog | NoRelease | TooManyReleases | NoVersion | BadSum | DuplicateSum
  | SumMismatch | BadArchive bytes | NotStaged | WrongVersion | OtherPlugin | WrongPlugin | NotRenamed

text \<open>One release against the best so far.\<close>

definition better :: "bytes \<Rightarrow> bytes \<Rightarrow> release \<Rightarrow> bytes" where
  "better component best r =
     (let p = component @ ''/v''; v = trim_prefix (relTag r) p in
      if has_prefix (relTag r) p \<and> \<not> relDraft r \<and> \<not> relPrerelease r \<and> stable v \<and> newer v best then v else best)"

text \<open>The pages from \<open>page\<close> to the tenth; \<open>get page\<close> is what the catalog answers.\<close>

function latest_from :: "(nat \<Rightarrow> uerror + release list) \<Rightarrow> bytes \<Rightarrow> nat \<Rightarrow> bytes \<Rightarrow> uerror + bytes" where
  "latest_from get component page best =
     (if page > 10 then Inl TooManyReleases
      else case get page of
        Inl e \<Rightarrow> Inl e
      | Inr releases \<Rightarrow>
          (let best' = foldl (better component) best releases in
           if length releases < 100 then (if best' = [] then Inl NoRelease else Inr best')
           else latest_from get component (page + 1) best'))"
  by pat_completeness auto
termination by (relation "measure (\<lambda>(_, _, page, _). 11 - page)") auto

definition latest :: "(nat \<Rightarrow> uerror + release list) \<Rightarrow> bytes \<Rightarrow> uerror + bytes" where
  "latest get component = latest_from get component 1 []"

section \<open>Checksums\<close>

text \<open>\<open>strings.Fields\<close>.\<close>

fun take_field :: "nat \<Rightarrow> bytes \<Rightarrow> bytes" where
  "take_field n [] = []"
| "take_field n (c # s) = (if List.find (has_prefix (c # s)) spaces = None then c # take_field n s else [])"

fun fields_of :: "nat \<Rightarrow> bytes \<Rightarrow> bytes list" where
  "fields_of 0 s = []"
| "fields_of (Suc n) s =
     (let t = skip_spaces (length s) s; f = take_field 0 t in
      if f = [] then [] else f # fields_of n (drop (length f) t))"

definition Fields :: "bytes \<Rightarrow> bytes list" where
  "Fields s = fields_of (length s) s"

text \<open>The only line for the archive; two are an error.\<close>

fun find_sum :: "bytes \<Rightarrow> bytes list \<Rightarrow> bytes \<Rightarrow> bytes option" where
  "find_sum name [] want = Some want"
| "find_sum name (l # ls) want =
     (case Fields l of
        [s, n] \<Rightarrow> if n = name then (if want \<noteq> [] then None else find_sum name ls s) else find_sum name ls want
      | _ \<Rightarrow> find_sum name ls want)"

definition checksum :: "bytes \<Rightarrow> bytes \<Rightarrow> uerror + bytes" where
  "checksum name sums =
     (case find_sum name (split_on CHR 0x0A sums) [] of
        None \<Rightarrow> Inl DuplicateSum
      | Some want \<Rightarrow>
          (case unhex want of
             Some d \<Rightarrow> if length d = 32 then Inr want else Inl BadSum
           | None \<Rightarrow> Inl BadSum))"

section \<open>The archive\<close>

datatype entry_type = Dir | Reg | Other

record entry =
  eType :: entry_type
  eName :: bytes
  eSize :: int
  eData :: "bytes option"      \<comment> \<open>what reading the entry yields, \<open>None\<close> an error\<close>

definition maxArchive :: nat where "maxArchive = 64 * 1024 * 1024"

text \<open>What \<open>tar.Reader.Next\<close> answers: an entry or an error, until the end. A text that is read beyond
  \<open>maxArchive\<close> is cut one byte after it.\<close>

fun unpack_entries :: "bytes \<Rightarrow> bytes \<Rightarrow> entry option list \<Rightarrow> nat \<Rightarrow> (bytes, bytes) gomap \<Rightarrow>
    uerror + (bytes, bytes) gomap" where
  "unpack_entries component dir [] count files = Inr files"
| "unpack_entries component dir (None # es) count files = Inl (BadArchive ''tar'')"
| "unpack_entries component dir (Some h # es) count files =
     (if count \<ge> 16 then Inl (BadArchive ''too many archive entries'')
      else if eType h = Dir \<and> eName h = dir then unpack_entries component dir es (count + 1) files
      else
        (let name = trim_prefix (eName h) dir in
         if \<not> has_prefix (eName h) dir \<or> eType h \<noteq> Reg \<or> eSize h < 0 \<or> eSize h > int maxArchive
         then Inl (BadArchive ''invalid release archive entry'')
         else if name \<notin> {component, ''README.md'', ''LICENSE''} \<and> name = ''herdr-plugin.toml'' \<and> component \<noteq> ''bee''
         then Inl (BadArchive ''unexpected manifest'')
         else if name \<notin> {component, ''README.md'', ''LICENSE'', ''herdr-plugin.toml''}
         then Inl (BadArchive ''unexpected release archive path'')
         else if map_of files name \<noteq> None then Inl (BadArchive ''duplicate archive entry'')
         else case eData h of
                None \<Rightarrow> Inl (BadArchive ''tar'')
              | Some d \<Rightarrow> unpack_entries component dir es (count + 1) (put name (take (maxArchive + 1) d) files)))"

text \<open>\<open>files[name]\<close>: empty when there is none.\<close>

definition content_of :: "(bytes, bytes) gomap \<Rightarrow> bytes \<Rightarrow> bytes" where
  "content_of files name = (case map_of files name of None \<Rightarrow> [] | Some d \<Rightarrow> d)"

definition bee_id :: bytes where
  "bee_id = ''id = '' @ [CHR 0x22] @ ''herdr.bee'' @ [CHR 0x22]"

text \<open>\<open>platform\<close> is \<open>GOOS-GOARCH\<close>; \<open>None\<close> for what is not gzip.\<close>

definition unpack :: "bytes \<Rightarrow> bytes \<Rightarrow> entry option list option \<Rightarrow> uerror + (bytes, bytes) gomap" where
  "unpack component platform es =
     (case es of
        None \<Rightarrow> Inl (BadArchive ''gzip'')
      | Some es \<Rightarrow>
          (case unpack_entries component (component @ ''-'' @ platform @ ''/'') es 0 [] of
             Inl e \<Rightarrow> Inl e
           | Inr files \<Rightarrow>
               if content_of files component = [] then Inl (BadArchive ''archive is missing binary'')
               else if component = ''bee'' \<and> \<not> contains (content_of files ''herdr-plugin.toml'') bee_id
               then Inl (BadArchive ''archive is missing Bee manifest'')
               else Inr files))"

section \<open>Installing\<close>

record installation =
  exeF :: bytes
  manifestF :: "bytes stored"

text \<open>The world the installer talks to: the version a binary reports, the catalog, downloads with their
  size limits, SHA-256 and the archive's entries, and which file operations succeed.\<close>

record world =
  run_version :: "bytes \<Rightarrow> bytes option"
  catalog_page :: "nat \<Rightarrow> uerror + release list"
  download :: "bytes \<Rightarrow> nat \<Rightarrow> bytes option"
  digest :: "bytes \<Rightarrow> bytes"
  entries :: "bytes \<Rightarrow> entry option list option"
  staged :: "bytes \<Rightarrow> bool"
  renamed :: "bytes \<Rightarrow> bool"

definition archive_name :: "bytes \<Rightarrow> bytes \<Rightarrow> bytes \<Rightarrow> bytes" where
  "archive_name component v platform = component @ ''-'' @ v @ ''-'' @ platform @ ''.tar.gz''"

text \<open>The archive of a version whose checksum is the published one.\<close>

definition fetch :: "world \<Rightarrow> bytes \<Rightarrow> bytes \<Rightarrow> bytes \<Rightarrow> uerror + bytes" where
  "fetch w component v platform =
     (let name = archive_name component v platform; base = component @ ''%2Fv'' @ v @ ''/'' in
      case download w (base @ ''SHA256SUMS'') (64 * 1024) of
        None \<Rightarrow> Inl Transport
      | Some sums \<Rightarrow>
          (case checksum name sums of
             Inl e \<Rightarrow> Inl e
           | Inr want \<Rightarrow>
               (case download w (base @ name) maxArchive of
                  None \<Rightarrow> Inl Transport
                | Some archive \<Rightarrow>
                    if to_lower (hex (digest w archive)) \<noteq> to_lower want then Inl SumMismatch else Inr archive)))"

text \<open>The manifest to install, if one is installed: it must be Bee's, and the new one of the version.\<close>

definition new_manifest :: "world \<Rightarrow> bytes \<Rightarrow> bytes \<Rightarrow> (bytes, bytes) gomap \<Rightarrow> bytes stored \<Rightarrow> uerror + bytes option" where
  "new_manifest w component v files old =
     (if component \<noteq> ''bee'' then Inr None
      else case old of
        NoFile \<Rightarrow> Inr None
      | Unreadable \<Rightarrow> Inl OtherPlugin
      | Contents b \<Rightarrow>
          (let m = content_of files ''herdr-plugin.toml'' in
           if \<not> contains b bee_id then Inl OtherPlugin
           else if \<not> contains m (''version = '' @ [CHR 0x22] @ v @ [CHR 0x22]) then Inl WrongPlugin
           else if \<not> staged w m then Inl NotStaged
           else Inr (Some m)))"

text \<open>The files are replaced after everything was checked and staged, the manifest first.\<close>

definition replace_files :: "world \<Rightarrow> bytes \<Rightarrow> bytes option \<Rightarrow> installation \<Rightarrow> installation \<times> uerror option" where
  "replace_files w bin man s =
     (let (s1, e) = (case man of
          None \<Rightarrow> (s, None)
        | Some m \<Rightarrow> if renamed w ''herdr-plugin.toml'' then (s\<lparr>manifestF := Contents m\<rparr>, None) else (s, Some NotRenamed))
      in if e \<noteq> None then (s1, e)
         else if renamed w ''exe'' then (s1\<lparr>exeF := bin\<rparr>, None)
         else (s1, Some NotRenamed))"

text \<open>The result is the version that is installed and whether it was updated.\<close>

definition Install :: "world \<Rightarrow> bytes \<Rightarrow> bytes \<Rightarrow> installation \<Rightarrow> installation \<times> (uerror + bytes \<times> bool)" where
  "Install w component platform s =
     (case run_version w (exeF s) of
        None \<Rightarrow> (s, Inl NoVersion)
      | Some current \<Rightarrow>
          (case latest (catalog_page w) component of
             Inl e \<Rightarrow> (s, Inl e)
           | Inr v \<Rightarrow>
               if \<not> newer v current then (s, Inr (current, False))
               else
                 (case fetch w component v platform of
                    Inl e \<Rightarrow> (s, Inl e)
                  | Inr archive \<Rightarrow>
                      (case unpack component platform (entries w archive) of
                         Inl e \<Rightarrow> (s, Inl e)
                       | Inr files \<Rightarrow>
                           (let bin = content_of files component in
                            if \<not> staged w bin then (s, Inl NotStaged)
                            else case run_version w bin of
                              None \<Rightarrow> (s, Inl NoVersion)
                            | Some got \<Rightarrow>
                                if got \<noteq> v then (s, Inl WrongVersion)
                                else (case new_manifest w component v files (manifestF s) of
                                        Inl e \<Rightarrow> (s, Inl e)
                                      | Inr man \<Rightarrow>
                                          (case replace_files w bin man s of
                                             (s', Some e) \<Rightarrow> (s', Inl e)
                                           | (s', None) \<Rightarrow> (s', Inr (v, True)))))))))"

section \<open>The order of versions\<close>

lemma numeral_value_Cons: "numeral_value (c # s) = (of_char c - 48) * 10 ^ length s + numeral_value s"
proof -
  have "foldl (\<lambda>a c. 10 * a + (of_char c - 48)) n s = n * 10 ^ length s + foldl (\<lambda>a c. 10 * a + (of_char c - 48)) 0 s" for n :: nat
  proof (induction s arbitrary: n)
    case (Cons c s)
    let ?f = "foldl (\<lambda>a c. 10 * a + (of_char c - 48) :: nat)"
    have "?f n (c # s) = (10 * n + (of_char c - 48)) * 10 ^ length s + ?f 0 s"
      using Cons [of "10 * n + (of_char c - 48)"] by simp
    moreover have "?f 0 (c # s) = (of_char c - 48) * 10 ^ length s + ?f 0 s"
      using Cons [of "of_char c - 48"] by simp
    ultimately show ?case by (simp add: algebra_simps)
  qed simp
  from this [of "of_char c - 48"] show ?thesis by (simp add: numeral_value_def)
qed

lemma numeral_value_Nil [simp]: "numeral_value [] = 0"
  by (simp add: numeral_value_def)

lemma digit_bound: "digit c \<Longrightarrow> of_char c - 48 < (10 :: nat)"
  by (auto simp: digit_def)

lemma digits_bound: "list_all digit s \<Longrightarrow> numeral_value s < 10 ^ length s"
proof (induction s)
  case (Cons c s)
  have "of_char c - 48 \<le> (9 :: nat)" using Cons.prems digit_bound by (simp add: less_Suc_eq_le numeral_eq_Suc)
  then have "(of_char c - 48) * 10 ^ length s \<le> (9 :: nat) * 10 ^ length s" by (rule mult_le_mono1)
  moreover have "numeral_value s < 10 ^ length s" using Cons by simp
  ultimately show ?case unfolding numeral_value_Cons length_Cons power_Suc by linarith
qed simp

lemma digits_less:
  "list_all digit s \<Longrightarrow> list_all digit t \<Longrightarrow> length s = length t \<Longrightarrow> s < t \<longleftrightarrow> numeral_value s < numeral_value t"
proof (induction s arbitrary: t)
  case (Cons c s)
  then obtain d u where t: "t = d # u" by (cases t) auto
  let ?c = "of_char c - 48 :: nat" and ?d = "of_char d - 48 :: nat" and ?p = "10 ^ length s :: nat"
  have IH: "s < u \<longleftrightarrow> numeral_value s < numeral_value u" and l: "length u = length s"
    using Cons t by simp_all
  have b: "numeral_value s < ?p" "numeral_value u < ?p"
    using digits_bound [of s] digits_bound [of u] Cons.prems t l by simp_all
  have dig: "48 \<le> (of_char c :: nat)" "48 \<le> (of_char d :: nat)"
    using Cons.prems t by (simp_all add: digit_def)
  have up: "m * ?p + x < n * ?p + y" if "m < n" "x < ?p" for m n x y
  proof -
    have "m * ?p + x < (m + 1) * ?p" using that(2) by simp
    also have "\<dots> \<le> n * ?p" using that(1) by (intro mult_le_mono1) simp
    finally show ?thesis by simp
  qed
  have v: "numeral_value (c # s) = ?c * ?p + numeral_value s" "numeral_value t = ?d * ?p + numeral_value u"
    by (simp_all add: numeral_value_Cons t l)
  have lt: "c < d \<longleftrightarrow> ?c < ?d" using dig by (auto simp: less_char_def)
  have eq: "c = d \<longleftrightarrow> ?c = ?d" using dig by (metis eq_diff_iff of_char_eq_iff)
  consider "?c < ?d" | "?d < ?c" | "?c = ?d" by linarith
  then show ?case
  proof cases
    case 1
    with up [OF 1 b(1)] show ?thesis using lt unfolding v by (simp add: t)
  next
    case 2
    from up [OF 2 b(2)] have "\<not> numeral_value (c # s) < numeral_value t" unfolding v by (simp add: not_less less_imp_le)
    moreover have "\<not> c < d \<and> c \<noteq> d" using 2 lt eq by simp
    ultimately show ?thesis by (simp add: t)
  next
    case 3
    then have "c = d" using eq by simp
    then show ?thesis unfolding v using IH by (simp add: t)
  qed
qed simp

lemma stable_field_least: "stable_field f \<Longrightarrow> numeral_value f > 0 \<Longrightarrow> 10 ^ (length f - 1) \<le> numeral_value f"
proof (cases f)
  case (Cons c s)
  assume f: "stable_field f" "numeral_value f > 0"
  have "1 \<le> (of_char c - 48 :: nat)"
  proof (cases "c = CHR ''0''")
    case True
    with f Cons show ?thesis by (auto simp: stable_field_def numeral_value_Cons)
  next
    case False
    moreover have "48 \<le> (of_char c :: nat)" using f Cons by (simp add: stable_field_def digit_def)
    moreover have "(of_char c :: nat) \<noteq> 48"
      using False of_char_eq_iff [of c "CHR ''0''", where 'a = nat] by simp
    ultimately show ?thesis by simp
  qed
  then have "1 * 10 ^ length s \<le> (of_char c - 48) * (10 :: nat) ^ length s" by (rule mult_le_mono1)
  then have "10 ^ length s \<le> numeral_value (c # s)" unfolding numeral_value_Cons by linarith
  then show ?thesis using Cons by simp
qed (simp add: stable_field_def)

lemma stable_field_zero: "stable_field f \<Longrightarrow> numeral_value f = 0 \<Longrightarrow> f = ''0''"
proof (cases f)
  case (Cons c s)
  assume f: "stable_field f" "numeral_value f = 0"
  then have "of_char c - 48 = (0 :: nat)" using Cons by (simp add: numeral_value_Cons)
  moreover have "48 \<le> (of_char c :: nat)" using f Cons by (simp add: stable_field_def digit_def)
  ultimately have "(of_char c :: nat) = of_char (CHR ''0'')" by simp
  then have "c = CHR ''0''" by (simp only: of_char_eq_iff)
  with f Cons show ?thesis by (simp add: stable_field_def)
qed (simp add: stable_field_def)

text \<open>A longer number is greater.\<close>

lemma stable_field_longer:
  assumes "stable_field f" and "stable_field g" and "length f < length g"
  shows "numeral_value f < numeral_value g"
proof -
  have "numeral_value g > 0"
  proof (rule ccontr)
    assume "\<not> numeral_value g > 0"
    then have "length g = 1" using stable_field_zero [OF assms(2)] by simp
    with assms(1,3) show False by (cases f) (simp_all add: stable_field_def)
  qed
  then have "10 ^ (length g - 1) \<le> numeral_value g" using stable_field_least assms(2) by blast
  moreover have "numeral_value f < 10 ^ length f" using digits_bound assms(1) by (simp add: stable_field_def)
  moreover have "(10 :: nat) ^ length f \<le> 10 ^ (length g - 1)" using assms(3) by (intro power_increasing) auto
  ultimately show ?thesis by linarith
qed

lemma stable_field_inject:
  assumes "stable_field f" and "stable_field g" and "numeral_value f = numeral_value g"
  shows "f = g"
proof -
  have l: "length f = length g"
    using stable_field_longer [OF assms(1,2)] stable_field_longer [OF assms(2,1)] assms(3) by (metis linorder_neqE_nat nat_neq_iff)
  then have "\<not> f < g" "\<not> g < f"
    using digits_less assms by (simp_all add: stable_field_def)
  then show ?thesis by (meson linorder_neqE)
qed

lemma newer_field:
  assumes "stable_field a" and "stable_field b"
  shows "(if length a \<noteq> length b then length a > length b else a > b) \<longleftrightarrow> numeral_value b < numeral_value a"
proof (cases "length a = length b")
  case True
  then show ?thesis using digits_less [of b a] assms by (simp add: stable_field_def)
next
  case False
  then show ?thesis using stable_field_longer assms by (meson less_asym linorder_neqE_nat)
qed

definition version_of :: "bytes \<Rightarrow> nat list" where
  "version_of v = map numeral_value (split_on CHR ''.'' v)"

lemma newer_fields_order:
  "list_all stable_field as \<Longrightarrow> list_all stable_field bs \<Longrightarrow> length as = length bs \<Longrightarrow>
     newer_fields as bs same \<longleftrightarrow> map numeral_value bs < map numeral_value as \<or> (as = bs \<and> same)"
proof (induction as bs same rule: newer_fields.induct)
  case (1 a as b bs same)
  have f: "stable_field a" "stable_field b" using 1(2,3) by simp_all
  show ?case
  proof (cases "a = b")
    case True
    with 1 show ?thesis by simp
  next
    case False
    then have "numeral_value a \<noteq> numeral_value b" using stable_field_inject [OF f] by blast
    then show ?thesis using newer_field [OF f] False by auto
  qed
qed auto

lemma split_on_parts: "split_on c v = f # fs \<Longrightarrow> v = f @ concat (map (\<lambda>g. c # g) fs)"
proof (induction v arbitrary: f fs)
  case (Cons x v)
  obtain g gs where g: "split_on c v = g # gs" by (cases "split_on c v") auto
  have v: "v = g @ concat (map (\<lambda>g. c # g) gs)" by (rule Cons.IH [OF g])
  show ?case
  proof (cases "x = c")
    case True
    then have "f = []" "fs = g # gs" using Cons.prems g by simp_all
    with True show ?thesis by (subst v) simp
  next
    case False
    then have "f = x # g" "fs = gs" using Cons.prems g by simp_all
    then show ?thesis by (subst v) simp
  qed
qed simp

lemma split_on_inject: "split_on c v = split_on c w \<Longrightarrow> v = w"
  by (metis list.exhaust split_on_nonempty split_on_parts)

lemma stable_plain: "stable v \<Longrightarrow> CHR ''-'' \<notin> set v"
proof -
  assume v: "stable v"
  obtain f fs where f: "split_on CHR ''.'' v = f # fs" by (cases "split_on CHR ''.'' v") auto
  have d: "CHR ''-'' \<notin> set g" if "g \<in> set (f # fs)" for g
    using v that not_digit(2) unfolding stable_def f by (auto simp: stable_field_def list_all_iff)
  show ?thesis unfolding split_on_parts [OF f] using d by auto
qed

lemma stable_nonempty: "stable v \<Longrightarrow> v \<noteq> []"
  by (auto simp: stable_def)

lemma version_inject: "stable v \<Longrightarrow> stable w \<Longrightarrow> version_of v = version_of w \<Longrightarrow> v = w"
proof -
  assume s: "stable v" "stable w" and e: "version_of v = version_of w"
  have "inj_on numeral_value (set (split_on CHR ''.'' v) \<union> set (split_on CHR ''.'' w))"
    using s stable_field_inject by (auto simp: inj_on_def stable_def list_all_iff)
  then have "split_on CHR ''.'' v = split_on CHR ''.'' w"
    using e by (simp add: version_of_def inj_on_map_eq_map)
  then show ?thesis by (rule split_on_inject)
qed

lemma newer_pre:
  assumes "stable a" and "stable b"
  shows "newer a (b @ pre_part pre) \<longleftrightarrow> version_of b < version_of a \<or> (a = b \<and> pre \<noteq> None \<and> pre \<noteq> Some [])"
proof -
  have c: "cut_on CHR ''-'' (b @ pre_part pre) = (b, (case pre of None \<Rightarrow> [] | Some s \<Rightarrow> s), pre \<noteq> None)"
    using cut_on_append [OF stable_plain [OF assms(2)]] cut_on_not_found [OF stable_plain [OF assms(2)]]
    by (auto simp: pre_part_def split: option.split)
  have "newer_fields (split_on CHR ''.'' a) (split_on CHR ''.'' b) same \<longleftrightarrow>
      version_of b < version_of a \<or> (a = b \<and> same)" for same
    using assms newer_fields_order split_on_inject [of "CHR ''.''" a b] by (auto simp: stable_def version_of_def)
  then show ?thesis using assms(2) by (auto simp: newer_def c split: option.split)
qed

lemma newer_stable: "stable a \<Longrightarrow> stable b \<Longrightarrow> newer a b \<longleftrightarrow> version_of b < version_of a"
  using newer_pre [of a b None] by (simp add: pre_part_def)

lemma newer_empty: "newer a []"
  by (simp add: newer_def stable_def stable_field_def)

text \<open>
  C35. The order of versions (\<open>newer\<close>): comparing the fields by length and then as texts is the order of
  their numbers, field by field, and a release is newer than its own prereleases and than anything that
  is no release version; so \<open>newer\<close> is a strict total order of the release versions.
\<close>

theorem newer_order:
  assumes "stable a" and "stable b"
  shows "(newer a (b @ pre_part pre) \<longleftrightarrow> version_of b < version_of a \<or> (a = b \<and> pre \<noteq> None \<and> pre \<noteq> Some [])) \<and>
    (newer a b \<or> newer b a \<or> a = b) \<and> \<not> (newer a b \<and> newer b a)"
  using newer_pre [OF assms] newer_stable assms version_inject [OF assms] by (metis less_asym linorder_neqE)

lemma newer_order_witness: "newer ''0.10.0'' ''0.9.12'' \<and> \<not> newer ''0.9.12'' ''0.10.0'' \<and> newer ''1.0.0'' (''1.0.0'' @ pre_part (Some ''rc1''))"
proof -
  have s: "stable ''0.10.0''" "stable ''0.9.12''" "stable ''1.0.0''" "version_of ''0.10.0'' = [0, 10, 0]" "version_of ''0.9.12'' = [0, 9, 12]"
    by (simp_all add: stable_def stable_field_def digit_def version_of_def numeral_value_def)
  show ?thesis using newer_order [OF s(1,2), of None] newer_order [OF s(3,3), of "Some ''rc1''"] s(4,5) by (simp add: pre_part_def)
qed

section \<open>The newest release is chosen\<close>

definition offered :: "bytes \<Rightarrow> release list \<Rightarrow> bytes set" where
  "offered component rs = {v. stable v \<and> (\<exists>r \<in> set rs. relTag r = component @ ''/v'' @ v \<and> \<not> relDraft r \<and> \<not> relPrerelease r)}"

definition best_of :: "bytes set \<Rightarrow> bytes \<Rightarrow> bool" where
  "best_of V v \<longleftrightarrow> (v = [] \<and> V = {}) \<or> (v \<in> V \<and> (\<forall>u \<in> V. version_of u \<le> version_of v))"

lemma offered_Cons: "offered component (r # rs) = offered component [r] \<union> offered component rs"
  by (auto simp: offered_def)

lemma best_better:
  assumes "best_of V v" and "\<forall>u \<in> V. stable u"
  shows "best_of (V \<union> offered component [r]) (better component v r)"
proof (cases "has_prefix (relTag r) (component @ ''/v'') \<and> \<not> relDraft r \<and> \<not> relPrerelease r \<and>
    stable (trim_prefix (relTag r) (component @ ''/v''))")
  case True
  let ?u = "trim_prefix (relTag r) (component @ ''/v'')"
  obtain t where t: "relTag r = (component @ ''/v'') @ t" using True has_prefix_iff by blast
  then have u: "?u = t" unfolding t trim_prefix_append ..
  have "relTag r = component @ ''/v'' @ x \<longleftrightarrow> x = t" for x using t by auto
  then have o: "offered component [r] = {?u}" unfolding u using True u by (auto simp: offered_def)
  have b: "better component v r = (if newer ?u v then ?u else v)"
    using True by (simp add: better_def Let_def)
  show ?thesis
  proof (cases "v = [] \<and> V = {}")
    case True
    then have "better component v r = ?u" unfolding b by (simp add: newer_empty)
    with True show ?thesis unfolding o by (simp add: best_of_def)
  next
    case False
    then have v: "v \<in> V" "\<forall>u \<in> V. version_of u \<le> version_of v" using assms(1) by (auto simp: best_of_def)
    then have "newer ?u v \<longleftrightarrow> version_of v < version_of ?u" using True assms(2) newer_stable by blast
    with v show ?thesis unfolding b o by (auto simp: best_of_def)
  qed
next
  case False
  moreover have "has_prefix (component @ ''/v'' @ x) (component @ ''/v'')"
    "trim_prefix (component @ ''/v'' @ x) (component @ ''/v'') = x" for x
    using has_prefix_append [of "component @ ''/v''" x] trim_prefix_append [of "component @ ''/v''" x] by simp_all
  ultimately have "offered component [r] = {}" unfolding offered_def by force
  moreover have "better component v r = v" using False by (auto simp: better_def Let_def)
  ultimately show ?thesis using assms(1) by simp
qed

lemma best_page:
  "best_of V v \<Longrightarrow> \<forall>u \<in> V. stable u \<Longrightarrow> best_of (V \<union> offered component rs) (foldl (better component) v rs)"
proof (induction rs arbitrary: V v)
  case Nil
  then show ?case by (simp add: offered_def)
next
  case (Cons r rs)
  have "best_of (V \<union> offered component [r]) (better component v r)" using best_better [OF Cons.prems] .
  moreover have "\<forall>u \<in> V \<union> offered component [r]. stable u" using Cons.prems(2) by (auto simp: offered_def)
  ultimately have "best_of ((V \<union> offered component [r]) \<union> offered component rs) (foldl (better component) (better component v r) rs)"
    by (rule Cons.IH)
  then show ?case by (simp add: offered_Cons [of component r rs] Un_assoc)
qed

lemma latest_from_best:
  "latest_from get component page v = Inr w \<Longrightarrow> best_of V v \<Longrightarrow> \<forall>u \<in> V. stable u \<Longrightarrow>
     \<exists>last rs. page \<le> last \<and> last \<le> 10 \<and> (\<forall>p \<in> {page..last}. get p = Inr (rs p) \<and> (length (rs p) < 100 \<longleftrightarrow> p = last)) \<and>
       w \<noteq> [] \<and> best_of (V \<union> (\<Union>p \<in> {page..last}. offered component (rs p))) w"
proof (induction get component page v arbitrary: V rule: latest_from.induct)
  case (1 get component page v)
  from 1(2) obtain rs where p: "page \<le> 10" and g: "get page = Inr rs"
    by (subst (asm) latest_from.simps) (auto split: if_splits sum.splits)
  let ?v = "foldl (better component) v rs" and ?V = "V \<union> offered component rs"
  have b: "best_of ?V ?v" using best_page [OF 1(3,4)] .
  have st: "\<forall>u \<in> ?V. stable u" using 1(4) by (auto simp: offered_def)
  show ?case
  proof (cases "length rs < 100")
    case True
    then have "w = ?v" "?v \<noteq> []" using 1(2) p g by (subst (asm) latest_from.simps, auto simp: Let_def split: if_splits)+
    with True p g b show ?thesis by (intro exI [of _ page] exI [of _ "\<lambda>_. rs"]) auto
  next
    case False
    then have "latest_from get component (page + 1) ?v = Inr w"
      using 1(2) p g by (subst (asm) latest_from.simps) (simp add: Let_def)
    then obtain last R where l: "page + 1 \<le> last" "last \<le> 10"
      "\<forall>p \<in> {page + 1..last}. get p = Inr (R p) \<and> (length (R p) < 100 \<longleftrightarrow> p = last)" "w \<noteq> []"
      "best_of (?V \<union> (\<Union>p \<in> {page + 1..last}. offered component (R p))) w"
      using "1.IH" [OF _ g refl False _ b st] p by auto
    have i: "{page..last} = insert page {page + 1..last}" using l(1) by auto
    let ?R = "R(page := rs)"
    have "(\<Union>p \<in> {page + 1..last}. offered component (R p)) = (\<Union>p \<in> {page + 1..last}. offered component (?R p))"
      by (intro SUP_cong) auto
    then have "best_of (V \<union> (\<Union>p \<in> {page..last}. offered component (?R p))) w"
      using l(5) unfolding i by (simp add: Un_assoc)
    moreover have "\<forall>p \<in> {page..last}. get p = Inr (?R p) \<and> (length (?R p) < 100 \<longleftrightarrow> p = last)"
      unfolding i using l(1,3) g False by auto
    ultimately show ?thesis using l(1,2,4) by (intro exI [of _ last] exI [of _ ?R]) simp
  qed
qed

text \<open>
  The latest release (\<open>latest\<close>): the version found is released for the component, neither a draft
  nor a prerelease, and no version so released in the whole catalog, all pages to the first short one,
  is newer.
\<close>

theorem latest_newest:
  assumes "latest get component = Inr v"
  shows "\<exists>last rs. last \<le> 10 \<and> (\<forall>p \<in> {1..last}. get p = Inr (rs p) \<and> (length (rs p) < 100 \<longleftrightarrow> p = last)) \<and>
    v \<in> (\<Union>p \<in> {1..last}. offered component (rs p)) \<and> (\<forall>p \<in> {1..last}. \<forall>u \<in> offered component (rs p). \<not> newer u v)"
proof -
  have "best_of {} []" by (simp add: best_of_def)
  from latest_from_best [OF assms [unfolded latest_def] this] obtain last rs where l: "last \<le> 10"
    "\<forall>p \<in> {1..last}. get p = Inr (rs p) \<and> (length (rs p) < 100 \<longleftrightarrow> p = last)"
    and b: "v \<noteq> []" "best_of (\<Union>p \<in> {1..last}. offered component (rs p)) v" by auto
  then have v: "v \<in> (\<Union>p \<in> {1..last}. offered component (rs p))" by (simp add: best_of_def)
  have "\<not> newer u v" if "p \<in> {1..last}" "u \<in> offered component (rs p)" for p u
  proof -
    have "version_of u \<le> version_of v" using b that unfolding best_of_def by blast
    moreover have "stable u" "stable v" using v that(2) by (auto simp: offered_def)
    ultimately show ?thesis using newer_stable by (simp add: not_less)
  qed
  with l v show ?thesis by blast
qed

section \<open>Installing is safe\<close>

lemma unpack_entries_names:
  "unpack_entries component dir es n files = Inr files' \<Longrightarrow> set (keys files) \<subseteq> {component, ''README.md'', ''LICENSE'', ''herdr-plugin.toml''} \<Longrightarrow>
     set (keys files') \<subseteq> {component, ''README.md'', ''LICENSE'', ''herdr-plugin.toml''}"
proof (induction component dir es n files rule: unpack_entries.induct)
  case (3 component dir h es n files)
  show ?case
  proof (cases "eType h = Dir \<and> eName h = dir")
    case True
    then show ?thesis using 3 by (simp split: if_splits)
  next
    case False
    let ?name = "trim_prefix (eName h) dir"
    obtain d where n: "?name \<in> {component, ''README.md'', ''LICENSE'', ''herdr-plugin.toml''}"
      and u: "unpack_entries component dir es (n + 1) (put ?name (take (maxArchive + 1) d) files) = Inr files'"
      and c: "\<not> n \<ge> 16" "has_prefix (eName h) dir" "eType h = Reg" "eSize h \<ge> 0" "eSize h \<le> int maxArchive"
        "map_of files ?name = None" "eData h = Some d"
        "\<not> (?name \<notin> {component, ''README.md'', ''LICENSE''} \<and> ?name = ''herdr-plugin.toml'' \<and> component \<noteq> ''bee'')"
      using 3(3) False by (simp add: Let_def split: if_splits option.splits)
    have "set (keys (put ?name (take (maxArchive + 1) d) files)) \<subseteq> {component, ''README.md'', ''LICENSE'', ''herdr-plugin.toml''}"
      using 3(4) n by simp
    then show ?thesis using "3.IH"(2) [OF c(1) False refl] c n u by simp
  qed
qed simp_all

lemma fetch_sum:
  assumes "fetch w component v platform = Inr archive"
  shows "\<exists>sums want. download w (component @ ''%2Fv'' @ v @ ''/'' @ ''SHA256SUMS'') (64 * 1024) = Some sums \<and>
    checksum (archive_name component v platform) sums = Inr want \<and> to_lower (hex (digest w archive)) = to_lower want"
  using assms by (auto simp: fetch_def Let_def split: option.splits sum.splits if_splits)

lemma replace_cases:
  assumes "replace_files w bin man s = (s', e)"
  shows "(exeF s' = exeF s \<and> e \<noteq> None \<or> exeF s' = bin \<and> e = None) \<and>
    (manifestF s' = manifestF s \<or> (\<exists>m. man = Some m \<and> manifestF s' = Contents m)) \<and>
    (exeF s' \<noteq> exeF s \<longrightarrow> (\<forall>m. man = Some m \<longrightarrow> manifestF s' = Contents m))"
  using assms by (auto simp: replace_files_def Let_def split: option.splits if_splits)

text \<open>What was checked before any file is replaced.\<close>

definition checked_update :: "world \<Rightarrow> bytes \<Rightarrow> bytes \<Rightarrow> installation \<Rightarrow> bytes \<Rightarrow> (bytes, bytes) gomap \<Rightarrow> bool" where
  "checked_update w component platform s v files \<longleftrightarrow>
     latest (catalog_page w) component = Inr v \<and>
     (\<exists>current. run_version w (exeF s) = Some current \<and> newer v current) \<and>
     (\<exists>archive sums want. download w (component @ ''%2Fv'' @ v @ ''/'' @ ''SHA256SUMS'') (64 * 1024) = Some sums \<and>
        checksum (archive_name component v platform) sums = Inr want \<and>
        to_lower (hex (digest w archive)) = to_lower want \<and> unpack component platform (entries w archive) = Inr files) \<and>
     run_version w (content_of files component) = Some v"

lemma Install_cases:
  assumes "Install w component platform s = (s', r)"
  obtains (unchanged) "s' = s" "\<And>v. r \<noteq> Inr (v, True)"
  | (replaced) v files man e where "checked_update w component platform s v files"
      "new_manifest w component v files (manifestF s) = Inr man"
      "replace_files w (content_of files component) man s = (s', e)"
      "r = (case e of None \<Rightarrow> Inr (v, True) | Some e \<Rightarrow> Inl e)"
proof (cases "\<exists>current v archive files man. run_version w (exeF s) = Some current \<and> latest (catalog_page w) component = Inr v \<and>
    newer v current \<and> fetch w component v platform = Inr archive \<and> unpack component platform (entries w archive) = Inr files \<and>
    staged w (content_of files component) \<and> run_version w (content_of files component) = Some v \<and>
    new_manifest w component v files (manifestF s) = Inr man")
  case True
  then obtain current v archive files man where c: "run_version w (exeF s) = Some current"
    "latest (catalog_page w) component = Inr v" "newer v current" "fetch w component v platform = Inr archive"
    "unpack component platform (entries w archive) = Inr files" "staged w (content_of files component)"
    "run_version w (content_of files component) = Some v" "new_manifest w component v files (manifestF s) = Inr man"
    by blast
  have "checked_update w component platform s v files"
    unfolding checked_update_def using c fetch_sum [OF c(4)] by blast
  moreover obtain e where "replace_files w (content_of files component) man s = (s', e)"
    "r = (case e of None \<Rightarrow> Inr (v, True) | Some e \<Rightarrow> Inl e)"
    using assms c by (auto simp: Install_def Let_def split: prod.splits option.splits)
  ultimately show thesis using replaced c(8) by blast
next
  case False
  then have "s' = s \<and> (\<forall>v. r \<noteq> Inr (v, True))"
    using assms by (auto simp: Install_def Let_def split: option.splits sum.splits if_splits prod.splits)
  then show thesis using unchanged by blast
qed

text \<open>
  C34. Safe installation (\<open>Install\<close>): unless the newest release is newer than what is installed, its archive
  has the published checksum, unpacks to the expected files, and its binary reports that very version, both files
  stay as they are; when they are replaced, the executable is that binary, the manifest is replaced
  before it, and success is reported exactly when the executable was.
\<close>

theorem install_safe:
  assumes "Install w component platform s = (s', r)"
  shows "(s' = s \<and> (\<forall>v. r \<noteq> Inr (v, True))) \<or>
    (\<exists>v files. checked_update w component platform s v files \<and>
       set (keys files) \<subseteq> {component, ''README.md'', ''LICENSE'', ''herdr-plugin.toml''} \<and>
       (manifestF s' = manifestF s \<or> manifestF s' = Contents (content_of files ''herdr-plugin.toml'')) \<and>
       (case r of Inr (u, done) \<Rightarrow> u = v \<and> done \<and> exeF s' = content_of files component \<and> run_version w (exeF s') = Some v
        | Inl _ \<Rightarrow> exeF s' = exeF s))"
proof (cases rule: Install_cases [OF assms, case_names unchanged replaced])
  case (replaced v files man e)
  note R = replace_cases [OF replaced(3)]
  obtain archive where "unpack component platform (entries w archive) = Inr files"
    using replaced(1) by (auto simp: checked_update_def)
  then have "set (keys files) \<subseteq> {component, ''README.md'', ''LICENSE'', ''herdr-plugin.toml''}"
    using unpack_entries_names [of component _ _ 0 "[]" files]
    by (auto simp: unpack_def split: option.splits sum.splits if_splits)
  moreover have "man = None \<or> man = Some (content_of files ''herdr-plugin.toml'')"
    using replaced(2) by (auto simp: new_manifest_def Let_def split: if_splits stored.splits)
  then have "manifestF s' = manifestF s \<or> manifestF s' = Contents (content_of files ''herdr-plugin.toml'')" using R by auto
  moreover have "run_version w (content_of files component) = Some v" using replaced(1) by (simp add: checked_update_def)
  moreover have "case r of Inr (u, done) \<Rightarrow> u = v \<and> done \<and> exeF s' = content_of files component | Inl _ \<Rightarrow> exeF s' = exeF s"
    using R replaced(4) by (cases e) auto
  ultimately show ?thesis using replaced(1) by (intro disjI2 exI [of _ v] exI [of _ files]) (auto split: sum.splits)
qed simp

section \<open>Lines of the checksum list\<close>

definition visible :: "char \<Rightarrow> bool" where
  "visible c \<longleftrightarrow> 33 \<le> (of_char c :: nat) \<and> of_char c < (128 :: nat)"

lemma visible_head: "visible c \<Longrightarrow> c \<notin> hd ` set spaces"
proof -
  have "\<forall>w \<in> set spaces. \<not> visible (hd w)" by (simp add: spaces_def upt_rec visible_def)
  then show "visible c \<Longrightarrow> ?thesis" by blast
qed

lemma visible_find: "visible c \<Longrightarrow> List.find (has_prefix (c # s)) spaces = None"
proof -
  assume c: "visible c"
  have ne: "\<forall>w \<in> set spaces. w \<noteq> []" by (simp add: spaces_def)
  have "\<not> has_prefix (c # s) w" if w: "w \<in> set spaces" for w
  proof
    assume "has_prefix (c # s) w"
    then obtain t where "c # s = w @ t" using has_prefix_iff by blast
    then have "c = hd w" using ne w by (cases w) auto
    with visible_head [OF c] w show False by blast
  qed
  then show ?thesis by (simp add: find_None_iff)
qed

lemma take_field_visible: "list_all visible w \<Longrightarrow> take_field n (w @ s) = w @ take_field n s"
  by (induction w) (simp_all add: visible_find)

lemma blank_find: "List.find (has_prefix (CHR '' '' # s)) spaces = Some '' ''"
  by (simp add: spaces_def has_prefix_def)

lemma Fields_pair:
  assumes "h \<noteq> []" and "list_all visible h" and "n \<noteq> []" and "list_all visible n"
  shows "Fields (h @ ''  '' @ n) = [h, n]"
proof -
  obtain c h' where h: "h = c # h'" using assms(1) by (cases h) auto
  obtain d n' where n: "n = d # n'" using assms(3) by (cases n) auto
  have th: "take_field 0 (h @ ''  '' @ n) = h"
    using take_field_visible [OF assms(2), of 0 "''  '' @ n"] by (simp add: blank_find)
  have tn: "take_field 0 n = n" using take_field_visible [OF assms(4), of 0 "[]"] by simp
  have sh: "skip_spaces k (h @ s) = h @ s" for k s
    using assms(2) visible_head by (intro skip_spaces_id) (simp_all add: h)
  have sn: "skip_spaces k n = n" for k
    using assms(4) visible_head by (intro skip_spaces_id) (simp_all add: n)
  have s2: "skip_spaces (Suc (Suc k)) (''  '' @ n) = n" for k by (simp add: blank_find sn)
  have e: "fields_of k [] = []" for k by (cases k) simp_all
  have "fields_of (Suc k) (''  '' @ n) = [n]" for k
  proof -
    have "skip_spaces (length (''  '' @ n)) (''  '' @ n) = n" using s2 by simp
    then show ?thesis using assms(3) tn e by (simp only: fields_of.simps Let_def if_False drop_all order_refl)
  qed
  moreover have "length (h @ ''  '' @ n) = Suc (Suc (length h' + 2 + length n'))" by (simp add: h n)
  moreover have "drop (length h) (h @ ''  '' @ n) = ''  '' @ n" by simp
  ultimately show ?thesis
    unfolding Fields_def using assms(1) th sh by (simp only: fields_of.simps Let_def if_False)
qed

section \<open>An update\<close>

definition sample_catalog :: "nat \<Rightarrow> uerror + release list" where
  "sample_catalog p = Inr [\<lparr>relTag = ''bee/v2.0.0'', relDraft = False, relPrerelease = False\<rparr>,
     \<lparr>relTag = ''hive/v0.9.12'', relDraft = False, relPrerelease = False\<rparr>,
     \<lparr>relTag = ''hive/v0.10.0'', relDraft = False, relPrerelease = False\<rparr>,
     \<lparr>relTag = ''hive/v0.11.0'', relDraft = True, relPrerelease = False\<rparr>]"

definition sample_sums :: bytes where
  "sample_sums = hex (replicate 32 CHR ''d'') @ ''  hive-0.10.0-linux.tar.gz'' @ [CHR 0x0A]"

definition sample_world :: world where
  "sample_world = \<lparr>run_version = (\<lambda>b. Some (if b = ''old'' then ''0.9.12'' else ''0.10.0'')), catalog_page = sample_catalog,
     download = (\<lambda>path n. Some (if path = ''hive%2Fv0.10.0/SHA256SUMS'' then sample_sums else ''tar'')),
     digest = (\<lambda>_. replicate 32 CHR ''d''),
     entries = (\<lambda>_. Some [Some \<lparr>eType = Reg, eName = ''hive-linux/hive'', eSize = 3, eData = Some ''new''\<rparr>]),
     staged = (\<lambda>_. True), renamed = (\<lambda>_. True)\<rparr>"

lemma sample_latest: "latest sample_catalog ''hive'' = Inr ''0.10.0''"
  by code_simp

lemma latest_newest_witness: "\<exists>rs. sample_catalog 1 = Inr rs \<and> ''0.10.0'' \<in> offered ''hive'' rs \<and> ''0.9.12'' \<in> offered ''hive'' rs"
proof -
  obtain last rs where l: "\<forall>p \<in> {1..last}. sample_catalog p = Inr (rs p) \<and> (length (rs p) < 100 \<longleftrightarrow> p = last)"
    "''0.10.0'' \<in> (\<Union>p \<in> {1..last}. offered ''hive'' (rs p))"
    using latest_newest [OF sample_latest] by blast
  then obtain p where p: "p \<in> {1..last}" "''0.10.0'' \<in> offered ''hive'' (rs p)" by blast
  then have c: "sample_catalog 1 = Inr (rs p)" using l(1) by (simp add: sample_catalog_def)
  have "rs p = (case sample_catalog 1 of Inr x \<Rightarrow> x | Inl _ \<Rightarrow> [])" unfolding c by simp
  then have "''0.9.12'' \<in> offered ''hive'' (rs p)"
    by (simp only: sample_catalog_def sum.inject) (auto simp: offered_def stable_def stable_field_def digit_def)
  with c p(2) show ?thesis by blast
qed

lemma sample_newer: "newer ''0.10.0'' ''0.9.12''"
  by code_simp

lemma sample_sum: "checksum (archive_name ''hive'' ''0.10.0'' ''linux'') sample_sums = Inr (hex (replicate 32 CHR ''d''))"
proof -
  let ?h = "hex (replicate 32 CHR ''d'')" and ?n = "''hive-0.10.0-linux.tar.gz''"
  have h: "?h \<noteq> []" "list_all visible ?h" "CHR 0x0A \<notin> set ?h" by code_simp+
  have n: "?n \<noteq> []" "list_all visible ?n" "CHR 0x0A \<notin> set ?n" by code_simp+
  have "split_on CHR 0x0A sample_sums = [?h @ ''  '' @ ?n, []]"
    using split_on_append [of "CHR 0x0A" "?h @ ''  '' @ ?n" "[]"] h(3) n(3) by (simp add: sample_sums_def)
  moreover have "Fields [] = []" by (simp add: Fields_def)
  ultimately have "find_sum ?n (split_on CHR 0x0A sample_sums) [] = Some ?h"
    using Fields_pair [OF h(1,2) n(1,2)] by simp
  moreover have "length (replicate 32 CHR ''d'') = 32" by (rule length_replicate)
  ultimately show ?thesis by (simp only: checksum_def archive_name_def append.simps option.case unhex_hex) simp
qed

lemma sample_fetch: "fetch sample_world ''hive'' ''0.10.0'' ''linux'' = Inr ''tar''"
  using sample_sum by (simp add: fetch_def Let_def sample_world_def archive_name_def)

lemma sample_unpack: "unpack ''hive'' ''linux'' (entries sample_world ''tar'') = Inr [(''hive'', ''new'')]"
  by (simp add: unpack_def sample_world_def Let_def has_prefix_def trim_prefix_def maxArchive_def content_of_def)

lemma sample_install: "Install sample_world ''hive'' ''linux'' \<lparr>exeF = ''old'', manifestF = NoFile\<rparr> =
    (\<lparr>exeF = ''new'', manifestF = NoFile\<rparr>, Inr (''0.10.0'', True))"
proof -
  have w: "run_version sample_world ''old'' = Some ''0.9.12''" "run_version sample_world ''new'' = Some ''0.10.0''"
    "catalog_page sample_world = sample_catalog" "staged sample_world x" "renamed sample_world x" for x
    by (simp_all add: sample_world_def)
  show ?thesis
    using sample_unpack by (simp add: Install_def w sample_latest sample_newer sample_fetch content_of_def new_manifest_def
        replace_files_def Let_def)
qed

lemma install_safe_witness: "\<exists>v files. checked_update sample_world ''hive'' ''linux'' \<lparr>exeF = ''old'', manifestF = NoFile\<rparr> v files \<and>
    content_of files ''hive'' = ''new'' \<and> v = ''0.10.0''"
  using install_safe [OF sample_install] by auto

end
