(* ===== verification/Sizing.thy ===== *)
theory Sizing
  imports Adapter Json
begin

text \<open>
  The sizing of shared terminals in Bee (\<open>bee/internal/herdr/sizing.go\<close>). A helper process per pane keeps
  the size of its terminal while any viewer shows the pane; the viewers of one published session share
  its helpers by reference counts, and at most 32 helpers run in the process, over all sessions. A helper
  nobody uses is kept for a while, and is given up when another pane needs its slot.
  \<open>*sizeLock\<close>, \<open>*Sizing\<close> and \<open>*sizeView\<close> pointers are natural numbers. What runs under the mutex of a session is
  one operation; those of different sessions follow one another. The answers of Herdr's API, the start
  of a helper and the state of contexts are the environment \<open>senv\<close>, asked with the number of the call.
\<close>

section \<open>Failures\<close>

datatype sfail = Sizing_unavailable | Native_protocol | Sizing_limit | Navigation_timeout | Binding_closed | Plain_error
  | Nil_size    \<comment> \<open>the dereference of a size that was never read, a panic\<close>
  | Double_close    \<comment> \<open>the second close of a channel, a panic\<close>

text \<open>The code a \<open>StreamFailure\<close> reports and whether it may be retried; the others are plain errors.\<close>

definition failure_code :: "sfail \<Rightarrow> (bytes \<times> bool) option" where
  "failure_code e =
     (case e of
        Sizing_unavailable \<Rightarrow> Some (''sizing_unavailable'', False)
      | Native_protocol \<Rightarrow> Some (''native_protocol'', False)
      | Sizing_limit \<Rightarrow> Some (''sizing_limit'', True)
      | Navigation_timeout \<Rightarrow> Some (''navigation_timeout'', True)
      | _ \<Rightarrow> None)"

section \<open>The size of a terminal\<close>

record geometry =
  gTerminal :: bytes
  gCols :: nat
  gRows :: nat
  gXpixel :: nat
  gYpixel :: nat

text \<open>\<open>terminalGeometry\<close>, from what the two API calls, \<open>ps\<close> and the ioctl on the device answer.\<close>

definition terminalGeometry :: "sfail + bytes \<Rightarrow> sfail + int \<Rightarrow> sfail + bytes \<Rightarrow> (bytes \<Rightarrow> sfail + nat \<times> nat \<times> nat \<times> nat) \<Rightarrow>
    sfail + geometry" where
  "terminalGeometry pane_get process_info ps winsize =
     (case pane_get of Inl e \<Rightarrow> Inl e | Inr terminal \<Rightarrow>
      case process_info of Inl e \<Rightarrow> Inl e | Inr pid \<Rightarrow>
      if pid \<le> 0 \<or> terminal = [] then Inl Sizing_unavailable
      else case ps of Inl e \<Rightarrow> Inl e | Inr out \<Rightarrow>
        (let tty = trim_space out in
         if tty = [] \<or> tty = ''?'' \<or> tty = ''??'' \<or> has_prefix tty ''/'' \<or> contains tty ''..'' then Inl Sizing_unavailable
         else case winsize (''/dev/'' @ tty) of Inl e \<Rightarrow> Inl e | Inr (cols, rows, x, y) \<Rightarrow>
           if cols = 0 \<or> rows = 0 \<or> cols * rows > 65536 then Inl Sizing_unavailable
           else Inr \<lparr>gTerminal = terminal, gCols = cols, gRows = rows, gXpixel = x, gYpixel = y\<rparr>))"

section \<open>State\<close>

record lock =
  lRefs :: int
  lDone :: bool                 \<comment> \<open>the helper has ended and its slot is free\<close>
  lRetire :: "u64 option"       \<comment> \<open>the pending retirement and its epoch\<close>
  lEpoch :: u64
  lRetired :: bool

record sizing =
  sClosed :: bool
  sLocks :: "(bytes, nat) gomap"
  sPanes :: "bytes list option"     \<comment> \<open>the set of panes, \<open>None\<close> for nil\<close>

record navigation =
  navTab :: bytes
  navSeq :: u64
  navAck :: bool
  navFloor :: u64
  navSince :: nat

record snapshot =
  snRevision :: u64
  snBoot :: bytes
  snTab :: bytes
  snWorkspaces :: "(bytes \<times> bytes) list"   \<comment> \<open>identifier and active tab\<close>
  snPanes :: "(bytes \<times> bytes) list"        \<comment> \<open>identifier and tab\<close>

text \<open>\<open>vHeld\<close> is \<open>held\<close> and \<open>heldLocks\<close>, which have the same keys.\<close>

record view =
  vSizing :: nat
  vActive :: bool
  vSnapshot :: snapshot
  vCatalogSeen :: bool
  vHeld :: "(bytes, nat) gomap"
  vPending :: "(bytes, navigation) gomap"
  vSequence :: u64
  vInitial :: bool
  vInitialized :: bool
  vActivity :: u64
  vHide :: "(bytes, u64) gomap"
  vRequested :: bool
  vReady :: bool

record bee =
  locks :: "nat \<Rightarrow> lock"
  nextLock :: nat
  sizings :: "nat \<Rightarrow> sizing"
  views :: "nat \<Rightarrow> view"
  nextView :: nat
  helpers :: "nat list"         \<comment> \<open>the taken \<open>sizeSlots\<close>\<close>
  idleSizes :: "nat list"       \<comment> \<open>in the order the next \<open>range\<close> visits them\<close>
  scheduled :: "(nat \<times> bytes \<times> nat \<times> u64) list"    \<comment> \<open>calls of \<open>expire\<close> a timer may still make\<close>
  calls :: nat

record senv =
  cancelledE :: "nat \<Rightarrow> bool"
  geometryE :: "nat \<Rightarrow> bytes \<Rightarrow> sfail + geometry"
  holdE :: "nat \<Rightarrow> geometry \<Rightarrow> sfail option"
  panesE :: "nat \<Rightarrow> sfail + bytes list"
  nowE :: nat
  sendE :: "nat \<Rightarrow> bytes \<Rightarrow> sfail option"    \<comment> \<open>writing a frame to Herdr\<close>

definition max_helpers :: nat where "max_helpers = 32"
definition max_pending :: nat where "max_pending = 64"

definition upd_lock :: "nat \<Rightarrow> (lock \<Rightarrow> lock) \<Rightarrow> bee \<Rightarrow> bee" where
  "upd_lock l f s = s\<lparr>locks := (locks s)(l := f (locks s l))\<rparr>"

definition upd_sizing :: "nat \<Rightarrow> (sizing \<Rightarrow> sizing) \<Rightarrow> bee \<Rightarrow> bee" where
  "upd_sizing p f s = s\<lparr>sizings := (sizings s)(p := f (sizings s p))\<rparr>"

definition upd_view :: "nat \<Rightarrow> (view \<Rightarrow> view) \<Rightarrow> bee \<Rightarrow> bee" where
  "upd_view v f s = s\<lparr>views := (views s)(v := f (views s v))\<rparr>"

definition lock_at :: "bee \<Rightarrow> nat \<Rightarrow> bytes \<Rightarrow> nat option" where
  "lock_at s p pane = map_of (sLocks (sizings s p)) pane"

text \<open>The environment is asked.\<close>

definition asked :: "bee \<Rightarrow> bee" where
  "asked s = s\<lparr>calls := calls s + 1\<rparr>"

section \<open>Helpers and slots\<close>

text \<open>The end of a helper, cancelled or by itself: its slot is free before \<open>done\<close> is closed.\<close>

definition helper_ends :: "nat \<Rightarrow> bee \<Rightarrow> bee" where
  "helper_ends l s = (upd_lock l (\<lambda>x. x\<lparr>lDone := True\<rparr>) s)\<lparr>helpers := removeAll l (helpers s)\<rparr>"

text \<open>\<open>reserveSizeSlot\<close>: while no slot is free, the helper of an idle lock is ended.\<close>

definition evict :: "nat \<Rightarrow> bee \<Rightarrow> bee" where
  "evict l s = helper_ends l ((upd_lock l (\<lambda>x. x\<lparr>lRetired := True\<rparr>) s)\<lparr>idleSizes := removeAll l (idleSizes s)\<rparr>)"

function reserveSizeSlot :: "bee \<Rightarrow> bee \<times> sfail option" where
  "reserveSizeSlot s =
     (if length (helpers s) < max_helpers then (s, None)
      else case idleSizes s of
        [] \<Rightarrow> (s, Some Sizing_limit)
      | l # _ \<Rightarrow> reserveSizeSlot (evict l s))"
  by pat_completeness auto
termination
  by (relation "measure (\<lambda>s. length (idleSizes s))")
    (auto simp: evict_def helper_ends_def upd_lock_def less_Suc_eq_le length_removeAll_less_eq)

declare reserveSizeSlot.simps [simp del]

text \<open>The helper's output until it is ready: the type of each line, \<open>None\<close> for a line that is no JSON. The
  result is the error or, once a frame has arrived, the pixel size that is restored, if any.\<close>

fun helper_setup :: "geometry \<Rightarrow> bytes option list \<Rightarrow> sfail + (nat \<times> nat) option" where
  "helper_setup g [] = Inl Sizing_unavailable"
| "helper_setup g (None # ls) = Inl Native_protocol"
| "helper_setup g (Some t # ls) =
     (if t = ''terminal.closed'' then Inl Sizing_unavailable
      else if t = ''terminal.frame'' then
        Inr (if gXpixel g > 0 \<and> gYpixel g > 0 then Some (gXpixel g div gCols g, gYpixel g div gRows g) else None)
      else helper_setup g ls)"

text \<open>\<open>holdSize\<close>: the slot is given back unless the helper is ready.\<close>

definition holdSize :: "senv \<Rightarrow> geometry \<Rightarrow> bee \<Rightarrow> bee \<times> (sfail + nat)" where
  "holdSize E g s =
     (if cancelledE E (calls s) then (asked s, Inl Plain_error)
      else case reserveSizeSlot s of
        (s1, Some e) \<Rightarrow> (asked s1, Inl e)
      | (s1, None) \<Rightarrow>
          (case holdE E (calls s1) g of
             Some e \<Rightarrow> (asked s1, Inl e)
           | None \<Rightarrow>
               (let l = nextLock s1 in
                ((asked s1)\<lparr>locks := (locks s1)(l := \<lparr>lRefs = 0, lDone = False, lRetire = None, lEpoch = 0, lRetired = False\<rparr>),
                   nextLock := l + 1, helpers := l # helpers s1\<rparr>, Inr l))))"

section \<open>Locks of a session\<close>

definition stopLocked :: "nat \<Rightarrow> bytes \<Rightarrow> nat \<Rightarrow> bee \<Rightarrow> bee" where
  "stopLocked p pane l s =
     (let s1 = upd_lock l (\<lambda>x. x\<lparr>lEpoch := lEpoch x + 1, lRetire := None, lRetired := True\<rparr>) s;
          s2 = helper_ends l (s1\<lparr>idleSizes := removeAll l (idleSizes s1)\<rparr>)
      in if lock_at s2 p pane = Some l then upd_sizing p (\<lambda>x. x\<lparr>sLocks := del pane (sLocks x)\<rparr>) s2 else s2)"

definition releaseLocked :: "nat \<Rightarrow> bytes \<Rightarrow> nat option \<Rightarrow> bee \<Rightarrow> bee" where
  "releaseLocked p pane held s =
     (case lock_at s p pane of
        None \<Rightarrow> s
      | Some l \<Rightarrow>
          if held \<noteq> None \<and> held \<noteq> Some l then s
          else
            (let s1 = upd_lock l (\<lambda>x. x\<lparr>lRefs := lRefs x - 1\<rparr>) s in
             if lRefs (locks s1 l) \<noteq> 0 then s1
             else if lDone (locks s1 l) then stopLocked p pane l s1
             else
               (let epoch = lEpoch (locks s1 l) + 1 in
                (upd_lock l (\<lambda>x. x\<lparr>lEpoch := epoch, lRetire := Some epoch\<rparr>) s1)
                  \<lparr>idleSizes := List.insert l (idleSizes s1), scheduled := (p, pane, l, epoch) # scheduled s1\<rparr>)))"

definition expire :: "nat \<Rightarrow> bytes \<Rightarrow> nat \<Rightarrow> u64 \<Rightarrow> bee \<Rightarrow> bee" where
  "expire p pane l epoch s =
     (if lock_at s p pane = Some l \<and> lRefs (locks s l) = 0 \<and> lEpoch (locks s l) = epoch
      then stopLocked p pane l s else s)"

definition reuseLocked :: "nat \<Rightarrow> bytes \<Rightarrow> nat \<Rightarrow> bee \<Rightarrow> bee \<times> bool" where
  "reuseLocked p pane l s =
     (let s1 = s\<lparr>idleSizes := removeAll l (idleSizes s)\<rparr> in
      if lRetired (locks s l) then (stopLocked p pane l s1, False)
      else (upd_lock l (\<lambda>x. x\<lparr>lEpoch := lEpoch x + 1, lRetire := None\<rparr>) s1, True))"

text \<open>\<open>watch\<close>, after the helper has ended.\<close>

definition watch :: "nat \<Rightarrow> bytes \<Rightarrow> nat \<Rightarrow> bee \<Rightarrow> bee" where
  "watch p pane l s =
     (if lock_at s p pane \<noteq> Some l \<or> lRefs (locks s l) \<noteq> 0 then s else stopLocked p pane l s)"

fun stop_all :: "nat \<Rightarrow> (bytes, nat) gomap \<Rightarrow> (bytes \<Rightarrow> bool) \<Rightarrow> bee \<Rightarrow> bee" where
  "stop_all p [] keep s = s"
| "stop_all p ((pane, l) # ls) keep s = stop_all p ls keep (if keep pane then s else stopLocked p pane l s)"

text \<open>\<open>Sizing.close\<close>.\<close>

definition sizing_close :: "nat \<Rightarrow> bee \<Rightarrow> bee" where
  "sizing_close p s =
     (let s1 = upd_sizing p (\<lambda>x. x\<lparr>sClosed := True\<rparr>) s
      in stop_all p (sLocks (sizings s1 p)) (\<lambda>_. False) s1)"

section \<open>The panes of a session\<close>

definition refreshPanesLocked :: "senv \<Rightarrow> nat \<Rightarrow> bee \<Rightarrow> bee \<times> sfail option" where
  "refreshPanesLocked E p s =
     (case panesE E (calls s) of
        Inl e \<Rightarrow> (asked s, Some e)
      | Inr panes \<Rightarrow>
          (let s1 = upd_sizing p (\<lambda>x. x\<lparr>sPanes := Some panes\<rparr>) (asked s)
           in (stop_all p (sLocks (sizings s1 p)) (\<lambda>a. a \<in> set panes) s1, None)))"

definition snapshotLocked :: "senv \<Rightarrow> nat \<Rightarrow> snapshot \<Rightarrow> bee \<Rightarrow> bee \<times> sfail option" where
  "snapshotLocked E p sn s =
     (let panes = map fst (snPanes sn) in
      if snBoot sn = [] then (s, None)
      else case sPanes (sizings s p) of
        Some known \<Rightarrow>
          if length (remdups known) = length panes \<and> list_all (\<lambda>a. a \<in> set known) panes then (s, None)
          else refreshPanesLocked E p s
      | None \<Rightarrow>
          if list_all (\<lambda>a. a \<in> set panes) (keys (sLocks (sizings s p)))
          then (upd_sizing p (\<lambda>x. x\<lparr>sPanes := Some panes\<rparr>) s, None)
          else refreshPanesLocked E p s)"

text \<open>An acquisition that failed because the pane is gone is no error.\<close>

definition acquisitionErrorLocked :: "senv \<Rightarrow> bytes \<Rightarrow> sfail \<Rightarrow> bee \<Rightarrow> bee \<times> sfail option" where
  "acquisitionErrorLocked E pane e s =
     (if cancelledE E (calls s) then (asked s, Some Plain_error)
      else case panesE E (calls s) of
        Inr panes \<Rightarrow> if pane \<in> set panes then (asked s, Some e) else (asked s, None)
      | Inl _ \<Rightarrow> (asked s, Some e))"

section \<open>Reconciling a view\<close>

type_synonym plan = "bytes list \<times> (bytes, geometry) gomap"    \<comment> \<open>wanted panes and sizes read\<close>

definition visible_tabs :: "view \<Rightarrow> bytes list" where
  "visible_tabs v = snTab (vSnapshot v) # map navTab (vals (vPending v))"

text \<open>The panes to hold, in the order of the snapshot; \<open>known\<close> is the session's \<open>panes\<close>.\<close>

fun panes_on :: "bytes list \<Rightarrow> bytes list option \<Rightarrow> (bytes \<times> bytes) list \<Rightarrow> bytes list \<Rightarrow> bytes list" where
  "panes_on tabs known [] order = order"
| "panes_on tabs known ((a, t) # ps) order =
     panes_on tabs known ps
       (if t \<in> set tabs \<and> a \<notin> set order \<and> (case known of None \<Rightarrow> True | Some k \<Rightarrow> a \<in> set k) then order @ [a] else order)"

definition wanted_panes :: "senv \<Rightarrow> view \<Rightarrow> bytes list option \<Rightarrow> sfail + bytes list" where
  "wanted_panes E v known =
     (if \<not> vActive v then Inr []
      else if list_ex (\<lambda>n. nowE E - navSince n > 10000) (vals (vPending v)) then Inl Navigation_timeout
      else
        (let order = panes_on (visible_tabs v) known (snPanes (vSnapshot v)) []
         in if length order > max_helpers then Inl Sizing_limit else Inr order))"

text \<open>A pane whose size cannot be had: an error, or, when it is gone, no longer wanted.\<close>

definition give_up :: "senv \<Rightarrow> bytes \<Rightarrow> sfail \<Rightarrow> plan \<Rightarrow> bee \<Rightarrow> bee \<times> (sfail + plan)" where
  "give_up E pane e pl s =
     (case acquisitionErrorLocked E pane e s of
        (s1, Some e1) \<Rightarrow> (s1, Inl e1)
      | (s1, None) \<Rightarrow> (s1, Inr (removeAll pane (fst pl), snd pl)))"

definition read_size :: "senv \<Rightarrow> bytes \<Rightarrow> plan \<Rightarrow> bee \<Rightarrow> bee \<times> (sfail + plan)" where
  "read_size E pane pl s =
     (case geometryE E (calls s) pane of
        Inl e \<Rightarrow> give_up E pane e pl (asked s)
      | Inr g \<Rightarrow> (asked s, Inr (fst pl, put pane g (snd pl))))"

text \<open>The first loop: every new size is read before a helper is started.\<close>

definition drop_retired :: "nat \<Rightarrow> bytes \<Rightarrow> bee \<Rightarrow> bee" where
  "drop_retired p pane s =
     (case lock_at s p pane of
        None \<Rightarrow> s
      | Some l \<Rightarrow> if lRefs (locks s l) = 0 \<and> lRetired (locks s l) then stopLocked p pane l s else s)"

definition preflight_pane :: "senv \<Rightarrow> nat \<Rightarrow> bytes \<Rightarrow> plan \<Rightarrow> bee \<Rightarrow> bee \<times> (sfail + plan)" where
  "preflight_pane E p pane pl s =
     (let s1 = drop_retired p pane s in
      case lock_at s1 p pane of
        None \<Rightarrow> read_size E pane pl s1
      | Some l \<Rightarrow>
          if lDone (locks s1 l) then give_up E pane Sizing_unavailable pl (stopLocked p pane l s1)
          else (s1, Inr pl))"

text \<open>The second loop. The acquisition of one pane: a live lock is shared, an idle one used again, and
  otherwise a helper is started.\<close>

definition share_lock :: "nat \<Rightarrow> bytes \<Rightarrow> nat \<Rightarrow> bee \<Rightarrow> bee" where
  "share_lock v pane l s =
     upd_view v (\<lambda>x. x\<lparr>vHeld := put pane l (vHeld x)\<rparr>) (upd_lock l (\<lambda>x. x\<lparr>lRefs := lRefs x + 1\<rparr>) s)"

definition start_lock :: "senv \<Rightarrow> nat \<Rightarrow> nat \<Rightarrow> bytes \<Rightarrow> plan \<Rightarrow> bee \<Rightarrow> bee \<times> (sfail + plan)" where
  "start_lock E p v pane pl s =
     (case map_of (snd pl) pane of
        None \<Rightarrow> (s, Inl Nil_size)
      | Some g \<Rightarrow>
          (case holdSize E g s of
             (s1, Inl e) \<Rightarrow> give_up E pane e pl s1
           | (s1, Inr l) \<Rightarrow>
               (share_lock v pane l (upd_sizing p (\<lambda>x. x\<lparr>sLocks := put pane l (sLocks x)\<rparr>) s1), Inr pl)))"

definition acquire_pane :: "senv \<Rightarrow> nat \<Rightarrow> nat \<Rightarrow> bytes \<Rightarrow> plan \<Rightarrow> bee \<Rightarrow> bee \<times> (sfail + plan)" where
  "acquire_pane E p v pane pl s =
     (case lock_at s p pane of
        None \<Rightarrow> start_lock E p v pane pl s
      | Some l \<Rightarrow>
          if map_of (vHeld (views s v)) pane = Some l then (s, Inr pl)
          else if lRefs (locks s l) \<noteq> 0 then (share_lock v pane l s, Inr pl)
          else
            (case reuseLocked p pane l s of
               (s1, True) \<Rightarrow> (share_lock v pane l s1, Inr pl)
             | (s1, False) \<Rightarrow>
                 (case read_size E pane pl s1 of
                    (s2, Inl e) \<Rightarrow> (s2, Inl e)
                  | (s2, Inr pl2) \<Rightarrow>
                      if pane \<in> set (fst pl2) then start_lock E p v pane pl2 s2 else (s2, Inr pl2))))"

fun each_pane :: "(bytes \<Rightarrow> plan \<Rightarrow> bee \<Rightarrow> bee \<times> (sfail + plan)) \<Rightarrow> bytes list \<Rightarrow> plan \<Rightarrow> bee \<Rightarrow> bee \<times> (sfail + plan)" where
  "each_pane f [] pl s = (s, Inr pl)"
| "each_pane f (pane # ps) pl s =
     (if pane \<notin> set (fst pl) then each_pane f ps pl s
      else case f pane pl s of
        (s1, Inl e) \<Rightarrow> (s1, Inl e)
      | (s1, Inr pl1) \<Rightarrow> each_pane f ps pl1 s1)"

text \<open>The release of what a view holds and no longer wants.\<close>

definition release_pane :: "nat \<Rightarrow> nat \<Rightarrow> bytes \<times> nat \<Rightarrow> bee \<Rightarrow> bee" where
  "release_pane p v e s =
     upd_view v (\<lambda>x. x\<lparr>vHeld := del (fst e) (vHeld x)\<rparr>) (releaseLocked p (fst e) (Some (snd e)) s)"

fun release_panes :: "nat \<Rightarrow> nat \<Rightarrow> (bytes, nat) gomap \<Rightarrow> bytes list \<Rightarrow> bee \<Rightarrow> bee" where
  "release_panes p v [] wanted s = s"
| "release_panes p v (e # es) wanted s =
     release_panes p v es wanted (if fst e \<in> set wanted then s else release_pane p v e s)"

definition reconcile :: "senv \<Rightarrow> nat \<Rightarrow> bee \<Rightarrow> bee \<times> sfail option" where
  "reconcile E v s =
     (let p = vSizing (views s v) in
      if sClosed (sizings s p) then (s, Some Binding_closed)
      else case (if vCatalogSeen (views s v) then (s, None) else snapshotLocked E p (vSnapshot (views s v)) s) of
        (s0, Some e) \<Rightarrow> (s0, Some e)
      | (s0, None) \<Rightarrow>
          (let s1 = upd_view v (\<lambda>x. x\<lparr>vCatalogSeen := True\<rparr>) s0 in
           case wanted_panes E (views s1 v) (sPanes (sizings s1 p)) of
             Inl e \<Rightarrow> (s1, Some e)
           | Inr order \<Rightarrow>
               (case each_pane (preflight_pane E p) order (order, []) s1 of
                  (s2, Inl e) \<Rightarrow> (s2, Some e)
                | (s2, Inr pl) \<Rightarrow>
                    (case each_pane (acquire_pane E p v) order pl s2 of
                       (s3, Inl e) \<Rightarrow> (s3, Some e)
                     | (s3, Inr pl2) \<Rightarrow> (release_panes p v (vHeld (views s3 v)) (fst pl2) s3, None)))))"

text \<open>\<open>sizeView.close\<close>.\<close>

definition view_close :: "nat \<Rightarrow> bee \<Rightarrow> bee" where
  "view_close v s =
     (let s1 = upd_view v (\<lambda>x. x\<lparr>vActive := False\<rparr>) s
      in release_panes (vSizing (views s1 v)) v (vHeld (views s1 v)) [] s1)"

end
