(* ===== verification/SizingSafety.thy ===== *)
theory SizingSafety
  imports Sizing
begin

text \<open>
  The invariant of the sizing locks: reference counts are the numbers of views that hold a lock, a lock
  is idle exactly while nobody holds it, and no more helpers run than there are slots. Every operation
  keeps it; while one is under way, the locks of a set \<open>X\<close> may be neither held nor idle.
\<close>

section \<open>The invariant\<close>

definition holders :: "bee \<Rightarrow> bytes \<Rightarrow> nat \<Rightarrow> nat set" where
  "holders s a l = {v. v < nextView s \<and> map_of (vHeld (views s v)) a = Some l}"

definition lock_inv :: "nat set \<Rightarrow> bee \<Rightarrow> bool" where
  "lock_inv X s \<longleftrightarrow>
     (\<forall>p. distinct (keys (sLocks (sizings s p)))) \<and>
     (\<forall>p a l. lock_at s p a = Some l \<longrightarrow> l < nextLock s \<and> lRefs (locks s l) = int (card (holders s a l)) \<and>
        (l \<notin> X \<and> lRefs (locks s l) = 0 \<and> \<not> lRetired (locks s l) \<longrightarrow> l \<in> set (idleSizes s)) \<and>
        (lRefs (locks s l) \<noteq> 0 \<longrightarrow> \<not> lRetired (locks s l))) \<and>
     (\<forall>p a q b l. lock_at s p a = Some l \<longrightarrow> lock_at s q b = Some l \<longrightarrow> p = q \<and> a = b) \<and>
     (\<forall>v a l. map_of (vHeld (views s v)) a = Some l \<longrightarrow> v < nextView s \<and> l < nextLock s \<and>
        (\<forall>q b. lock_at s q b = Some l \<longrightarrow> q = vSizing (views s v) \<and> b = a)) \<and>
     (\<forall>v. distinct (keys (vHeld (views s v)))) \<and>
     (\<forall>l \<in> set (idleSizes s). lRefs (locks s l) = 0 \<and> \<not> lRetired (locks s l) \<and> (\<exists>p a. lock_at s p a = Some l))"

definition helper_inv :: "nat set \<Rightarrow> bee \<Rightarrow> bool" where
  "helper_inv X s \<longleftrightarrow> distinct (helpers s) \<and> length (helpers s) \<le> max_helpers \<and>
     (\<forall>l. l \<in> set (helpers s) \<longleftrightarrow> l < nextLock s \<and> \<not> lDone (locks s l)) \<and>
     (\<forall>l < nextLock s. lRetired (locks s l) \<longrightarrow> lDone (locks s l)) \<and>
     (\<forall>l \<in> set (helpers s) - X. \<exists>p a. lock_at s p a = Some l)"

definition sz_inv :: "nat set \<Rightarrow> bee \<Rightarrow> bool" where
  "sz_inv X s \<longleftrightarrow> lock_inv X s \<and> helper_inv X s"

abbreviation sz_ok :: "bee \<Rightarrow> bool" where
  "sz_ok \<equiv> sz_inv {}"

lemma lock_invD:
  assumes "lock_inv X s"
  shows "distinct (keys (sLocks (sizings s p)))"
    and "lock_at s p a = Some l \<Longrightarrow> l < nextLock s"
    and "lock_at s p a = Some l \<Longrightarrow> lRefs (locks s l) = int (card (holders s a l))"
    and "lock_at s p a = Some l \<Longrightarrow> l \<notin> X \<Longrightarrow> lRefs (locks s l) = 0 \<Longrightarrow> \<not> lRetired (locks s l) \<Longrightarrow> l \<in> set (idleSizes s)"
    and "lock_at s p a = Some l \<Longrightarrow> lock_at s q b = Some l \<Longrightarrow> p = q \<and> a = b"
    and "map_of (vHeld (views s v)) a = Some l \<Longrightarrow> v < nextView s \<and> l < nextLock s"
    and "map_of (vHeld (views s v)) a = Some l \<Longrightarrow> lock_at s q b = Some l \<Longrightarrow> q = vSizing (views s v) \<and> b = a"
    and "distinct (keys (vHeld (views s v)))"
    and "l \<in> set (idleSizes s) \<Longrightarrow> lRefs (locks s l) = 0 \<and> \<not> lRetired (locks s l) \<and> (\<exists>p a. lock_at s p a = Some l)"
    and "lock_at s p a = Some l \<Longrightarrow> lRefs (locks s l) \<noteq> 0 \<Longrightarrow> \<not> lRetired (locks s l)"
proof -
  note A = assms [unfolded lock_inv_def]
  note B = A [THEN conjunct2]
  note C = B [THEN conjunct2]
  note D = C [THEN conjunct2]
  note E = D [THEN conjunct2]
  show "distinct (keys (sLocks (sizings s p)))" using A [THEN conjunct1] by (rule spec)
  show "lock_at s p a = Some l \<Longrightarrow> l < nextLock s"
    "lock_at s p a = Some l \<Longrightarrow> lRefs (locks s l) = int (card (holders s a l))"
    "lock_at s p a = Some l \<Longrightarrow> l \<notin> X \<Longrightarrow> lRefs (locks s l) = 0 \<Longrightarrow> \<not> lRetired (locks s l) \<Longrightarrow> l \<in> set (idleSizes s)"
    "lock_at s p a = Some l \<Longrightarrow> lRefs (locks s l) \<noteq> 0 \<Longrightarrow> \<not> lRetired (locks s l)"
    using B [THEN conjunct1, rule_format, of p a l] by simp_all
  show "lock_at s p a = Some l \<Longrightarrow> lock_at s q b = Some l \<Longrightarrow> p = q \<and> a = b"
    using C [THEN conjunct1, rule_format, of p a l q b] .
  show "map_of (vHeld (views s v)) a = Some l \<Longrightarrow> v < nextView s \<and> l < nextLock s"
    using D [THEN conjunct1, rule_format, of v a l] by simp
  show "map_of (vHeld (views s v)) a = Some l \<Longrightarrow> lock_at s q b = Some l \<Longrightarrow> q = vSizing (views s v) \<and> b = a"
    using D [THEN conjunct1, rule_format, of v a l] by simp
  show "distinct (keys (vHeld (views s v)))" using E [THEN conjunct1] by (rule spec)
  show "l \<in> set (idleSizes s) \<Longrightarrow> lRefs (locks s l) = 0 \<and> \<not> lRetired (locks s l) \<and> (\<exists>p a. lock_at s p a = Some l)"
    using E [THEN conjunct2] by (rule bspec)
qed

lemma lock_invI:
  assumes "\<And>p. distinct (keys (sLocks (sizings s p)))"
    and 2: "\<And>p a l. lock_at s p a = Some l \<Longrightarrow> l < nextLock s"
    and 3: "\<And>p a l. lock_at s p a = Some l \<Longrightarrow> lRefs (locks s l) = int (card (holders s a l))"
    and 4: "\<And>p a l. lock_at s p a = Some l \<Longrightarrow> l \<notin> X \<Longrightarrow> lRefs (locks s l) = 0 \<Longrightarrow> \<not> lRetired (locks s l) \<Longrightarrow> l \<in> set (idleSizes s)"
    and 5: "\<And>p a q b l. lock_at s p a = Some l \<Longrightarrow> lock_at s q b = Some l \<Longrightarrow> p = q \<and> a = b"
    and 6: "\<And>v a l. map_of (vHeld (views s v)) a = Some l \<Longrightarrow> v < nextView s \<and> l < nextLock s"
    and 7: "\<And>v a l q b. map_of (vHeld (views s v)) a = Some l \<Longrightarrow> lock_at s q b = Some l \<Longrightarrow> q = vSizing (views s v) \<and> b = a"
    and "\<And>v. distinct (keys (vHeld (views s v)))"
    and "\<And>l. l \<in> set (idleSizes s) \<Longrightarrow> lRefs (locks s l) = 0 \<and> \<not> lRetired (locks s l) \<and> (\<exists>p a. lock_at s p a = Some l)"
    and 10: "\<And>p a l. lock_at s p a = Some l \<Longrightarrow> lRefs (locks s l) \<noteq> 0 \<Longrightarrow> \<not> lRetired (locks s l)"
  shows "lock_inv X s"
proof -
  have "l < nextLock s \<and> lRefs (locks s l) = int (card (holders s a l)) \<and>
      (l \<notin> X \<and> lRefs (locks s l) = 0 \<and> \<not> lRetired (locks s l) \<longrightarrow> l \<in> set (idleSizes s)) \<and>
      (lRefs (locks s l) \<noteq> 0 \<longrightarrow> \<not> lRetired (locks s l))" if "lock_at s p a = Some l" for p a l
    using 2 [OF that] 3 [OF that] 4 [OF that] 10 [OF that] by simp
  moreover have "v < nextView s \<and> l < nextLock s \<and> (\<forall>q b. lock_at s q b = Some l \<longrightarrow> q = vSizing (views s v) \<and> b = a)"
    if "map_of (vHeld (views s v)) a = Some l" for v a l
    using 6 [OF that] 7 [OF that] by simp
  ultimately show ?thesis
    unfolding lock_inv_def using assms(1,8,9) 5 by (intro conjI allI impI ballI) simp_all
qed

lemma helper_invD:
  assumes "helper_inv X s"
  shows "distinct (helpers s)" and "length (helpers s) \<le> max_helpers"
    and "l \<in> set (helpers s) \<longleftrightarrow> l < nextLock s \<and> \<not> lDone (locks s l)"
    and "l < nextLock s \<Longrightarrow> lRetired (locks s l) \<Longrightarrow> lDone (locks s l)"
    and "l \<in> set (helpers s) \<Longrightarrow> l \<notin> X \<Longrightarrow> \<exists>p a. lock_at s p a = Some l"
  using assms unfolding helper_inv_def by simp_all

lemma sz_weaken:
  assumes "sz_inv X s" and "X \<subseteq> Y"
  shows "sz_inv Y s"
proof -
  have l: "lock_inv X s" and h: "helper_inv X s" using assms(1) by (simp_all add: sz_inv_def)
  note D = lock_invD [OF l]
  have "lock_inv Y s"
    by (rule lock_invI; (rule D)?; (assumption | use assms(2) D(4) in blast)?)
  moreover have "helper_inv Y s" using h assms(2) unfolding helper_inv_def by blast
  ultimately show ?thesis by (simp add: sz_inv_def)
qed

text \<open>The first part depends on these alone.\<close>

lemma lock_inv_cong:
  assumes "lock_inv X s" and "lock_at s' = lock_at s" and "\<And>p. sLocks (sizings s' p) = sLocks (sizings s p)"
    and "\<And>v. vHeld (views s' v) = vHeld (views s v)" "\<And>v. vSizing (views s' v) = vSizing (views s v)"
    and "nextView s' = nextView s" "nextLock s' = nextLock s" "idleSizes s' = idleSizes s"
    and "\<And>l. lRefs (locks s' l) = lRefs (locks s l)" "\<And>l. lRetired (locks s' l) = lRetired (locks s l)"
  shows "lock_inv X s'"
proof -
  have ho: "holders s' = holders s" by (simp add: fun_eq_iff holders_def assms(4,6))
  show ?thesis using assms(1) unfolding lock_inv_def ho assms(2-) .
qed

text \<open>What the updates change.\<close>

named_theorems bee_simps

lemma upd_lock_fields [bee_simps]:
  "sizings (upd_lock l f s) = sizings s" "views (upd_lock l f s) = views s" "nextLock (upd_lock l f s) = nextLock s"
  "nextView (upd_lock l f s) = nextView s" "helpers (upd_lock l f s) = helpers s" "idleSizes (upd_lock l f s) = idleSizes s"
  "scheduled (upd_lock l f s) = scheduled s" "calls (upd_lock l f s) = calls s"
  "locks (upd_lock l f s) k = (if k = l then f (locks s l) else locks s k)"
  by (simp_all add: upd_lock_def)

lemma upd_sizing_fields [bee_simps]:
  "locks (upd_sizing p f s) = locks s" "views (upd_sizing p f s) = views s" "nextLock (upd_sizing p f s) = nextLock s"
  "nextView (upd_sizing p f s) = nextView s" "helpers (upd_sizing p f s) = helpers s" "idleSizes (upd_sizing p f s) = idleSizes s"
  "scheduled (upd_sizing p f s) = scheduled s" "calls (upd_sizing p f s) = calls s"
  "sizings (upd_sizing p f s) q = (if q = p then f (sizings s p) else sizings s q)"
  by (simp_all add: upd_sizing_def)

lemma upd_view_fields [bee_simps]:
  "locks (upd_view v f s) = locks s" "sizings (upd_view v f s) = sizings s" "nextLock (upd_view v f s) = nextLock s"
  "nextView (upd_view v f s) = nextView s" "helpers (upd_view v f s) = helpers s" "idleSizes (upd_view v f s) = idleSizes s"
  "scheduled (upd_view v f s) = scheduled s" "calls (upd_view v f s) = calls s"
  "views (upd_view v f s) w = (if w = v then f (views s v) else views s w)"
  by (simp_all add: upd_view_def)

lemma asked_fields [bee_simps]:
  "locks (asked s) = locks s" "sizings (asked s) = sizings s" "nextLock (asked s) = nextLock s" "views (asked s) = views s"
  "nextView (asked s) = nextView s" "helpers (asked s) = helpers s" "idleSizes (asked s) = idleSizes s"
  "scheduled (asked s) = scheduled s"
  by (simp_all add: asked_def)

lemma lock_at_cong: "sizings s' = sizings s \<Longrightarrow> lock_at s' p a = lock_at s p a"
  by (simp add: lock_at_def)

lemma holders_cong: "views s' = views s \<Longrightarrow> nextView s' = nextView s \<Longrightarrow> holders s' a l = holders s a l"
  by (simp add: holders_def)

lemma finite_holders [simp]: "finite (holders s a l)"
  by (simp add: holders_def)

text \<open>Only what the invariant reads matters.\<close>

definition same_locks :: "bee \<Rightarrow> bee \<Rightarrow> bool" where
  "same_locks s s' \<longleftrightarrow> locks s' = locks s \<and> nextLock s' = nextLock s \<and> helpers s' = helpers s \<and> idleSizes s' = idleSizes s \<and>
     nextView s' = nextView s \<and> (\<forall>p. sLocks (sizings s' p) = sLocks (sizings s p)) \<and>
     (\<forall>v. vHeld (views s' v) = vHeld (views s v) \<and> vSizing (views s' v) = vSizing (views s v))"

lemma sz_same: "sz_inv X s \<Longrightarrow> same_locks s s' \<Longrightarrow> sz_inv X s'"
proof -
  assume s: "sz_inv X s" and e: "same_locks s s'"
  have la: "lock_at s' = lock_at s" using e by (simp add: fun_eq_iff lock_at_def same_locks_def)
  have "lock_inv X s'"
    by (rule lock_inv_cong [of X s]) (use s e in \<open>simp_all add: sz_inv_def la same_locks_def\<close>)
  moreover have "helper_inv X s'"
    using s e unfolding sz_inv_def helper_inv_def la same_locks_def by simp
  ultimately show ?thesis by (simp add: sz_inv_def)
qed

section \<open>Ending helpers\<close>

lemma helper_ends_fields [bee_simps]:
  "sizings (helper_ends l s) = sizings s" "views (helper_ends l s) = views s" "nextLock (helper_ends l s) = nextLock s"
  "nextView (helper_ends l s) = nextView s" "helpers (helper_ends l s) = removeAll l (helpers s)"
  "idleSizes (helper_ends l s) = idleSizes s" "scheduled (helper_ends l s) = scheduled s" "calls (helper_ends l s) = calls s"
  "locks (helper_ends l s) k = (if k = l then (locks s l)\<lparr>lDone := True\<rparr> else locks s k)"
  by (simp_all add: helper_ends_def bee_simps)

lemma helper_ends_ok: "sz_inv X s \<Longrightarrow> sz_inv X (helper_ends l s)"
proof -
  assume s: "sz_inv X s"
  note H = helper_invD [of X s]
  have h: "helper_inv X s" using s by (simp add: sz_inv_def)
  have la: "lock_at (helper_ends l s) = lock_at s" by (simp add: fun_eq_iff lock_at_def bee_simps)
  have "lock_inv X (helper_ends l s)"
    by (rule lock_inv_cong [of X s]) (use s in \<open>simp_all add: sz_inv_def la bee_simps\<close>)
  moreover have "length (removeAll l (helpers s)) \<le> max_helpers"
    using H(2) [OF h] length_removeAll_less_eq [of l "helpers s"] by linarith
  moreover have "distinct (removeAll l (helpers s))" using H(1) [OF h] by (simp add: distinct_removeAll)
  moreover have "\<forall>k. k \<in> set (removeAll l (helpers s)) \<longleftrightarrow> k < nextLock s \<and> \<not> lDone (locks (helper_ends l s) k)"
    using H(3) [OF h] by (simp add: bee_simps)
  moreover have "\<forall>k < nextLock s. lRetired (locks (helper_ends l s) k) \<longrightarrow> lDone (locks (helper_ends l s) k)"
    using H(4) [OF h] by (simp add: bee_simps)
  moreover have "\<forall>k \<in> set (removeAll l (helpers s)) - X. \<exists>p a. lock_at s p a = Some k"
    using H(5) [OF h] by simp
  ultimately show ?thesis unfolding sz_inv_def helper_inv_def la helper_ends_fields(3,5) by blast
qed

text \<open>A retired lock is no longer idle.\<close>

lemma retire_ok:
  assumes "sz_inv X s" and "lDone (locks s l)" and r: "lRefs (locks s l) = 0"
  shows "sz_inv X ((upd_lock l (\<lambda>x. x\<lparr>lRetired := True\<rparr>) s)\<lparr>idleSizes := removeAll l (idleSizes s)\<rparr>)" (is "sz_inv X ?s")
proof -
  have l: "lock_inv X s" and h: "helper_inv X s" using assms(1) by (simp_all add: sz_inv_def)
  note D = lock_invD [OF l]
  have la: "lock_at ?s = lock_at s" by (simp add: fun_eq_iff lock_at_def bee_simps)
  have ho: "holders ?s = holders s" by (simp add: fun_eq_iff holders_def bee_simps)
  have f: "nextLock ?s = nextLock s" "nextView ?s = nextView s" "views ?s = views s" "sizings ?s = sizings s"
    "helpers ?s = helpers s" "idleSizes ?s = removeAll l (idleSizes s)"
    "lRefs (locks ?s k) = lRefs (locks s k)" "lDone (locks ?s k) = lDone (locks s k)"
    "lRetired (locks ?s k) = (k = l \<or> lRetired (locks s k))" for k
    by (simp_all add: bee_simps)
  have "lock_inv X ?s"
  proof (rule lock_invI, unfold la ho f)
    fix p a k assume "lock_at s p a = Some k" "k \<notin> X" "lRefs (locks s k) = 0" "\<not> (k = l \<or> lRetired (locks s k))"
    then show "k \<in> set (removeAll l (idleSizes s))" using D(4) [of p a k] by simp
  next
    fix k assume "k \<in> set (removeAll l (idleSizes s))"
    then show "lRefs (locks s k) = 0 \<and> \<not> (k = l \<or> lRetired (locks s k)) \<and> (\<exists>p a. lock_at s p a = Some k)"
      using D(9) [of k] by simp
  next
    fix p a k assume "lock_at s p a = Some k" "lRefs (locks s k) \<noteq> 0"
    then show "\<not> (k = l \<or> lRetired (locks s k))" using D(10) [of p a k] r by auto
  qed (fact D)+
  moreover have "helper_inv X ?s"
    using h assms(2) unfolding helper_inv_def la f by blast
  ultimately show ?thesis by (simp add: sz_inv_def)
qed

text \<open>Ending and retiring a lock, in either order.\<close>

lemma evict_eq: "evict l s = (upd_lock l (\<lambda>x. x\<lparr>lRetired := True\<rparr>) (helper_ends l s))\<lparr>idleSizes := removeAll l (idleSizes s)\<rparr>"
  by (intro bee.equality) (simp_all add: evict_def helper_ends_def upd_lock_def fun_eq_iff)

lemma evict_ok:
  assumes s: "sz_inv X s" and "l \<in> set (idleSizes s)"
  shows "sz_inv X (evict l s)"
proof -
  have "lRefs (locks s l) = 0" using s assms(2) lock_invD(9) [of X s l] by (simp add: sz_inv_def)
  then show ?thesis using retire_ok [OF helper_ends_ok [OF s], of l l] by (simp add: evict_eq bee_simps)
qed

lemma reserve_ok: "sz_inv X s \<Longrightarrow> sz_inv X (fst (reserveSizeSlot s))"
proof (induction s rule: reserveSizeSlot.induct)
  case (1 s)
  then show ?case using evict_ok by (subst reserveSizeSlot.simps) (auto split: list.split)
qed

text \<open>What an eviction leaves alone, and what \<open>reserveSizeSlot\<close> does.\<close>

definition evicted :: "bee \<Rightarrow> bee \<Rightarrow> bool" where
  "evicted s s' \<longleftrightarrow> sizings s' = sizings s \<and> views s' = views s \<and> nextView s' = nextView s \<and> nextLock s' = nextLock s \<and>
     calls s' = calls s \<and>
     (\<forall>l. lRefs (locks s' l) = lRefs (locks s l) \<and> (l \<notin> set (idleSizes s) \<longrightarrow> locks s' l = locks s l) \<and>
        (lDone (locks s' l) \<longrightarrow> lDone (locks s l) \<or> lRetired (locks s' l))) \<and> set (idleSizes s') \<subseteq> set (idleSizes s)"

lemma reserve_evicted: "evicted s (fst (reserveSizeSlot s))"
proof (induction s rule: reserveSizeSlot.induct)
  case (1 s)
  show ?case
  proof (cases "length (helpers s) < max_helpers \<or> idleSizes s = []")
    case True
    then show ?thesis by (subst reserveSizeSlot.simps) (auto simp: evicted_def split: list.split)
  next
    case False
    then obtain l ls where l: "idleSizes s = l # ls" by (cases "idleSizes s") auto
    have e: "reserveSizeSlot s = reserveSizeSlot (evict l s)" using False l by (subst reserveSizeSlot.simps) simp
    let ?e = "evict l s" and ?r = "fst (reserveSizeSlot (evict l s))"
    have IH: "evicted ?e ?r" using 1 False l by simp
    have f: "sizings ?e = sizings s" "views ?e = views s" "nextView ?e = nextView s" "nextLock ?e = nextLock s" "calls ?e = calls s"
      "idleSizes ?e = removeAll l (idleSizes s)"
      "locks ?e k = (if k = l then (locks s l)\<lparr>lDone := True, lRetired := True\<rparr> else locks s k)" for k
      by (simp_all add: evict_eq bee_simps)
    have r: "lRefs (locks ?r k) = lRefs (locks s k) \<and> (k \<notin> set (idleSizes s) \<longrightarrow> locks ?r k = locks s k) \<and>
        (lDone (locks ?r k) \<longrightarrow> lDone (locks s k) \<or> lRetired (locks ?r k))" for k
      using IH l unfolding evicted_def f by (cases "k = l") auto
    have "set (idleSizes ?r) \<subseteq> set (idleSizes s)" using IH unfolding evicted_def f by auto
    with IH r show ?thesis unfolding e by (simp add: evicted_def f)
  qed
qed

lemma reserve_result: "reserveSizeSlot s = (s', r) \<Longrightarrow>
    (r = None \<and> length (helpers s') < max_helpers) \<or> (r = Some Sizing_limit \<and> idleSizes s' = [] \<and> \<not> length (helpers s') < max_helpers)"
proof (induction s rule: reserveSizeSlot.induct)
  case (1 s)
  show ?case
  proof (cases "length (helpers s) < max_helpers \<or> idleSizes s = []")
    case True
    then show ?thesis using 1(2) by (subst (asm) reserveSizeSlot.simps) (auto split: if_splits list.splits)
  next
    case False
    then obtain l ls where l: "idleSizes s = l # ls" by (cases "idleSizes s") auto
    then have "reserveSizeSlot (evict l s) = (s', r)" using 1(2) False by (subst (asm) reserveSizeSlot.simps) simp
    then show ?thesis using "1.IH" False l by simp
  qed
qed

section \<open>Stopping a lock\<close>

lemma stop_lock_at:
  assumes "lock_at s p a = Some l"
  shows "lock_at (stopLocked p a l s) q b = (if q = p \<and> b = a then None else lock_at s q b)"
  using assms by (simp add: stopLocked_def Let_def lock_at_def bee_simps)

lemma stop_fields [bee_simps]:
  "views (stopLocked p a l s) = views s" "nextLock (stopLocked p a l s) = nextLock s" "nextView (stopLocked p a l s) = nextView s"
  "helpers (stopLocked p a l s) = removeAll l (helpers s)" "idleSizes (stopLocked p a l s) = removeAll l (idleSizes s)"
  "scheduled (stopLocked p a l s) = scheduled s" "calls (stopLocked p a l s) = calls s"
  "lRefs (locks (stopLocked p a l s) k) = lRefs (locks s k)"
  "lDone (locks (stopLocked p a l s) k) = (k = l \<or> lDone (locks s k))"
  "lRetired (locks (stopLocked p a l s) k) = (k = l \<or> lRetired (locks s k))"
  "sPanes (sizings (stopLocked p a l s) q) = sPanes (sizings s q)"
  "sClosed (sizings (stopLocked p a l s) q) = sClosed (sizings s q)"
  by (simp_all add: stopLocked_def Let_def bee_simps)

lemma stop_other: "k \<noteq> l \<Longrightarrow> locks (stopLocked p a l s) k = locks s k"
  by (simp add: stopLocked_def Let_def bee_simps)

lemma stop_ok:
  assumes "sz_inv X s" and la: "lock_at s p a = Some l"
  shows "sz_inv (X - {l}) (stopLocked p a l s)" (is "sz_inv _ ?s")
proof -
  have l: "lock_inv X s" and h: "helper_inv X s" using assms(1) by (simp_all add: sz_inv_def)
  note D = lock_invD [OF l]
  have at: "lock_at ?s q b = Some k \<longleftrightarrow> lock_at s q b = Some k \<and> k \<noteq> l" for q b k
  proof (cases "q = p \<and> b = a")
    case True
    then show ?thesis using stop_lock_at [OF la, of q b] la by auto
  next
    case False
    then have "lock_at s q b \<noteq> Some l" using D(5) [OF la, of q b] by blast
    moreover have "lock_at ?s q b = lock_at s q b" using stop_lock_at [OF la, of q b] False by simp
    ultimately show ?thesis by (cases "k = l") simp_all
  qed
  have ho: "holders ?s = holders s" by (simp add: fun_eq_iff holders_def bee_simps)
  have dist: "distinct (keys (sLocks (sizings ?s q)))" for q
    using D(1) [of q] D(1) [of p] by (simp add: stopLocked_def Let_def bee_simps)
  have "lock_inv (X - {l}) ?s"
  proof (rule lock_invI, unfold at ho stop_fields)
    show "\<And>q. distinct (keys (sLocks (sizings ?s q)))" by (rule dist)
  next
    fix q b k assume "lock_at s q b = Some k \<and> k \<noteq> l" "k \<notin> X - {l}" "lRefs (locks s k) = 0" "\<not> (k = l \<or> lRetired (locks s k))"
    then show "k \<in> set (removeAll l (idleSizes s))" using D(4) [of q b k] by simp
  next
    fix q b r c k assume "lock_at s q b = Some k \<and> k \<noteq> l" "lock_at s r c = Some k \<and> k \<noteq> l"
    then show "q = r \<and> b = c" by (intro D(5)) simp_all
  next
    fix v b k q c assume "map_of (vHeld (views s v)) b = Some k" "lock_at s q c = Some k \<and> k \<noteq> l"
    then show "q = vSizing (views s v) \<and> c = b" by (intro D(7)) simp_all
  next
    fix k assume "k \<in> set (removeAll l (idleSizes s))"
    then show "lRefs (locks s k) = 0 \<and> \<not> (k = l \<or> lRetired (locks s k)) \<and> (\<exists>q b. lock_at s q b = Some k \<and> k \<noteq> l)"
      using D(9) [of k] by simp
  next
    fix q b k assume a: "lock_at s q b = Some k \<and> k \<noteq> l"
    from a show "k < nextLock s" by (intro D(2) [of q b]) simp
    from a show "lRefs (locks s k) = int (card (holders s b k))" by (intro D(3) [of q b]) simp
    from a show "\<not> (k = l \<or> lRetired (locks s k))" if "lRefs (locks s k) \<noteq> 0" using D(10) [of q b k] that by simp
  next
    fix v b k assume "map_of (vHeld (views s v)) b = Some k"
    then show "v < nextView s \<and> k < nextLock s" by (rule D(6))
  next
    fix v show "distinct (keys (vHeld (views s v)))" by (rule D(8))
  qed
  moreover have "helper_inv (X - {l}) ?s"
  proof -
    note H = helper_invD [OF h]
    have "length (removeAll l (helpers s)) \<le> max_helpers"
      using H(2) length_removeAll_less_eq [of l "helpers s"] by linarith
    moreover have "\<exists>q b. lock_at ?s q b = Some k" if "k \<in> set (removeAll l (helpers s)) - (X - {l})" for k
      using H(5) [of k] that unfolding at by auto
    ultimately show ?thesis
      unfolding helper_inv_def stop_fields using H(1,3,4) by (auto simp: distinct_removeAll)
  qed
  ultimately show ?thesis by (simp add: sz_inv_def)
qed

lemma stop_ok0: "sz_ok s \<Longrightarrow> lock_at s p a = Some l \<Longrightarrow> sz_ok (stopLocked p a l s)"
  using stop_ok [of "{}"] by simp

lemma stop_all_ok:
  "sz_ok s \<Longrightarrow> distinct (keys ls) \<Longrightarrow> \<forall>(a, l) \<in> set ls. lock_at s p a = Some l \<Longrightarrow> sz_ok (stop_all p ls keep s)"
proof (induction p ls keep s rule: stop_all.induct)
  case (2 p a l ls keep s)
  let ?s = "if keep a then s else stopLocked p a l s"
  have l: "lock_at s p a = Some l" using 2(4) by simp
  have "sz_ok ?s" using 2(2) stop_ok0 [OF _ l] by simp
  moreover have "\<forall>(b, k) \<in> set ls. lock_at ?s p b = Some k"
  proof (safe)
    fix b k assume m: "(b, k) \<in> set ls"
    then have "b \<noteq> a" using 2(3) by force
    moreover have "lock_at s p b = Some k" using 2(4) m by auto
    ultimately show "lock_at ?s p b = Some k" using stop_lock_at [OF l] by simp
  qed
  ultimately show ?case using "2.IH" 2(3) by simp
qed simp

lemma stop_session_ok: "sz_ok s \<Longrightarrow> sz_ok (stop_all p (sLocks (sizings s p)) keep s)"
  by (rule stop_all_ok) (auto simp: sz_inv_def lock_invD(1) lock_at_def)

lemma drop_retired_ok: "sz_ok s \<Longrightarrow> sz_ok (drop_retired p a s)"
  using stop_ok0 by (simp add: drop_retired_def split: option.split)

lemma expire_ok: "sz_ok s \<Longrightarrow> sz_ok (expire p a l e s)"
  using stop_ok0 by (simp add: expire_def)

lemma watch_ok: "sz_ok s \<Longrightarrow> sz_ok (watch p a l s)"
  using stop_ok0 by (simp add: watch_def)

lemma close_ok: "sz_ok s \<Longrightarrow> sz_ok (sizing_close p s)"
proof -
  assume "sz_ok s"
  then have "sz_ok (upd_sizing p (\<lambda>x. x\<lparr>sClosed := True\<rparr>) s)"
    by (rule sz_same) (simp add: same_locks_def bee_simps)
  then show ?thesis unfolding sizing_close_def Let_def by (rule stop_session_ok)
qed

section \<open>Panes of a session\<close>

lemma panes_ok: "sz_inv X s \<Longrightarrow> sz_inv X (upd_sizing p (\<lambda>x. x\<lparr>sPanes := k\<rparr>) s)"
  by (erule sz_same) (simp add: same_locks_def bee_simps)

lemma asked_ok: "sz_inv X s \<Longrightarrow> sz_inv X (asked s)"
  by (erule sz_same) (simp add: same_locks_def bee_simps)

lemma refresh_ok: "sz_ok s \<Longrightarrow> sz_ok (fst (refreshPanesLocked E p s))"
  unfolding refreshPanesLocked_def Let_def
  using stop_session_ok [OF panes_ok [OF asked_ok]] asked_ok by (simp split: sum.split)

lemma snapshot_ok: "sz_ok s \<Longrightarrow> sz_ok (fst (snapshotLocked E p sn s))"
  using refresh_ok panes_ok by (simp add: snapshotLocked_def Let_def split: option.split)

lemma acquisition_asked: "acquisitionErrorLocked E a e s = (s', r) \<Longrightarrow> s' = asked s"
  by (auto simp: acquisitionErrorLocked_def split: if_splits sum.splits)

lemma give_up_asked: "give_up E a e pl s = (s', r) \<Longrightarrow> s' = asked s"
  by (auto simp: give_up_def split: prod.splits option.splits dest: acquisition_asked)

lemma give_up_ok: "sz_inv X s \<Longrightarrow> sz_inv X (fst (give_up E a e pl s))"
  using give_up_asked [of E a e pl s] asked_ok by (cases "give_up E a e pl s") auto

lemma read_size_ok: "sz_inv X s \<Longrightarrow> sz_inv X (fst (read_size E a pl s))"
  using give_up_ok asked_ok by (simp add: read_size_def split: sum.split)

lemma preflight_ok: "sz_ok s \<Longrightarrow> sz_ok (fst (preflight_pane E p a pl s))"
  using read_size_ok drop_retired_ok give_up_ok stop_ok0
  by (simp add: preflight_pane_def Let_def split: option.split)

section \<open>Holding and releasing\<close>

text \<open>One more view holds a lock.\<close>

lemma share_lock_ok:
  assumes "sz_inv {l} s" and la: "lock_at s (vSizing (views s v)) a = Some l" and v: "v < nextView s"
    and new: "map_of (vHeld (views s v)) a \<noteq> Some l" and idle: "l \<notin> set (idleSizes s)" and t: "\<not> lRetired (locks s l)"
  shows "sz_ok (share_lock v a l s)" (is "sz_ok ?s")
proof -
  have li: "lock_inv {l} s" and h: "helper_inv {l} s" using assms(1) by (simp_all add: sz_inv_def)
  note D = lock_invD [OF li]
  have at: "lock_at ?s = lock_at s" by (simp add: fun_eq_iff lock_at_def share_lock_def bee_simps)
  have f: "nextLock ?s = nextLock s" "nextView ?s = nextView s" "helpers ?s = helpers s" "idleSizes ?s = idleSizes s"
    "sizings ?s = sizings s" "vSizing (views ?s w) = vSizing (views s w)"
    "vHeld (views ?s w) = (if w = v then put a l (vHeld (views s v)) else vHeld (views s w))"
    "lRefs (locks ?s k) = (if k = l then lRefs (locks s l) + 1 else lRefs (locks s k))"
    "lDone (locks ?s k) = lDone (locks s k)" "lRetired (locks ?s k) = lRetired (locks s k)" for k w
    by (simp_all add: share_lock_def bee_simps)
  have hl: "holders ?s a l = insert v (holders s a l)" "v \<notin> holders s a l"
    using v new by (auto simp: holders_def f)
  have ho: "holders ?s b k = holders s b k" if "lock_at s q b = Some k" "k \<noteq> l" for q b k
  proof -
    have "map_of (vHeld (views s v)) a \<noteq> Some k" if "b = a"
    proof
      assume "map_of (vHeld (views s v)) a = Some k"
      then have "q = vSizing (views s v)" using D(7) \<open>lock_at s q b = Some k\<close> by blast
      with that la \<open>lock_at s q b = Some k\<close> \<open>k \<noteq> l\<close> show False by simp
    qed
    then show ?thesis using that(2) by (auto simp: holders_def f)
  qed
  have refs: "lRefs (locks s l) = int (card (holders s a l))" using D(3) [OF la] .
  have hb: "b = a" if "lock_at s q b = Some l" for q b using D(5) [OF la that] by simp
  have "lock_inv {} ?s"
  proof (rule lock_invI, unfold at f)
    fix q b k assume a: "lock_at s q b = Some k"
    show "k < nextLock s" by (rule D(2) [OF a])
    show "(if k = l then lRefs (locks s l) + 1 else lRefs (locks s k)) = int (card (holders ?s b k))"
    proof (cases "k = l")
      case True
      then have "b = a" using hb a by simp
      then show ?thesis using True hl refs by simp
    next
      case False
      then show ?thesis using ho [OF a] D(3) [OF a] by simp
    qed
    assume "(if k = l then lRefs (locks s l) + 1 else lRefs (locks s k)) = 0" "\<not> lRetired (locks s k)"
    then show "k \<in> set (idleSizes s)" using D(4) [OF a] refs by (cases "k = l") auto
  next
    fix q b k assume a: "lock_at s q b = Some k" "(if k = l then lRefs (locks s l) + 1 else lRefs (locks s k)) \<noteq> 0"
    then show "\<not> lRetired (locks s k)" using D(10) [OF a(1)] t by (cases "k = l") auto
  next
    fix w b k assume "map_of (if w = v then put a l (vHeld (views s v)) else vHeld (views s w)) b = Some k"
    then have m: "w = v \<and> b = a \<and> k = l \<or> map_of (vHeld (views s w)) b = Some k" by (auto split: if_splits)
    then show "w < nextView s \<and> k < nextLock s" using D(6) v D(2) [OF la] by auto
    fix q c assume "lock_at s q c = Some k"
    then show "q = vSizing (views s w) \<and> c = b" using m D(7) [of w b k q c] D(5) [OF la, of q c] by auto
  next
    fix w show "distinct (keys (if w = v then put a l (vHeld (views s v)) else vHeld (views s w)))" using D(8) by simp
  next
    fix k assume k: "k \<in> set (idleSizes s)"
    then have "k \<noteq> l" using idle by blast
    then show "(if k = l then lRefs (locks s l) + 1 else lRefs (locks s k)) = 0 \<and> \<not> lRetired (locks s k) \<and>
        (\<exists>p a. lock_at s p a = Some k)" using D(9) [OF k] by simp
  next
    show "\<And>q. distinct (keys (sLocks (sizings s q)))" by (rule D(1))
    show "\<And>q b r c k. lock_at s q b = Some k \<Longrightarrow> lock_at s r c = Some k \<Longrightarrow> q = r \<and> b = c" by (rule D(5))
  qed
  moreover have "helper_inv {} ?s"
  proof -
    note H = helper_invD [OF h]
    have "\<exists>q b. lock_at s q b = Some k" if "k \<in> set (helpers s)" for k
      using H(5) [OF that] la by (cases "k = l") blast+
    then show ?thesis unfolding helper_inv_def at f using H(1-4) by simp
  qed
  ultimately show ?thesis by (simp add: sz_inv_def)
qed

text \<open>An idle lock that is used again.\<close>

lemma reuse_ok:
  assumes "sz_ok s" and la: "lock_at s p a = Some l" and r: "reuseLocked p a l s = (s1, True)"
  shows "sz_inv {l} s1" and "lock_at s1 = lock_at s" and "views s1 = views s" and "nextView s1 = nextView s"
    and "l \<notin> set (idleSizes s1)" and "\<not> lRetired (locks s1 l)"
proof -
  have li: "lock_inv {} s" and h: "helper_inv {} s" using assms(1) by (simp_all add: sz_inv_def)
  note D = lock_invD [OF li]
  have s1: "s1 = upd_lock l (\<lambda>x. x\<lparr>lEpoch := lEpoch x + 1, lRetire := None\<rparr>) (s\<lparr>idleSizes := removeAll l (idleSizes s)\<rparr>)"
    using r by (auto simp: reuseLocked_def Let_def split: if_splits)
  have f: "nextLock s1 = nextLock s" "helpers s1 = helpers s" "idleSizes s1 = removeAll l (idleSizes s)" "sizings s1 = sizings s"
    "lRefs (locks s1 k) = lRefs (locks s k)" "lDone (locks s1 k) = lDone (locks s k)" "lRetired (locks s1 k) = lRetired (locks s k)" for k
    by (simp_all add: s1 bee_simps)
  show "\<not> lRetired (locks s1 l)" using r by (auto simp: f reuseLocked_def Let_def split: if_splits)
  show v: "views s1 = views s" "nextView s1 = nextView s" by (simp_all add: s1 bee_simps)
  show at: "lock_at s1 = lock_at s" by (simp add: fun_eq_iff lock_at_def f)
  have ho: "holders s1 = holders s" by (simp add: fun_eq_iff holders_def v)
  show "l \<notin> set (idleSizes s1)" by (simp add: f)
  have "lock_inv {l} s1"
  proof (rule lock_invI, unfold at ho f v)
    fix q b k assume "lock_at s q b = Some k" "k \<notin> {l}" "lRefs (locks s k) = 0" "\<not> lRetired (locks s k)"
    then show "k \<in> set (removeAll l (idleSizes s))" using D(4) [of q b k] by simp
  next
    fix k assume "k \<in> set (removeAll l (idleSizes s))"
    then show "lRefs (locks s k) = 0 \<and> \<not> lRetired (locks s k) \<and> (\<exists>q b. lock_at s q b = Some k)" using D(9) [of k] by simp
  qed (fact D)+
  moreover have "helper_inv {l} s1"
    using helper_invD [OF h] unfolding helper_inv_def at f by simp
  ultimately show "sz_inv {l} s1" by (simp add: sz_inv_def)
qed

text \<open>A helper that has started, and its place among the locks of the session.\<close>

lemma hold_fail_ok:
  assumes s: "sz_inv X s" and h: "holdSize E g s = (s1, Inl e)"
  shows "sz_inv X s1"
proof -
  have "s1 = asked s \<or> s1 = asked (fst (reserveSizeSlot s))"
    using h unfolding holdSize_def Let_def
    by (cases "cancelledE E (calls s)"; cases "reserveSizeSlot s") (simp_all split: option.splits)
  then show ?thesis using asked_ok [OF s] asked_ok [OF reserve_ok [OF s]] by blast
qed

abbreviation fresh_lock :: lock where
  "fresh_lock \<equiv> \<lparr>lRefs = 0, lDone = False, lRetire = None, lEpoch = 0, lRetired = False\<rparr>"

lemma hold_cases:
  assumes r: "holdSize E g s = (s1, Inr l)"
  obtains s0 where "reserveSizeSlot s = (s0, None)" and "l = nextLock s0"
    and "s1 = (asked s0)\<lparr>locks := (locks s0)(l := fresh_lock), nextLock := l + 1, helpers := l # helpers s0\<rparr>"
proof -
  obtain s0 e where s0: "reserveSizeSlot s = (s0, e)" by (cases "reserveSizeSlot s")
  have c: "\<not> cancelledE E (calls s)" using r unfolding holdSize_def by (cases "cancelledE E (calls s)") simp_all
  have e: "e = None" using r c s0 unfolding holdSize_def by (cases e) simp_all
  have h: "holdE E (calls s0) g = None" using r c s0 e unfolding holdSize_def by (cases "holdE E (calls s0) g") simp_all
  show thesis
    using r that [OF s0 [unfolded e]] unfolding holdSize_def Let_def by (auto simp: c s0 e h)
qed

lemma hold_ok:
  assumes "sz_ok s" and r: "holdSize E g s = (s1, Inr l)"
  shows "sz_inv {l} s1" and "l = nextLock s" and "nextLock s1 = l + 1" and "views s1 = views s" and "nextView s1 = nextView s"
    and "lock_at s1 = lock_at s" and "sizings s1 = sizings s" and "l \<notin> set (idleSizes s1)" and "lRefs (locks s1 l) = 0"
    and "\<not> lRetired (locks s1 l)" and "\<not> lDone (locks s1 l)"
proof -
  obtain s0 where s0: "reserveSizeSlot s = (s0, None)" and l0: "l = nextLock s0"
    and s1: "s1 = (asked s0)\<lparr>locks := (locks s0)(l := fresh_lock), nextLock := l + 1, helpers := l # helpers s0\<rparr>"
    by (rule hold_cases [OF r])
  have ok: "sz_ok s0" using reserve_ok [OF assms(1)] s0 by simp
  have ev: "evicted s s0" using reserve_evicted [of s] s0 by simp
  have room: "length (helpers s0) < max_helpers" using reserve_result [OF s0] by simp
  have li: "lock_inv {} s0" and h: "helper_inv {} s0" using ok by (simp_all add: sz_inv_def)
  note D = lock_invD [OF li] and H = helper_invD [OF h]
  have f: "nextLock s1 = l + 1" "helpers s1 = l # helpers s0" "idleSizes s1 = idleSizes s0" "sizings s1 = sizings s0"
    "views s1 = views s0" "nextView s1 = nextView s0"
    "locks s1 k = (if k = l then fresh_lock else locks s0 k)" for k
    by (simp_all add: s1 bee_simps)
  show "l = nextLock s" "views s1 = views s" "nextView s1 = nextView s" "sizings s1 = sizings s"
    using ev l0 by (simp_all add: evicted_def f)
  then show "lock_at s1 = lock_at s" by (simp add: fun_eq_iff lock_at_def)
  show "nextLock s1 = l + 1" by (rule f(1))
  show "lRefs (locks s1 l) = 0" "\<not> lRetired (locks s1 l)" "\<not> lDone (locks s1 l)" by (simp_all add: f)
  have at: "lock_at s1 = lock_at s0" by (simp add: fun_eq_iff lock_at_def f)
  have ho: "holders s1 = holders s0" by (simp add: fun_eq_iff holders_def f)
  have old: "k \<noteq> l" if "lock_at s0 q b = Some k" for q b k using D(2) [OF that] l0 by simp
  have idle: "k \<noteq> l" if "k \<in> set (idleSizes s0)" for k using D(9) [OF that] old by blast
  then show "l \<notin> set (idleSizes s1)" unfolding f by blast
  have "lock_inv {l} s1"
  proof (rule lock_invI, unfold at ho f(1-6))
    fix q b k assume a: "lock_at s0 q b = Some k"
    show "k < l + 1" using D(2) [OF a] l0 by simp
    show "lRefs (locks s1 k) = int (card (holders s0 b k))" using D(3) [OF a] old [OF a] by (simp add: f)
    show "\<not> lRetired (locks s1 k)" if "lRefs (locks s1 k) \<noteq> 0" using D(10) [OF a] old [OF a] that by (simp add: f)
    assume "lRefs (locks s1 k) = 0" "\<not> lRetired (locks s1 k)"
    then show "k \<in> set (idleSizes s0)" using D(4) [OF a] old [OF a] by (simp add: f)
  next
    fix v b k assume "map_of (vHeld (views s0 v)) b = Some k"
    then show "v < nextView s0 \<and> k < l + 1" using D(6) l0 by fastforce
  next
    fix k assume k: "k \<in> set (idleSizes s0)"
    show "lRefs (locks s1 k) = 0 \<and> \<not> lRetired (locks s1 k) \<and> (\<exists>q b. lock_at s0 q b = Some k)"
      using D(9) [OF k] idle [OF k] by (simp add: f)
  next
    fix v b k q c assume "map_of (vHeld (views s0 v)) b = Some k" "lock_at s0 q c = Some k"
    then show "q = vSizing (views s0 v) \<and> c = b" by (rule D(7))
  qed (fact D)+
  moreover have "helper_inv {l} s1"
    unfolding helper_inv_def at f
  proof (intro conjI allI impI ballI)
    show "distinct (l # helpers s0)" using H(1) H(3) [of l] l0 by simp
    show "length (l # helpers s0) \<le> max_helpers" using room by simp
  next
    fix k show "(k \<in> set (l # helpers s0)) = (k < l + 1 \<and> \<not> lDone (if k = l then fresh_lock else locks s0 k))"
      using H(3) [of k] l0 by auto
  next
    fix k assume "k < l + 1"
      "lRetired (if k = l then fresh_lock else locks s0 k)"
    then show "lDone (if k = l then fresh_lock else locks s0 k)"
      using H(4) [of k] l0 by (auto split: if_splits)
  next
    fix k assume "k \<in> set (l # helpers s0) - {l}"
    then show "\<exists>q b. lock_at s0 q b = Some k" using H(5) [of k] by simp
  qed
  ultimately show "sz_inv {l} s1" by (simp add: sz_inv_def)
qed

lemma put_lock_ok:
  assumes "sz_inv {l} s" and none: "lock_at s p a = None" and no: "\<And>q b. lock_at s q b \<noteq> Some l"
    and l: "l < nextLock s" and r: "lRefs (locks s l) = 0" and nh: "\<And>w b. map_of (vHeld (views s w)) b \<noteq> Some l"
  shows "sz_inv {l} (upd_sizing p (\<lambda>x. x\<lparr>sLocks := put a l (sLocks x)\<rparr>) s)" (is "sz_inv _ ?s")
    and "lock_at (upd_sizing p (\<lambda>x. x\<lparr>sLocks := put a l (sLocks x)\<rparr>) s) p a = Some l"
proof -
  have li: "lock_inv {l} s" and h: "helper_inv {l} s" using assms(1) by (simp_all add: sz_inv_def)
  note D = lock_invD [OF li] and H = helper_invD [OF h]
  have at: "lock_at ?s q b = (if q = p \<and> b = a then Some l else lock_at s q b)" for q b
    by (simp add: lock_at_def bee_simps)
  show "lock_at ?s p a = Some l" by (simp add: at)
  have ho: "holders ?s = holders s" by (simp add: fun_eq_iff holders_def bee_simps)
  have h0: "holders s b l = {}" for b using nh by (simp add: holders_def)
  have atD: "q = p \<and> b = a \<and> k = l \<or> lock_at s q b = Some k \<and> k \<noteq> l" if "lock_at ?s q b = Some k" for q b k
    using that no [of q b] by (auto simp: at split: if_splits)
  have dist: "distinct (keys (sLocks (sizings ?s q)))" for q using D(1) by (simp add: bee_simps)
  have "lock_inv {l} ?s"
  proof (rule lock_invI, unfold ho upd_sizing_fields(1-6))
    show "\<And>q. distinct (keys (sLocks (sizings ?s q)))" by (rule dist)
  next
    fix q b k assume "lock_at ?s q b = Some k"
    from atD [OF this] have c: "q = p \<and> b = a \<and> k = l \<or> lock_at s q b = Some k \<and> k \<noteq> l" .
    show "k < nextLock s" using c D(2) l by blast
    show "lRefs (locks s k) = int (card (holders s b k))" using c D(3) r h0 by auto
    show "k \<notin> {l} \<Longrightarrow> lRefs (locks s k) = 0 \<Longrightarrow> \<not> lRetired (locks s k) \<Longrightarrow> k \<in> set (idleSizes s)"
      using c D(4) by blast
    show "lRefs (locks s k) \<noteq> 0 \<Longrightarrow> \<not> lRetired (locks s k)" using c D(10) r by blast
  next
    fix q b r c k assume "lock_at ?s q b = Some k" "lock_at ?s r c = Some k"
    from atD [OF this(1)] atD [OF this(2)] show "q = r \<and> b = c" using D(5) by blast
  next
    fix w b k q c assume m: "map_of (vHeld (views s w)) b = Some k" and "lock_at ?s q c = Some k"
    from atD [OF this(2)] m nh show "q = vSizing (views s w) \<and> c = b" using D(7) [OF m] by blast
  next
    fix k assume k: "k \<in> set (idleSizes s)"
    then obtain q b where q: "lock_at s q b = Some k" using D(9) by blast
    then have "lock_at ?s q b = Some k" using none by (auto simp: at)
    then show "lRefs (locks s k) = 0 \<and> \<not> lRetired (locks s k) \<and> (\<exists>q b. lock_at ?s q b = Some k)" using D(9) [OF k] by blast
  qed (fact D)+
  moreover have "helper_inv {l} ?s"
  proof -
    have "\<exists>q b. lock_at ?s q b = Some k" if "k \<in> set (helpers s) - {l}" for k
    proof -
      from that have "k \<in> set (helpers s)" "k \<notin> {l}" by simp_all
      then obtain q b where "lock_at s q b = Some k" using H(5) by blast
      then have "lock_at ?s q b = Some k" using none by (auto simp: at)
      then show ?thesis by blast
    qed
    then show ?thesis unfolding helper_inv_def upd_sizing_fields(1-6) using H(1-4) by simp
  qed
  ultimately show "sz_inv {l} ?s" by (simp add: sz_inv_def)
qed

section \<open>Acquiring panes\<close>

text \<open>The view that is reconciled.\<close>

definition on_session :: "nat \<Rightarrow> nat \<Rightarrow> bee \<Rightarrow> bool" where
  "on_session p v s \<longleftrightarrow> vSizing (views s v) = p \<and> v < nextView s"

lemma on_session_same: "same_locks s s' \<Longrightarrow> on_session p v s \<Longrightarrow> on_session p v s'"
  by (simp add: on_session_def same_locks_def)

lemma same_asked: "same_locks s (asked s)"
  by (simp add: same_locks_def bee_simps)

lemma same_trans: "same_locks s t \<Longrightarrow> same_locks t u \<Longrightarrow> same_locks s u"
  by (simp add: same_locks_def)

lemma same_lock_at: "same_locks s s' \<Longrightarrow> lock_at s' p a = lock_at s p a"
  by (simp add: same_locks_def lock_at_def)

lemma give_up_same: "give_up E a e pl s = (s', r) \<Longrightarrow> same_locks s s'"
  using give_up_asked [of E a e pl s] same_asked by simp

lemma read_size_same: "read_size E a pl s = (s', r) \<Longrightarrow> same_locks s s'"
proof (cases "geometryE E (calls s) a")
  case (Inl e)
  moreover assume "read_size E a pl s = (s', r)"
  ultimately have "give_up E a e pl (asked s) = (s', r)" by (simp add: read_size_def)
  from same_trans [OF same_asked give_up_same [OF this]] show ?thesis .
qed (use same_asked in \<open>auto simp: read_size_def\<close>)

lemma share_fields [bee_simps]:
  "sizings (share_lock v a l s) = sizings s" "nextView (share_lock v a l s) = nextView s" "nextLock (share_lock v a l s) = nextLock s"
  "helpers (share_lock v a l s) = helpers s" "idleSizes (share_lock v a l s) = idleSizes s"
  "vSizing (views (share_lock v a l s) w) = vSizing (views s w)"
  "vHeld (views (share_lock v a l s) w) = (if w = v then put a l (vHeld (views s v)) else vHeld (views s w))"
  "lDone (locks (share_lock v a l s) k) = lDone (locks s k)" "lRetired (locks (share_lock v a l s) k) = lRetired (locks s k)"
  "lRefs (locks (share_lock v a l s) k) = lRefs (locks s k) + (if k = l then 1 else 0)"
  by (simp_all add: share_lock_def bee_simps)

lemma start_ok:
  assumes "sz_ok s" and v: "on_session p v s" and none: "lock_at s p a = None"
  shows "sz_ok (fst (start_lock E p v a pl s)) \<and> on_session p v (fst (start_lock E p v a pl s))"
proof (cases "map_of (snd pl) a")
  case None
  then show ?thesis using assms by (simp add: start_lock_def)
next
  case (Some g)
  obtain s1 r where h: "holdSize E g s = (s1, r)" by (cases "holdSize E g s")
  have ev: "on_session p v s1"
  proof (cases "cancelledE E (calls s)")
    case True
    then show ?thesis using h v by (auto simp: holdSize_def on_session_def bee_simps)
  next
    case False
    obtain s0 e where s0: "reserveSizeSlot s = (s0, e)" by (cases "reserveSizeSlot s")
    then have "evicted s s0" using reserve_evicted [of s] by simp
    moreover have "views s1 = views s0 \<and> nextView s1 = nextView s0"
      using h False s0 by (auto simp: holdSize_def Let_def bee_simps split: option.splits)
    ultimately show ?thesis using v by (simp add: on_session_def evicted_def)
  qed
  show ?thesis
  proof (cases r)
    case (Inl e)
    then have ok: "sz_ok s1" using hold_fail_ok [OF assms(1)] h by simp
    obtain s2 r2 where "give_up E a e pl s1 = (s2, r2)" by (cases "give_up E a e pl s1")
    then have "fst (start_lock E p v a pl s) = s2" "same_locks s1 s2"
      using h Some Inl give_up_same by (simp_all add: start_lock_def)
    then show ?thesis using sz_same [OF ok] on_session_same [OF _ ev] by simp
  next
    case (Inr l)
    note K = hold_ok [OF assms(1) h [unfolded Inr]]
    let ?u = "upd_sizing p (\<lambda>x. x\<lparr>sLocks := put a l (sLocks x)\<rparr>) s1"
    have li: "lock_inv {} s" using assms(1) by (simp add: sz_inv_def)
    note D = lock_invD [OF li]
    have n1: "lock_at s1 p a = None" using none by (simp add: K(6))
    have n2: "lock_at s1 q b \<noteq> Some l" for q b using D(2) [of q b l] by (auto simp: K(6) K(2))
    have n3: "map_of (vHeld (views s1 w)) b \<noteq> Some l" for w b using D(6) [of w b l] by (auto simp: K(4) K(2))
    have n4: "l < nextLock s1" using K(3) by simp
    note U = put_lock_ok [OF K(1) n1 n2 n4 K(9) n3]
    have "sz_ok (share_lock v a l ?u)"
    proof (rule share_lock_ok [OF U(1)])
      show "lock_at ?u (vSizing (views ?u v)) a = Some l" using U(2) ev by (simp add: on_session_def bee_simps)
      show "v < nextView ?u" using ev by (simp add: on_session_def bee_simps)
      show "map_of (vHeld (views ?u v)) a \<noteq> Some l" using n3 by (simp add: bee_simps)
      show "l \<notin> set (idleSizes ?u)" using K(8) by (simp add: bee_simps)
      show "\<not> lRetired (locks ?u l)" using K(10) by (simp add: bee_simps)
    qed
    moreover have "on_session p v (share_lock v a l ?u)" using ev by (simp add: on_session_def bee_simps)
    ultimately show ?thesis using h Some Inr by (simp add: start_lock_def)
  qed
qed

text \<open>What the reconciliation of a view keeps throughout.\<close>

abbreviation held_ok :: "nat \<Rightarrow> nat \<Rightarrow> bee \<Rightarrow> bool" where
  "held_ok p v s \<equiv> sz_ok s \<and> on_session p v s"

lemma held_same: "held_ok p v s \<Longrightarrow> same_locks s s' \<Longrightarrow> held_ok p v s'"
  using sz_same on_session_same by blast

lemma stop_held: "held_ok p v s \<Longrightarrow> lock_at s q a = Some l \<Longrightarrow> held_ok p v (stopLocked q a l s)"
  using stop_ok0 by (simp add: on_session_def bee_simps)

lemma share_held:
  assumes "sz_inv {l} s" and "on_session p v s" and "lock_at s p a = Some l"
    and "map_of (vHeld (views s v)) a \<noteq> Some l" and "l \<notin> set (idleSizes s)" and "\<not> lRetired (locks s l)"
  shows "held_ok p v (share_lock v a l s)"
  using share_lock_ok [of l s v a] assms by (simp add: on_session_def bee_simps)

lemma acquire_ok:
  assumes ok: "sz_ok s" and v: "on_session p v s"
  shows "held_ok p v (fst (acquire_pane E p v a pl s))"
proof (cases "lock_at s p a")
  case None
  then show ?thesis using start_ok [OF ok v] by (simp add: acquire_pane_def)
next
  case (Some l)
  have li: "lock_inv {} s" using ok by (simp add: sz_inv_def)
  note D = lock_invD [OF li]
  show ?thesis
  proof (cases "map_of (vHeld (views s v)) a = Some l")
    case True
    then show ?thesis using Some ok v by (simp add: acquire_pane_def)
  next
    case new: False
    show ?thesis
    proof (cases "lRefs (locks s l) = 0")
      case False
      then have "l \<notin> set (idleSizes s)" using D(9) by blast
      then have "held_ok p v (share_lock v a l s)"
        using share_held [OF _ v Some new] sz_weaken [OF ok] D(10) [OF Some False] by blast
      then show ?thesis using Some new False by (simp add: acquire_pane_def)
    next
      case zero: True
      obtain s1 b where r: "reuseLocked p a l s = (s1, b)" by (cases "reuseLocked p a l s")
      show ?thesis
      proof (cases b)
        case True
        with r have "reuseLocked p a l s = (s1, True)" by simp
        note R = reuse_ok [OF ok Some this]
        have "on_session p v s1" using v by (simp add: on_session_def R(3,4))
        then have "held_ok p v (share_lock v a l s1)"
          using share_held [OF R(1)] Some new R(2,3,5,6) by simp
        then show ?thesis using Some new zero r True by (simp add: acquire_pane_def)
      next
        case False
        have ret: "lRetired (locks s l)" using r False by (auto simp: reuseLocked_def Let_def split: if_splits)
        then have "l \<notin> set (idleSizes s)" using D(9) by blast
        then have s1: "s1 = stopLocked p a l s" using r ret by (simp add: reuseLocked_def Let_def)
        have ok1: "held_ok p v s1" unfolding s1 by (rule stop_held [OF _ Some]) (use ok v in simp)
        have none: "lock_at s1 p a = None" using stop_lock_at [OF Some] by (simp add: s1)
        obtain s2 r2 where rd: "read_size E a pl s1 = (s2, r2)" by (cases "read_size E a pl s1")
        note same = read_size_same [OF rd]
        have ok2: "held_ok p v s2" by (rule held_same [OF ok1 same])
        have none2: "lock_at s2 p a = None" using none same_lock_at [OF same] by simp
        have "fst (acquire_pane E p v a pl s) = s2 \<or> (\<exists>pl2. fst (acquire_pane E p v a pl s) = fst (start_lock E p v a pl2 s2))"
          using Some new zero r False rd by (cases r2) (auto simp: acquire_pane_def)
        then show ?thesis using ok2 start_ok [OF _ _ none2] by auto
      qed
    qed
  qed
qed

lemma each_pane_keeps:
  assumes "\<And>a pl s. I s \<Longrightarrow> I (fst (f a pl s))" and "I s"
  shows "I (fst (each_pane f as pl s))"
  using assms(2)
proof (induction as arbitrary: pl s)
  case (Cons a as)
  obtain s1 r where f: "f a pl s = (s1, r)" by (cases "f a pl s")
  then have "I s1" using assms(1) [OF Cons.prems, of a pl] by simp
  then show ?case using Cons f by (simp split: sum.split)
qed simp

lemma drop_retired_held: "held_ok p v s \<Longrightarrow> held_ok p v (drop_retired q a s)"
proof (cases "lock_at s q a")
  case (Some l)
  assume h: "held_ok p v s"
  from stop_held [OF h Some] h show ?thesis by (simp add: drop_retired_def Some)
qed (simp add: drop_retired_def)

lemma preflight_held: "held_ok p v s \<Longrightarrow> held_ok p v (fst (preflight_pane E q a pl s))"
proof -
  assume h: "held_ok p v s"
  let ?d = "drop_retired q a s"
  have d: "held_ok p v ?d" by (rule drop_retired_held [OF h])
  show ?thesis
  proof (cases "lock_at ?d q a")
    case None
    obtain s1 r where "read_size E a pl ?d = (s1, r)" by (cases "read_size E a pl ?d")
    then show ?thesis using held_same [OF d read_size_same] None by (simp add: preflight_pane_def)
  next
    case (Some l)
    obtain s1 r where g: "give_up E a Sizing_unavailable pl (stopLocked q a l ?d) = (s1, r)"
      by (cases "give_up E a Sizing_unavailable pl (stopLocked q a l ?d)")
    have "held_ok p v s1" by (rule held_same [OF stop_held [OF d Some] give_up_same [OF g]])
    then show ?thesis using Some d g by (simp add: preflight_pane_def Let_def)
  qed
qed

section \<open>Releasing panes\<close>

text \<open>A view no longer holds a lock, its last change to the reference count.\<close>

definition unhold :: "nat \<Rightarrow> bytes \<Rightarrow> nat \<Rightarrow> bee \<Rightarrow> bee" where
  "unhold v a l s = upd_view v (\<lambda>x. x\<lparr>vHeld := del a (vHeld x)\<rparr>) (upd_lock l (\<lambda>x. x\<lparr>lRefs := lRefs x - 1\<rparr>) s)"

lemma unhold_fields [bee_simps]:
  "sizings (unhold v a l s) = sizings s" "nextView (unhold v a l s) = nextView s" "nextLock (unhold v a l s) = nextLock s"
  "helpers (unhold v a l s) = helpers s" "idleSizes (unhold v a l s) = idleSizes s"
  "vSizing (views (unhold v a l s) w) = vSizing (views s w)"
  "vHeld (views (unhold v a l s) w) = (if w = v then del a (vHeld (views s v)) else vHeld (views s w))"
  "lDone (locks (unhold v a l s) k) = lDone (locks s k)" "lRetired (locks (unhold v a l s) k) = lRetired (locks s k)"
  "lRefs (locks (unhold v a l s) k) = lRefs (locks s k) - (if k = l then 1 else 0)"
  by (simp_all add: unhold_def bee_simps)

lemma unhold_ok:
  assumes "sz_ok s" and la: "lock_at s p a = Some l" and held: "map_of (vHeld (views s v)) a = Some l"
  shows "sz_inv {l} (unhold v a l s)" (is "sz_inv _ ?s") and "l \<notin> set (idleSizes s)" and "lock_at (unhold v a l s) = lock_at s"
proof -
  have li: "lock_inv {} s" and h: "helper_inv {} s" using assms(1) by (simp_all add: sz_inv_def)
  note D = lock_invD [OF li] and H = helper_invD [OF h]
  show at: "lock_at ?s = lock_at s" by (simp add: fun_eq_iff lock_at_def bee_simps)
  have vin: "v \<in> holders s a l" using D(6) [OF held] held by (simp add: holders_def)
  then have pos: "0 < card (holders s a l)" by (auto simp: card_gt_0_iff)
  then show idle: "l \<notin> set (idleSizes s)" using D(9) [of l] D(3) [OF la] by auto
  have live: "\<not> lRetired (locks s l)" by (rule D(10) [OF la]) (use D(3) [OF la] pos in linarith)
  have hl: "holders ?s a l = holders s a l - {v}" by (auto simp: holders_def bee_simps)
  have ho: "holders ?s b k = holders s b k" if "lock_at s q b = Some k" "k \<noteq> l" for q b k
    using that held by (auto simp: holders_def bee_simps)
  have hb: "b = a" if "lock_at s q b = Some l" for q b using D(5) [OF la that] by simp
  have "lock_inv {l} ?s"
  proof (rule lock_invI, unfold at unhold_fields)
    fix q b k assume a: "lock_at s q b = Some k"
    show "k < nextLock s" by (rule D(2) [OF a])
    show "lRefs (locks s k) - (if k = l then 1 else 0) = int (card (holders ?s b k))"
    proof (cases "k = l")
      case True
      then have "b = a" using hb a by simp
      then show ?thesis using True hl vin pos D(3) [OF la] by simp
    next
      case False
      then show ?thesis using ho [OF a] D(3) [OF a] by simp
    qed
    show "\<not> lRetired (locks s k)" if "lRefs (locks s k) - (if k = l then 1 else 0) \<noteq> 0"
      using D(10) [OF a] that live by (cases "k = l") simp_all
    assume "k \<notin> {l}" "lRefs (locks s k) - (if k = l then 1 else 0) = 0" "\<not> lRetired (locks s k)"
    then show "k \<in> set (idleSizes s)" using D(4) [OF a] by simp
  next
    fix w b k assume "map_of (if w = v then del a (vHeld (views s v)) else vHeld (views s w)) b = Some k"
    then have m: "map_of (vHeld (views s w)) b = Some k" by (auto split: if_splits)
    show "w < nextView s \<and> k < nextLock s" by (rule D(6) [OF m])
    fix q c assume "lock_at s q c = Some k"
    then show "q = vSizing (views s w) \<and> c = b" by (rule D(7) [OF m])
  next
    fix w show "distinct (keys (if w = v then del a (vHeld (views s v)) else vHeld (views s w)))" using D(8) by simp
  next
    fix k assume k: "k \<in> set (idleSizes s)"
    then show "lRefs (locks s k) - (if k = l then 1 else 0) = 0 \<and> \<not> lRetired (locks s k) \<and>
        (\<exists>p a. lock_at s p a = Some k)" using D(9) [OF k] idle by auto
  next
    show "\<And>q. distinct (keys (sLocks (sizings s q)))" by (rule D(1))
    show "\<And>q b r c k. lock_at s q b = Some k \<Longrightarrow> lock_at s r c = Some k \<Longrightarrow> q = r \<and> b = c" by (rule D(5))
  qed
  moreover have "helper_inv {l} ?s"
    unfolding helper_inv_def at unhold_fields using H(1-4) H(5) by simp
  ultimately show "sz_inv {l} ?s" by (simp add: sz_inv_def)
qed

text \<open>The lock that was let go is settled: held by another view, idle, or stopped.\<close>

lemma settle_held:
  assumes "sz_inv {l} s" and la: "lock_at s p a = Some l" and "lRefs (locks s l) \<noteq> 0"
  shows "sz_ok s"
proof -
  have li: "lock_inv {l} s" and h: "helper_inv {l} s" using assms(1) by (simp_all add: sz_inv_def)
  note D = lock_invD [OF li] and H = helper_invD [OF h]
  have "lock_inv {} s"
  proof (rule lock_invI)
    fix q b k assume "lock_at s q b = Some k" "lRefs (locks s k) = 0" "\<not> lRetired (locks s k)"
    then show "k \<in> set (idleSizes s)" using D(4) [of q b k] assms(3) by auto
  qed (fact D)+
  moreover have "helper_inv {} s"
  proof -
    have "\<exists>q b. lock_at s q b = Some k" if "k \<in> set (helpers s)" for k
      using H(5) [OF that] la by (cases "k = l") blast+
    then show ?thesis unfolding helper_inv_def using H(1-4) by simp
  qed
  ultimately show ?thesis by (simp add: sz_inv_def)
qed

lemma settle_idle:
  assumes "sz_inv {l} s" and la: "lock_at s p a = Some l" and r: "lRefs (locks s l) = 0" and t: "\<not> lRetired (locks s l)"
    and f: "nextLock s' = nextLock s" "helpers s' = helpers s" "views s' = views s" "nextView s' = nextView s" "sizings s' = sizings s"
      "idleSizes s' = List.insert l (idleSizes s)" "\<And>k. lRefs (locks s' k) = lRefs (locks s k)"
      "\<And>k. lDone (locks s' k) = lDone (locks s k)" "\<And>k. lRetired (locks s' k) = lRetired (locks s k)"
  shows "sz_ok s'"
proof -
  have li: "lock_inv {l} s" and h: "helper_inv {l} s" using assms(1) by (simp_all add: sz_inv_def)
  note D = lock_invD [OF li] and H = helper_invD [OF h]
  have at: "lock_at s' = lock_at s" by (simp add: fun_eq_iff lock_at_def f)
  have ho: "holders s' = holders s" by (simp add: fun_eq_iff holders_def f)
  have "lock_inv {} s'"
  proof (rule lock_invI, unfold at ho f)
    fix q b k assume "lock_at s q b = Some k" "lRefs (locks s k) = 0" "\<not> lRetired (locks s k)"
    then show "k \<in> set (List.insert l (idleSizes s))" using D(4) [of q b k] by auto
  next
    fix k assume "k \<in> set (List.insert l (idleSizes s))"
    then show "lRefs (locks s k) = 0 \<and> \<not> lRetired (locks s k) \<and> (\<exists>p a. lock_at s p a = Some k)"
      using D(9) [of k] r t la by auto
  qed (fact D)+
  moreover have "helper_inv {} s'"
  proof -
    have "\<exists>q b. lock_at s q b = Some k" if "k \<in> set (helpers s)" for k
      using H(5) [OF that] la by (cases "k = l") blast+
    then show ?thesis unfolding helper_inv_def at f using H(1-4) by simp
  qed
  ultimately show ?thesis by (simp add: sz_inv_def)
qed

text \<open>\<open>releaseLocked\<close> with the view's own entry dropped, by what becomes of the lock.\<close>

lemma release_other:
  "lock_at s p a \<noteq> Some l \<Longrightarrow> release_pane p v (a, l) s = upd_view v (\<lambda>x. x\<lparr>vHeld := del a (vHeld x)\<rparr>) s"
  by (simp add: release_pane_def releaseLocked_def split: option.split)

lemma release_kept:
  "lock_at s p a = Some l \<Longrightarrow> lRefs (locks s l) \<noteq> 1 \<Longrightarrow> release_pane p v (a, l) s = unhold v a l s"
  by (simp add: release_pane_def releaseLocked_def unhold_def Let_def bee_simps)

lemma release_stopped:
  assumes la: "lock_at s p a = Some l" and "lRefs (locks s l) = 1" "lDone (locks s l)"
  shows "release_pane p v (a, l) s = stopLocked p a l (unhold v a l s)"
proof -
  have "upd_view v f (stopLocked p a l t) = stopLocked p a l (upd_view v f t)" for f t
    by (simp add: stopLocked_def Let_def helper_ends_def upd_view_def upd_lock_def upd_sizing_def lock_at_def)
  then show ?thesis using assms by (simp add: release_pane_def releaseLocked_def unhold_def Let_def bee_simps)
qed

lemma release_idle:
  fixes v :: nat
  assumes la: "lock_at s p a = Some l" and "lRefs (locks s l) = 1" "\<not> lDone (locks s l)"
  defines "s' \<equiv> release_pane p v (a, l) s" and "u \<equiv> unhold v a l s"
  shows "nextLock s' = nextLock u" "helpers s' = helpers u" "views s' = views u" "nextView s' = nextView u" "sizings s' = sizings u"
    "idleSizes s' = List.insert l (idleSizes u)" "lRefs (locks s' k) = lRefs (locks u k)"
    "lDone (locks s' k) = lDone (locks u k)" "lRetired (locks s' k) = lRetired (locks u k)"
  using assms(1-3) unfolding s'_def u_def
  by (simp_all add: release_pane_def releaseLocked_def unhold_def Let_def bee_simps fun_eq_iff)

lemma forget_ok:
  assumes ok: "sz_ok s" and no: "\<And>q. lock_at s q a \<noteq> map_of (vHeld (views s v)) a \<or> lock_at s q a = None"
  shows "sz_ok (upd_view v (\<lambda>x. x\<lparr>vHeld := del a (vHeld x)\<rparr>) s)" (is "sz_ok ?s")
proof -
  have li: "lock_inv {} s" and h: "helper_inv {} s" using ok by (simp_all add: sz_inv_def)
  note D = lock_invD [OF li] and H = helper_invD [OF h]
  have at: "lock_at ?s = lock_at s" by (simp add: fun_eq_iff lock_at_def bee_simps)
  have hv: "vHeld (views ?s w) = (if w = v then del a (vHeld (views s v)) else vHeld (views s w))"
    "vSizing (views ?s w) = vSizing (views s w)" for w by (simp_all add: bee_simps)
  have ho: "holders ?s b k = holders s b k" if "lock_at s q b = Some k" for q b k
    using that no [of q] by (auto simp: holders_def bee_simps)
  have hm: "map_of (vHeld (views s w)) b = Some k"
    if "map_of (if w = v then del a (vHeld (views s v)) else vHeld (views s w)) b = Some k" for w b k
    using that by (auto split: if_splits)
  have "lock_inv {} ?s"
  proof (rule lock_invI, unfold at hv upd_view_fields(1-8))
    fix q b k assume a: "lock_at s q b = Some k"
    show "lRefs (locks s k) = int (card (holders ?s b k))" using D(3) [OF a] ho [OF a] by simp
  next
    fix w b k assume "map_of (if w = v then del a (vHeld (views s v)) else vHeld (views s w)) b = Some k"
    from hm [OF this] show "w < nextView s \<and> k < nextLock s" by (rule D(6))
  next
    fix w b k q c assume "map_of (if w = v then del a (vHeld (views s v)) else vHeld (views s w)) b = Some k"
      "lock_at s q c = Some k"
    from hm [OF this(1)] this(2) show "q = vSizing (views s w) \<and> c = b" by (rule D(7))
  next
    fix w show "distinct (keys (if w = v then del a (vHeld (views s v)) else vHeld (views s w)))" using D(8) by simp
  qed (fact D)+
  moreover have "helper_inv {} ?s"
    using H unfolding helper_inv_def at upd_view_fields(1-8) by simp
  ultimately show ?thesis by (simp add: sz_inv_def)
qed

lemma release_pane_held:
  assumes h: "held_ok p v s" and e: "map_of (vHeld (views s v)) a = Some l"
  shows "held_ok p v (release_pane p v (a, l) s)" (is "held_ok p v ?s")
    and "vHeld (views (release_pane p v (a, l) s) v) = del a (vHeld (views s v))"
proof -
  have ok: "sz_ok s" and v: "on_session p v s" using h by simp_all
  have li: "lock_inv {} s" and hi: "helper_inv {} s" using ok by (simp_all add: sz_inv_def)
  note D = lock_invD [OF li] and H = helper_invD [OF hi]
  have "held_ok p v ?s \<and> vHeld (views ?s v) = del a (vHeld (views s v))"
  proof (cases "lock_at s p a = Some l")
    case False
    have "lock_at s q a \<noteq> Some l" for q using D(7) [OF e, of q a] v False by (auto simp: on_session_def)
    then have "sz_ok (upd_view v (\<lambda>x. x\<lparr>vHeld := del a (vHeld x)\<rparr>) s)" using forget_ok [OF ok] e by simp
    then show ?thesis using v by (simp add: release_other [OF False] on_session_def bee_simps)
  next
    case la: True
    note U = unhold_ok [OF ok la e]
    have ul: "lock_at (unhold v a l s) p a = Some l" using U(3) la by simp
    have uv: "on_session p v (unhold v a l s)" using v by (simp add: on_session_def bee_simps)
    show ?thesis
    proof (cases "lRefs (locks s l) = 1")
      case False
      then have "sz_ok (unhold v a l s)" using settle_held [OF U(1) ul] by (simp add: bee_simps)
      then show ?thesis using uv release_kept [OF la False] by (simp add: bee_simps)
    next
      case one: True
      show ?thesis
      proof (cases "lDone (locks s l)")
        case True
        have "sz_ok (stopLocked p a l (unhold v a l s))" using stop_ok [OF U(1) ul] by simp
        then show ?thesis using uv release_stopped [OF la one True] by (simp add: on_session_def bee_simps)
      next
        case False
        note R = release_idle [OF la one False, of v]
        have "\<not> lRetired (locks s l)" using H(4) [OF D(2) [OF la]] False by blast
        then have "sz_ok ?s"
          by (intro settle_idle [OF U(1) ul _ _ R]) (simp_all add: bee_simps one)
        then show ?thesis using uv by (simp add: on_session_def R bee_simps)
      qed
    qed
  qed
  then show "held_ok p v ?s" "vHeld (views ?s v) = del a (vHeld (views s v))" by simp_all
qed

lemma release_panes_held:
  assumes "held_ok p v s" and "distinct (keys es)" and "\<And>a l. (a, l) \<in> set es \<Longrightarrow> map_of (vHeld (views s v)) a = Some l"
  shows "held_ok p v (release_panes p v es wanted s)"
  using assms
proof (induction es arbitrary: s)
  case (Cons e es)
  obtain a l where e: "e = (a, l)" by (cases e)
  have m: "map_of (vHeld (views s v)) a = Some l" using Cons.prems(3) e by simp
  note R = release_pane_held [OF Cons.prems(1) m]
  have "map_of (vHeld (views (release_pane p v e s) v)) b = Some k" if "(b, k) \<in> set es" for b k
  proof -
    have "b \<noteq> a" using that Cons.prems(2) e by force
    then show ?thesis using Cons.prems(3) that by (simp add: e R(2))
  qed
  then show ?case using Cons.IH Cons.prems R(1) e by simp
qed simp

lemma release_view_held: "held_ok p v s \<Longrightarrow> held_ok p v (release_panes p v (vHeld (views s v)) wanted s)"
proof -
  assume h: "held_ok p v s"
  then have "lock_inv {} s" by (simp add: sz_inv_def)
  from lock_invD(8) [OF this, of v] show ?thesis
    by (intro release_panes_held [OF h]) simp_all
qed

section \<open>Reconciliation\<close>

lemma view_field_same:
  "(\<And>x. vHeld (f x) = vHeld x \<and> vSizing (f x) = vSizing x) \<Longrightarrow> same_locks s (upd_view v f s)"
  by (simp add: same_locks_def bee_simps)

lemma stop_all_fields [bee_simps]:
  "views (stop_all p ls keep s) = views s" "nextView (stop_all p ls keep s) = nextView s"
  "calls (stop_all p ls keep s) = calls s" "sPanes (sizings (stop_all p ls keep s) q) = sPanes (sizings s q)"
  "sClosed (sizings (stop_all p ls keep s) q) = sClosed (sizings s q)"
  by (induction p ls keep s rule: stop_all.induct) (simp_all add: bee_simps)

lemma refresh_fields [bee_simps]:
  "views (fst (refreshPanesLocked E p s)) = views s" "nextView (fst (refreshPanesLocked E p s)) = nextView s"
  by (simp_all add: refreshPanesLocked_def Let_def bee_simps split: sum.split)

lemma snapshot_fields [bee_simps]:
  "views (fst (snapshotLocked E p sn s)) = views s" "nextView (fst (snapshotLocked E p sn s)) = nextView s"
  by (simp_all add: snapshotLocked_def Let_def bee_simps split: option.split)

lemma snapshot_held: "held_ok p v s \<Longrightarrow> held_ok p v (fst (snapshotLocked E q sn s))"
  using snapshot_ok by (simp add: on_session_def bee_simps)

text \<open>The phases of a reconciliation: the state in which the plan starts, and what each loop leaves.\<close>

lemma reconcile_cases:
  fixes E :: senv
  assumes "reconcile E v s = (s', r)" and p: "vSizing (views s v) = p"
  obtains "sClosed (sizings s p)" "s' = s" "r = Some Binding_closed"
  | s0 e where "(if vCatalogSeen (views s v) then (s, None) else snapshotLocked E p (vSnapshot (views s v)) s) = (s0, Some e)"
      "s' = s0" "r = Some e"
  | s0 s1 e where "(if vCatalogSeen (views s v) then (s, None) else snapshotLocked E p (vSnapshot (views s v)) s) = (s0, None)"
      "s1 = upd_view v (\<lambda>x. x\<lparr>vCatalogSeen := True\<rparr>) s0"
      "wanted_panes E (views s1 v) (sPanes (sizings s1 p)) = Inl e" "s' = s1" "r = Some e"
  | s0 s1 order e where "(if vCatalogSeen (views s v) then (s, None) else snapshotLocked E p (vSnapshot (views s v)) s) = (s0, None)"
      "s1 = upd_view v (\<lambda>x. x\<lparr>vCatalogSeen := True\<rparr>) s0"
      "wanted_panes E (views s1 v) (sPanes (sizings s1 p)) = Inr order"
      "each_pane (preflight_pane E p) order (order, []) s1 = (s', Inl e)" "r = Some e"
  | s0 s1 order s2 pl e where "(if vCatalogSeen (views s v) then (s, None) else snapshotLocked E p (vSnapshot (views s v)) s) = (s0, None)"
      "s1 = upd_view v (\<lambda>x. x\<lparr>vCatalogSeen := True\<rparr>) s0"
      "wanted_panes E (views s1 v) (sPanes (sizings s1 p)) = Inr order"
      "each_pane (preflight_pane E p) order (order, []) s1 = (s2, Inr pl)"
      "each_pane (acquire_pane E p v) order pl s2 = (s', Inl e)" "r = Some e"
  | s0 s1 order s2 pl s3 pl2 where "(if vCatalogSeen (views s v) then (s, None) else snapshotLocked E p (vSnapshot (views s v)) s) = (s0, None)"
      "s1 = upd_view v (\<lambda>x. x\<lparr>vCatalogSeen := True\<rparr>) s0"
      "wanted_panes E (views s1 v) (sPanes (sizings s1 p)) = Inr order"
      "each_pane (preflight_pane E p) order (order, []) s1 = (s2, Inr pl)"
      "each_pane (acquire_pane E p v) order pl s2 = (s3, Inr pl2)"
      "s' = release_panes p v (vHeld (views s3 v)) (fst pl2) s3" "r = None"
proof -
  obtain s0 e where c: "(if vCatalogSeen (views s v) then (s, None) else snapshotLocked E p (vSnapshot (views s v)) s) = (s0, e)"
    by fastforce
  define s1 where "s1 = upd_view v (\<lambda>x. x\<lparr>vCatalogSeen := True\<rparr>) s0"
  define w where "w = wanted_panes E (views s1 v) (sPanes (sizings s1 p))"
  have R: "(s', r) = reconcile E v s" by (rule assms(1) [symmetric])
  note R = R [unfolded reconcile_def Let_def p c]
  show thesis
  proof (cases "sClosed (sizings s p)")
    case True
    then show thesis using R by (intro that(1)) simp_all
  next
    case op: False
    show thesis
    proof (cases e)
      case (Some x)
      then show thesis using R op c by (intro that(2)) simp_all
    next
      case c0: None
      note c = c [unfolded c0]
      show thesis
      proof (cases w)
        case (Inl x)
        then show thesis using R op c0 by (intro that(3) [OF c s1_def]) (simp_all add: w_def s1_def [symmetric])
      next
        case (Inr order)
        note w = Inr [unfolded w_def]
        obtain s2 r2 where 2: "each_pane (preflight_pane E p) order (order, []) s1 = (s2, r2)" by fastforce
        show thesis
        proof (cases r2)
          case (Inl x)
          then show thesis using R op c0 w 2 by (intro that(4) [OF c s1_def w]) (simp_all add: s1_def [symmetric])
        next
          case r2: (Inr pl)
          note 2 = 2 [unfolded r2]
          obtain s3 r3 where 3: "each_pane (acquire_pane E p v) order pl s2 = (s3, r3)" by fastforce
          show thesis
          proof (cases r3)
            case (Inl x)
            then show thesis using R op c0 w 2 3 by (intro that(5) [OF c s1_def w 2]) (simp_all add: s1_def [symmetric])
          next
            case r3: (Inr pl2)
            then show thesis using R op c0 w 2 3 by (intro that(6) [OF c s1_def w 2 3 [unfolded r3]]) (simp_all add: s1_def [symmetric])
          qed
        qed
      qed
    qed
  qed
qed

lemma start_of_plan_held:
  assumes "held_ok p v s"
    and "(if vCatalogSeen (views s v) then (s, None) else snapshotLocked E p (vSnapshot (views s v)) s) = (s0, r)"
  shows "held_ok p v s0" and "held_ok p v (upd_view v (\<lambda>x. x\<lparr>vCatalogSeen := True\<rparr>) s0)"
proof -
  show h: "held_ok p v s0"
    using snapshot_held [OF assms(1), of E p "vSnapshot (views s v)"] assms by (auto split: if_splits)
  show "held_ok p v (upd_view v (\<lambda>x. x\<lparr>vCatalogSeen := True\<rparr>) s0)"
    by (rule held_same [OF h view_field_same]) simp
qed

lemma each_preflight_held:
  assumes "held_ok p v s" and "each_pane (preflight_pane E q) as pl s = (s', r)"
  shows "held_ok p v s'"
proof -
  have "held_ok p v (fst (each_pane (preflight_pane E q) as pl s))"
    by (rule each_pane_keeps) (use preflight_held assms(1) in \<open>blast+\<close>)
  then show ?thesis using assms(2) by simp
qed

lemma each_acquire_held:
  assumes "held_ok p v s" and "each_pane (acquire_pane E p v) as pl s = (s', r)"
  shows "held_ok p v s'"
proof -
  have "held_ok p v (fst (each_pane (acquire_pane E p v) as pl s))"
    by (rule each_pane_keeps) (use acquire_ok assms(1) in \<open>blast+\<close>)
  then show ?thesis using assms(2) by simp
qed

lemma reconcile_held:
  assumes h: "held_ok p v s"
  shows "held_ok p v (fst (reconcile E v s))"
proof -
  obtain s' r where R: "reconcile E v s = (s', r)" by fastforce
  have p: "vSizing (views s v) = p" using h by (simp add: on_session_def)
  have "held_ok p v s'"
  proof (cases rule: reconcile_cases [OF R p])
    case 1
    then show ?thesis using h by simp
  next
    case (2 s0 e)
    then show ?thesis using start_of_plan_held [OF h] by blast
  next
    case (3 s0 s1 e)
    then show ?thesis using start_of_plan_held [OF h] by blast
  next
    case (4 s0 s1 order e)
    then show ?thesis using start_of_plan_held [OF h 4(1)] each_preflight_held by blast
  next
    case (5 s0 s1 order s2 pl e)
    then show ?thesis using start_of_plan_held [OF h 5(1)] each_preflight_held each_acquire_held by blast
  next
    case (6 s0 s1 order s2 pl s3 pl2)
    have "held_ok p v s3" using start_of_plan_held [OF h 6(1)] 6(2,4,5) each_preflight_held each_acquire_held by blast
    from release_view_held [OF this] show ?thesis unfolding 6(6) .
  qed
  then show ?thesis using R by simp
qed

lemma view_close_held: "held_ok p v s \<Longrightarrow> held_ok p v (view_close v s)"
proof -
  let ?s = "upd_view v (\<lambda>x. x\<lparr>vActive := False\<rparr>) s"
  assume "held_ok p v s"
  then have h: "held_ok p v ?s" by (rule held_same) (rule view_field_same, simp)
  then have "vSizing (views ?s v) = p" by (simp add: on_session_def)
  with release_view_held [OF h] show ?thesis by (simp add: view_close_def Let_def)
qed

end
