(* ===== verification/SizingView.thy ===== *)
theory SizingView
  imports Sizing Wire
begin

text \<open>
  What a viewer's relay does with the native frames of Herdr (\<open>bee/internal/herdr/sizing_wire.go\<close> and the frame
  handlers of \<open>sizing.go\<close>). Only the hello, requests, responses and snapshots are inspected; the handlers
  follow which tab the viewer shows, keep the tabs of navigations under way, and reconcile the locks.
  The text form of JSON is the codec \<open>C\<close>; what \<open>json.Unmarshal\<close> makes of it for the struct types of the
  handlers is \<open>structs\<close>. \<open>sendUp\<close> is set, and \<open>firstReady\<close> is made, as \<open>Bound.Relay\<close> does for its view.
\<close>

section \<open>The decoder\<close>

definition maxSizingFrame :: nat where
  "maxSizingFrame = 33554432"

record wire_decoder =
  wdata :: bytes
  wfail :: bool

definition wire_of :: "bytes \<Rightarrow> wire_decoder" where
  "wire_of p = \<lparr>wdata = p, wfail = False\<rparr>"

definition wire_take :: "u64 \<Rightarrow> wire_decoder \<Rightarrow> bytes \<times> wire_decoder" where
  "wire_take n d =
     (if unat n > length (wdata d) then ([], d\<lparr>wfail := True\<rparr>)
      else (take (unat n) (wdata d), d\<lparr>wdata := drop (unat n) (wdata d)\<rparr>))"

text \<open>A little-endian integer of \<open>k\<close> bytes.\<close>

definition wire_fixed :: "nat \<Rightarrow> wire_decoder \<Rightarrow> u64 \<times> wire_decoder" where
  "wire_fixed k d =
     (case wire_take (of_nat k) d of (b, d1) \<Rightarrow> (if length b = k then of_nat (get_le b) else 0, d1))"

definition wire_number :: "wire_decoder \<Rightarrow> u64 \<times> wire_decoder" where
  "wire_number d =
     (case wire_take 1 d of
        ([], d1) \<Rightarrow> (0, d1)
      | (c # _, d1) \<Rightarrow>
          (let n = of_char c :: nat in
           if n = 251 then wire_fixed 2 d1
           else if n = 252 then wire_fixed 4 d1
           else if n = 253 then wire_fixed 8 d1
           else if n \<ge> 254 then (0, d1\<lparr>wfail := True\<rparr>)
           else (of_nat n, d1)))"

definition wire_text :: "wire_decoder \<Rightarrow> bytes \<times> wire_decoder" where
  "wire_text d = (case wire_number d of (n, d1) \<Rightarrow> wire_take n d1)"

text \<open>The tag of a frame and its first two texts.\<close>

definition wire_fields :: "bytes \<Rightarrow> u64 \<times> bytes \<times> bytes \<times> wire_decoder" where
  "wire_fields p =
     (case wire_number (wire_of p) of (tag, d) \<Rightarrow>
      case wire_text d of (a, d1) \<Rightarrow>
      case wire_text d1 of (b, d2) \<Rightarrow> (tag, a, b, d2))"

text \<open>The encoder: \<open>wireNumber\<close>, \<open>wireText\<close>, \<open>wireControl\<close>.\<close>

definition wireNumber :: "u64 \<Rightarrow> bytes" where
  "wireNumber n = (if n < 251 then [char_of (unat n)] else char_of (253::nat) # put_le 8 (unat n))"

definition wireText :: "bytes \<Rightarrow> bytes" where
  "wireText s = wireNumber (of_nat (length s)) @ s"

definition wireControl :: "bytes \<Rightarrow> bytes \<Rightarrow> bytes" where
  "wireControl kind data = char_of (20::nat) # wireText kind @ wireText data"

section \<open>What the handlers read\<close>

record request =
  rqId :: bytes
  rqMethod :: bytes
  rqActive :: "bool option"
  rqPane :: bytes
  rqTab :: bytes
  rqWorkspace :: bytes

record structs =
  request_of :: "bytes \<Rightarrow> request option"
  response_of :: "bytes \<Rightarrow> bool option"             \<comment> \<open>whether there is an error\<close>
  barrier_of :: "bytes \<Rightarrow> (bool \<times> u64) option"      \<comment> \<open>and the projection revision\<close>
  snapshot_of :: "bytes \<Rightarrow> snapshot option"

definition sizing_prefix :: bytes where "sizing_prefix = ''bee-sizing:''"
definition nav_prefix :: bytes where "nav_prefix = ''bee-sizing:nav:''"

definition nav_id :: "u64 \<Rightarrow> bytes" where
  "nav_id q = nav_prefix @ decimal (unat q)"

section \<open>Navigation\<close>

text \<open>\<open>settleNavigation\<close>: a navigation is over once it is acknowledged and its handled has been seen.\<close>

definition settled :: "snapshot \<Rightarrow> navigation \<Rightarrow> bool" where
  "settled sn n \<longleftrightarrow> navAck n \<and> (navFloor n > 0 \<and> snRevision sn \<ge> navFloor n \<or> snTab sn = navTab n)"

definition settleNavigation :: "view \<Rightarrow> view" where
  "settleNavigation v = v\<lparr>vPending := filter (\<lambda>e. \<not> settled (vSnapshot v) (snd e)) (vPending v)\<rparr>"

text \<open>The tab a request leads to: \<open>[]\<close> for none.\<close>

fun find_entry :: "bytes \<Rightarrow> (bytes \<times> bytes) list \<Rightarrow> bytes" where
  "find_entry k [] = []"
| "find_entry k ((a, t) # es) = (if a = k then t else find_entry k es)"

definition target_tab :: "view \<Rightarrow> request \<Rightarrow> bytes" where
  "target_tab v r =
     (if rqMethod r = ''tab.focus'' then rqTab r
      else if rqMethod r = ''pane.focus'' then find_entry (rqPane r) (snPanes (vSnapshot v))
      else if rqMethod r = ''workspace.focus'' then find_entry (rqWorkspace r) (snWorkspaces (vSnapshot v))
      else [])"

text \<open>\<open>client_shell.surface.set\<close>: \<open>None\<close> when too many are pending.\<close>

definition surface_set :: "request \<Rightarrow> view \<Rightarrow> view option" where
  "surface_set r v =
     (case (if rqMethod r = ''client_shell.surface.set'' then rqActive r else None) of
        None \<Rightarrow> Some v
      | Some b \<Rightarrow>
          if length (vHide v) \<ge> max_pending then None
          else
            (let v1 = v\<lparr>vActivity := vActivity v + 1, vRequested := b\<rparr> in
             Some (if b then v1\<lparr>vActive := True\<rparr> else v1\<lparr>vHide := put (rqId r) (vActivity v1) (vHide v1)\<rparr>)))"

definition navigate :: "nat \<Rightarrow> request \<Rightarrow> view \<Rightarrow> view option" where
  "navigate now r v =
     (let target = target_tab v r in
      if target = [] then Some v
      else if length (vPending v) \<ge> max_pending \<or> map_of (vPending v) (rqId r) \<noteq> None then None
      else
        (let q = vSequence v + 1 in
         Some (v\<lparr>vSequence := q,
           vPending := put (rqId r) \<lparr>navTab = target, navSeq = q, navAck = False, navFloor = 0, navSince = now\<rparr> (vPending v)\<rparr>)))"

section \<open>Frames from the viewer\<close>

text \<open>The part of \<open>clientFrame\<close> before the reconciliation: the view and the frame to send, an error, or the
  frame itself when it belongs to another boot and passes unseen.\<close>

datatype inspected = Refuse sfail | Bypass | Follow bytes

definition client_hello :: "codec \<Rightarrow> bytes \<Rightarrow> bytes \<Rightarrow> bytes \<Rightarrow> view \<Rightarrow> view \<times> inspected" where
  "client_hello C p kind data v =
     (if kind \<noteq> ''endpoint.hello.v1'' then (v, Follow p)
      else if vInitialized v then (v, Refuse Native_protocol)
      else case dec C data of
        Some (JObj m) \<Rightarrow>
          if map_of m ''generation'' \<noteq> Some (JNum 1) then (v, Refuse Native_protocol)
          else
            (let active = (map_of m ''surface_active'' \<noteq> Some (JBool False)) in
             (v\<lparr>vActive := active, vRequested := active, vInitial := True, vInitialized := True\<rparr>,
              Follow (wireControl kind (enc C (JObj (put ''surface_active'' (JBool False) m))))))
      | _ \<Rightarrow> (v, Refuse Native_protocol))"

definition viewer_request :: "structs \<Rightarrow> nat \<Rightarrow> bytes \<Rightarrow> bytes \<Rightarrow> bytes \<Rightarrow> view \<Rightarrow> view \<times> inspected" where
  "viewer_request T now p boot data v =
     (if snBoot (vSnapshot v) \<noteq> [] \<and> boot \<noteq> snBoot (vSnapshot v) then (v, Bypass)
      else case request_of T data of
        None \<Rightarrow> (v, Refuse Native_protocol)
      | Some r \<Rightarrow>
          if has_prefix sizing_prefix (rqId r) then (v, Refuse Native_protocol)
          else case surface_set r v of
            None \<Rightarrow> (v, Refuse Native_protocol)
          | Some v1 \<Rightarrow>
              (case navigate now r v1 of
                 None \<Rightarrow> (v1, Refuse Native_protocol)
               | Some v2 \<Rightarrow> (v2, Follow p)))"

definition client_inspect :: "codec \<Rightarrow> structs \<Rightarrow> nat \<Rightarrow> bytes \<Rightarrow> view \<Rightarrow> view \<times> inspected" where
  "client_inspect C T now p v =
     (case wire_fields p of (tag, a, b, d2) \<Rightarrow>
        if tag = 20 then (if wfail d2 then (v, Refuse Native_protocol) else client_hello C p a b v)
        else if tag = 15 then (if wfail d2 then (v, Refuse Native_protocol) else viewer_request T now p a b v)
        else (v, Follow p))"

text \<open>A request waits for the first snapshot, or for the end of the relay: \<open>None\<close> while it does. The result is
  what is sent to Herdr and the failure, if any; a frame that bypasses is sent by \<open>relaySizingFrame\<close>.\<close>

definition client_handle :: "senv \<Rightarrow> codec \<Rightarrow> structs \<Rightarrow> nat \<Rightarrow> bytes \<Rightarrow> bee \<Rightarrow> bee \<times> bytes list \<times> sfail option" where
  "client_handle E C T v p s =
     (case client_inspect C T (nowE E) p (views s v) of (w, r) \<Rightarrow>
      let s1 = upd_view v (\<lambda>_. w) s in
      case r of
        Refuse e \<Rightarrow> (s1, [], Some e)
      | Bypass \<Rightarrow> (s1, [p], None)
      | Follow p1 \<Rightarrow>
          (case reconcile E v s1 of
             (s2, Some e) \<Rightarrow> (s2, [], Some e)
           | (s2, None) \<Rightarrow> (asked s2, [p1], sendE E (calls s2) p1)))"

definition clientFrame :: "senv \<Rightarrow> codec \<Rightarrow> structs \<Rightarrow> nat \<Rightarrow> bytes \<Rightarrow> bee \<Rightarrow> (bee \<times> bytes list \<times> sfail option) option" where
  "clientFrame E C T v p s =
     (if p \<noteq> [] \<and> hd p = char_of (15::nat) then
        (if cancelledE E (calls s) then Some (asked s, [], Some Plain_error)
         else if \<not> vReady (views s v) then None
         else Some (client_handle E C T v p (asked s)))
      else Some (client_handle E C T v p s))"

section \<open>Frames from Herdr\<close>

text \<open>\<open>surfaceRequest\<close>: a request of the relay itself, for the boot of the snapshot.\<close>

definition surface_frame :: "codec \<Rightarrow> bytes \<Rightarrow> view \<Rightarrow> bytes" where
  "surface_frame C ident v =
     char_of (15::nat) # wireText (snBoot (vSnapshot v)) @
       wireText (enc C (JObj [(''id'', JStr ident), (''method'', JStr ''client_shell.surface.set''),
                              (''params'', JObj [(''active'', JBool True)])]))"

text \<open>The result of a handler: what was sent to Herdr, and the failure or whether the frame goes on to the
  viewer.\<close>

type_synonym handled = "bee \<times> bytes list \<times> (sfail + bool)"

definition reconciled :: "senv \<Rightarrow> nat \<Rightarrow> bytes list \<Rightarrow> bool \<Rightarrow> bee \<Rightarrow> handled" where
  "reconciled E v sent forward s =
     (case reconcile E v s of
        (s1, Some e) \<Rightarrow> (s1, sent, Inl e)
      | (s1, None) \<Rightarrow> (s1, sent, Inr forward))"

text \<open>The answer to a request of the relay.\<close>

definition barrier_response :: "senv \<Rightarrow> structs \<Rightarrow> nat \<Rightarrow> bytes \<Rightarrow> bytes \<Rightarrow> bytes \<Rightarrow> bee \<Rightarrow> handled" where
  "barrier_response E T v ident final data s =
     (case (if final \<noteq> [char_of (1::nat)] then None else barrier_of T data) of
        Some (False, revision) \<Rightarrow>
          (let floor_of = (\<lambda>n. if ident = nav_id (navSeq n) then n\<lparr>navFloor := revision\<rparr> else n);
               s1 = (if has_prefix nav_prefix ident
                     then upd_view v (\<lambda>x. settleNavigation (x\<lparr>vPending := map (map_prod id floor_of) (vPending x)\<rparr>)) s
                     else s)
           in reconciled E v [] False s1)
      | _ \<Rightarrow> (s, [], Inl Native_protocol))"

text \<open>The answer to a request of the viewer: \<open>e\<close> tells whether it is an error.\<close>

definition acknowledge :: "senv \<Rightarrow> codec \<Rightarrow> nat \<Rightarrow> bytes \<Rightarrow> bool \<Rightarrow> bee \<Rightarrow> bee \<times> bytes list \<times> sfail option" where
  "acknowledge E C v ident e s =
     (case map_of (vPending (views s v)) ident of
        None \<Rightarrow> (s, [], None)
      | Some n \<Rightarrow>
          if e then (upd_view v (\<lambda>x. x\<lparr>vPending := del ident (vPending x)\<rparr>) s, [], None)
          else
            (let s1 = upd_view v (\<lambda>x. x\<lparr>vPending := put ident (n\<lparr>navAck := True\<rparr>) (vPending x)\<rparr>) s;
                 q = surface_frame C (nav_id (navSeq n)) (views s1 v)
             in if vRequested (views s1 v) then (asked s1, [q], sendE E (calls s1) q) else (s1, [], None)))"

definition finish_hide :: "bytes \<Rightarrow> bool \<Rightarrow> view \<Rightarrow> view" where
  "finish_hide ident e v =
     (case map_of (vHide v) ident of
        None \<Rightarrow> v
      | Some g \<Rightarrow>
          (let v1 = (if \<not> e \<and> g = vActivity v then v\<lparr>vActive := False, vPending := []\<rparr> else v)
           in v1\<lparr>vHide := del ident (vHide v1)\<rparr>))"

definition viewer_response :: "senv \<Rightarrow> codec \<Rightarrow> structs \<Rightarrow> nat \<Rightarrow> bytes \<Rightarrow> bytes \<Rightarrow> bytes \<Rightarrow> bee \<Rightarrow> handled" where
  "viewer_response E C T v ident final data s =
     (case (if final \<noteq> [char_of (1::nat)] then None else response_of T data) of
        None \<Rightarrow> reconciled E v [] True s
      | Some e \<Rightarrow>
          (case acknowledge E C v ident e s of
             (s1, sent, Some f) \<Rightarrow> (s1, sent, Inl f)
           | (s1, sent, None) \<Rightarrow>
               reconciled E v sent True (upd_view v (\<lambda>x. settleNavigation (finish_hide ident e x)) s1)))"

text \<open>The first snapshot activates the surface and lets the requests through.\<close>

definition make_ready :: "senv \<Rightarrow> codec \<Rightarrow> nat \<Rightarrow> bee \<Rightarrow> handled" where
  "make_ready E C v s =
     (if \<not> vInitial (views s v) then (s, [], Inr True)
      else
        (let s1 = upd_view v (\<lambda>x. x\<lparr>vInitial := False\<rparr>) s;
             q = surface_frame C ''bee-sizing:activate'' (views s1 v);
             opened = (\<lambda>t sent. if vReady (views t v) then (t, sent, Inl Double_close)
                                else (upd_view v (\<lambda>x. x\<lparr>vReady := True\<rparr>) t, sent, Inr True))
         in if \<not> vActive (views s1 v) then opened s1 []
            else case sendE E (calls s1) q of
              Some e \<Rightarrow> (asked s1, [q], Inl e)
            | None \<Rightarrow> opened (asked s1) [q]))"

definition new_snapshot :: "senv \<Rightarrow> codec \<Rightarrow> nat \<Rightarrow> snapshot \<Rightarrow> bee \<Rightarrow> handled" where
  "new_snapshot E C v sn s =
     (let old = vSnapshot (views s v) in
      if snBoot old = snBoot sn \<and> snRevision sn < snRevision old then (s, [], Inr True)
      else case reconcile E v (upd_view v (\<lambda>x. settleNavigation (x\<lparr>vSnapshot := sn, vCatalogSeen := False\<rparr>)) s) of
        (s1, Some e) \<Rightarrow> (s1, [], Inl e)
      | (s1, None) \<Rightarrow> make_ready E C v s1)"

definition serverFrame :: "senv \<Rightarrow> codec \<Rightarrow> structs \<Rightarrow> nat \<Rightarrow> bytes \<Rightarrow> bee \<Rightarrow> handled" where
  "serverFrame E C T v p s =
     (case wire_fields p of (tag, a, b, d2) \<Rightarrow>
        if tag = 18 then
          (case wire_take 1 d2 of (final, d3) \<Rightarrow>
           case wire_text d3 of (data, d4) \<Rightarrow>
             if wfail d4 \<or> length final \<noteq> 1 then (s, [], Inl Native_protocol)
             else if a \<noteq> snBoot (vSnapshot (views s v)) then (s, [], Inr True)
             else if has_prefix sizing_prefix b then barrier_response E T v b final data s
             else viewer_response E C T v b final data s)
        else if tag \<noteq> 20 then (s, [], Inr True)
        else if wfail d2 then (s, [], Inl Native_protocol)
        else if a \<noteq> ''shell.snapshot.v1'' then (s, [], Inr True)
        else case snapshot_of T b of
          None \<Rightarrow> (s, [], Inl Native_protocol)
        | Some sn \<Rightarrow> new_snapshot E C v sn s)"

section \<open>The relay\<close>

text \<open>\<open>relaySizingFrame\<close> over the bytes the peer sends before it closes. The inspection says with what a frame
  is replaced (\<open>None\<close> when nothing is left to write). The result is what was written and, unless the
  relay is over, the bytes that remain.\<close>

definition inspects :: "bool \<Rightarrow> char \<Rightarrow> bool" where
  "inspects client c \<longleftrightarrow> c = char_of (20::nat) \<or> c = char_of (if client then 15 else 18 :: nat)"

definition writeSizingFrame :: "bytes \<Rightarrow> bytes" where
  "writeSizingFrame b = put_le 4 (length b) @ b"

definition relaySizingFrame :: "(bytes \<Rightarrow> 's \<Rightarrow> 's \<times> (sfail + bytes option)) \<Rightarrow> bool \<Rightarrow> bytes \<Rightarrow> 's \<Rightarrow>
    's \<times> bytes \<times> (sfail + bytes)" where
  "relaySizingFrame inspect client inp s =
     (if length inp < 5 then (s, [], Inl Plain_error)
      else
        (let n = get_le (take 4 inp); p = take n (drop 4 inp); rest = drop n (drop 4 inp) in
         if n = 0 \<or> n > maxSizingFrame then (s, [], Inl Native_protocol)
         else if inspects client (inp ! 4) then
           (if n > 2097152 then (s, [], Inl Native_protocol)
            else if length p < n then (s, [], Inl Plain_error)
            else case inspect p s of
              (s1, Inl e) \<Rightarrow> (s1, [], Inl e)
            | (s1, Inr None) \<Rightarrow> (s1, [], Inr rest)
            | (s1, Inr (Some q)) \<Rightarrow> (s1, writeSizingFrame q, Inr rest))
         else (s, take 4 inp @ p, if length p < n then Inl Plain_error else Inr rest)))"

lemma relay_consumes: "relaySizingFrame inspect client inp s = (s1, out, Inr rest) \<Longrightarrow> length rest < length inp"
  by (auto simp: relaySizingFrame_def Let_def split: if_splits prod.splits sum.splits option.splits)

text \<open>\<open>copyFrames\<close>: until the relay is over.\<close>

function copyFrames :: "(bytes \<Rightarrow> 's \<Rightarrow> 's \<times> (sfail + bytes option)) \<Rightarrow> bool \<Rightarrow> bytes \<Rightarrow> 's \<Rightarrow> 's \<times> bytes \<times> sfail" where
  "copyFrames inspect client inp s =
     (case relaySizingFrame inspect client inp s of
        (s1, out, Inl e) \<Rightarrow> (s1, out, e)
      | (s1, out, Inr rest) \<Rightarrow> (case copyFrames inspect client rest s1 of (s2, out2, e) \<Rightarrow> (s2, out @ out2, e)))"
  by pat_completeness auto
termination
  by (relation "measure (\<lambda>(inspect, client, inp, s). length inp)") (auto dest: relay_consumes [OF sym])

declare copyFrames.simps [simp del]

section \<open>Reading what is written\<close>

lemma wire_take_append:
  "n = of_nat (length b) \<Longrightarrow> length b < 2 ^ 64 \<Longrightarrow> wire_take n \<lparr>wdata = b @ r, wfail = f\<rparr> = (b, \<lparr>wdata = r, wfail = f\<rparr>)"
  by (simp add: wire_take_def unsigned_of_nat take_bit_nat_eq_self)

lemma wire_fixed_append:
  assumes "length b = k" and "k < 2 ^ 64"
  shows "wire_fixed k \<lparr>wdata = b @ r, wfail = f\<rparr> = (of_nat (get_le b), \<lparr>wdata = r, wfail = f\<rparr>)"
  using assms by (simp add: wire_fixed_def wire_take_append)

lemma wire_number_byte:
  "wire_number \<lparr>wdata = c # r, wfail = f\<rparr> =
     (let n = of_char c :: nat; d = \<lparr>wdata = r, wfail = f\<rparr> in
      if n = 251 then wire_fixed 2 d else if n = 252 then wire_fixed 4 d else if n = 253 then wire_fixed 8 d
      else if n \<ge> 254 then (0, d\<lparr>wfail := True\<rparr>) else (of_nat n, d))"
  using wire_take_append [of 1 "[c]" r f] by (simp add: wire_number_def Let_def)

text \<open>A number in any form the decoder knows: Bee's own encoder and the gateway's.\<close>

lemma wire_number_small:
  "v < 251 \<Longrightarrow> wire_number \<lparr>wdata = char_of (unat v) # r, wfail = f\<rparr> = (v, \<lparr>wdata = r, wfail = f\<rparr>)"
proof -
  assume "v < 251"
  then have "unat v < 251" by (simp add: word_less_nat_alt)
  then show ?thesis by (simp add: wire_number_byte Let_def)
qed

lemma wire_number_sized:
  assumes k: "k = 2 \<and> t = 251 \<or> k = 4 \<and> t = 252 \<or> k = 8 \<and> t = (253::nat)" and v: "unat v < 256 ^ k"
  shows "wire_number \<lparr>wdata = char_of t # put_le k (unat v) @ r, wfail = f\<rparr> = (v, \<lparr>wdata = r, wfail = f\<rparr>)"
proof -
  have "wire_fixed k \<lparr>wdata = put_le k (unat v) @ r, wfail = f\<rparr> = (v, \<lparr>wdata = r, wfail = f\<rparr>)"
    using k v by (subst wire_fixed_append) (auto simp: get_le_put_le)
  then show ?thesis using k by (auto simp: wire_number_byte Let_def)
qed

lemma wire_number_wireNumber [simp]:
  "wire_number \<lparr>wdata = wireNumber v @ r, wfail = f\<rparr> = (v, \<lparr>wdata = r, wfail = f\<rparr>)"
  using wire_number_small wire_number_sized [of 8 253 v] unsigned_less [of v, where 'a = nat] by (simp add: wireNumber_def)

lemma wire_number_number [simp]:
  "wire_number \<lparr>wdata = number v @ r, wfail = f\<rparr> = (v, \<lparr>wdata = r, wfail = f\<rparr>)"
proof -
  have "unat v < 65536" if "v \<le> 65535" using that by (simp add: word_le_nat_alt)
  moreover have "unat v < 4294967296" if "v \<le> 4294967295" using that by (simp add: word_le_nat_alt)
  ultimately show ?thesis
    using wire_number_small wire_number_sized [of 2 251 v] wire_number_sized [of 4 252 v] wire_number_sized [of 8 253 v]
      unsigned_less [of v, where 'a = nat]
    by (simp add: number_def)
qed

lemma wire_text_written [simp]:
  assumes "length a < 2 ^ 64"
  shows "wire_text \<lparr>wdata = wireText a @ r, wfail = f\<rparr> = (a, \<lparr>wdata = r, wfail = f\<rparr>)"
    and "wire_text \<lparr>wdata = str a @ r, wfail = f\<rparr> = (a, \<lparr>wdata = r, wfail = f\<rparr>)"
  using assms by (simp_all add: wire_text_def wireText_def str_def wire_take_append)

lemma wire_tag: "of_char c < (251::nat) \<Longrightarrow> wire_number \<lparr>wdata = c # r, wfail = f\<rparr> = (of_nat (of_char c), \<lparr>wdata = r, wfail = f\<rparr>)"
  by (simp add: wire_number_byte Let_def)

lemma fields_written:
  assumes "length a < 2 ^ 64" and "length b < 2 ^ 64" and "of_char c < (251::nat)"
  shows "wire_fields (c # wireText a @ wireText b @ r) = (of_nat (of_char c), a, b, wire_of r)"
    and "wire_fields (c # str a @ str b @ r) = (of_nat (of_char c), a, b, wire_of r)"
  using assms by (simp_all add: wire_fields_def wire_of_def wire_tag)

text \<open>
  A control frame is read back as it was written, by Bee's own encoder as by the gateway's.
\<close>

theorem bee_control_round_trip:
  assumes "length kind < 2 ^ 64" and "length data < 2 ^ 64"
  shows "wire_fields (wireControl kind data) = (20, kind, data, wire_of []) \<and>
    wire_fields (control kind data) = (20, kind, data, wire_of [])"
  using fields_written [OF assms, of "char_of (20::nat)" "[]"] by (simp add: wireControl_def control_def)

lemma bee_control_round_trip_witness:
  "wire_fields (wireControl ''ab'' ''c'') = (20, ''ab'', ''c'', wire_of []) \<and>
   wire_fields (control ''ab'' ''c'') = (20, ''ab'', ''c'', wire_of [])"
  using bee_control_round_trip [of "''ab''" "''c''"] by simp

section \<open>Frames that pass\<close>

lemma sizing_relay_frame:
  assumes p: "p \<noteq> []" "length p \<le> maxSizingFrame"
  shows "relaySizingFrame inspect client (writeSizingFrame p @ rest) s =
    (if \<not> inspects client (hd p) then (s, writeSizingFrame p, Inr rest)
     else if length p > 2097152 then (s, [], Inl Native_protocol)
     else case inspect p s of
       (s1, Inl e) \<Rightarrow> (s1, [], Inl e)
     | (s1, Inr None) \<Rightarrow> (s1, [], Inr rest)
     | (s1, Inr (Some q)) \<Rightarrow> (s1, writeSizingFrame q, Inr rest))"
proof -
  have n: "get_le (put_le 4 (length p)) = length p" using p(2) by (simp add: get_le_put_le maxSizingFrame_def)
  have "(put_le 4 (length p) @ p @ rest) ! 4 = hd p" using p(1) by (cases p) (simp_all add: nth_append)
  then show ?thesis
    using p n by (simp add: relaySizingFrame_def writeSizingFrame_def Let_def Suc_le_eq)
qed

text \<open>What the relay is about: frames it does not inspect, and those whose inspection lets them go on.\<close>

definition lets_through :: "(bytes \<Rightarrow> 's \<Rightarrow> 's \<times> (sfail + bytes option)) \<Rightarrow> bool \<Rightarrow> bytes \<Rightarrow> bool" where
  "lets_through inspect client p \<longleftrightarrow> p \<noteq> [] \<and> length p \<le> maxSizingFrame \<and>
     (inspects client (hd p) \<longrightarrow> length p \<le> 2097152 \<and> (\<forall>s. snd (inspect p s) = Inr (Some p)))"

definition after_frame :: "(bytes \<Rightarrow> 's \<Rightarrow> 's \<times> (sfail + bytes option)) \<Rightarrow> bool \<Rightarrow> bytes \<Rightarrow> 's \<Rightarrow> 's" where
  "after_frame inspect client p s = (if inspects client (hd p) then fst (inspect p s) else s)"

text \<open>
  The relay carries a stream byte for byte: a frame it does not inspect passes without a look at the
  state of the view, and one that is let through changes that state alone.
\<close>

theorem relay_transparent:
  assumes "list_all (lets_through inspect client) ps"
  shows "copyFrames inspect client (concat (map writeSizingFrame ps)) s =
    (fold (after_frame inspect client) ps s, concat (map writeSizingFrame ps), Plain_error)"
  using assms
proof (induction ps arbitrary: s)
  case Nil
  show ?case by (subst copyFrames.simps) (simp add: relaySizingFrame_def)
next
  case (Cons p ps)
  let ?rest = "concat (map writeSizingFrame ps)"
  have p: "lets_through inspect client p" and ps: "list_all (lets_through inspect client) ps" using Cons.prems by simp_all
  have "relaySizingFrame inspect client (writeSizingFrame p @ ?rest) s =
      (after_frame inspect client p s, writeSizingFrame p, Inr ?rest)"
  proof (cases "inspects client (hd p)")
    case True
    then have "snd (inspect p s) = Inr (Some p)" "length p \<le> 2097152" using p by (simp_all add: lets_through_def)
    then show ?thesis using True p
      by (cases "inspect p s") (simp add: sizing_relay_frame lets_through_def after_frame_def)
  qed (use p in \<open>simp add: sizing_relay_frame lets_through_def after_frame_def\<close>)
  then show ?case using Cons.IH [OF ps] by (subst copyFrames.simps) simp
qed

lemma relay_transparent_witness:
  "copyFrames (\<lambda>p s. (s + 1, Inr (Some p))) True (concat (map writeSizingFrame [[CHR 0x14], [CHR 0x03, CHR 0x0F]])) (0::nat) =
    (fold (after_frame (\<lambda>p s. (s + 1, Inr (Some p) :: sfail + bytes option)) True) [[CHR 0x14], [CHR 0x03, CHR 0x0F]] 0,
     concat (map writeSizingFrame [[CHR 0x14], [CHR 0x03, CHR 0x0F]]), Plain_error)"
  by (rule relay_transparent) (simp add: lets_through_def maxSizingFrame_def)

end
