(* ===== verification/SizingPlan.thy ===== *)
theory SizingPlan
  imports SizingSafety SizingView
begin

text \<open>
  What a reconciliation achieves: the view holds the live lock of every pane it shows, and of no other,
  unless Herdr says that the pane is gone.
\<close>

section \<open>What the steps for one pane leave alone\<close>

definition pane_frame :: "nat \<Rightarrow> nat \<Rightarrow> bytes \<Rightarrow> bee \<Rightarrow> bee \<Rightarrow> bool" where
  "pane_frame p v a s s' \<longleftrightarrow>
     (\<forall>b. b \<noteq> a \<longrightarrow> lock_at s' p b = lock_at s p b \<and> map_of (vHeld (views s' v)) b = map_of (vHeld (views s v)) b) \<and>
     (\<forall>w. (views s' w)\<lparr>vHeld := []\<rparr> = (views s w)\<lparr>vHeld := []\<rparr>) \<and>
     sPanes (sizings s' p) = sPanes (sizings s p) \<and> sClosed (sizings s' p) = sClosed (sizings s p)"

lemma frame_refl [simp]: "pane_frame p v a s s"
  by (simp add: pane_frame_def)

lemma frame_trans: "pane_frame p v a s t \<Longrightarrow> pane_frame p v a t u \<Longrightarrow> pane_frame p v a s u"
  by (simp add: pane_frame_def)

lemma frame_unchanged: "sizings s' = sizings s \<Longrightarrow> views s' = views s \<Longrightarrow> pane_frame p v a s s'"
  by (simp add: pane_frame_def lock_at_def)

lemma frame_asked [simp]: "pane_frame p v a s (asked s)"
  by (rule frame_unchanged) (simp_all add: bee_simps)

lemma frame_stop: "lock_at s p a = Some l \<Longrightarrow> pane_frame p v a s (stopLocked p a l s)"
  by (simp add: pane_frame_def stop_lock_at bee_simps)

lemma frame_share [simp]: "pane_frame p v a s (share_lock v a l s)"
  by (simp add: pane_frame_def share_lock_def lock_at_def bee_simps)

lemma frame_put [simp]: "pane_frame p v a s (upd_sizing p (\<lambda>x. x\<lparr>sLocks := put a l (sLocks x)\<rparr>) s)"
  by (simp add: pane_frame_def lock_at_def bee_simps)

lemma reserve_unchanged: "sizings (fst (reserveSizeSlot s)) = sizings s" "views (fst (reserveSizeSlot s)) = views s"
  using reserve_evicted [of s] by (simp_all add: evicted_def)

lemma frame_hold: "holdSize E g s = (s1, r) \<Longrightarrow> pane_frame p v a s s1"
proof (rule frame_unchanged)
  assume h: "holdSize E g s = (s1, r)"
  obtain s0 e where r: "reserveSizeSlot s = (s0, e)" by (cases "reserveSizeSlot s")
  have "sizings s0 = sizings s" "views s0 = views s" using reserve_unchanged [of s] r by simp_all
  with h r show "sizings s1 = sizings s" "views s1 = views s"
    unfolding holdSize_def Let_def
    by (cases "cancelledE E (calls s)"; cases e; cases "holdE E (calls s0) g"; auto simp: bee_simps)+
qed

lemma frame_give_up: "give_up E b e pl s = (s1, r) \<Longrightarrow> pane_frame p v a s s1"
  using give_up_asked [of E b e pl s s1 r] by simp

lemma frame_read: "read_size E b pl s = (s1, r) \<Longrightarrow> pane_frame p v a s s1"
proof (cases "geometryE E (calls s) b")
  case (Inl e)
  moreover assume "read_size E b pl s = (s1, r)"
  ultimately have "give_up E b e pl (asked s) = (s1, r)" by (simp add: read_size_def)
  from frame_trans [OF frame_asked frame_give_up [OF this]] show ?thesis .
qed (auto simp: read_size_def)

section \<open>What they make of the plan\<close>

text \<open>The environment has answers, not panics; and Herdr does not list a pane.\<close>

definition answers :: "senv \<Rightarrow> bool" where
  "answers E \<longleftrightarrow> (\<forall>c. (\<forall>a. geometryE E c a \<noteq> Inl Nil_size \<and> geometryE E c a \<noteq> Inl Double_close) \<and>
     (\<forall>g. holdE E c g \<noteq> Some Nil_size \<and> holdE E c g \<noteq> Some Double_close) \<and>
     panesE E c \<noteq> Inl Nil_size \<and> panesE E c \<noteq> Inl Double_close \<and>
     (\<forall>p. sendE E c p \<noteq> Some Nil_size \<and> sendE E c p \<noteq> Some Double_close))"

abbreviation panic :: "sfail \<Rightarrow> bool" where
  "panic e \<equiv> e = Nil_size \<or> e = Double_close"

definition gone :: "senv \<Rightarrow> bytes \<Rightarrow> bool" where
  "gone E a \<longleftrightarrow> (\<exists>c panes. panesE E c = Inr panes \<and> a \<notin> set panes)"

definition plan_frame :: "senv \<Rightarrow> bytes \<Rightarrow> plan \<Rightarrow> plan \<Rightarrow> bool" where
  "plan_frame E a pl pl' \<longleftrightarrow> set (fst pl') \<subseteq> set (fst pl) \<and>
     (\<forall>b. b \<in> set (fst pl) \<longrightarrow> b \<notin> set (fst pl') \<longrightarrow> b = a \<and> gone E a) \<and>
     (\<forall>b. map_of (snd pl) b \<noteq> None \<longrightarrow> map_of (snd pl') b \<noteq> None)"

lemma plan_refl [simp]: "plan_frame E a pl pl"
  by (simp add: plan_frame_def)

text \<open>The result of a step: no panic, and the plan as it should be.\<close>

definition step_ok :: "senv \<Rightarrow> bytes \<Rightarrow> plan \<Rightarrow> (plan \<Rightarrow> bool) \<Rightarrow> sfail + plan \<Rightarrow> bool" where
  "step_ok E a pl Q r \<longleftrightarrow>
     (case r of Inl e \<Rightarrow> answers E \<longrightarrow> \<not> panic e
      | Inr pl' \<Rightarrow> plan_frame E a pl pl' \<and> (a \<in> set (fst pl') \<longrightarrow> Q pl'))"

lemma give_up_step:
  assumes "give_up E a e pl s = (s', r)" and "answers E \<Longrightarrow> \<not> panic e"
  shows "step_ok E a pl (\<lambda>_. False) r"
proof -
  obtain x where x: "acquisitionErrorLocked E a e s = (asked s, x)"
    using acquisition_asked [of E a e s] by (cases "acquisitionErrorLocked E a e s") simp
  show ?thesis
  proof (cases x)
    case None
    then have "gone E a" using x
      by (auto simp: acquisitionErrorLocked_def gone_def split: if_splits sum.splits)
    then show ?thesis using assms(1) x None by (auto simp: give_up_def step_ok_def plan_frame_def)
  next
    case (Some f)
    then have "f = e \<or> f = Plain_error" using x
      by (auto simp: acquisitionErrorLocked_def split: if_splits sum.splits)
    then show ?thesis using assms x Some by (auto simp: give_up_def step_ok_def)
  qed
qed

lemma step_weaken: "step_ok E a pl Q r \<Longrightarrow> (\<And>pl'. Q pl' \<Longrightarrow> Q' pl') \<Longrightarrow> step_ok E a pl Q' r"
  by (auto simp: step_ok_def split: sum.splits)

lemma read_size_step:
  assumes "read_size E a pl s = (s', r)"
  shows "step_ok E a pl (\<lambda>pl'. map_of (snd pl') a \<noteq> None) r"
proof (cases "geometryE E (calls s) a")
  case (Inl e)
  then have g: "give_up E a e pl (asked s) = (s', r)" using assms by (simp add: read_size_def)
  have "answers E \<Longrightarrow> \<not> panic e" using Inl by (auto simp: answers_def)
  from step_weaken [OF give_up_step [OF g this]] show ?thesis by simp
next
  case (Inr g)
  then have "r = Inr (fst pl, put a g (snd pl))" using assms by (simp add: read_size_def)
  then show ?thesis by (simp add: step_ok_def plan_frame_def)
qed

text \<open>A pane is prepared when it has a lock or its size was read.\<close>

abbreviation prepared :: "nat \<Rightarrow> bytes \<Rightarrow> bee \<Rightarrow> plan \<Rightarrow> bool" where
  "prepared p a s pl \<equiv> lock_at s p a \<noteq> None \<or> map_of (snd pl) a \<noteq> None"

lemma preflight_step:
  assumes "preflight_pane E p a pl s = (s', r)"
  shows "pane_frame p v a s s'" and "step_ok E a pl (prepared p a s') r"
proof -
  let ?d = "drop_retired p a s"
  have d: "pane_frame p v a s ?d"
    using frame_stop by (simp add: drop_retired_def split: option.split)
  have "pane_frame p v a s s' \<and> step_ok E a pl (prepared p a s') r"
  proof (cases "lock_at ?d p a")
    case None
    then have r: "read_size E a pl ?d = (s', r)" using assms by (simp add: preflight_pane_def)
    have "step_ok E a pl (prepared p a s') r" by (rule step_weaken [OF read_size_step [OF r]]) simp
    with frame_trans [OF d frame_read [OF r]] show ?thesis by simp
  next
    case (Some l)
    show ?thesis
    proof (cases "lDone (locks ?d l)")
      case True
      then have g: "give_up E a Sizing_unavailable pl (stopLocked p a l ?d) = (s', r)"
        using assms Some by (simp add: preflight_pane_def Let_def)
      have "pane_frame p v a s s'"
        by (rule frame_trans [OF d frame_trans [OF frame_stop [OF Some] frame_give_up [OF g]]])
      moreover have "step_ok E a pl (prepared p a s') r"
        by (rule step_weaken [OF give_up_step [OF g]]) simp_all
      ultimately show ?thesis by simp
    next
      case False
      then have "s' = ?d" "r = Inr pl" using assms Some by (simp_all add: preflight_pane_def Let_def)
      then show ?thesis using d Some by (simp add: step_ok_def)
    qed
  qed
  then show "pane_frame p v a s s'" "step_ok E a pl (prepared p a s') r" by simp_all
qed

text \<open>A pane is held when the view holds the lock the session has for it.\<close>

definition holds :: "nat \<Rightarrow> nat \<Rightarrow> bytes \<Rightarrow> bee \<Rightarrow> bool" where
  "holds p v a s \<longleftrightarrow> lock_at s p a \<noteq> None \<and> map_of (vHeld (views s v)) a = lock_at s p a"

lemma share_holds: "lock_at s p a = Some l \<Longrightarrow> holds p v a (share_lock v a l s)"
  by (simp add: holds_def share_lock_def lock_at_def bee_simps)

lemma start_step:
  assumes "start_lock E p v a pl s = (s', r)" and g: "map_of (snd pl) a \<noteq> None"
  shows "pane_frame p v a s s'" and "step_ok E a pl (\<lambda>_. holds p v a s') r"
proof -
  obtain g where g: "map_of (snd pl) a = Some g" using g by blast
  obtain s1 x where h: "holdSize E g s = (s1, x)" by (cases "holdSize E g s")
  note f1 = frame_hold [OF h, of p v a]
  have "pane_frame p v a s s' \<and> step_ok E a pl (\<lambda>_. holds p v a s') r"
  proof (cases x)
    case (Inl e)
    then have u: "give_up E a e pl s1 = (s', r)" using assms(1) g h by (simp add: start_lock_def)
    have "\<not> panic e" if "answers E"
    proof -
      obtain s0 y where y: "reserveSizeSlot s = (s0, y)" by (cases "reserveSizeSlot s")
      then have "y \<noteq> Some Nil_size \<and> y \<noteq> Some Double_close" using reserve_result [OF y] by auto
      then show ?thesis using h y that unfolding holdSize_def Let_def
        by (cases "cancelledE E (calls s)"; cases y; cases "holdE E (calls s0) g") (auto simp: Inl answers_def)
    qed
    from step_weaken [OF give_up_step [OF u this]] frame_trans [OF f1 frame_give_up [OF u]] show ?thesis by simp
  next
    case (Inr l)
    let ?u = "upd_sizing p (\<lambda>x. x\<lparr>sLocks := put a l (sLocks x)\<rparr>) s1"
    have s': "s' = share_lock v a l ?u" and r: "r = Inr pl" using assms(1) g h Inr by (simp_all add: start_lock_def)
    have "lock_at ?u p a = Some l" by (simp add: lock_at_def bee_simps)
    from share_holds [OF this] have "holds p v a s'" by (simp add: s')
    moreover have "pane_frame p v a s s'" unfolding s'
      by (rule frame_trans [OF f1 frame_trans [OF frame_put frame_share]])
    ultimately show ?thesis by (simp add: r step_ok_def)
  qed
  then show "pane_frame p v a s s'" "step_ok E a pl (\<lambda>_. holds p v a s') r" by simp_all
qed

lemma plan_frameD:
  assumes "plan_frame E a pl pl'"
  shows "set (fst pl') \<subseteq> set (fst pl)"
    and "b \<in> set (fst pl) \<Longrightarrow> b \<notin> set (fst pl') \<Longrightarrow> b = a \<and> gone E a"
    and "map_of (snd pl) b \<noteq> None \<Longrightarrow> map_of (snd pl') b \<noteq> None"
proof -
  note A = assms [unfolded plan_frame_def]
  show "set (fst pl') \<subseteq> set (fst pl)" by (rule A [THEN conjunct1])
  show "b \<in> set (fst pl) \<Longrightarrow> b \<notin> set (fst pl') \<Longrightarrow> b = a \<and> gone E a"
    by (rule A [THEN conjunct2, THEN conjunct1, THEN spec, THEN mp, THEN mp])
  show "map_of (snd pl) b \<noteq> None \<Longrightarrow> map_of (snd pl') b \<noteq> None"
    by (rule A [THEN conjunct2, THEN conjunct2, THEN spec, THEN mp])
qed

lemma plan_trans:
  assumes p: "plan_frame E a p1 p2" and q: "plan_frame E a p2 p3"
  shows "plan_frame E a p1 p3"
  unfolding plan_frame_def
proof (intro conjI allI impI)
  show "set (fst p3) \<subseteq> set (fst p1)" using plan_frameD(1) [OF p] plan_frameD(1) [OF q] by (rule order_trans [rotated])
next
  fix b assume "map_of (snd p1) b \<noteq> None"
  then show "map_of (snd p3) b \<noteq> None" by (intro plan_frameD(3) [OF q] plan_frameD(3) [OF p])
next
  fix b assume b: "b \<in> set (fst p1)" "b \<notin> set (fst p3)"
  have *: "b = a \<and> gone E a"
  proof (cases "b \<in> set (fst p2)")
    case True
    then show ?thesis using plan_frameD(2) [OF q _ b(2)] by simp
  next
    case False
    then show ?thesis using plan_frameD(2) [OF p b(1)] by simp
  qed
  from * show "b = a" by (rule conjunct1)
  from * show "gone E a" by (rule conjunct2)
qed

lemma acquire_step:
  assumes r: "acquire_pane E p v a pl s = (s', r)" and g: "prepared p a s pl"
  shows "pane_frame p v a s s'" and "step_ok E a pl (\<lambda>_. holds p v a s') r"
proof -
  have "pane_frame p v a s s' \<and> step_ok E a pl (\<lambda>_. holds p v a s') r"
  proof (cases "lock_at s p a")
    case None
    then have "start_lock E p v a pl s = (s', r)" "map_of (snd pl) a \<noteq> None"
      using r g by (simp_all add: acquire_pane_def)
    then show ?thesis using start_step by blast
  next
    case (Some l)
    consider (has) "map_of (vHeld (views s v)) a = Some l"
      | (shared) "map_of (vHeld (views s v)) a \<noteq> Some l" "lRefs (locks s l) \<noteq> 0"
      | (idle) "map_of (vHeld (views s v)) a \<noteq> Some l" "lRefs (locks s l) = 0" by blast
    then show ?thesis
    proof cases
      case has
      then have "s' = s" "r = Inr pl" using r Some by (simp_all add: acquire_pane_def)
      then show ?thesis using Some has by (simp add: step_ok_def holds_def)
    next
      case shared
      then have "s' = share_lock v a l s" "r = Inr pl" using r Some by (simp_all add: acquire_pane_def)
      then show ?thesis using share_holds [OF Some] by (simp add: step_ok_def)
    next
      case idle
      obtain s1 b where u: "reuseLocked p a l s = (s1, b)" by (cases "reuseLocked p a l s")
      show ?thesis
      proof (cases b)
        case True
        then have s1: "sizings s1 = sizings s" "views s1 = views s"
          using u by (auto simp: reuseLocked_def Let_def bee_simps split: if_splits)
        have "s' = share_lock v a l s1" "r = Inr pl" using r Some idle u True by (simp_all add: acquire_pane_def)
        moreover have "lock_at s1 p a = Some l" using Some s1 by (simp add: lock_at_def)
        ultimately show ?thesis
          using share_holds frame_trans [OF frame_unchanged [OF s1] frame_share] by (simp add: step_ok_def)
      next
        case False
        let ?i = "s\<lparr>idleSizes := removeAll l (idleSizes s)\<rparr>"
        have s1: "s1 = stopLocked p a l ?i" using u False by (auto simp: reuseLocked_def Let_def split: if_splits)
        have f1: "pane_frame p v a s s1" unfolding s1
          by (rule frame_trans [OF frame_unchanged frame_stop]) (use Some in \<open>simp_all add: lock_at_def\<close>)
        obtain s2 x where rd: "read_size E a pl s1 = (s2, x)" by (cases "read_size E a pl s1")
        note f2 = frame_trans [OF f1 frame_read [OF rd, of p v a]]
        note st = read_size_step [OF rd]
        show ?thesis
        proof (cases x)
          case (Inl e)
          then have "s' = s2" "r = Inl e" using r Some idle u False rd by (simp_all add: acquire_pane_def)
          then show ?thesis using f2 st Inl by (simp add: step_ok_def)
        next
          case (Inr pl2)
          show ?thesis
          proof (cases "a \<in> set (fst pl2)")
            case True
            then have k: "start_lock E p v a pl2 s2 = (s', r)"
              using r Some idle u False rd Inr by (simp add: acquire_pane_def)
            have "map_of (snd pl2) a \<noteq> None" and pf: "plan_frame E a pl pl2"
              using st Inr True by (simp_all add: step_ok_def)
            note S = start_step [OF k this(1)]
            have "step_ok E a pl (\<lambda>_. holds p v a s') r"
              using S(2) plan_trans [OF pf] by (auto simp: step_ok_def split: sum.splits)
            then show ?thesis using frame_trans [OF f2 S(1)] by simp
          next
            case gone: False
            then have "s' = s2" "r = Inr pl2" using r Some idle u False rd Inr by (simp_all add: acquire_pane_def)
            then show ?thesis using f2 st Inr gone by (simp add: step_ok_def)
          qed
        qed
      qed
    qed
  qed
  then show "pane_frame p v a s s'" "step_ok E a pl (\<lambda>_. holds p v a s') r" by simp_all
qed

section \<open>The loops\<close>

text \<open>What the steps for several panes leave alone.\<close>

definition view_frame :: "nat \<Rightarrow> nat \<Rightarrow> bee \<Rightarrow> bee \<Rightarrow> bool" where
  "view_frame p v s s' \<longleftrightarrow> (\<forall>w. (views s' w)\<lparr>vHeld := []\<rparr> = (views s w)\<lparr>vHeld := []\<rparr>) \<and>
     sPanes (sizings s' p) = sPanes (sizings s p) \<and> sClosed (sizings s' p) = sClosed (sizings s p)"

lemma view_frame_trans: "view_frame p v s t \<Longrightarrow> view_frame p v t u \<Longrightarrow> view_frame p v s u"
  by (simp add: view_frame_def)

lemma view_frame_refl [simp]: "view_frame p v s s"
  by (simp add: view_frame_def)

lemma pane_view: "pane_frame p v a s s' \<Longrightarrow> view_frame p v s s'"
  by (simp add: pane_frame_def view_frame_def)

text \<open>A loop whose steps establish \<open>Q\<close> for their pane and keep it for the others.\<close>

definition loop_ok :: "senv \<Rightarrow> plan \<Rightarrow> (bytes \<Rightarrow> plan \<Rightarrow> bool) \<Rightarrow> sfail + plan \<Rightarrow> bool" where
  "loop_ok E pl Q r \<longleftrightarrow>
     (case r of Inl e \<Rightarrow> answers E \<longrightarrow> \<not> panic e
      | Inr pl' \<Rightarrow> set (fst pl') \<subseteq> set (fst pl) \<and> (\<forall>b. b \<in> set (fst pl) \<longrightarrow> b \<notin> set (fst pl') \<longrightarrow> gone E b) \<and>
          (\<forall>b. b \<in> set (fst pl') \<longrightarrow> Q b pl'))"

locale pane_loop =
  fixes E :: senv and p v :: nat
    and f :: "bytes \<Rightarrow> plan \<Rightarrow> bee \<Rightarrow> bee \<times> (sfail + plan)"
    and P Q :: "bytes \<Rightarrow> bee \<Rightarrow> plan \<Rightarrow> bool"
  assumes step: "f a pl s = (s', r) \<Longrightarrow> a \<in> set (fst pl) \<Longrightarrow> P a s pl \<Longrightarrow> pane_frame p v a s s' \<and> step_ok E a pl (Q a s') r"
    and P: "pane_frame p v a s s' \<Longrightarrow> plan_frame E a pl pl' \<Longrightarrow> b \<noteq> a \<Longrightarrow> P b s pl \<Longrightarrow> P b s' pl'"
    and Q: "pane_frame p v a s s' \<Longrightarrow> plan_frame E a pl pl' \<Longrightarrow> b \<noteq> a \<Longrightarrow> Q b s pl \<Longrightarrow> Q b s' pl'"
begin

lemma loop:
  "each_pane f as pl s = (s', r) \<Longrightarrow> distinct as \<Longrightarrow> (\<And>b. b \<in> set as \<Longrightarrow> P b s pl) \<Longrightarrow>
    view_frame p v s s' \<and> loop_ok E pl (\<lambda>b pl'. b \<in> set as \<or> Q b s pl \<longrightarrow> Q b s' pl') r"
proof (induction as arbitrary: pl s)
  case Nil
  then show ?case by (auto simp: loop_ok_def)
next
  case (Cons a as)
  show ?case
  proof (cases "a \<in> set (fst pl)")
    case False
    then have e: "each_pane f as pl s = (s', r)" using Cons.prems(1) by simp
    have "distinct as" "\<And>b. b \<in> set as \<Longrightarrow> P b s pl" using Cons.prems(2,3) by simp_all
    note IH = Cons.IH [OF e this]
    have "loop_ok E pl (\<lambda>b pl'. b \<in> set (a # as) \<or> Q b s pl \<longrightarrow> Q b s' pl') r"
      using IH False by (auto simp: loop_ok_def split: sum.splits)
    then show ?thesis using IH by blast
  next
    case True
    obtain s1 x where f: "f a pl s = (s1, x)" by (cases "f a pl s")
    have pa: "P a s pl" using Cons.prems(3) by simp
    from step [OF f True pa] have fr: "pane_frame p v a s s1" and st: "step_ok E a pl (Q a s1) x" by simp_all
    show ?thesis
    proof (cases x)
      case (Inl e)
      then have "s' = s1" "r = Inl e" using Cons.prems(1) True f by simp_all
      then show ?thesis using st Inl pane_view [OF fr] by (simp add: step_ok_def loop_ok_def)
    next
      case (Inr pl1)
      then have e: "each_pane f as pl1 s1 = (s', r)" using Cons.prems(1) True f by simp
      have pf: "plan_frame E a pl pl1" and qa: "a \<in> set (fst pl1) \<Longrightarrow> Q a s1 pl1"
        using st Inr by (simp_all add: step_ok_def)
      have d: "distinct as" "a \<notin> set as" using Cons.prems(2) by simp_all
      have pb: "P b s1 pl1" if "b \<in> set as" for b
        using P [OF fr pf _ Cons.prems(3)] that d(2) by (metis list.set_intros(2))
      note IH = Cons.IH [OF e d(1) pb]
      have q1: "Q b s1 pl1" if "b \<in> set (fst pl1)" "b = a \<or> Q b s pl" for b
        using that qa Q [OF fr pf] by (cases "b = a") simp_all
      have "loop_ok E pl (\<lambda>b pl'. b \<in> set (a # as) \<or> Q b s pl \<longrightarrow> Q b s' pl') r"
      proof (cases r)
        case (Inl e)
        then show ?thesis using IH by (simp add: loop_ok_def)
      next
        case (Inr pl2)
        note L = IH [THEN conjunct2, unfolded loop_ok_def Inr sum.case]
        have s1: "set (fst pl1) \<subseteq> set (fst pl)" using pf by (simp add: plan_frame_def)
        have "set (fst pl2) \<subseteq> set (fst pl)" using L s1 by blast
        moreover have "gone E b" if "b \<in> set (fst pl)" "b \<notin> set (fst pl2)" for b
          using plan_frameD(2) [OF pf that(1)] L that(2) by blast
        moreover have "Q b s' pl2" if "b \<in> set (fst pl2)" "b \<in> set (a # as) \<or> Q b s pl" for b
          using L q1 [of b] that by auto
        ultimately show ?thesis by (auto simp: loop_ok_def Inr)
      qed
      then show ?thesis using IH view_frame_trans [OF pane_view [OF fr]] by blast
    qed
  qed
qed

end

interpretation preflight: pane_loop E p v "preflight_pane E p" "\<lambda>_ _ _. True" "prepared p" for E p v
proof unfold_locales
  show "pane_frame p v a s s' \<and> step_ok E a pl (prepared p a s') r"
    if "preflight_pane E p a pl s = (s', r)" for a pl s s' r using preflight_step [OF that] by blast
  show "prepared p b s' pl'" if "pane_frame p v a s s'" "plan_frame E a pl pl'" "b \<noteq> a" "prepared p b s pl" for a b pl pl' s s'
    using that by (auto simp: pane_frame_def plan_frame_def)
qed simp_all

interpretation acquire: pane_loop E p v "acquire_pane E p v" "\<lambda>b s pl. b \<in> set (fst pl) \<longrightarrow> prepared p b s pl" "\<lambda>b s pl. holds p v b s"
  for E p v
proof unfold_locales
  show "pane_frame p v a s s' \<and> step_ok E a pl (\<lambda>_. holds p v a s') r"
    if "acquire_pane E p v a pl s = (s', r)" "a \<in> set (fst pl)" "a \<in> set (fst pl) \<longrightarrow> prepared p a s pl" for a pl s s' r
    using acquire_step [OF that(1)] that(2,3) by blast
  show "b \<in> set (fst pl') \<longrightarrow> prepared p b s' pl'"
    if "pane_frame p v a s s'" "plan_frame E a pl pl'" "b \<noteq> a" "b \<in> set (fst pl) \<longrightarrow> prepared p b s pl" for a b pl pl' s s'
    using that(1,3,4) plan_frameD(1) [OF that(2)] plan_frameD(3) [OF that(2), of b] by (auto simp: pane_frame_def)
  show "holds p v b s'" if "pane_frame p v a s s'" "plan_frame E a pl pl'" "b \<noteq> a" "holds p v b s" for a b pl pl' s s'
    using that(1,3,4) by (simp add: pane_frame_def holds_def)
qed

lemma preflight_loop:
  assumes "each_pane (preflight_pane E p) as pl s = (s', r)" and "distinct as"
  shows "view_frame p v s s' \<and> loop_ok E pl (\<lambda>b pl'. b \<in> set as \<or> prepared p b s pl \<longrightarrow> prepared p b s' pl') r"
  using preflight.loop [OF assms] by simp

lemma acquire_loop:
  assumes "each_pane (acquire_pane E p v) as pl s = (s', r)" and "distinct as"
    and "\<And>b. b \<in> set as \<Longrightarrow> b \<in> set (fst pl) \<longrightarrow> prepared p b s pl"
  shows "view_frame p v s s' \<and> loop_ok E pl (\<lambda>b pl'. b \<in> set as \<or> holds p v b s \<longrightarrow> holds p v b s') r"
  by (rule acquire.loop [OF assms])

section \<open>The release\<close>

lemma release_frame: "pane_frame p v a s (release_pane p v (a, l) s)"
proof -
  have "pane_frame p v a s (releaseLocked p a (Some l) s)"
  proof (cases "lock_at s p a = Some l \<and> lRefs (locks s l) = 1 \<and> lDone (locks s l)")
    case True
    let ?s = "upd_lock l (\<lambda>x. x\<lparr>lRefs := lRefs x - 1\<rparr>) s"
    have "lock_at ?s p a = Some l" using True by (simp add: lock_at_def bee_simps)
    from frame_stop [OF this] have "pane_frame p v a s (stopLocked p a l ?s)"
      by (rule frame_trans [OF frame_unchanged, rotated 2]) (simp_all add: bee_simps)
    then show ?thesis using True by (simp add: releaseLocked_def Let_def bee_simps)
  next
    case False
    have "sizings (releaseLocked p a (Some l) s) = sizings s" "views (releaseLocked p a (Some l) s) = views s"
      using False by (auto simp: releaseLocked_def Let_def bee_simps fun_eq_iff split: option.split)
    then show ?thesis by (rule frame_unchanged)
  qed
  moreover have "pane_frame p v a t (upd_view v (\<lambda>x. x\<lparr>vHeld := del a (vHeld x)\<rparr>) t)" for t
    by (simp add: pane_frame_def lock_at_def bee_simps)
  ultimately show ?thesis unfolding release_pane_def fst_conv snd_conv by (rule frame_trans)
qed

lemma release_drops:
  "map_of (vHeld (views (release_pane p v (a, l) s) v)) a = None"
  by (simp add: release_pane_def bee_simps)

lemma release_loop:
  fixes p v :: nat and wanted :: "bytes list"
  assumes "distinct (keys es)"
  defines "out \<equiv> release_panes p v es wanted"
  shows "view_frame p v s (out s) \<and>
    (\<forall>b. b \<notin> set (keys es) \<or> b \<in> set wanted \<longrightarrow>
       lock_at (out s) p b = lock_at s p b \<and> map_of (vHeld (views (out s) v)) b = map_of (vHeld (views s v)) b) \<and>
    (\<forall>b. b \<in> set (keys es) \<longrightarrow> b \<notin> set wanted \<longrightarrow> map_of (vHeld (views (out s) v)) b = None)"
  using assms(1) unfolding out_def
proof (induction es arbitrary: s)
  case (Cons e es)
  obtain a l where e: "e = (a, l)" by (cases e)
  define t where "t = (if a \<in> set wanted then s else release_pane p v e s)"
  have f: "pane_frame p v a s t" using release_frame by (simp add: e t_def)
  have d: "distinct (keys es)" "a \<notin> set (keys es)" using Cons.prems by (simp_all add: e)
  note I = Cons.IH [OF d(1), of t]
  note I2 = I [THEN conjunct2, THEN conjunct1, rule_format] and I3 = I [THEN conjunct2, THEN conjunct2, rule_format]
  have out: "release_panes p v (e # es) wanted s = release_panes p v es wanted t" by (simp add: e t_def)
  show ?case unfolding out
  proof (intro conjI allI impI)
    show "view_frame p v s (release_panes p v es wanted t)" using view_frame_trans [OF pane_view [OF f]] I by blast
  next
    fix b assume b: "b \<notin> set (keys (e # es)) \<or> b \<in> set wanted"
    then have k: "b \<notin> set (keys es) \<or> b \<in> set wanted" and ab: "a \<noteq> b \<or> a \<in> set wanted" by (auto simp: e)
    then have "lock_at t p b = lock_at s p b \<and> map_of (vHeld (views t v)) b = map_of (vHeld (views s v)) b"
      using f by (auto simp: pane_frame_def t_def)
    then show "lock_at (release_panes p v es wanted t) p b = lock_at s p b"
      "map_of (vHeld (views (release_panes p v es wanted t) v)) b = map_of (vHeld (views s v)) b"
      using I2 [OF k] by simp_all
  next
    fix b assume b: "b \<in> set (keys (e # es))" "b \<notin> set wanted"
    show "map_of (vHeld (views (release_panes p v es wanted t) v)) b = None"
    proof (cases "b = a")
      case True
      then have "map_of (vHeld (views t v)) b = None" using b(2) release_drops by (simp add: e t_def)
      then show ?thesis using I2 [of b] d(2) True by simp
    next
      case False
      then have "b \<in> set (keys es)" using b(1) by (simp add: e)
      then show ?thesis by (rule I3) (rule b(2))
    qed
  qed
qed simp

section \<open>The reconciliation of a view\<close>

lemma panes_on_distinct: "distinct order \<Longrightarrow> distinct (panes_on tabs known ps order)"
  by (induction tabs known ps order rule: panes_on.induct) (simp_all split: option.split)

lemma wanted_distinct: "wanted_panes E w known = Inr order \<Longrightarrow> distinct order"
  using panes_on_distinct [of "[]"] by (auto simp: wanted_panes_def Let_def split: if_splits)

lemma wanted_length: "wanted_panes E w known = Inr order \<Longrightarrow> length order \<le> max_helpers"
  by (auto simp: wanted_panes_def Let_def split: if_splits)

lemma wanted_cong: "w'\<lparr>vHeld := []\<rparr> = w\<lparr>vHeld := []\<rparr> \<Longrightarrow> wanted_panes E w' known = wanted_panes E w known"
proof -
  assume "w'\<lparr>vHeld := []\<rparr> = w\<lparr>vHeld := []\<rparr>"
  from arg_cong [OF this, of vActive] arg_cong [OF this, of vPending] arg_cong [OF this, of vSnapshot]
  have "vActive w' = vActive w" "vPending w' = vPending w" "vSnapshot w' = vSnapshot w" by simp_all
  then show ?thesis by (simp add: wanted_panes_def visible_tabs_def)
qed

text \<open>What a view that was reconciled holds.\<close>

definition served :: "senv \<Rightarrow> nat \<Rightarrow> bee \<Rightarrow> bytes list \<Rightarrow> bool" where
  "served E v s order \<longleftrightarrow>
     (let p = vSizing (views s v); held = vHeld (views s v) in
      set (keys held) \<subseteq> set order \<and>
      (\<forall>a \<in> set order. (case map_of held a of
         Some l \<Rightarrow> lock_at s p a = Some l \<and> lRefs (locks s l) > 0 \<and> \<not> lRetired (locks s l)
       | None \<Rightarrow> gone E a)))"

lemma holds_live:
  assumes ok: "sz_ok s" and h: "map_of (vHeld (views s v)) a = Some l" "lock_at s p a = Some l"
  shows "lRefs (locks s l) > 0 \<and> \<not> lRetired (locks s l)"
proof -
  have li: "lock_inv {} s" using ok by (simp add: sz_inv_def)
  have "v \<in> holders s a l" using lock_invD(6) [OF li h(1)] h(1) by (simp add: holders_def)
  then have "0 < card (holders s a l)" by (auto simp: card_gt_0_iff)
  then have "lRefs (locks s l) > 0" using lock_invD(3) [OF li h(2)] by simp
  with lock_invD(10) [OF li h(2)] show ?thesis by simp
qed

lemma reconcile_served:
  assumes R: "reconcile E v s = (s', None)" and h: "held_ok p v s"
  shows "\<exists>order. wanted_panes E (views s' v) (sPanes (sizings s' p)) = Inr order \<and> served E v s' order"
proof -
  have p: "vSizing (views s v) = p" using h by (simp add: on_session_def)
  show ?thesis
  proof (cases rule: reconcile_cases [OF R p])
    case (6 s0 s1 order s2 pl s3 pl2)
    have h3: "held_ok p v s3"
      using start_of_plan_held [OF h 6(1)] 6(2,4,5) each_preflight_held each_acquire_held by blast
    have h': "held_ok p v s'" using release_view_held [OF h3] by (simp add: 6(6))
    have d: "distinct order" by (rule wanted_distinct [OF 6(3)])
    note F = preflight_loop [OF 6(4) d, of v]
    have pre: "\<And>b. b \<in> set order \<Longrightarrow> b \<in> set (fst pl) \<longrightarrow> prepared p b s2 pl"
      using F by (simp add: loop_ok_def)
    note A = acquire_loop [OF 6(5) d pre]
    have sub: "set (fst pl2) \<subseteq> set (fst pl)" "set (fst pl) \<subseteq> set order" using F A by (simp_all add: loop_ok_def)
    have lost: "gone E b" if "b \<in> set order" "b \<notin> set (fst pl2)" for b
      using F A that by (cases "b \<in> set (fst pl)") (simp_all add: loop_ok_def)
    have has: "holds p v b s3" if "b \<in> set (fst pl2)" for b using A sub that by (auto simp: loop_ok_def)
    have "lock_inv {} s3" using h3 by (simp add: sz_inv_def)
    from lock_invD(8) [OF this, of v] have dk: "distinct (keys (vHeld (views s3 v)))" .
    note L = release_loop [OF dk, of p v s3 "fst pl2", folded 6(6)]
    have keep: "lock_at s' p b = lock_at s3 p b" "map_of (vHeld (views s' v)) b = map_of (vHeld (views s3 v)) b"
      if "b \<in> set (fst pl2)" for b using L that by blast+
    have drop: "map_of (vHeld (views s' v)) b = None" if "b \<notin> set (fst pl2)" for b
    proof (cases "b \<in> set (keys (vHeld (views s3 v)))")
      case True
      then show ?thesis using L that by blast
    next
      case False
      then have "map_of (vHeld (views s' v)) b = map_of (vHeld (views s3 v)) b" using L by blast
      also have "\<dots> = None" using False by (simp add: map_of_eq_None_iff)
      finally show ?thesis .
    qed
    have vf: "view_frame p v s1 s'"
      by (rule view_frame_trans [OF F [THEN conjunct1] view_frame_trans [OF A [THEN conjunct1] L [THEN conjunct1]]])
    have w: "wanted_panes E (views s' v) (sPanes (sizings s' p)) = Inr order"
      using 6(3) vf wanted_cong [of "views s' v" "views s1 v"] by (simp add: view_frame_def)
    have p': "vSizing (views s' v) = p" using h' by (simp add: on_session_def)
    have "set (keys (vHeld (views s' v))) \<subseteq> set order"
    proof
      fix b assume "b \<in> set (keys (vHeld (views s' v)))"
      then have "map_of (vHeld (views s' v)) b \<noteq> None" by (simp add: map_of_eq_None_iff)
      then have "b \<in> set (fst pl2)" using drop [of b] by (cases "b \<in> set (fst pl2)") simp_all
      then show "b \<in> set order" by (rule subsetD [OF sub(2) subsetD [OF sub(1)]])
    qed
    moreover have "case map_of (vHeld (views s' v)) a of
         Some l \<Rightarrow> lock_at s' p a = Some l \<and> lRefs (locks s' l) > 0 \<and> \<not> lRetired (locks s' l)
       | None \<Rightarrow> gone E a" if "a \<in> set order" for a
    proof (cases "a \<in> set (fst pl2)")
      case True
      then obtain l where l: "map_of (vHeld (views s' v)) a = Some l" "lock_at s' p a = Some l"
        using has [OF True] keep [OF True] by (auto simp: holds_def)
      with holds_live [OF _ l] h' show ?thesis by simp
    next
      case False
      then show ?thesis using lost [OF that] drop by simp
    qed
    ultimately show ?thesis using w p' by (auto simp: served_def Let_def)
  qed simp_all
qed

lemma snapshot_no_panic: "answers E \<Longrightarrow> snapshotLocked E p sn s = (s', Some e) \<Longrightarrow> \<not> panic e"
  by (auto simp: snapshotLocked_def refreshPanesLocked_def Let_def answers_def split: if_splits option.splits sum.splits)

lemma reconcile_no_panic:
  assumes R: "reconcile E v s = (s', Some e)" and E: "answers E"
  shows "\<not> panic e"
proof (cases rule: reconcile_cases [OF R refl])
  case (2 s0 x)
  then show ?thesis using snapshot_no_panic [OF E] by (auto split: if_splits)
next
  case (3 s0 s1 x)
  then show ?thesis by (auto simp: wanted_panes_def Let_def split: if_splits)
next
  case (4 s0 s1 order x)
  from preflight_loop [OF 4(4) wanted_distinct [OF 4(3)]] show ?thesis using 4(5) E by (simp add: loop_ok_def)
next
  case (5 s0 s1 order s2 pl x)
  note d = wanted_distinct [OF 5(3)]
  have "\<And>b. b \<in> set order \<Longrightarrow> b \<in> set (fst pl) \<longrightarrow> prepared (vSizing (views s v)) b s2 pl"
    using preflight_loop [OF 5(4) d] by (simp add: loop_ok_def)
  from acquire_loop [OF 5(5) d this] show ?thesis using 5(6) E by (simp add: loop_ok_def)
qed simp_all

text \<open>A reconciliation changes nothing of the views but what they hold and that the catalog has been seen.\<close>

definition same_views :: "bee \<Rightarrow> bee \<Rightarrow> bool" where
  "same_views s s' \<longleftrightarrow> (\<forall>w. (views s' w)\<lparr>vHeld := [], vCatalogSeen := False\<rparr> = (views s w)\<lparr>vHeld := [], vCatalogSeen := False\<rparr>)"

lemma same_views_trans: "same_views s t \<Longrightarrow> same_views t u \<Longrightarrow> same_views s u"
  by (simp add: same_views_def)

lemma view_frame_same: "view_frame p v s s' \<Longrightarrow> same_views s s'"
  unfolding same_views_def view_frame_def
proof (intro allI)
  fix w assume "(\<forall>w. (views s' w)\<lparr>vHeld := []\<rparr> = (views s w)\<lparr>vHeld := []\<rparr>) \<and>
    sPanes (sizings s' p) = sPanes (sizings s p) \<and> sClosed (sizings s' p) = sClosed (sizings s p)"
  then have "(views s' w)\<lparr>vHeld := []\<rparr> = (views s w)\<lparr>vHeld := []\<rparr>" by blast
  from arg_cong [OF this, of "\<lambda>x. x\<lparr>vCatalogSeen := False\<rparr>"]
  show "(views s' w)\<lparr>vHeld := [], vCatalogSeen := False\<rparr> = (views s w)\<lparr>vHeld := [], vCatalogSeen := False\<rparr>" by simp
qed

lemma same_viewsD:
  assumes "same_views s s'"
  shows "vSizing (views s' w) = vSizing (views s w)" "vActive (views s' w) = vActive (views s w)"
    "vSnapshot (views s' w) = vSnapshot (views s w)" "vPending (views s' w) = vPending (views s w)"
    "vSequence (views s' w) = vSequence (views s w)" "vInitial (views s' w) = vInitial (views s w)"
    "vInitialized (views s' w) = vInitialized (views s w)" "vActivity (views s' w) = vActivity (views s w)"
    "vHide (views s' w) = vHide (views s w)" "vRequested (views s' w) = vRequested (views s w)"
    "vReady (views s' w) = vReady (views s w)"
proof -
  have e: "(views s' w)\<lparr>vHeld := [], vCatalogSeen := False\<rparr> = (views s w)\<lparr>vHeld := [], vCatalogSeen := False\<rparr>"
    using assms by (simp add: same_views_def)
  note A = arg_cong [OF e]
  show "vSizing (views s' w) = vSizing (views s w)" using A [of vSizing] by simp
  show "vActive (views s' w) = vActive (views s w)" using A [of vActive] by simp
  show "vSnapshot (views s' w) = vSnapshot (views s w)" using A [of vSnapshot] by simp
  show "vPending (views s' w) = vPending (views s w)" using A [of vPending] by simp
  show "vSequence (views s' w) = vSequence (views s w)" using A [of vSequence] by simp
  show "vInitial (views s' w) = vInitial (views s w)" using A [of vInitial] by simp
  show "vInitialized (views s' w) = vInitialized (views s w)" using A [of vInitialized] by simp
  show "vActivity (views s' w) = vActivity (views s w)" using A [of vActivity] by simp
  show "vHide (views s' w) = vHide (views s w)" using A [of vHide] by simp
  show "vRequested (views s' w) = vRequested (views s w)" using A [of vRequested] by simp
  show "vReady (views s' w) = vReady (views s w)" using A [of vReady] by simp
qed

lemma same_views_eq: "views s' = views s \<Longrightarrow> same_views s s'"
  by (simp add: same_views_def)

lemma release_same_views: "distinct (keys es) \<Longrightarrow> same_views s (release_panes p v es wanted s)"
  by (rule view_frame_same [OF release_loop [THEN conjunct1]])

lemma plan_same_views:
  assumes "(if vCatalogSeen (views s v) then (s, None) else snapshotLocked E p sn s) = (s0, x)"
  shows "same_views s s0" and "same_views s (upd_view v (\<lambda>x. x\<lparr>vCatalogSeen := True\<rparr>) s0)"
proof -
  have "views s0 = views s" using assms snapshot_fields(1) [of E p sn s] by (auto split: if_splits)
  then show s0: "same_views s s0" by (rule same_views_eq)
  have "same_views s0 (upd_view v (\<lambda>x. x\<lparr>vCatalogSeen := True\<rparr>) s0)" by (simp add: same_views_def bee_simps)
  with s0 show "same_views s (upd_view v (\<lambda>x. x\<lparr>vCatalogSeen := True\<rparr>) s0)" by (rule same_views_trans)
qed

lemma reconcile_same_views:
  assumes ok: "sz_ok s" and v: "v < nextView s"
  shows "same_views s (fst (reconcile E v s))"
proof -
  obtain s' r where R: "reconcile E v s = (s', r)" by fastforce
  define p where p: "p = vSizing (views s v)"
  have h: "held_ok p v s" using ok v by (simp add: p on_session_def)
  have "same_views s s'"
  proof (cases rule: reconcile_cases [OF R p [symmetric]])
    case 1
    then show ?thesis by (simp add: same_views_eq)
  next
    case (2 s0 e)
    then show ?thesis using plan_same_views(1) by blast
  next
    case (3 s0 s1 e)
    then show ?thesis using plan_same_views(2) by blast
  next
    case (4 s0 s1 order e)
    note S = plan_same_views(2) [OF 4(1), folded 4(2)]
    show ?thesis
      by (rule same_views_trans [OF S view_frame_same [OF preflight_loop [OF 4(4) wanted_distinct [OF 4(3)], THEN conjunct1]]])
  next
    case (5 s0 s1 order s2 pl e)
    note S = plan_same_views(2) [OF 5(1), folded 5(2)] and d = wanted_distinct [OF 5(3)]
    note F = preflight_loop [OF 5(4) d, of v]
    have "\<And>b. b \<in> set order \<Longrightarrow> b \<in> set (fst pl) \<longrightarrow> prepared p b s2 pl" using F by (simp add: loop_ok_def)
    note A = acquire_loop [OF 5(5) d this]
    show ?thesis
      by (rule same_views_trans [OF S view_frame_same [OF view_frame_trans [OF F [THEN conjunct1] A [THEN conjunct1]]]])
  next
    case (6 s0 s1 order s2 pl s3 pl2)
    note S = plan_same_views(2) [OF 6(1), folded 6(2)] and d = wanted_distinct [OF 6(3)]
    note F = preflight_loop [OF 6(4) d, of v]
    have "\<And>b. b \<in> set order \<Longrightarrow> b \<in> set (fst pl) \<longrightarrow> prepared p b s2 pl" using F by (simp add: loop_ok_def)
    note A = acquire_loop [OF 6(5) d this]
    have "held_ok p v s3"
      using start_of_plan_held [OF h 6(1)] 6(2,4,5) each_preflight_held each_acquire_held by blast
    then have "lock_inv {} s3" by (simp add: sz_inv_def)
    from lock_invD(8) [OF this, of v] have out: "same_views s3 s'" unfolding 6(6) by (rule release_same_views)
    have "same_views s1 s3" by (rule view_frame_same [OF view_frame_trans [OF F [THEN conjunct1] A [THEN conjunct1]]])
    from same_views_trans [OF same_views_trans [OF S this] out] show ?thesis .
  qed
  then show ?thesis using R by simp
qed

end
