(* ===== verification/SizingSystem.thy ===== *)
theory SizingSystem
  imports SizingPlan
begin

text \<open>
  The sizing of a Bee as a whole: relays come and go, their frames and ticks are handled, timers fire, helpers
  end by themselves, and a publication is closed, in any order.
\<close>

section \<open>Steps\<close>

definition no_snapshot :: snapshot where
  "no_snapshot = \<lparr>snRevision = 0, snBoot = [], snTab = [], snWorkspaces = [], snPanes = []\<rparr>"

definition new_view :: "nat \<Rightarrow> view" where
  "new_view p = \<lparr>vSizing = p, vActive = False, vSnapshot = no_snapshot, vCatalogSeen = False, vHeld = [], vPending = [],
     vSequence = 0, vInitial = False, vInitialized = False, vActivity = 0, vHide = [], vRequested = False, vReady = False\<rparr>"

definition no_lock :: lock where
  "no_lock = \<lparr>lRefs = 0, lDone = False, lRetire = None, lEpoch = 0, lRetired = False\<rparr>"

definition initial_bee :: bee where
  "initial_bee = \<lparr>locks = (\<lambda>_. no_lock), nextLock = 0, sizings = (\<lambda>_. \<lparr>sClosed = False, sLocks = [], sPanes = None\<rparr>),
     views = (\<lambda>_. new_view 0), nextView = 0, helpers = [], idleSizes = [], scheduled = [], calls = 0\<rparr>"

definition open_view :: "nat \<Rightarrow> bee \<Rightarrow> bee" where
  "open_view p s = s\<lparr>views := (views s)(nextView s := new_view p), nextView := nextView s + 1\<rparr>"

inductive bee_step :: "bee \<Rightarrow> bee \<Rightarrow> bool" where
  relay: "bee_step s (open_view p s)"
| client: "v < nextView s \<Longrightarrow> clientFrame E C T v p s = Some (s', sent, r) \<Longrightarrow> bee_step s s'"
| server: "v < nextView s \<Longrightarrow> serverFrame E C T v p s = (s', sent, r) \<Longrightarrow> bee_step s s'"
| tick: "v < nextView s \<Longrightarrow> reconcile E v s = (s', r) \<Longrightarrow> bee_step s s'"
| leave: "v < nextView s \<Longrightarrow> bee_step s (view_close v s)"
| timer: "(p, a, l, e) \<in> set (scheduled s) \<Longrightarrow> bee_step s (expire p a l e s)"
| ended: "l \<in> set (helpers s) \<Longrightarrow> bee_step s (helper_ends l s)"
| noticed: "lDone (locks s l) \<Longrightarrow> bee_step s (watch p a l s)"
| unpublish: "bee_step s (sizing_close p s)"

inductive bee_reachable :: "bee \<Rightarrow> bool" where
  init: "bee_reachable initial_bee"
| step: "bee_reachable s \<Longrightarrow> bee_step s s' \<Longrightarrow> bee_reachable s'"

inductive_cases bee_stepE: "bee_step s s'"

section \<open>The handlers keep the invariant\<close>

text \<open>Bounds on what a view remembers, and its opening.\<close>

definition view_inv :: "view \<Rightarrow> bool" where
  "view_inv x \<longleftrightarrow> length (vPending x) \<le> max_pending \<and> length (vHide x) \<le> max_pending \<and>
     (vInitial x \<longrightarrow> vInitialized x \<and> \<not> vReady x) \<and> (\<not> vInitialized x \<longrightarrow> \<not> vReady x)"

definition bee_ok :: "bee \<Rightarrow> bool" where
  "bee_ok s \<longleftrightarrow> sz_ok s \<and> (\<forall>w. view_inv (views s w))"

lemma bee_okD: "bee_ok s \<Longrightarrow> sz_ok s" "bee_ok s \<Longrightarrow> view_inv (views s w)"
  by (simp_all add: bee_ok_def)

lemma same_views_inv: "same_views s s' \<Longrightarrow> view_inv (views s w) \<Longrightarrow> view_inv (views s' w)"
  by (simp add: view_inv_def same_viewsD)

lemma bee_ok_same: "bee_ok s \<Longrightarrow> sz_ok s' \<Longrightarrow> same_views s s' \<Longrightarrow> bee_ok s'"
  using same_views_inv by (simp add: bee_ok_def)

lemma bee_ok_asked: "bee_ok s \<Longrightarrow> bee_ok (asked s)"
  by (rule bee_ok_same) (auto simp: bee_ok_def asked_ok same_views_def bee_simps)

lemma bee_ok_view:
  assumes s: "bee_ok s" and f: "vHeld (f (views s v)) = vHeld (views s v)" "vSizing (f (views s v)) = vSizing (views s v)"
    and i: "view_inv (f (views s v))"
  shows "bee_ok (upd_view v f s)"
proof -
  have "sz_ok (upd_view v f s)"
    by (rule sz_same [OF bee_okD(1) [OF s]]) (simp add: same_locks_def bee_simps f)
  then show ?thesis using s i by (simp add: bee_ok_def bee_simps)
qed

lemma reconcile_bee: "bee_ok s \<Longrightarrow> v < nextView s \<Longrightarrow> bee_ok (fst (reconcile E v s)) \<and> v < nextView (fst (reconcile E v s))"
proof -
  assume s: "bee_ok s" and v: "v < nextView s"
  have "held_ok (vSizing (views s v)) v s" using s v by (simp add: bee_ok_def on_session_def)
  from reconcile_held [OF this, of E] bee_ok_same [OF s _ reconcile_same_views [OF bee_okD(1) [OF s] v]]
  show ?thesis by (simp add: on_session_def)
qed

text \<open>The frames from the viewer.\<close>

lemma surface_set_inv:
  "view_inv x \<Longrightarrow> surface_set r x = Some y \<Longrightarrow> view_inv y \<and> vHeld y = vHeld x \<and> vSizing y = vSizing x"
  using length_put_le [of "rqId r" "vActivity x + 1" "vHide x"]
  by (auto simp: surface_set_def view_inv_def Let_def split: option.splits if_splits)

lemma navigate_inv:
  assumes "view_inv x" and "navigate now r x = Some y"
  shows "view_inv y \<and> vHeld y = vHeld x \<and> vSizing y = vSizing x"
proof -
  have "length (put (rqId r) n (vPending x)) \<le> max_pending" if "length (vPending x) < max_pending" for n
    using length_put_le [of "rqId r" n "vPending x"] that by linarith
  then show ?thesis using assms by (auto simp: navigate_def view_inv_def Let_def split: if_splits)
qed

lemma client_inspect_inv:
  assumes x: "view_inv x" and c: "client_inspect C T now p x = (y, r)"
  shows "view_inv y \<and> vHeld y = vHeld x \<and> vSizing y = vSizing x"
proof -
  obtain tag a b d where w: "wire_fields p = (tag, a, b, d)" by (metis surj_pair)
  have hello: "view_inv y \<and> vHeld y = vHeld x \<and> vSizing y = vSizing x" if "client_hello C p a b x = (y, r)"
    using that x by (auto simp: client_hello_def view_inv_def Let_def split: if_splits option.splits json.splits)
  have req: "view_inv y \<and> vHeld y = vHeld x \<and> vSizing y = vSizing x" if q: "viewer_request T now p a b x = (y, r)"
  proof -
    have "y = x \<or> (\<exists>q. surface_set q x = Some y) \<or> (\<exists>q z. surface_set q x = Some z \<and> navigate now q z = Some y)"
      using q by (auto simp: viewer_request_def split: if_splits option.splits)
    then show ?thesis using surface_set_inv [OF x] navigate_inv x by metis
  qed
  show ?thesis using c x hello req by (auto simp: client_inspect_def w split: if_splits)
qed

lemma client_handle_bee:
  assumes s: "bee_ok s" and v: "v < nextView s" and c: "client_handle E C T v p s = (s', sent, r)"
  shows "bee_ok s'"
proof -
  obtain w q where i: "client_inspect C T (nowE E) p (views s v) = (w, q)" by fastforce
  let ?s = "upd_view v (\<lambda>_. w) s"
  have s1: "bee_ok ?s" "v < nextView ?s"
    using bee_ok_view [OF s] client_inspect_inv [OF bee_okD(2) [OF s] i] v by (simp_all add: bee_simps)
  obtain s2 e where R: "reconcile E v ?s = (s2, e)" by fastforce
  have "bee_ok s2" using reconcile_bee [OF s1] R by (metis fst_conv)
  then show ?thesis using c i R s1(1) bee_ok_asked [of s2]
    by (auto simp: client_handle_def Let_def split: inspected.splits option.splits)
qed

lemma client_bee:
  assumes s: "bee_ok s" and v: "v < nextView s" and c: "clientFrame E C T v p s = Some (s', sent, r)"
  shows "bee_ok s'"
proof -
  have "v < nextView (asked s)" using v by (simp add: bee_simps)
  with client_handle_bee [OF bee_ok_asked [OF s]] client_handle_bee [OF s v] bee_ok_asked [OF s] c
  show ?thesis by (auto simp: clientFrame_def split: if_splits)
qed

text \<open>The frames from Herdr.\<close>

lemma settle_fields [bee_simps]:
  "vHeld (settleNavigation x) = vHeld x" "vSizing (settleNavigation x) = vSizing x" "vHide (settleNavigation x) = vHide x"
  "vInitial (settleNavigation x) = vInitial x" "vInitialized (settleNavigation x) = vInitialized x"
  "vReady (settleNavigation x) = vReady x" "vActive (settleNavigation x) = vActive x" "vSnapshot (settleNavigation x) = vSnapshot x"
  "vActivity (settleNavigation x) = vActivity x" "vRequested (settleNavigation x) = vRequested x"
  by (simp_all add: settleNavigation_def)

lemma settle_inv: "view_inv x \<Longrightarrow> view_inv (settleNavigation x)"
  using order_trans [OF length_filter_le [of "\<lambda>e. \<not> settled (vSnapshot x) (snd e)" "vPending x"]]
  by (simp add: view_inv_def bee_simps) (simp add: settleNavigation_def)

lemma snapshot_inv: "view_inv x \<Longrightarrow> view_inv (x\<lparr>vSnapshot := sn, vCatalogSeen := b\<rparr>)"
  by (simp add: view_inv_def)

lemma pending_inv: "view_inv x \<Longrightarrow> length m \<le> length (vPending x) \<Longrightarrow> view_inv (x\<lparr>vPending := m\<rparr>)"
  by (simp add: view_inv_def)

lemma finish_hide_inv: "view_inv x \<Longrightarrow> view_inv (finish_hide ident e x) \<and> vHeld (finish_hide ident e x) = vHeld x \<and>
    vSizing (finish_hide ident e x) = vSizing x"
  using length_del_le [of ident "vHide x"] by (auto simp: finish_hide_def view_inv_def Let_def split: option.split)

abbreviation view_ok :: "nat \<Rightarrow> bee \<Rightarrow> bool" where
  "view_ok v s \<equiv> bee_ok s \<and> v < nextView s"

lemma view_ok_upd:
  assumes "view_ok v s" and "\<And>x. view_inv x \<Longrightarrow> view_inv (f x) \<and> vHeld (f x) = vHeld x \<and> vSizing (f x) = vSizing x"
  shows "view_ok v (upd_view v f s)"
  using bee_ok_view [of s f v] assms bee_okD(2) [of s v] by (simp add: bee_simps)

lemma view_ok_asked: "view_ok v s \<Longrightarrow> view_ok v (asked s)"
  using bee_ok_asked by (simp add: bee_simps)

lemma reconciled_ok: "view_ok v s \<Longrightarrow> view_ok v (fst (reconciled E v sent fwd s))"
  using reconcile_bee [of s v E] by (cases "reconcile E v s") (simp add: reconciled_def split: option.split)

lemma barrier_ok:
  assumes s: "view_ok v s"
  shows "view_ok v (fst (barrier_response E T v ident final data s))"
proof -
  have "view_ok v (upd_view v (\<lambda>x. settleNavigation (x\<lparr>vPending := map (map_prod id g) (vPending x)\<rparr>)) s)" for g
    by (rule view_ok_upd [OF s]) (simp add: settle_inv pending_inv bee_simps)
  then show ?thesis using s reconciled_ok
    by (simp add: barrier_response_def Let_def split: option.split bool.split)
qed

lemma acknowledge_ok:
  assumes s: "view_ok v s" and a: "acknowledge E C v ident e s = (s', sent, r)"
  shows "view_ok v s'"
proof (cases "map_of (vPending (views s v)) ident")
  case None
  then show ?thesis using a s by (simp add: acknowledge_def)
next
  case (Some n)
  have len: "length (put ident m (vPending (views s v))) = length (vPending (views s v))" for m
    using map_of_SomeD [OF Some] by (force simp: length_put)
  have i: "view_inv (views s v)" using s bee_okD(2) by blast
  have "bee_ok (upd_view v (\<lambda>x. x\<lparr>vPending := put ident m (vPending x)\<rparr>) s)" for m
    using bee_ok_view [of s "\<lambda>x. x\<lparr>vPending := put ident m (vPending x)\<rparr>" v] s pending_inv [OF i] len by simp
  then have p: "view_ok v (upd_view v (\<lambda>x. x\<lparr>vPending := put ident m (vPending x)\<rparr>) s)" for m
    using s by (simp add: bee_simps)
  have d: "view_ok v (upd_view v (\<lambda>x. x\<lparr>vPending := del ident (vPending x)\<rparr>) s)"
    by (rule view_ok_upd [OF s]) (simp add: pending_inv length_del_le)
  show ?thesis using a d p view_ok_asked [OF p] Some by (auto simp: acknowledge_def Let_def split: if_splits)
qed

lemma viewer_response_ok:
  assumes s: "view_ok v s"
  shows "view_ok v (fst (viewer_response E C T v ident final data s))"
proof -
  have "view_ok v (fst (case acknowledge E C v ident e s of
             (s1, sent, Some f) \<Rightarrow> (s1, sent, Inl f)
           | (s1, sent, None) \<Rightarrow>
               reconciled E v sent True (upd_view v (\<lambda>x. settleNavigation (finish_hide ident e x)) s1)))" for e
  proof -
    obtain s1 sent r where a: "acknowledge E C v ident e s = (s1, sent, r)" by (metis surj_pair)
    have s1: "view_ok v s1" by (rule acknowledge_ok [OF s a])
    have "view_ok v (upd_view v (\<lambda>x. settleNavigation (finish_hide ident e x)) s1)"
      by (rule view_ok_upd [OF s1]) (simp add: settle_inv finish_hide_inv bee_simps)
    from reconciled_ok [OF this] s1 show ?thesis by (simp add: a split: option.split)
  qed
  then show ?thesis using reconciled_ok [OF s] by (simp add: viewer_response_def split: option.split)
qed

lemma make_ready_ok:
  assumes s: "view_ok v s"
  shows "view_ok v (fst (make_ready E C v s))"
proof (cases "vInitial (views s v)")
  case True
  let ?s = "upd_view v (\<lambda>x. x\<lparr>vInitial := False\<rparr>) s"
  have s1: "view_ok v ?s" by (rule view_ok_upd [OF s]) (simp add: view_inv_def)
  have i: "vInitialized (views ?s v)" "\<not> vInitial (views ?s v)"
    using True bee_okD(2) [of s v] s by (simp_all add: view_inv_def bee_simps)
  have "bee_ok (upd_view v (\<lambda>x. x\<lparr>vReady := True\<rparr>) t)" if "bee_ok t" "views t = views ?s" for t
    using bee_ok_view [OF that(1), of "\<lambda>x. x\<lparr>vReady := True\<rparr>" v] bee_okD(2) [OF that(1), of v] i that(2)
    by (simp add: view_inv_def)
  then have r: "view_ok v (upd_view v (\<lambda>x. x\<lparr>vReady := True\<rparr>) ?s)"
      "view_ok v (upd_view v (\<lambda>x. x\<lparr>vReady := True\<rparr>) (asked ?s))"
    using s1 view_ok_asked [OF s1] by (simp_all add: bee_simps)
  show ?thesis using True s1 view_ok_asked [OF s1] r
    by (simp add: make_ready_def Let_def split: option.split)
qed (use s in \<open>simp add: make_ready_def\<close>)

lemma new_snapshot_ok:
  assumes s: "view_ok v s"
  shows "view_ok v (fst (new_snapshot E C v sn s))"
proof -
  let ?s = "upd_view v (\<lambda>x. settleNavigation (x\<lparr>vSnapshot := sn, vCatalogSeen := False\<rparr>)) s"
  have s1: "view_ok v ?s"
    by (rule view_ok_upd [OF s]) (simp add: settle_inv snapshot_inv bee_simps)
  obtain s2 r where R: "reconcile E v ?s = (s2, r)" by fastforce
  then have "view_ok v s2" using reconcile_bee [of ?s v E] s1 by simp
  then show ?thesis using s R make_ready_ok [of s2 v] by (simp add: new_snapshot_def Let_def split: option.split)
qed

lemma server_bee: "view_ok v s \<Longrightarrow> view_ok v (fst (serverFrame E C T v p s))"
proof -
  assume s: "view_ok v s"
  obtain tag a b d where w: "wire_fields p = (tag, a, b, d)" by (metis surj_pair)
  obtain final d3 where 3: "wire_take 1 d = (final, d3)" by fastforce
  obtain data d4 where 4: "wire_text d3 = (data, d4)" by fastforce
  show ?thesis
    using s barrier_ok [OF s] viewer_response_ok [OF s] new_snapshot_ok [OF s]
    by (simp add: serverFrame_def w 3 4 split: option.split)
qed

section \<open>Every reachable state\<close>

lemma initial_ok: "bee_ok initial_bee"
  by (simp add: bee_ok_def sz_inv_def lock_inv_def helper_inv_def initial_bee_def lock_at_def new_view_def view_inv_def)

lemma open_view_ok:
  assumes s: "bee_ok s"
  shows "bee_ok (open_view p s)" (is "bee_ok ?s")
proof -
  have li: "lock_inv {} s" and h: "helper_inv {} s" using s by (simp_all add: bee_ok_def sz_inv_def)
  note D = lock_invD [OF li]
  have f: "sizings ?s = sizings s" "locks ?s = locks s" "nextLock ?s = nextLock s" "helpers ?s = helpers s"
    "idleSizes ?s = idleSizes s" "nextView ?s = nextView s + 1"
    "views ?s w = (if w = nextView s then new_view p else views s w)" for w
    by (simp_all add: open_view_def)
  have at: "lock_at ?s = lock_at s" by (simp add: fun_eq_iff lock_at_def f)
  have none: "vHeld (new_view p) = []" by (simp add: new_view_def)
  have hv: "map_of (vHeld (views ?s w)) a = Some l \<longleftrightarrow> map_of (vHeld (views s w)) a = Some l \<and> w \<noteq> nextView s" for w a l
    by (simp add: f none)
  have ho: "holders ?s = holders s"
    by (auto simp: fun_eq_iff holders_def hv f(6) less_Suc_eq)
  have "lock_inv {} ?s"
  proof (rule lock_invI, unfold at ho f(1-6))
    fix w b k assume "map_of (vHeld (views ?s w)) b = Some k"
    then have m: "map_of (vHeld (views s w)) b = Some k" "w \<noteq> nextView s" by (simp_all add: hv)
    show "w < nextView s + 1 \<and> k < nextLock s" using D(6) [OF m(1)] by simp
    fix q c assume "lock_at s q c = Some k"
    from D(7) [OF m(1) this] show "q = vSizing (views ?s w) \<and> c = b" using m(2) by (simp add: f)
  next
    fix w show "distinct (keys (vHeld (views ?s w)))" using D(8) by (simp add: f none)
  qed (fact D)+
  moreover have "helper_inv {} ?s" using h unfolding helper_inv_def at f(1-6) .
  moreover have "view_inv (views ?s w)" for w using s by (simp add: f bee_ok_def) (simp add: new_view_def view_inv_def)
  ultimately show ?thesis by (simp add: bee_ok_def sz_inv_def)
qed

lemma views_bee: "bee_ok s \<Longrightarrow> sz_ok s' \<Longrightarrow> views s' = views s \<Longrightarrow> bee_ok s'"
  by (rule bee_ok_same [OF _ _ same_views_eq])

lemma view_close_bee: "view_ok v s \<Longrightarrow> bee_ok (view_close v s)"
proof -
  assume s: "view_ok v s"
  let ?s = "upd_view v (\<lambda>x. x\<lparr>vActive := False\<rparr>) s"
  have "held_ok (vSizing (views s v)) v s" using s by (simp add: bee_ok_def on_session_def)
  from view_close_held [OF this] have ok: "sz_ok (view_close v s)" by simp
  have s1: "view_ok v ?s" by (rule view_ok_upd [OF s]) (simp add: view_inv_def)
  then have "lock_inv {} ?s" by (simp add: bee_ok_def sz_inv_def)
  from release_same_views [OF lock_invD(8) [OF this, of v], of ?s "vSizing (views ?s v)" v "[]"]
  have "same_views ?s (view_close v s)" by (simp add: view_close_def Let_def)
  with s1 ok show ?thesis using bee_ok_same by blast
qed

lemma step_ok_bee:
  assumes s: "bee_ok s" and st: "bee_step s s'"
  shows "bee_ok s'"
  using st
proof cases
  case (relay p)
  then show ?thesis using open_view_ok [OF s] by simp
next
  case (client v E C T p sent r)
  then show ?thesis using client_bee [OF s] by blast
next
  case (server v E C T p sent r)
  then show ?thesis using server_bee [of s v E C T p] s by simp
next
  case (tick v E r)
  then show ?thesis using reconcile_bee [OF s, of v E] by simp
next
  case (leave v)
  then show ?thesis using view_close_bee [of s v] s by simp
next
  case (timer p a l e)
  then show ?thesis using views_bee [OF s expire_ok [OF bee_okD(1) [OF s]]] by (simp add: expire_def bee_simps)
next
  case (ended l)
  then show ?thesis using views_bee [OF s helper_ends_ok [OF bee_okD(1) [OF s]]] by (simp add: bee_simps)
next
  case (noticed l p a)
  then show ?thesis using views_bee [OF s watch_ok [OF bee_okD(1) [OF s]]] by (simp add: watch_def bee_simps)
next
  case (unpublish p)
  then show ?thesis using views_bee [OF s close_ok [OF bee_okD(1) [OF s]]] by (simp add: sizing_close_def Let_def bee_simps)
qed

lemma reachable_ok: "bee_reachable s \<Longrightarrow> bee_ok s"
  by (induction rule: bee_reachable.induct) (auto intro: initial_ok step_ok_bee)


section \<open>A relay at work\<close>

definition bee_env :: senv where
  "bee_env = \<lparr>cancelledE = (\<lambda>_. False), geometryE = (\<lambda>_ a. Inr \<lparr>gTerminal = a, gCols = 8, gRows = 2, gXpixel = 0, gYpixel = 0\<rparr>),
     holdE = (\<lambda>_ _. None), panesE = (\<lambda>_. Inr [''a'', ''c'']), nowE = 0, sendE = (\<lambda>_ _. None)\<rparr>"

definition bee_codec :: codec where
  "bee_codec = \<lparr>enc = (\<lambda>_. ''{}''), dec = (\<lambda>_. Some (JObj [(''generation'', JNum 1)]))\<rparr>"

definition sample_snapshot :: snapshot where
  "sample_snapshot = \<lparr>snRevision = 1, snBoot = ''b'', snTab = ''t'', snWorkspaces = [], snPanes = [(''a'', ''t''), (''c'', ''u'')]\<rparr>"

definition sample_request :: request where
  "sample_request = \<lparr>rqId = ''1'', rqMethod = ''tab.focus'', rqActive = None, rqPane = [], rqTab = ''u'', rqWorkspace = []\<rparr>"

definition sample_structs :: structs where
  "sample_structs = \<lparr>request_of = (\<lambda>_. Some sample_request), response_of = (\<lambda>_. Some False), barrier_of = (\<lambda>_. Some (False, 1)),
     snapshot_of = (\<lambda>_. Some sample_snapshot)\<rparr>"

definition hello_frame :: bytes where "hello_frame = wireControl ''endpoint.hello.v1'' ''{}''"
definition snapshot_frame :: bytes where "snapshot_frame = wireControl ''shell.snapshot.v1'' ''{}''"
definition focus_frame :: bytes where "focus_frame = char_of (15::nat) # wireText ''b'' @ wireText ''{}''"

definition hello_bee :: bee where
  "hello_bee = fst (client_handle bee_env bee_codec sample_structs 0 hello_frame (open_view 0 initial_bee))"

definition ready_bee :: bee where
  "ready_bee = fst (serverFrame bee_env bee_codec sample_structs 0 snapshot_frame hello_bee)"

lemma opened: "bee_reachable (open_view 0 initial_bee)" "0 < nextView (open_view 0 initial_bee)"
  by (rule bee_reachable.step [OF init relay]) (simp add: open_view_def)

lemma hello_reachable: "bee_reachable hello_bee"
proof -
  obtain sent r where "client_handle bee_env bee_codec sample_structs 0 hello_frame (open_view 0 initial_bee) = (hello_bee, sent, r)"
    unfolding hello_bee_def by (metis prod.collapse)
  then have "clientFrame bee_env bee_codec sample_structs 0 hello_frame (open_view 0 initial_bee) = Some (hello_bee, sent, r)"
    by (simp add: clientFrame_def hello_frame_def wireControl_def)
  from bee_reachable.step [OF opened(1) client [OF opened(2) this]] show ?thesis .
qed

lemmas bee_eval = reconcile_def snapshotLocked_def wanted_panes_def visible_tabs_def release_pane_def Let_def
  upd_view_def upd_lock_def upd_sizing_def asked_def wire_of_def
  preflight_pane_def drop_retired_def read_size_def acquire_pane_def start_lock_def holdSize_def share_lock_def
  reserveSizeSlot.simps lock_at_def max_helpers_def bee_env_def sample_snapshot_def

definition hello_done :: view where
  "hello_done = (new_view 0)\<lparr>vActive := True, vCatalogSeen := True, vInitial := True, vInitialized := True, vRequested := True\<rparr>"

lemma hello_result: "hello_bee = initial_bee\<lparr>views := (views initial_bee)(0 := hello_done), nextView := 1, calls := 1\<rparr>"
  by (simp add: hello_bee_def client_handle_def client_inspect_def hello_frame_def wireControl_def client_hello_def
     fields_written [where r = "[]", simplified] bee_codec_def open_view_def initial_bee_def new_view_def no_snapshot_def
     hello_done_def bee_eval)

lemma hello_view: "0 < nextView hello_bee" by (simp add: hello_result)

lemma ready_result: "ready_bee = initial_bee\<lparr>locks := (locks initial_bee)(0 := no_lock\<lparr>lRefs := 1\<rparr>), nextLock := 1,
    sizings := (sizings initial_bee)(0 := \<lparr>sClosed = False, sLocks = [(''a'', 0)], sPanes = Some [''a'', ''c'']\<rparr>),
    views := (views initial_bee)(0 := hello_done\<lparr>vSnapshot := sample_snapshot, vHeld := [(''a'', 0)], vInitial := False, vReady := True\<rparr>),
    nextView := 1, helpers := [0], calls := 4\<rparr>"
  by (simp add: ready_bee_def hello_result serverFrame_def snapshot_frame_def wireControl_def fields_written [where r = "[]", simplified]
     sample_structs_def new_snapshot_def make_ready_def settleNavigation_def initial_bee_def hello_done_def new_view_def no_snapshot_def
     no_lock_def bee_eval)

lemma ready_reachable: "bee_reachable ready_bee"
proof -
  obtain sent r where "serverFrame bee_env bee_codec sample_structs 0 snapshot_frame hello_bee = (ready_bee, sent, r)"
    unfolding ready_bee_def by (metis prod.collapse)
  from bee_reachable.step [OF hello_reachable server [OF hello_view this]] show ?thesis .
qed


lemma ready_facts: "0 < nextView ready_bee" "vActive (views ready_bee 0)" "vReady (views ready_bee 0)"
  "lock_at ready_bee 0 ''a'' = Some 0" "map_of (vHeld (views ready_bee 0)) ''a'' = Some 0"
  "vSnapshot (views ready_bee 0) = sample_snapshot" "vSizing (views ready_bee 0) = 0"
  by (simp_all add: ready_result lock_at_def hello_done_def new_view_def)

lemma ready_reserve: "reserveSizeSlot ready_bee = (ready_bee, None)"
  by (subst reserveSizeSlot.simps) (simp add: ready_result max_helpers_def)



section \<open>Locks and slots\<close>

text \<open>
  C8. In every reachable state the reference count of a lock is the number of views that hold it, it is
  idle exactly while nobody holds it and it has not been retired, and no more helpers run than there are
  slots, whatever the relays, timers and helpers did before.
\<close>

theorem locks_counted:
  assumes "bee_reachable s" and "lock_at s p a = Some l"
  shows "lRefs (locks s l) = int (card {v. v < nextView s \<and> map_of (vHeld (views s v)) a = Some l}) \<and>
    (l \<in> set (idleSizes s) \<longleftrightarrow> lRefs (locks s l) = 0 \<and> \<not> lRetired (locks s l)) \<and>
    length (helpers s) \<le> 32"
proof -
  have ok: "sz_ok s" using reachable_ok [OF assms(1)] by (rule bee_okD)
  then have li: "lock_inv {} s" and h: "helper_inv {} s" by (simp_all add: sz_inv_def)
  note D = lock_invD [OF li]
  show ?thesis
    using D(3,4) [OF assms(2)] D(9) [of l] helper_invD(2) [OF h] by (auto simp: holders_def max_helpers_def)
qed

lemma locks_counted_witness:
  "lock_at ready_bee 0 ''a'' = Some 0 \<and>
   lRefs (locks ready_bee 0) = int (card {v. v < nextView ready_bee \<and> map_of (vHeld (views ready_bee v)) ''a'' = Some 0})"
  using locks_counted [OF ready_reachable ready_facts(4)] ready_facts(4) by blast

text \<open>
  Reserving a slot never disturbs a lock that a view holds; and it fails only when all the slots are
  taken by helpers whose locks are held.
\<close>

theorem slots:
  assumes r: "bee_reachable s" and res: "reserveSizeSlot s = (s', x)"
  shows "(\<forall>v p a l. map_of (vHeld (views s v)) a = Some l \<longrightarrow> lock_at s p a = Some l \<longrightarrow> locks s' l = locks s l) \<and>
    (case x of None \<Rightarrow> length (helpers s') < 32
     | Some e \<Rightarrow> e = Sizing_limit \<and> length (helpers s') = 32 \<and>
         (\<forall>l \<in> set (helpers s'). \<exists>v a. v < nextView s \<and> map_of (vHeld (views s v)) a = Some l))"
proof -
  have ok: "sz_ok s" using reachable_ok [OF r] by (rule bee_okD)
  have ok': "sz_ok s'" using reserve_ok [OF ok] res by simp
  have ev: "evicted s s'" using reserve_evicted [of s] res by simp
  have li: "lock_inv {} s'" and h: "helper_inv {} s'" using ok' by (simp_all add: sz_inv_def)
  have l0: "lock_inv {} s" using ok by (simp add: sz_inv_def)
  note D = lock_invD [OF li] and H = helper_invD [OF h]
  have keep: "locks s' l = locks s l" if "map_of (vHeld (views s v)) a = Some l" "lock_at s p a = Some l" for v p a l
  proof -
    have "l \<notin> set (idleSizes s)" using holds_live [OF ok that] lock_invD(9) [OF l0, of l] by auto
    then show ?thesis using ev by (simp add: evicted_def)
  qed
  have used: "\<exists>v a. v < nextView s \<and> map_of (vHeld (views s v)) a = Some l"
    if "l \<in> set (helpers s')" "idleSizes s' = []" for l
  proof -
    from H(5) [OF that(1)] obtain p a where la: "lock_at s' p a = Some l" by auto
    have "\<not> lRetired (locks s' l)" using H(3,4) [of l] that(1) by blast
    then have "lRefs (locks s' l) \<noteq> 0" using D(4) [OF la] that(2) by auto
    then have "holders s' a l \<noteq> {}" using D(3) [OF la] by auto
    then show ?thesis using ev by (auto simp: holders_def evicted_def)
  qed
  show ?thesis
  proof (cases x)
    case None
    then show ?thesis using keep reserve_result [OF res] by (simp add: max_helpers_def)
  next
    case (Some e)
    then have "e = Sizing_limit" "idleSizes s' = []" "length (helpers s') = 32"
      using reserve_result [OF res] H(2) by (auto simp: max_helpers_def)
    then show ?thesis using keep used Some by simp
  qed
qed

lemma slots_witness:
  "reserveSizeSlot ready_bee = (ready_bee, None) \<and> map_of (vHeld (views ready_bee 0)) ''a'' = Some 0 \<and> length (helpers ready_bee) < 32"
  using slots [OF ready_reachable ready_reserve] ready_reserve ready_facts(5) by simp

section \<open>What a view holds\<close>









section \<open>No handler panics\<close>

lemma send_no_panic: "answers E \<Longrightarrow> sendE E c p = Some e \<Longrightarrow> \<not> panic e"
  by (auto simp: answers_def)

lemma client_no_panic:
  assumes E: "answers E" and c: "clientFrame E C T v p s = Some (s', sent, Some e)"
  shows "\<not> panic e"
proof -
  have h: "\<not> panic e" if c: "client_handle E C T v p t = (s', sent, Some e)" for t
  proof -
    obtain y i where i: "client_inspect C T (nowE E) p (views t v) = (y, i)" by fastforce
    have ref: "f = Native_protocol" if "i = Refuse f" for f
      using i that by (auto simp: client_inspect_def client_hello_def viewer_request_def Let_def
          split: prod.splits if_splits option.splits json.splits)
    show ?thesis
    proof (cases i)
      case (Follow p')
      obtain s2 x where R: "reconcile E v (upd_view v (\<lambda>_. y) t) = (s2, x)" by fastforce
      show ?thesis
      proof (cases x)
        case None
        then have "sendE E (calls s2) p' = Some e" using c i Follow R by (simp add: client_handle_def)
        then show ?thesis using send_no_panic [OF E] by blast
      next
        case (Some f)
        then have "f = e" using c i Follow R by (simp add: client_handle_def)
        then show ?thesis using reconcile_no_panic [OF R [unfolded Some] E] by simp
      qed
    qed (use c i ref in \<open>auto simp: client_handle_def Let_def\<close>)
  qed
  show ?thesis using c h by (auto simp: clientFrame_def split: if_splits)
qed

lemma reconciled_no_panic: "answers E \<Longrightarrow> reconciled E v sent fwd s = (s', out, Inl e) \<Longrightarrow> \<not> panic e"
proof -
  assume E: "answers E" and c: "reconciled E v sent fwd s = (s', out, Inl e)"
  obtain s2 x where R: "reconcile E v s = (s2, x)" by fastforce
  then have x: "x = Some e" using c by (cases x) (simp_all add: reconciled_def)
  show ?thesis by (rule reconcile_no_panic [OF R [unfolded x] E])
qed

lemma make_ready_no_panic:
  assumes E: "answers E" and i: "view_inv (views s v)" and c: "make_ready E C v s = (s', out, Inl e)"
  shows "\<not> panic e"
proof -
  let ?s = "upd_view v (\<lambda>x. x\<lparr>vInitial := False\<rparr>) s"
  have init: "vInitial (views s v)" using c by (simp add: make_ready_def split: if_splits)
  then have "\<not> vReady (views ?s v)" using i by (simp add: view_inv_def bee_simps)
  then have "sendE E (calls ?s) (surface_frame C ''bee-sizing:activate'' (views ?s v)) = Some e"
    using c init by (simp add: make_ready_def Let_def bee_simps split: if_splits option.splits)
  then show ?thesis by (rule send_no_panic [OF E])
qed

lemma new_snapshot_no_panic:
  assumes E: "answers E" and s: "view_ok v s" and c: "new_snapshot E C v sn s = (s', out, Inl e)"
  shows "\<not> panic e"
proof -
  let ?s = "upd_view v (\<lambda>x. settleNavigation (x\<lparr>vSnapshot := sn, vCatalogSeen := False\<rparr>)) s"
  have s1: "view_ok v ?s" by (rule view_ok_upd [OF s]) (simp add: settle_inv snapshot_inv bee_simps)
  obtain s2 r where R: "reconcile E v ?s = (s2, r)" by fastforce
  have i: "view_inv (views s2 v)" using reconcile_bee [of ?s v E] s1 R bee_okD(2) [of s2 v] by simp
  show ?thesis
  proof (cases r)
    case None
    then have "make_ready E C v s2 = (s', out, Inl e)" using c R by (simp add: new_snapshot_def Let_def split: if_splits)
    then show ?thesis by (rule make_ready_no_panic [OF E i])
  next
    case (Some f)
    then have "f = e" using c R by (simp add: new_snapshot_def Let_def split: if_splits)
    then show ?thesis using reconcile_no_panic [OF R [unfolded Some] E] by simp
  qed
qed

lemma viewer_response_no_panic:
  assumes E: "answers E" and c: "viewer_response E C T v ident final data s = (s', out, Inl e)"
  shows "\<not> panic e"
proof (cases "if final \<noteq> [char_of (1::nat)] then None else response_of T data")
  case None
  then have "reconciled E v [] True s = (s', out, Inl e)" using c by (simp add: viewer_response_def)
  then show ?thesis by (rule reconciled_no_panic [OF E])
next
  case (Some f)
  obtain s1 sent r where a: "acknowledge E C v ident f s = (s1, sent, r)" by (metis surj_pair)
  show ?thesis
  proof (cases r)
    case None
    then have "reconciled E v sent True (upd_view v (\<lambda>x. settleNavigation (finish_hide ident f x)) s1) = (s', out, Inl e)"
      using c Some a by (simp add: viewer_response_def)
    then show ?thesis by (rule reconciled_no_panic [OF E])
  next
    case r: (Some g)
    then have "g = e" using c Some a by (simp add: viewer_response_def)
    moreover have "\<exists>c p. sendE E c p = Some g"
      using a r by (auto simp: acknowledge_def Let_def split: option.splits if_splits)
    ultimately show ?thesis using send_no_panic [OF E] by blast
  qed
qed

lemma server_no_panic:
  assumes E: "answers E" and s: "view_ok v s" and c: "serverFrame E C T v p s = (s', out, Inl e)"
  shows "\<not> panic e"
proof -
  obtain tag a b d where w: "wire_fields p = (tag, a, b, d)" by (metis surj_pair)
  obtain final d3 where 3: "wire_take 1 d = (final, d3)" by fastforce
  obtain data d4 where 4: "wire_text d3 = (data, d4)" by fastforce
  have "e = Native_protocol \<or> barrier_response E T v b final data s = (s', out, Inl e) \<or>
      viewer_response E C T v b final data s = (s', out, Inl e) \<or> (\<exists>sn. new_snapshot E C v sn s = (s', out, Inl e))"
    using c by (auto simp: serverFrame_def w 3 4 split: if_splits option.splits)
  moreover have "\<not> panic e" if "barrier_response E T v b final data s = (s', out, Inl e)"
  proof -
    have "e = Native_protocol \<or> (\<exists>t. reconciled E v [] False t = (s', out, Inl e))"
      using that by (auto simp: barrier_response_def Let_def split: option.splits bool.splits if_splits)
    then show ?thesis using reconciled_no_panic [OF E] by blast
  qed
  ultimately show ?thesis using viewer_response_no_panic [OF E] new_snapshot_no_panic [OF E s] by blast
qed

text \<open>
  C25. In a reachable state no handler of a relay uses a size that was never read, nor opens the gate of the
  requests a second time.
\<close>

theorem handlers_never_panic:
  assumes "bee_reachable s" and "v < nextView s" and "answers E"
  shows "(\<forall>s' sent e. clientFrame E C T v p s = Some (s', sent, Some e) \<longrightarrow> e \<noteq> Nil_size \<and> e \<noteq> Double_close) \<and>
    (\<forall>s' sent e. serverFrame E C T v p s = (s', sent, Inl e) \<longrightarrow> e \<noteq> Nil_size \<and> e \<noteq> Double_close) \<and>
    (\<forall>s' e. reconcile E v s = (s', Some e) \<longrightarrow> e \<noteq> Nil_size \<and> e \<noteq> Double_close)"
proof (intro conjI allI impI)
  have s: "view_ok v s" using reachable_ok [OF assms(1)] assms(2) by simp
  fix s' sent e
  {
    assume "clientFrame E C T v p s = Some (s', sent, Some e)"
    from client_no_panic [OF assms(3) this] show "e \<noteq> Nil_size" "e \<noteq> Double_close" by simp_all
  next
    assume "serverFrame E C T v p s = (s', sent, Inl e)"
    from server_no_panic [OF assms(3) s this] show "e \<noteq> Nil_size" "e \<noteq> Double_close" by simp_all
  next
    assume "reconcile E v s = (s', Some e)"
    from reconcile_no_panic [OF this assms(3)] show "e \<noteq> Nil_size" "e \<noteq> Double_close" by simp_all
  }
qed

definition cancelled_env :: senv where
  "cancelled_env = bee_env\<lparr>cancelledE := (\<lambda>_. True)\<rparr>"

lemma handlers_never_panic_witness:
  "clientFrame cancelled_env bee_codec sample_structs 0 focus_frame ready_bee = Some (asked ready_bee, [], Some Plain_error) \<and>
   Plain_error \<noteq> Nil_size \<and> Plain_error \<noteq> Double_close"
proof -
  have c: "clientFrame cancelled_env bee_codec sample_structs 0 focus_frame ready_bee = Some (asked ready_bee, [], Some Plain_error)"
    by (simp add: clientFrame_def focus_frame_def cancelled_env_def)
  have "answers cancelled_env" by (simp add: answers_def cancelled_env_def bee_env_def)
  from handlers_never_panic [OF ready_reachable ready_facts(1) this, THEN conjunct1, rule_format, OF c] c
  show ?thesis by simp
qed

section \<open>Hiding a surface\<close>

lemma reconciled_active: "view_ok v s \<Longrightarrow> vActive (views (fst (reconciled E v sent fwd s)) w) = vActive (views s w)"
proof -
  assume s: "view_ok v s"
  then have "same_views s (fst (reconcile E v s))" using reconcile_same_views [OF bee_okD(1)] by blast
  from same_viewsD(2) [OF this, of w] show ?thesis
    by (cases "reconcile E v s") (simp add: reconciled_def split: option.split)
qed

lemma barrier_active:
  assumes s: "view_ok v s"
  shows "vActive (views (fst (barrier_response E T v ident final data s)) v) = vActive (views s v)"
proof -
  have u: "view_ok v (upd_view v (\<lambda>x. settleNavigation (x\<lparr>vPending := map (map_prod id g) (vPending x)\<rparr>)) s)" for g
    by (rule view_ok_upd [OF s]) (simp add: settle_inv pending_inv bee_simps)
  show ?thesis using reconciled_active [OF u, of E "[]" False _ v] reconciled_active [OF s, of E "[]" False v]
    by (simp add: barrier_response_def Let_def bee_simps split: option.split bool.split)
qed

lemma make_ready_active: "vActive (views (fst (make_ready E C v s)) v) = vActive (views s v)"
  by (simp add: make_ready_def Let_def bee_simps split: option.split)

lemma new_snapshot_active:
  assumes s: "view_ok v s"
  shows "vActive (views (fst (new_snapshot E C v sn s)) v) = vActive (views s v)"
proof -
  let ?s = "upd_view v (\<lambda>x. settleNavigation (x\<lparr>vSnapshot := sn, vCatalogSeen := False\<rparr>)) s"
  have s1: "view_ok v ?s" by (rule view_ok_upd [OF s]) (simp add: settle_inv snapshot_inv bee_simps)
  obtain s2 r where R: "reconcile E v ?s = (s2, r)" by fastforce
  have "same_views ?s s2" using reconcile_same_views [OF bee_okD(1), of ?s v E] s1 R by simp
  from same_viewsD(2) [OF this, of v] have "vActive (views s2 v) = vActive (views s v)" by (simp add: bee_simps)
  then show ?thesis using R make_ready_active by (simp add: new_snapshot_def Let_def split: option.split)
qed

lemma acknowledge_fields:
  assumes "acknowledge E C v ident e s = (s', sent, r)"
  shows "vActive (views s' v) = vActive (views s v)" "vHide (views s' v) = vHide (views s v)" "vActivity (views s' v) = vActivity (views s v)"
  using assms by (auto simp: acknowledge_def Let_def bee_simps split: option.splits if_splits)

lemma viewer_response_active:
  assumes s: "view_ok v s" and hide: "map_of (vHide (views s v)) ident \<noteq> Some (vActivity (views s v))" and a: "vActive (views s v)"
  shows "vActive (views (fst (viewer_response E C T v ident final data s)) v)"
proof -
  have "vActive (views (fst (case acknowledge E C v ident e s of
             (s1, sent, Some f) \<Rightarrow> (s1, sent, Inl f)
           | (s1, sent, None) \<Rightarrow>
               reconciled E v sent True (upd_view v (\<lambda>x. settleNavigation (finish_hide ident e x)) s1))) v)" for e
  proof -
    obtain s1 sent r where k: "acknowledge E C v ident e s = (s1, sent, r)" by (metis surj_pair)
    note A = acknowledge_fields [OF k]
    have s1: "view_ok v s1" by (rule acknowledge_ok [OF s k])
    have u: "view_ok v (upd_view v (\<lambda>x. settleNavigation (finish_hide ident e x)) s1)"
      by (rule view_ok_upd [OF s1]) (simp add: settle_inv finish_hide_inv bee_simps)
    have "vActive (finish_hide ident e (views s1 v))"
      using hide a A by (auto simp: finish_hide_def Let_def split: option.split)
    then show ?thesis using reconciled_active [OF u, of E sent True v] a A
      by (simp add: k bee_simps split: option.split)
  qed
  then show ?thesis using reconciled_active [OF s, of E "[]" True v] a by (simp add: viewer_response_def split: option.split)
qed

text \<open>
  A surface that is shown goes dark only on the answer to the latest request about it: the answer to a
  hide that a later show has overtaken leaves it shown.
\<close>

theorem hidden_by_latest:
  assumes "bee_reachable s" and "v < nextView s" and a: "vActive (views s v)"
    and c: "serverFrame E C T v p s = (s', sent, x)" and dark: "\<not> vActive (views s' v)"
  shows "\<exists>boot ident d. wire_fields p = (18, boot, ident, d) \<and> boot = snBoot (vSnapshot (views s v)) \<and>
    map_of (vHide (views s v)) ident = Some (vActivity (views s v))"
proof -
  have s: "view_ok v s" using reachable_ok [OF assms(1)] assms(2) by simp
  obtain tag boot ident d where w: "wire_fields p = (tag, boot, ident, d)" by (metis surj_pair)
  obtain final d3 where 3: "wire_take 1 d = (final, d3)" by fastforce
  obtain data d4 where 4: "wire_text d3 = (data, d4)" by fastforce
  have "tag = 18 \<and> boot = snBoot (vSnapshot (views s v)) \<and> s' = fst (viewer_response E C T v ident final data s)"
  proof (rule ccontr)
    assume "\<not> ?thesis"
    then have "s' = s \<or> s' = fst (barrier_response E T v ident final data s) \<or> (\<exists>sn. s' = fst (new_snapshot E C v sn s))"
      using c by (auto simp: serverFrame_def w 3 4 split: if_splits option.splits) (metis fst_conv)+
    then show False using a dark barrier_active [OF s] new_snapshot_active [OF s] by auto
  qed
  then show ?thesis using viewer_response_active [OF s _ a] dark w by blast
qed

definition hide_request :: request where
  "hide_request = \<lparr>rqId = ''2'', rqMethod = ''client_shell.surface.set'', rqActive = Some False, rqPane = [], rqTab = [], rqWorkspace = []\<rparr>"

definition hide_structs :: structs where
  "hide_structs = sample_structs\<lparr>request_of := (\<lambda>_. Some hide_request)\<rparr>"

definition hiding_bee :: bee where
  "hiding_bee = fst (client_handle bee_env bee_codec hide_structs 0 focus_frame (asked ready_bee))"

definition answer_frame :: bytes where
  "answer_frame = char_of (18::nat) # wireText ''b'' @ wireText ''2'' @ char_of (1::nat) # wireText ''{}''"

lemma hiding_result: "hiding_bee = ready_bee\<lparr>views := (views ready_bee)(0 := (views ready_bee 0)\<lparr>vActivity := 1, vRequested := False,
    vHide := [(''2'', 1)]\<rparr>), calls := 6\<rparr>"
  by (simp add: hiding_bee_def client_handle_def client_inspect_def focus_frame_def fields_written [where r = "[]", simplified]
     viewer_request_def hide_structs_def hide_request_def surface_set_def navigate_def target_tab_def sizing_prefix_def has_prefix_def
     max_pending_def ready_result hello_done_def initial_bee_def new_view_def no_lock_def bee_eval)

definition dark_bee :: bee where
  "dark_bee = fst (serverFrame bee_env bee_codec hide_structs 0 answer_frame hiding_bee)"

lemma dark_result: "serverFrame bee_env bee_codec hide_structs 0 answer_frame hiding_bee = (dark_bee, [], Inr True) \<and>
    \<not> vActive (views dark_bee 0) \<and> vHeld (views dark_bee 0) = [] \<and> idleSizes dark_bee = [0]"
  by (simp add: dark_bee_def serverFrame_def answer_frame_def fields_written [simplified wire_of_def] wire_take_append [of 1 "[c]" for c, simplified]
     wire_text_written [where r = "[]", simplified]
     viewer_response_def hide_structs_def sample_structs_def acknowledge_def finish_hide_def reconciled_def settleNavigation_def sizing_prefix_def
     has_prefix_def hiding_result
     ready_result hello_done_def initial_bee_def new_view_def no_lock_def releaseLocked_def bee_eval)

lemma hiding_reachable: "bee_reachable hiding_bee"
proof -
  obtain sent r where "client_handle bee_env bee_codec hide_structs 0 focus_frame (asked ready_bee) = (hiding_bee, sent, r)"
    unfolding hiding_bee_def by (metis prod.collapse)
  then have "clientFrame bee_env bee_codec hide_structs 0 focus_frame ready_bee = Some (hiding_bee, sent, r)"
    using ready_facts(3) by (simp add: clientFrame_def focus_frame_def bee_env_def)
  from bee_reachable.step [OF ready_reachable client [OF ready_facts(1) this]] show ?thesis .
qed

lemma hidden_by_latest_witness:
  "\<exists>boot ident d. wire_fields answer_frame = (18, boot, ident, d) \<and> boot = snBoot (vSnapshot (views hiding_bee 0)) \<and>
    map_of (vHide (views hiding_bee 0)) ident = Some (vActivity (views hiding_bee 0))"
proof (rule hidden_by_latest [OF hiding_reachable])
  show "0 < nextView hiding_bee" "vActive (views hiding_bee 0)"
    using ready_facts(1,2) by (simp_all add: hiding_result)
  show "serverFrame bee_env bee_codec hide_structs 0 answer_frame hiding_bee = (dark_bee, [], Inr True)"
    using dark_result by blast
  show "\<not> vActive (views dark_bee 0)" using dark_result by blast
qed

end
