(* ===== verification/BeeConfig.thy ===== *)
theory BeeConfig
  imports Adapter
begin

text \<open>
  The publisher's configuration (\<open>bee/internal/config/config.go\<close>), the commands that change it
  (\<open>bee/internal/app/app.go\<close>), and the check of the Herdr commands that are run against a remote session
  (\<open>bee/internal/herdr/remote.go\<close>). The configuration file is the bytes it holds; \<open>encoding/json\<close> for the type
  \<open>Config\<close> is the parameter \<open>cfcodec\<close>.
\<close>

section \<open>The configuration\<close>

record rule =
  rType :: bytes
  rSession :: bytes
  rKey :: bytes

record config =
  cfVersion :: int
  cfHive :: bytes
  cfIdentity :: bytes
  cfKnownHosts :: bytes
  cfName :: bytes
  cfEnabled :: bool
  cfRules :: "rule list"

datatype cferror = CfIO | CfLarge | CfDecode | CfTrailing | CfVersion | CfName | CfMany | CfType | CfRule | CfHex
  | CfRandom | CfUnset | CfRaced

text \<open>\<open>cf_dec\<close> decodes over a configuration whose fields stay where the text has none, and says whether
  nothing follows the value.\<close>

record cfcodec =
  cf_dec :: "config \<Rightarrow> bytes \<Rightarrow> (config \<times> bool) option"
  cf_enc :: "config \<Rightarrow> bytes"

definition max_config :: nat where "max_config = 65536"

fun check_rules :: "rule list \<Rightarrow> bytes list \<Rightarrow> cferror option" where
  "check_rules [] seen = None"
| "check_rules (r # rs) seen =
     (if rType r \<noteq> ''manual'' then Some CfType
      else if rSession r = [] \<or> rSession r \<in> set seen \<or> length (rKey r) \<noteq> 32 then Some CfRule
      else if unhex (rKey r) = None then Some CfHex
      else check_rules rs (rSession r # seen))"

definition Validate :: "config \<Rightarrow> cferror option" where
  "Validate c =
     (if cfVersion c \<noteq> 1 then Some CfVersion
      else if cfName c = [] \<or> length (cfName c) > 128 \<or> has_control (cfName c) then Some CfName
      else if length (cfRules c) > 32 then Some CfMany
      else check_rules (cfRules c) [])"

definition default_config :: "bytes \<Rightarrow> config" where
  "default_config host =
     \<lparr>cfVersion = 1, cfHive = [], cfIdentity = [], cfKnownHosts = [], cfName = host, cfEnabled = False, cfRules = []\<rparr>"

definition Load :: "cfcodec \<Rightarrow> bytes \<Rightarrow> bytes stored \<Rightarrow> cferror + config" where
  "Load J host file =
     (case file of
        NoFile \<Rightarrow> Inr (default_config host)
      | Unreadable \<Rightarrow> Inl CfIO
      | Contents b \<Rightarrow>
          if length b > max_config then Inl CfLarge
          else case cf_dec J (default_config host) b of
            None \<Rightarrow> Inl CfDecode
          | Some (c, alone) \<Rightarrow>
              if \<not> alone then Inl CfTrailing
              else case Validate c of Some e \<Rightarrow> Inl e | None \<Rightarrow> Inr c)"

text \<open>\<open>Update\<close>, under the lock; \<open>saved\<close> is whether the file could be replaced.\<close>

definition Update_cfg :: "cfcodec \<Rightarrow> bytes \<Rightarrow> bool \<Rightarrow> (config \<Rightarrow> cferror + config) \<Rightarrow> bytes stored \<Rightarrow> bytes stored \<times> (cferror + config)" where
  "Update_cfg J host saved f file =
     (case Load J host file of
        Inl e \<Rightarrow> (file, Inl e)
      | Inr c \<Rightarrow>
          (case f c of
             Inl e \<Rightarrow> (file, Inl e)
           | Inr c1 \<Rightarrow>
               (case Validate c1 of
                  Some e \<Rightarrow> (file, Inl e)
                | None \<Rightarrow> if saved then (Contents (cf_enc J c1), Inr c1) else (file, Inl CfIO))))"

text \<open>\<open>NewRule\<close> with the random bytes, if any.\<close>

definition NewRule :: "bytes option \<Rightarrow> bytes \<Rightarrow> cferror + rule" where
  "NewRule random session =
     (case random of
        None \<Rightarrow> Inl CfRandom
      | Some b \<Rightarrow> Inr \<lparr>rType = ''manual'', rSession = session, rKey = hex b\<rparr>)"

section \<open>The commands\<close>

fun drop_rule :: "bytes \<Rightarrow> rule list \<Rightarrow> rule list" where
  "drop_rule session [] = []"
| "drop_rule session (r # rs) = (if rSession r = session then rs else r # drop_rule session rs)"

definition unshare_cmd :: "bytes \<Rightarrow> config \<Rightarrow> cferror + config" where
  "unshare_cmd session c = Inr (c\<lparr>cfRules := drop_rule session (cfRules c)\<rparr>)"

definition share_cmd :: "bytes option \<Rightarrow> bytes \<Rightarrow> config \<Rightarrow> cferror + config" where
  "share_cmd random session c =
     (if session \<in> rSession ` set (cfRules c) then Inr c
      else case NewRule random session of
        Inl e \<Rightarrow> Inl e
      | Inr r \<Rightarrow> Inr (c\<lparr>cfRules := cfRules c @ [r]\<rparr>))"

definition name_cmd :: "bytes \<Rightarrow> config \<Rightarrow> cferror + config" where
  "name_cmd name c = Inr (c\<lparr>cfName := name\<rparr>)"

definition configure_cmd :: "bytes \<Rightarrow> bytes \<Rightarrow> bytes \<Rightarrow> config \<Rightarrow> cferror + config" where
  "configure_cmd hive identity known c = Inr (c\<lparr>cfHive := hive, cfIdentity := identity, cfKnownHosts := known\<rparr>)"

definition enable_cmd :: "config \<Rightarrow> cferror + config" where
  "enable_cmd c =
     (if cfHive c = [] \<or> cfIdentity c = [] \<or> cfKnownHosts c = [] \<or> cfRules c = [] then Inl CfUnset
      else Inr (c\<lparr>cfEnabled := True\<rparr>))"

definition disable_cmd :: "config \<Rightarrow> cferror + config" where
  "disable_cmd c = Inr (c\<lparr>cfEnabled := False\<rparr>)"

section \<open>Commands for a remote session\<close>

datatype rcerror = Usage | Unsupported | Override | LocalTarget | RelativeCwd

definition allowed_commands :: "bytes \<Rightarrow> bytes" where
  "allowed_commands grp =
     (if grp = ''agent'' then '' list get read send-keys prompt rename focus wait start explain ''
      else if grp = ''pane'' then '' list current get layout process-info neighbor focus resize zoom read rename input split swap move close send-text send-keys wait-output run ''
      else if grp = ''tab'' then '' list create get focus rename close ''
      else if grp = ''workspace'' then '' list create get focus rename close ''
      else if grp = ''api'' then '' snapshot ''
      else if grp = ''status'' then '' server ''
      else [])"

fun overrides :: "bytes list \<Rightarrow> bool" where
  "overrides [] = False"
| "overrides (a # as) =
     (if a = ''--'' then False
      else if a = ''--session'' \<or> has_prefix a ''--session='' \<or> a = ''--remote'' \<or> has_prefix a ''--remote='' then True
      else overrides as)"

text \<open>What of a command refers to the machine it runs on.\<close>

record boundary =
  bdCurrent :: bool
  bdCwd :: bool
  bdFile :: bool
  bdValues :: bytes

definition boundary_of :: "bytes \<Rightarrow> bytes \<Rightarrow> boundary option" where
  "boundary_of grp command =
     (let at = (\<lambda>g c. grp = g \<and> command = c);
          b = (\<lambda>current cwd file values. Some \<lparr>bdCurrent = current, bdCwd = cwd, bdFile = file, bdValues = values\<rparr>) in
      if at ''agent'' ''explain'' then b False False True '' --agent --format ''
      else if at ''workspace'' ''create'' then b False True False '' --cwd --label --env ''
      else if at ''tab'' ''create'' then b False True False '' --cwd --label --env --workspace ''
      else if at ''pane'' ''current'' \<or> at ''pane'' ''layout'' \<or> at ''pane'' ''process-info'' \<or> at ''pane'' ''zoom''
        then b True False False '' --pane ''
      else if at ''pane'' ''neighbor'' \<or> at ''pane'' ''focus'' then b True False False '' --pane --direction ''
      else if at ''pane'' ''resize'' then b True False False '' --pane --direction --amount ''
      else if at ''pane'' ''input'' then b True False False '' --pane --right-click ''
      else if at ''pane'' ''split'' then b True True False '' --pane --direction --ratio --cwd --env --right-click ''
      else if at ''pane'' ''swap'' then b True False False '' --pane --direction --source-pane --target-pane ''
      else None)"

definition is_abs :: "bytes \<Rightarrow> bool" where
  "is_abs p \<longleftrightarrow> has_prefix p ''/''"

definition takes_value :: "boundary \<Rightarrow> bytes \<Rightarrow> bool" where
  "takes_value b option = contains (bdValues b) ('' '' @ option @ '' '')"

fun scan_options :: "boundary \<Rightarrow> bytes list \<Rightarrow> rcerror option" where
  "scan_options b [] = None"
| "scan_options b (a # as) =
     (case cut_on (CHR ''='') a of (option, v, inline) \<Rightarrow>
      if bdCurrent b \<and> option = ''--current'' \<or> bdFile b \<and> option = ''--file'' then Some LocalTarget
      else if bdCwd b \<and> option = ''--cwd'' \<and> (if inline then \<not> is_abs v else as = [] \<or> \<not> is_abs (hd as)) then Some RelativeCwd
      else if \<not> inline \<and> takes_value b option then (case as of [] \<Rightarrow> None | _ # as' \<Rightarrow> scan_options b as')
      else scan_options b as)"

definition ValidateRemoteCommand :: "bytes list \<Rightarrow> rcerror option" where
  "ValidateRemoteCommand args =
     (case args of
        herdr # grp # command # rest \<Rightarrow>
          if herdr \<noteq> ''herdr'' then Some Usage
          else if \<not> contains (allowed_commands grp) ('' '' @ command @ '' '') then Some Unsupported
          else if overrides rest then Some Override
          else (case boundary_of grp command of None \<Rightarrow> None | Some b \<Rightarrow> scan_options b rest)
      | _ \<Rightarrow> Some Usage)"

section \<open>What a valid configuration is\<close>

lemma check_rules_iff:
  "check_rules rs seen = None \<longleftrightarrow> distinct (map rSession rs) \<and> set (map rSession rs) \<inter> set seen = {} \<and>
     (\<forall>r \<in> set rs. rType r = ''manual'' \<and> rSession r \<noteq> [] \<and> length (rKey r) = 32 \<and> unhex (rKey r) \<noteq> None)"
  by (induction rs seen rule: check_rules.induct) auto

lemma Validate_iff:
  "Validate c = None \<longleftrightarrow> cfVersion c = 1 \<and> cfName c \<noteq> [] \<and> length (cfName c) \<le> 128 \<and> \<not> has_control (cfName c) \<and>
     length (cfRules c) \<le> 32 \<and> distinct (map rSession (cfRules c)) \<and>
     (\<forall>r \<in> set (cfRules c). rType r = ''manual'' \<and> rSession r \<noteq> [] \<and> length (rKey r) = 32 \<and> unhex (rKey r) \<noteq> None)"
  by (auto simp: Validate_def check_rules_iff)

lemma Load_valid: "Load J host (Contents b) = Inr c \<Longrightarrow> Validate c = None"
  by (auto simp: Load_def split: if_splits option.splits)

text \<open>What is written is read back: \<open>encoding/json\<close> keeps the fields that are \<open>plain\<close>, which texts in valid
  UTF-8 are.\<close>

definition cf_codec_ok :: "cfcodec \<Rightarrow> (config \<Rightarrow> bool) \<Rightarrow> bool" where
  "cf_codec_ok J plain \<longleftrightarrow> (\<forall>c d. plain c \<longrightarrow> cf_dec J d (cf_enc J c) = Some (c, True))"

text \<open>
  C37. Changing the configuration is all or nothing: when \<open>Update\<close> succeeds, its result is valid and is what
  the next \<open>Load\<close> finds, unless the text has grown beyond what \<open>Load\<close> reads: \<open>Update\<close> writes it all the
  same, and every later \<open>Load\<close> and \<open>Update\<close> fails. When \<open>Update\<close> fails, the file is as it was.
\<close>

theorem config_update:
  assumes J: "cf_codec_ok J plain" and u: "Update_cfg J host saved f file = (file', r)"
  shows "case r of
      Inl e \<Rightarrow> file' = file
    | Inr c \<Rightarrow> Validate c = None \<and> file' = Contents (cf_enc J c) \<and>
        (if length (cf_enc J c) \<le> 65536 then plain c \<longrightarrow> (\<forall>h. Load J h file' = Inr c)
         else \<forall>h saved f. Load J h file' = Inl CfLarge \<and> Update_cfg J h saved f file' = (file', Inl CfLarge))"
proof (cases r)
  case (Inl e)
  then show ?thesis using u by (auto simp: Update_cfg_def split: sum.splits option.splits if_splits)
next
  case (Inr c)
  then have c: "Validate c = None" "file' = Contents (cf_enc J c)"
    using u by (auto simp: Update_cfg_def split: sum.splits option.splits if_splits)
  have "Load J h file' = Inr c" if "length (cf_enc J c) \<le> 65536" "plain c" for h
    using that J c by (simp add: Load_def max_config_def cf_codec_ok_def)
  moreover have "Load J h file' = Inl CfLarge" if "\<not> length (cf_enc J c) \<le> 65536" for h
    using that by (simp add: Load_def max_config_def c(2))
  ultimately show ?thesis using c Inr by (simp add: Update_cfg_def)
qed

definition sample_cfcodec :: cfcodec where
  "sample_cfcodec = \<lparr>cf_dec = (\<lambda>d b. Some (default_config b, True)), cf_enc = cfName\<rparr>"

lemma config_update_witness:
  "Update_cfg sample_cfcodec ''pc'' True (name_cmd ''me'') NoFile = (Contents ''me'', Inr (default_config ''me'')) \<and>
   Load sample_cfcodec ''pc'' (Contents ''me'') = Inr (default_config ''me'')"
proof -
  have J: "cf_codec_ok sample_cfcodec (\<lambda>c. c = default_config (cfName c))"
    by (simp add: cf_codec_ok_def sample_cfcodec_def)
  have u: "Update_cfg sample_cfcodec ''pc'' True (name_cmd ''me'') NoFile = (Contents ''me'', Inr (default_config ''me''))"
    by (simp add: Update_cfg_def Load_def name_cmd_def default_config_def Validate_def sample_cfcodec_def)
  show ?thesis using config_update [OF J u] u by (simp add: sample_cfcodec_def default_config_def)
qed

section \<open>Sharing\<close>

lemma drop_rule_append: "session \<notin> rSession ` set rs \<Longrightarrow> drop_rule session (rs @ [r]) = (if rSession r = session then rs else rs @ [r])"
  by (induction rs) auto

lemma drop_rule_subset: "set (drop_rule session rs) \<subseteq> set rs"
  by (induction rs) auto

lemma distinct_drop_rule: "distinct (map rSession rs) \<Longrightarrow> distinct (map rSession (drop_rule session rs))"
  using drop_rule_subset [of session] by (induction rs) (auto simp: image_iff)

lemma length_drop_rule: "length (drop_rule session rs) \<le> length rs"
  by (induction rs) auto

lemma unshare_keeps: "Validate c = None \<Longrightarrow> unshare_cmd session c = Inr c' \<Longrightarrow> Validate c' = None"
  using drop_rule_subset [of session "cfRules c"] distinct_drop_rule [of "cfRules c" session] length_drop_rule [of session "cfRules c"]
  by (auto simp: unshare_cmd_def Validate_iff)

text \<open>The keys of the rules stay distinct as long as the random bytes are new; the server insists on it, and
  \<open>Validate\<close> does not.\<close>

definition fresh_key :: "bytes \<Rightarrow> config \<Rightarrow> bool" where
  "fresh_key b c \<longleftrightarrow> length b = 16 \<and> hex b \<notin> rKey ` set (cfRules c)"

lemma share_keeps:
  assumes "Validate c = None" "distinct (map rKey (cfRules c))" "fresh_key b c" "session \<noteq> []" "length (cfRules c) < 32"
    and "share_cmd (Some b) session c = Inr c'"
  shows "Validate c' = None \<and> distinct (map rKey (cfRules c')) \<and> session \<in> rSession ` set (cfRules c')"
  using assms by (auto simp: share_cmd_def NewRule_def Validate_iff fresh_key_def split: if_splits)

lemma unshare_share:
  assumes "session \<notin> rSession ` set (cfRules c)" and "share_cmd (Some b) session c = Inr c'"
  shows "unshare_cmd session c' = Inr c"
  using assms by (auto simp: share_cmd_def NewRule_def unshare_cmd_def drop_rule_append)

section \<open>Which remote commands are accepted\<close>

text \<open>The options of a command as Herdr's parsers see them, with their values.\<close>

fun options :: "boundary \<Rightarrow> bytes list \<Rightarrow> (bytes \<times> bytes option) list" where
  "options b [] = []"
| "options b (a # as) =
     (case cut_on (CHR ''='') a of (option, v, inline) \<Rightarrow>
      if inline then (option, Some v) # options b as
      else if takes_value b option then (case as of [] \<Rightarrow> [(option, None)] | w # as' \<Rightarrow> (option, Some w) # options b as')
      else (option, None) # options b as)"

definition remote_option :: "boundary \<Rightarrow> bytes \<times> bytes option \<Rightarrow> bool" where
  "remote_option b e \<longleftrightarrow> \<not> (bdCurrent b \<and> fst e = ''--current'') \<and> \<not> (bdFile b \<and> fst e = ''--file'') \<and>
     (bdCwd b \<and> fst e = ''--cwd'' \<longrightarrow> (\<exists>d. snd e = Some d \<and> is_abs d))"

lemma scan_options_iff:
  "(bdCwd b \<Longrightarrow> takes_value b ''--cwd'') \<Longrightarrow> scan_options b as = None \<longleftrightarrow> list_all (remote_option b) (options b as)"
proof (induction b as rule: scan_options.induct)
  case (2 b a as)
  obtain opt v inline where c: "cut_on (CHR ''='') a = (opt, v, inline)" by (metis surj_pair)
  show ?case
  proof (cases "\<not> inline \<and> takes_value b opt")
    case True
    then show ?thesis using 2 c by (cases as) (auto simp: remote_option_def)
  next
    case False
    then show ?thesis using 2 c by (cases inline) (auto simp: remote_option_def)
  qed
qed simp

lemma contains_middle: "contains (a @ p @ b) p"
  by (auto simp: contains_iff)

lemma boundary_cwd: "boundary_of grp command = Some b \<Longrightarrow> bdCwd b \<Longrightarrow> takes_value b ''--cwd''"
proof -
  assume b: "boundary_of grp command = Some b" and c: "bdCwd b"
  have "bdValues b \<in> {'' --cwd --label --env '', '' --cwd --label --env --workspace '',
      '' --pane --direction --ratio --cwd --env --right-click ''}"
    using b c unfolding boundary_of_def Let_def by (simp split: if_split_asm) (use c in \<open>hypsubst, simp\<close>)+
  moreover have "contains '' --cwd --label --env '' '' --cwd ''" "contains '' --cwd --label --env --workspace '' '' --cwd ''"
    "contains '' --pane --direction --ratio --cwd --env --right-click '' '' --cwd ''"
    using contains_middle [of "[]" "'' --cwd ''" "''--label --env ''"]
      contains_middle [of "[]" "'' --cwd ''" "''--label --env --workspace ''"]
      contains_middle [of "'' --pane --direction --ratio''" "'' --cwd ''" "''--env --right-click ''"]
    by (simp_all del: contains.simps)
  ultimately show ?thesis by (auto simp: takes_value_def simp del: contains.simps)
qed

lemma overrides_iff: "overrides as \<longleftrightarrow>
    (\<exists>a \<in> set (takeWhile (\<lambda>a. a \<noteq> ''--'') as). a = ''--session'' \<or> has_prefix a ''--session='' \<or> a = ''--remote'' \<or> has_prefix a ''--remote='')"
  by (induction as) auto

text \<open>
  C36. A command is accepted for a remote session exactly when it belongs to the session's own commands, no
  argument before a literal \<open>--\<close> chooses another session or machine, and, for the commands that know a
  local context, no option refers to the current pane or a local file and every working directory is
  absolute.
\<close>

theorem remote_command_accepted:
  "ValidateRemoteCommand args = None \<longleftrightarrow>
     (\<exists>grp command rest. args = ''herdr'' # grp # command # rest \<and>
        contains (allowed_commands grp) ('' '' @ command @ '' '') \<and>
        (\<forall>a \<in> set (takeWhile (\<lambda>a. a \<noteq> ''--'') rest). a \<noteq> ''--session'' \<and> \<not> has_prefix a ''--session='' \<and>
           a \<noteq> ''--remote'' \<and> \<not> has_prefix a ''--remote='') \<and>
        (case boundary_of grp command of None \<Rightarrow> True | Some b \<Rightarrow> list_all (remote_option b) (options b rest)))"
proof -
  have "(case boundary_of grp command of None \<Rightarrow> None | Some b \<Rightarrow> scan_options b rest) = None \<longleftrightarrow>
      (case boundary_of grp command of None \<Rightarrow> True | Some b \<Rightarrow> list_all (remote_option b) (options b rest))"
    for grp command rest
    using scan_options_iff [OF boundary_cwd] by (simp split: option.split)
  note scan = this
  consider h grp command rest where "args = h # grp # command # rest" | "length args < 3"
    by (metis One_nat_def Suc_1 linorder_not_le list.exhaust list.size(3) length_Cons not_less_eq_eq numeral_3_eq_3 zero_le)
  then show ?thesis
  proof cases
    case (1 h grp command rest)
    have "ValidateRemoteCommand args = None \<longleftrightarrow> h = ''herdr'' \<and> contains (allowed_commands grp) ('' '' @ command @ '' '') \<and>
        \<not> overrides rest \<and> (case boundary_of grp command of None \<Rightarrow> None | Some b \<Rightarrow> scan_options b rest) = None"
      unfolding ValidateRemoteCommand_def 1 list.case by (simp split: if_split del: contains.simps)
    moreover have "(\<exists>g c r. args = ''herdr'' # g # c # r \<and> P g c r) \<longleftrightarrow> h = ''herdr'' \<and> P grp command rest" for P
      by (auto simp: 1)
    ultimately show ?thesis unfolding scan overrides_iff by (simp only: de_Morgan_disj bex_simps simp_thms)
  next
    case 2
    then have "ValidateRemoteCommand args = Some Usage"
      by (auto simp: ValidateRemoteCommand_def simp del: contains.simps split: list.splits)
    moreover have "args \<noteq> ''herdr'' # grp # command # rest" for grp command rest using 2 by auto
    ultimately show ?thesis by simp
  qed
qed

lemma remote_command_accepted_witness:
  "ValidateRemoteCommand [''herdr'', ''api'', ''snapshot'', ''--'', ''--session''] = None"
proof -
  have "contains (allowed_commands ''api'') ('' '' @ ''snapshot'' @ '' '')"
    using contains_middle [of "[]" "'' snapshot ''" "[]"] by (simp add: allowed_commands_def del: contains.simps)
  moreover have "boundary_of ''api'' ''snapshot'' = None" by (simp add: boundary_of_def Let_def)
  ultimately show ?thesis
    by (subst remote_command_accepted) (simp del: contains.simps)
qed

end
