(* ===== verification/BeePublisher.thy ===== *)
theory BeePublisher
  imports HubSafety BeeConfig
begin

text \<open>
  The publisher of a Bee (\<open>bee/internal/publisher/publisher.go\<close>) and its access to Herdr
  (\<open>bee/internal/herdr/local.go\<close>, \<open>api.go\<close>): the sessions of the configuration are bound to their sockets and
  published, and the streams the server opens are served from them. The file system is a function of the
  moment it is asked, the answers of Herdr and of the SSH connection are parameters. A pinned descriptor
  only keeps the identity of a socket from being used again, so it has no place in the state.
\<close>

section \<open>Binding a session\<close>

record hsession =
  hsName :: bytes
  hsRunning :: bool
  hsSocket :: bytes

record fileinfo =
  fiFile :: nat          \<comment> \<open>device and inode\<close>
  fiTime :: nat
  fiSocket :: bool

type_synonym filesystem = "nat \<Rightarrow> bytes \<Rightarrow> fileinfo option"

record bound =
  bdSession :: hsession
  bdClientPath :: bytes
  bdApi :: fileinfo
  bdClient :: fileinfo

definition last_element :: "bytes \<Rightarrow> bytes" where
  "last_element p = rev (takeWhile (\<lambda>c. c \<noteq> CHR ''/'') (rev p))"

text \<open>\<open>filepath.Ext\<close>.\<close>

definition file_ext :: "bytes \<Rightarrow> bytes" where
  "file_ext p =
     (if CHR ''.'' \<in> set (last_element p) then CHR ''.'' # rev (takeWhile (\<lambda>c. c \<noteq> CHR ''.'') (rev p)) else [])"

definition client_path :: "bytes \<Rightarrow> bytes" where
  "client_path socket = trim_suffix socket (file_ext socket) @ ''-client'' @ file_ext socket"

definition same_endpoint :: "fileinfo \<Rightarrow> fileinfo option \<Rightarrow> bool" where
  "same_endpoint old now = (case now of None \<Rightarrow> False | Some i \<Rightarrow> fiFile i = fiFile old \<and> fiTime i = fiTime old)"

text \<open>\<open>Bound.Check\<close> of a binding that is not closed.\<close>

definition Check :: "filesystem \<Rightarrow> nat \<Rightarrow> bound \<Rightarrow> bool" where
  "Check fs t b \<longleftrightarrow> same_endpoint (bdApi b) (fs t (hsSocket (bdSession b))) \<and>
     same_endpoint (bdClient b) (fs (t + 1) (bdClientPath b))"

datatype bind_error = NotRunning | NoEndpoint | NoSocket | Replaced

definition Bind :: "filesystem \<Rightarrow> nat \<Rightarrow> hsession \<Rightarrow> bind_error + bound" where
  "Bind fs t s =
     (if \<not> hsRunning s \<or> \<not> is_abs (hsSocket s) then Inl NotRunning
      else case fs t (hsSocket s) of
        None \<Rightarrow> Inl NoEndpoint
      | Some a \<Rightarrow>
          (case fs (t + 1) (client_path (hsSocket s)) of
             None \<Rightarrow> Inl NoEndpoint
           | Some c \<Rightarrow>
               if \<not> fiSocket a \<or> \<not> fiSocket c then Inl NoSocket
               else
                 (let b = \<lparr>bdSession = s, bdClientPath = client_path (hsSocket s), bdApi = a, bdClient = c\<rparr>
                  in if Check fs (t + 2) b then Inr b else Inl Replaced)))"

section \<open>Operations on a bound session\<close>

definition Metadata :: "bool \<Rightarrow> bool \<Rightarrow> bool \<Rightarrow> (bytes \<Rightarrow> bytes option) \<Rightarrow> bytes \<Rightarrow> bytes option" where
  "Metadata checked darwin arm64 status kind =
     (if \<not> checked then None
      else if kind = ''platform'' then
        Some ((if darwin then ''Darwin'' else ''Linux'') @ [CHR 0x0A] @ (if arm64 then ''aarch64'' else ''x86_64'') @ [CHR 0x0A])
      else if kind = ''status-client'' then status ''client''
      else if kind = ''status-server'' then status ''server''
      else None)"

definition api_methods :: "bytes list" where
  "api_methods = [''ping'', ''session.snapshot'',
     ''agent.list'', ''agent.get'', ''agent.read'', ''agent.explain'', ''agent.prompt'',
     ''agent.wait'', ''agent.send_keys'', ''agent.start'', ''agent.rename'', ''agent.focus'',
     ''agent.view.set'', ''agent.view.clear'',
     ''workspace.list'', ''workspace.get'', ''workspace.create'', ''workspace.rename'',
     ''workspace.focus'', ''workspace.move'', ''workspace.move_block'', ''workspace.close'',
     ''tab.list'', ''tab.get'', ''tab.create'', ''tab.rename'', ''tab.focus'', ''tab.move'', ''tab.close'',
     ''pane.list'', ''pane.get'', ''pane.current'', ''pane.layout'', ''pane.process_info'',
     ''pane.neighbor'', ''pane.edges'', ''pane.split'', ''pane.move'', ''pane.swap'',
     ''pane.focus'', ''pane.focus_direction'', ''pane.resize'', ''pane.zoom'', ''pane.rename'',
     ''pane.close'', ''pane.read'', ''pane.send_text'', ''pane.send_keys'', ''pane.send_input'',
     ''pane.input.set'', ''pane.wait_for_output'', ''layout.set_split_ratio'', ''layout.export'']"

definition allowedAPI :: "bytes \<Rightarrow> bool" where
  "allowedAPI m \<longleftrightarrow> m \<in> set api_methods"

definition MaxAPIRequest :: nat where "MaxAPIRequest = 1048576"
definition maxAPIResponse :: nat where "maxAPIResponse = 16777216"

text \<open>\<open>ReadAPILine\<close> over the bytes the peer sends before it closes: \<open>None\<close> for an error.\<close>

definition ReadAPILine :: "bytes \<Rightarrow> nat \<Rightarrow> bytes option" where
  "ReadAPILine inp limit =
     (let head = take (limit + 1) inp;
          line = takeWhile (\<lambda>c. c \<noteq> CHR 0x0A) head in
      if line = head then None
      else if length line + 1 > limit then None
      else Some (line @ [CHR 0x0A]))"

record herdr_request =
  arId :: bytes
  arMethod :: bytes
  arParams :: bytes

text \<open>What \<open>ServeAPI\<close> asks: the JSON of a request, the checks of the binding, the socket.\<close>

record api_env =
  aeDecode :: "bytes \<Rightarrow> herdr_request option"
  aeEncode :: "herdr_request \<Rightarrow> bytes"
  aeCheck :: bool        \<comment> \<open>before connecting\<close>
  aeConnect :: bool
  aeRecheck :: bool      \<comment> \<open>after connecting\<close>
  aeWrite :: bool
  aeReply :: bytes       \<comment> \<open>what Herdr sends before it closes\<close>

datatype api_answer = Silent | Refusal bytes bytes | Reply bytes

text \<open>The result: what is written to Herdr, if anything, and what the caller gets.\<close>

definition ServeAPI :: "api_env \<Rightarrow> bytes \<Rightarrow> bytes option \<times> api_answer" where
  "ServeAPI A inp =
     (case ReadAPILine inp MaxAPIRequest of
        None \<Rightarrow> (None, Silent)
      | Some line \<Rightarrow>
          (case aeDecode A line of
             None \<Rightarrow> (None, Refusal [] ''invalid_request'')
           | Some q \<Rightarrow>
               if arId q = [] \<or> length (arId q) > 256 then (None, Refusal [] ''invalid_request'')
               else if \<not> allowedAPI (arMethod q) then (None, Refusal (arId q) ''bee_operation_unsupported'')
               else if \<not> aeCheck A then (None, Refusal (arId q) ''bee_session_changed'')
               else if \<not> aeConnect A then (None, Refusal (arId q) ''bee_session_unavailable'')
               else if \<not> aeRecheck A then (None, Refusal (arId q) ''bee_session_changed'')
               else
                 (let out = aeEncode A q @ [CHR 0x0A] in
                  if \<not> aeWrite A then (Some out, Silent)
                  else (case ReadAPILine (aeReply A) maxAPIResponse of
                          None \<Rightarrow> (Some out, Silent)
                        | Some reply \<Rightarrow> (Some out, Reply reply)))))"

section \<open>Publishing\<close>

datatype publisher_error = NoRules | NoSessions | Unavailable bytes | Unbound bytes bind_error

fun by_name :: "hsession list \<Rightarrow> (bytes, hsession) gomap \<Rightarrow> (bytes, hsession) gomap" where
  "by_name [] m = m"
| "by_name (s # ss) m = by_name ss (put (hsName s) s m)"

definition share_of :: "rule \<Rightarrow> share" where
  "share_of r = \<lparr>shKey = rKey r, shLabel = rSession r, shID = [], shName = [], shAPI = True, shGeneration = []\<rparr>"

fun bind_rules :: "filesystem \<Rightarrow> nat \<Rightarrow> (bytes, hsession) gomap \<Rightarrow> rule list \<Rightarrow> (bytes, bound) gomap \<Rightarrow>
    publisher_error + (bytes, bound) gomap" where
  "bind_rules fs t idx [] m = Inr m"
| "bind_rules fs t idx (r # rs) m =
     (case map_of idx (rSession r) of
        None \<Rightarrow> Inl (Unavailable (rSession r))
      | Some s \<Rightarrow>
          (case Bind fs t s of
             Inl e \<Rightarrow> Inl (Unbound (rSession r) e)
           | Inr b \<Rightarrow> bind_rules fs (t + 4) idx rs (put (rKey r) b m)))"

text \<open>\<open>connect\<close> up to the request to publish.\<close>

definition connect_setup :: "filesystem \<Rightarrow> nat \<Rightarrow> hsession list option \<Rightarrow> config \<Rightarrow>
    publisher_error + (bytes, bound) gomap \<times> publication" where
  "connect_setup fs t sessions c =
     (if cfRules c = [] then Inl NoRules
      else case sessions of
        None \<Rightarrow> Inl NoSessions
      | Some ss \<Rightarrow>
          (case bind_rules fs t (by_name ss []) (cfRules c) [] of
             Inl e \<Rightarrow> Inl e
           | Inr m \<Rightarrow> Inr (m, \<lparr>pVersion = 1, pName = cfName c, pShares = map share_of (cfRules c)\<rparr>)))"

text \<open>The check of every binding, once a second: the first that fails ends the publication.\<close>

fun first_replaced :: "filesystem \<Rightarrow> nat \<Rightarrow> (bytes, bound) gomap \<Rightarrow> bytes option" where
  "first_replaced fs t [] = None"
| "first_replaced fs t ((k, b) # m) = (if Check fs t b then first_replaced fs (t + 2) m else Some (hsName (bdSession b)))"

text \<open>The wait before the next connection, in seconds (\<open>Run\<close>).\<close>

definition next_delay :: "nat \<Rightarrow> nat" where
  "next_delay d = (if d < 15 then d * 2 else d)"

section \<open>Streams the server opens\<close>

definition max_streams :: nat where "max_streams = 64"

datatype open_refusal = Prohibited bytes | Shortage bytes | Failed_open bytes

datatype stream = Refuse_stream open_refusal | Api_stream | Check_stream | Client_stream | Data_stream bytes

text \<open>\<open>handle\<close>, up to the acceptance of the channel: \<open>checked\<close> and \<open>dialed\<close> are the outcomes of \<open>Check\<close> and
  \<open>Dial\<close>, \<open>meta\<close> that of \<open>Metadata\<close>.\<close>

definition handle_stream :: "bool \<Rightarrow> bool \<Rightarrow> bytes option \<Rightarrow> bytes \<Rightarrow> stream" where
  "handle_stream checked dialed metadata kind =
     (if kind = ''api'' then (if checked then Api_stream else Refuse_stream (Failed_open ''session offline or replaced''))
      else if kind = ''client'' \<or> kind = ''check'' then
        (if \<not> dialed then Refuse_stream (Failed_open ''session offline or replaced'')
         else if kind = ''check'' then Check_stream else Client_stream)
      else if \<not> has_prefix kind ''status-'' \<and> kind \<noteq> ''platform'' then Refuse_stream (Prohibited ''unsupported operation'')
      else case metadata of
        None \<Rightarrow> Refuse_stream (Failed_open ''Herdr metadata unavailable'')
      | Some d \<Rightarrow> if length d > 65536 then Refuse_stream (Failed_open ''Herdr metadata unavailable'') else Data_stream d)"

text \<open>The request of a channel, its key and kind, leads to the session it is served from, or to a open_refusal.\<close>

definition accept_stream :: "(bytes, bound) gomap \<Rightarrow> nat \<Rightarrow> nat \<Rightarrow> (bytes \<times> bytes) option \<Rightarrow> open_refusal + bound \<times> bytes" where
  "accept_stream bounds inuse len req =
     (if len > 4096 then Inl (Prohibited ''invalid request'')
      else case req of
        None \<Rightarrow> Inl (Prohibited ''invalid request'')
      | Some (key, kind) \<Rightarrow>
          (case map_of bounds key of
             None \<Rightarrow> Inl (Prohibited ''unshared session'')
           | Some b \<Rightarrow> if inuse \<ge> max_streams then Inl (Shortage ''publisher channel limit'') else Inr (b, kind)))"

section \<open>What is bound\<close>

lemma by_name_sound: "(\<And>k s. map_of m k = Some s \<Longrightarrow> hsName s = k) \<Longrightarrow> map_of (by_name ss m) k = Some s \<Longrightarrow> hsName s = k"
proof (induction ss m arbitrary: k s rule: by_name.induct)
  case (2 x ss m)
  show ?case by (rule "2.IH" [OF _ 2(3) [simplified]]) (auto split: if_splits dest: 2(2))
qed auto

lemma Bind_session: "Bind fs t s = Inr b \<Longrightarrow> bdSession b = s"
  by (auto simp: Bind_def Let_def split: if_splits option.splits)

text \<open>A binding that succeeds passes its check in a file system that does not change.\<close>

lemma Bind_checked: "Bind (\<lambda>_. g) t s = Inr b \<Longrightarrow> Check (\<lambda>_. g) u b"
  by (auto simp: Bind_def Check_def Let_def same_endpoint_def split: if_splits option.splits)

lemma bind_rules_other: "bind_rules fs t idx rs m = Inr m' \<Longrightarrow> k \<notin> rKey ` set rs \<Longrightarrow> map_of m' k = map_of m k"
  by (induction fs t idx rs m rule: bind_rules.induct) (auto split: option.splits sum.splits)

lemma bind_rules_bound:
  assumes idx: "\<And>k s. map_of idx k = Some s \<Longrightarrow> hsName s = k"
  shows "bind_rules fs t idx rs m = Inr m' \<Longrightarrow> distinct (map rKey rs) \<Longrightarrow> r \<in> set rs \<Longrightarrow>
    \<exists>b. map_of m' (rKey r) = Some b \<and> hsName (bdSession b) = rSession r"
proof (induction rs arbitrary: t m)
  case (Cons x rs)
  obtain s where s: "map_of idx (rSession x) = Some s" using Cons.prems(1) by (cases "map_of idx (rSession x)") auto
  obtain b where b: "Bind fs t s = Inr b" using Cons.prems(1) s by (cases "Bind fs t s") auto
  have rest: "bind_rules fs (t + 4) idx rs (put (rKey x) b m) = Inr m'" using Cons.prems(1) s b by simp
  show ?case
  proof (cases "r = x")
    case True
    have "map_of m' (rKey x) = Some b"
      using bind_rules_other [OF rest, of "rKey x"] Cons.prems(2) by simp
    then show ?thesis using True idx [OF s] Bind_session [OF b] by simp
  next
    case False
    then show ?thesis using Cons.IH [OF rest] Cons.prems(2,3) by simp
  qed
qed simp

lemma connect_cases:
  assumes "connect_setup fs t sessions c = Inr (bounds, p)"
  obtains ss where "bind_rules fs t (by_name ss []) (cfRules c) [] = Inr bounds" and "cfRules c \<noteq> []"
    and "p = \<lparr>pVersion = 1, pName = cfName c, pShares = map share_of (cfRules c)\<rparr>"
  using assms by (auto simp: connect_setup_def split: if_splits option.splits sum.splits)

lemma setup_bound:
  assumes "connect_setup fs t sessions c = Inr (bounds, p)" and "distinct (map rKey (cfRules c))" and "r \<in> set (cfRules c)"
  shows "\<exists>b. map_of bounds (rKey r) = Some b \<and> hsName (bdSession b) = rSession r"
proof -
  obtain ss where b: "bind_rules fs t (by_name ss []) (cfRules c) [] = Inr bounds" by (rule connect_cases [OF assms(1)])
  have "\<And>k s. map_of (by_name ss []) k = Some s \<Longrightarrow> hsName s = k" using by_name_sound [of "[]" ss] by simp
  from bind_rules_bound [OF this b assms(2,3)] show ?thesis .
qed

section \<open>The publisher and the server\<close>

lemma check_shares_iff: "check_shares vs seen \<longleftrightarrow> distinct (map shKey vs) \<and> set (map shKey vs) \<inter> set seen = {} \<and>
    (\<forall>v \<in> set vs. length (shKey v) = 32 \<and> validLabel (shLabel v) \<and> unhex (shKey v) \<noteq> None)"
  by (induction vs seen rule: check_shares.induct) auto

lemma rule_shares: "map shKey (map share_of rs) = map rKey rs" "set (map share_of rs) = share_of ` set rs"
  by (simp_all add: share_of_def comp_def)

lemma publish_out:
  assumes "publish_shares sha saved nonce conn p h = (h', Inr out)"
  shows "check_shares (pShares p) []" and "\<exists>owner name n. out = map (published sha owner name n) (pShares p)"
  using assms by (auto simp: publish_shares_def Let_def split: if_splits prod.splits sum.splits option.splits)

text \<open>
  A valid configuration is published: the server refuses what \<open>connect\<close> sends for it neither as a bad
  publication nor as a bad share, provided that the keys of its rules are distinct and the names of its
  sessions are labels, which \<open>Validate\<close> does not check.
\<close>

theorem publication_accepted:
  assumes "Validate c = None" and "distinct (map rKey (cfRules c))" and "\<forall>r \<in> set (cfRules c). validLabel (rSession r)"
    and "connect_setup fs t sessions c = Inr (bounds, p)"
    and "publish_shares sha saved nonce conn p h = (h', Inl e)"
  shows "e \<noteq> BadPublication \<and> e \<noteq> BadShare"
proof -
  obtain ss where ne: "cfRules c \<noteq> []" and p: "p = \<lparr>pVersion = 1, pName = cfName c, pShares = map share_of (cfRules c)\<rparr>"
    by (rule connect_cases [OF assms(4)])
  have v: "validLabel (cfName c)" "length (cfRules c) \<le> 32"
    using assms(1) by (auto simp: Validate_iff validLabel_def)
  have "check_shares (pShares p) []"
    using assms(1-3) unfolding check_shares_iff p publication.simps rule_shares
    by (auto simp: Validate_iff share_of_def)
  then show ?thesis using assms(5) v ne
    by (auto simp: publish_shares_def p Let_def split: if_splits prod.splits sum.splits option.splits)
qed

definition sample_config :: config where
  "sample_config = (default_config ''desk'')\<lparr>cfRules := [\<lparr>rType = ''manual'', rSession = ''work'', rKey = replicate 32 CHR ''a''\<rparr>]\<rparr>"

definition sample_info :: fileinfo where
  "sample_info = \<lparr>fiFile = 5, fiTime = 7, fiSocket = True\<rparr>"

definition sample_bound :: bound where
  "sample_bound = \<lparr>bdSession = \<lparr>hsName = ''work'', hsRunning = True, hsSocket = ''/h/w.sock''\<rparr>,
     bdClientPath = ''/h/w-client.sock'', bdApi = sample_info, bdClient = sample_info\<rparr>"

lemma sample_setup: "connect_setup (\<lambda>_ _. Some sample_info) 0 (Some [bdSession sample_bound]) sample_config =
    Inr ([(replicate 32 CHR ''a'', sample_bound)], sample_pub)"
  by (simp add: connect_setup_def sample_config_def default_config_def sample_bound_def sample_info_def sample_pub_def share_of_def
      Bind_def Check_def same_endpoint_def is_abs_def has_prefix_def client_path_def file_ext_def last_element_def
      trim_suffix_def has_suffix_def)

lemma sample_valid: "Validate sample_config = None" "distinct (map rKey (cfRules sample_config))"
  "\<forall>r \<in> set (cfRules sample_config). validLabel (rSession r)"
  by code_simp+

lemma publication_accepted_witness:
  "\<exists>h'. publish_shares (\<lambda>x. x) True None 3 sample_pub hub_started = (h', Inl NoRandom) \<and> NoRandom \<noteq> BadPublication \<and> NoRandom \<noteq> BadShare"
proof -
  have "publish_shares (\<lambda>x. x) True None 3 sample_pub hub_started =
      (hub_started\<lparr>names := \<lparr>Names = [(''A'', ''desk'')], disk = Some [(''A'', ''desk'')]\<rparr>\<rparr>, Inl NoRandom)"
    using sample_checks by (simp add: publish_shares_def Let_def sample_fields started_fields)
  with publication_accepted [OF sample_valid sample_setup this] show ?thesis by blast
qed

text \<open>
  C10. A stream reaches the session its share is labelled with: when the server has accepted the publication, the
  key of each share it hands out leads the publisher to the binding of the session named by the label, as
  long as there is room for another stream.
\<close>

theorem stream_reaches_session:
  assumes "connect_setup fs t sessions c = Inr (bounds, p)"
    and "publish_shares sha saved nonce conn p h = (h', Inr out)" and "v \<in> set out"
  shows "\<exists>b. hsName (bdSession b) = shLabel v \<and>
    (\<forall>inuse len kind. inuse < 64 \<longrightarrow> len \<le> 4096 \<longrightarrow> accept_stream bounds inuse len (Some (shKey v, kind)) = Inr (b, kind))"
proof -
  obtain ss where p: "p = \<lparr>pVersion = 1, pName = cfName c, pShares = map share_of (cfRules c)\<rparr>"
    by (rule connect_cases [OF assms(1)])
  have ok: "check_shares (pShares p) []" by (rule publish_out(1) [OF assms(2)])
  obtain owner name n where "out = map (published sha owner name n) (pShares p)" using publish_out(2) [OF assms(2)] by blast
  then obtain w where w: "w \<in> set (pShares p)" "v = published sha owner name n w" using assms(3) by auto
  have d: "distinct (map rKey (cfRules c))" using ok unfolding check_shares_iff p publication.simps rule_shares by blast
  obtain r where r: "r \<in> set (cfRules c)" "shKey v = rKey r" "shLabel v = rSession r"
    using w by (auto simp: p share_of_def published_def)
  from setup_bound [OF assms(1) d r(1)] show ?thesis using r(2,3) by (auto simp: accept_stream_def max_streams_def)
qed

lemma stream_reaches_session_witness:
  "\<exists>b. hsName (bdSession b) = ''work'' \<and>
    accept_stream [(replicate 32 CHR ''a'', sample_bound)] 3 60 (Some (replicate 32 CHR ''a'', ''client'')) = Inr (b, ''client'')"
proof -
  have p: "publish_shares (\<lambda>x. x) True (Some ''0'') 3 sample_pub hub_started = (fst hub_published, Inr [sample_share])"
    using published_eq by (simp add: hub_published_def)
  have "sample_share \<in> set [sample_share]" by simp
  from stream_reaches_session [OF sample_setup p this] show ?thesis by (auto simp: sample_share_def)
qed

text \<open>What reaches Herdr's API socket is one re-encoded request with an allowed method, after both checks.\<close>

lemma api_gate:
  assumes "ServeAPI A inp = (Some out, ans)"
  shows "\<exists>line q. ReadAPILine inp MaxAPIRequest = Some line \<and> aeDecode A line = Some q \<and> out = aeEncode A q @ [CHR 0x0A] \<and>
    allowedAPI (arMethod q) \<and> 0 < length (arId q) \<and> length (arId q) \<le> 256 \<and> aeCheck A \<and> aeConnect A \<and> aeRecheck A"
  using assms by (auto simp: ServeAPI_def Let_def split: option.splits if_splits)

lemma read_line:
  assumes "ReadAPILine inp limit = Some line"
  shows "length line \<le> limit \<and> (\<exists>rest. inp = line @ rest) \<and> (\<exists>body. line = body @ [CHR 0x0A] \<and> CHR 0x0A \<notin> set body)"
proof -
  let ?h = "take (limit + 1) inp" let ?b = "takeWhile (\<lambda>c. c \<noteq> CHR 0x0A) ?h"
  have l: "line = ?b @ [CHR 0x0A]" "?b \<noteq> ?h" "length ?b + 1 \<le> limit"
    using assms by (auto simp: ReadAPILine_def Let_def split: if_splits)
  have "?h = ?b @ dropWhile (\<lambda>c. c \<noteq> CHR 0x0A) ?h" by simp
  moreover have "dropWhile (\<lambda>c. c \<noteq> CHR 0x0A) ?h = CHR 0x0A # tl (dropWhile (\<lambda>c. c \<noteq> CHR 0x0A) ?h)"
    using l(2) hd_dropWhile [of "\<lambda>c. c \<noteq> CHR 0x0A" ?h] by (metis append.right_neutral calculation hd_Cons_tl)
  ultimately have "?h = line @ tl (dropWhile (\<lambda>c. c \<noteq> CHR 0x0A) ?h)" unfolding l(1) by (metis append.assoc append_Cons append_Nil)
  then have "inp = line @ (tl (dropWhile (\<lambda>c. c \<noteq> CHR 0x0A) ?h) @ drop (limit + 1) inp)"
    by (metis append.assoc append_take_drop_id)
  moreover have "CHR 0x0A \<notin> set ?b" by (auto dest: set_takeWhileD)
  ultimately show ?thesis using l by auto
qed

end
