(* ===== verification/GoNet.thy ===== *)
theory GoNet
  imports Adapter
begin

text \<open>
  The parts of Go's standard library that the invitations and the addresses of a Hive use: the unpadded URL
  alphabet of \<open>encoding/base64\<close> with its strict decoder, \<open>strconv.Atoi\<close> with a sign,
  \<open>net.SplitHostPort\<close>, \<open>net.ParseIP\<close> and \<open>IP.IsUnspecified\<close>. An address is the list of its 16 bytes.
\<close>

section \<open>Base 64\<close>

definition b64_char :: "nat \<Rightarrow> char" where
  "b64_char n =
     (if n < 26 then char_of (65 + n) else if n < 52 then char_of (71 + n) else if n < 62 then char_of (n - 4)
      else if n = 62 then CHR ''-'' else CHR ''_'')"

definition b64_value :: "char \<Rightarrow> nat option" where
  "b64_value c =
     (let n = of_char c :: nat in
      if 65 \<le> n \<and> n \<le> 90 then Some (n - 65) else if 97 \<le> n \<and> n \<le> 122 then Some (n - 71)
      else if 48 \<le> n \<and> n \<le> 57 then Some (n + 4) else if n = 45 then Some 62 else if n = 95 then Some 63 else None)"

text \<open>\<open>RawURLEncoding.EncodeToString\<close>: three bytes are four digits, a rest of one or two bytes two or three.\<close>

fun b64 :: "bytes \<Rightarrow> bytes" where
  "b64 [] = []"
| "b64 [a] = [b64_char (of_char a div 4), b64_char (of_char a mod 4 * 16)]"
| "b64 [a, b] =
     [b64_char (of_char a div 4), b64_char (of_char a mod 4 * 16 + of_char b div 16), b64_char (of_char b mod 16 * 4)]"
| "b64 (a # b # c # s) =
     b64_char (of_char a div 4) # b64_char (of_char a mod 4 * 16 + of_char b div 16) #
     b64_char (of_char b mod 16 * 4 + of_char c div 64) # b64_char (of_char c mod 64) # b64 s"

text \<open>The strict decoder wants the unused bits of the last digit to be zero, but skips line breaks.\<close>

fun unb64 :: "bytes \<Rightarrow> bytes option" where
  "unb64 [] = Some []"
| "unb64 [c] = None"
| "unb64 [c, d] =
     (case (b64_value c, b64_value d) of
        (Some x, Some y) \<Rightarrow> if y mod 16 = 0 then Some [char_of (4 * x + y div 16)] else None
      | _ \<Rightarrow> None)"
| "unb64 [c, d, e] =
     (case (b64_value c, b64_value d, b64_value e) of
        (Some x, Some y, Some z) \<Rightarrow>
          if z mod 4 = 0 then Some [char_of (4 * x + y div 16), char_of (y mod 16 * 16 + z div 4)] else None
      | _ \<Rightarrow> None)"
| "unb64 (c # d # e # f # s) =
     (case (b64_value c, b64_value d, b64_value e, b64_value f, unb64 s) of
        (Some x, Some y, Some z, Some w, Some r) \<Rightarrow>
          Some (char_of (4 * x + y div 16) # char_of (y mod 16 * 16 + z div 4) # char_of (z mod 4 * 64 + w) # r)
      | _ \<Rightarrow> None)"

definition no_breaks :: "bytes \<Rightarrow> bytes" where
  "no_breaks s = filter (\<lambda>c. c \<noteq> CHR 0x0A \<and> c \<noteq> CHR 0x0D) s"

definition b64_decode :: "bytes \<Rightarrow> bytes option" where
  "b64_decode s = unb64 (no_breaks s)"

lemma b64_value_char [simp]: "n < 64 \<Longrightarrow> b64_value (b64_char n) = Some n"
  by (auto simp: b64_value_def b64_char_def Let_def)

lemma b64_char_value: "b64_value c = Some n \<Longrightarrow> b64_char n = c \<and> n < 64"
proof -
  have "char_of (45 :: nat) = CHR ''-''" "char_of (95 :: nat) = CHR ''_''"
    by (simp_all add: char_of_def bit_iff_odd)
  then have "of_char c = (45 :: nat) \<Longrightarrow> c = CHR ''-''" "of_char c = (95 :: nat) \<Longrightarrow> c = CHR ''_''"
    by (metis char_of_char)+
  then show "b64_value c = Some n \<Longrightarrow> ?thesis"
    by (auto simp: b64_value_def b64_char_def Let_def split: if_splits)
qed

lemma byte_less: "of_char c < (256 :: nat)" "of_char c div 4 < (64 :: nat)" "of_char c div 16 < (16 :: nat)"
  "of_char c div 64 < (4 :: nat)"
  using of_char_mod_256 [of c, where ?'a = nat] by (simp_all add: less_mult_imp_div_less)

text \<open>A number of two digits in base \<open>m\<close>.\<close>

lemma two_digits: "(l :: nat) < m \<Longrightarrow> (h * m + l) div m = h" "l < m \<Longrightarrow> (h * m + l) mod m = l"
  "l < m \<Longrightarrow> h < k \<Longrightarrow> h * m + l < k * m"
proof -
  show "l < m \<Longrightarrow> h < k \<Longrightarrow> h * m + l < k * m"
    by (metis add.commute add_less_cancel_left less_le_trans mult_Suc mult_le_mono1 Suc_leI)
qed simp_all

lemma unb64_b64 [simp]: "unb64 (b64 b) = Some b"
proof (induction b rule: b64.induct)
  case (2 a)
  have "of_char a mod 4 * 16 < (64 :: nat)" by simp
  then show ?case using byte_less [of a] by simp
next
  case (3 a b)
  let ?a = "of_char a :: nat" and ?b = "of_char b :: nat"
  note D = two_digits(1,2) [OF byte_less(3), of "?a mod 4" b]
  have "?a mod 4 * 16 + ?b div 16 < 64" using two_digits(3) [OF byte_less(3), of "?a mod 4" 4 b] by simp
  moreover have "?b mod 16 * 4 < 64" by simp
  moreover have "4 * (?a div 4) + ?a mod 4 = ?a" "?b div 16 * 16 + ?b mod 16 = ?b" by simp_all
  ultimately show ?case using byte_less(2) [of a] D by simp
next
  case (4 a b c s)
  let ?a = "of_char a :: nat" and ?b = "of_char b :: nat" and ?c = "of_char c :: nat"
  note D = two_digits(1,2) [OF byte_less(3), of "?a mod 4" b] two_digits(1,2) [OF byte_less(4), of "?b mod 16" c]
  have "?a mod 4 * 16 + ?b div 16 < 64" using two_digits(3) [OF byte_less(3), of "?a mod 4" 4 b] by simp
  moreover have "?b mod 16 * 4 + ?c div 64 < 64" using two_digits(3) [OF byte_less(4), of "?b mod 16" 16 c] by simp
  moreover have "4 * (?a div 4) + ?a mod 4 = ?a" "?b div 16 * 16 + ?b mod 16 = ?b" "?c div 64 * 64 + ?c mod 64 = ?c"
    by simp_all
  ultimately show ?case using byte_less(2) [of a] D 4 by simp
qed simp

lemma sextets:
  assumes "x < 64" "y < (64 :: nat)"
  shows "(4 * x + y div 16) mod 256 div 4 = x" "(4 * x + y div 16) mod 256 mod 4 = y div 16"
    "(x mod 16 * 16 + y div 4) mod 256 div 16 = x mod 16" "(x mod 16 * 16 + y div 4) mod 256 mod 16 = y div 4"
proof -
  have l: "y div 16 < 4" "y div 4 < 16" using assms by (simp_all add: less_mult_imp_div_less)
  have "4 * x + y div 16 < 256" "x mod 16 * 16 + y div 4 < 256"
    using two_digits(3) [OF l(1) assms(1)] two_digits(3) [OF l(2), of "x mod 16" 16] by simp_all
  then show "(4 * x + y div 16) mod 256 div 4 = x" "(4 * x + y div 16) mod 256 mod 4 = y div 16"
    "(x mod 16 * 16 + y div 4) mod 256 div 16 = x mod 16" "(x mod 16 * 16 + y div 4) mod 256 mod 16 = y div 4"
    using two_digits(1,2) [OF l(1), of x] two_digits(1,2) [OF l(2), of "x mod 16"] by (simp_all add: mult.commute)
qed

text \<open>The strict decoder accepts nothing but what the encoder writes.\<close>

lemma b64_unb64: "unb64 s = Some b \<Longrightarrow> s = b64 b"
proof (induction s arbitrary: b rule: unb64.induct)
  case (3 c d)
  then obtain x y where x: "b64_value c = Some x" and y: "b64_value d = Some y" and m: "y mod 16 = 0"
    and b: "b = [char_of (4 * x + y div 16)]"
    by (auto split: option.splits if_splits)
  note v = b64_char_value [OF x] b64_char_value [OF y]
  show ?case using v m sextets(1,2) [of x y] by (auto simp: b)
next
  case (4 c d e)
  then obtain x y z where x: "b64_value c = Some x" and y: "b64_value d = Some y" and z: "b64_value e = Some z"
    and m: "z mod 4 = 0" and b: "b = [char_of (4 * x + y div 16), char_of (y mod 16 * 16 + z div 4)]"
    by (auto split: option.splits if_splits)
  note v = b64_char_value [OF x] b64_char_value [OF y] b64_char_value [OF z]
  let ?p = "(4 * x + y div 16) mod 256" and ?q = "(y mod 16 * 16 + z div 4) mod 256"
  have l: "x < 64" "y < 64" "z < 64" using v by auto
  have "b64 b = [b64_char (?p div 4), b64_char (?p mod 4 * 16 + ?q div 16), b64_char (?q mod 16 * 4)]"
    by (simp only: b b64.simps of_char_of)
  also have "\<dots> = [b64_char x, b64_char y, b64_char (z div 4 * 4 + z mod 4)]"
    by (simp only: sextets(1,2) [OF l(1,2)] sextets(3,4) [OF l(2,3)] m div_mult_mod_eq add_0_right)
  finally show ?case using v by simp
next
  case (5 c d e f s)
  then obtain x y z w r where x: "b64_value c = Some x" and y: "b64_value d = Some y" and z: "b64_value e = Some z"
    and w: "b64_value f = Some w" and r: "unb64 s = Some r"
    and b: "b = char_of (4 * x + y div 16) # char_of (y mod 16 * 16 + z div 4) # char_of (z mod 4 * 64 + w) # r"
    by (auto split: option.splits if_splits)
  note v = b64_char_value [OF x] b64_char_value [OF y] b64_char_value [OF z] b64_char_value [OF w]
  let ?p = "(4 * x + y div 16) mod 256" and ?q = "(y mod 16 * 16 + z div 4) mod 256" and ?t = "(z mod 4 * 64 + w) mod 256"
  have l: "x < 64" "y < 64" "z < 64" "w < 64" using v by auto
  have "z mod 4 * 64 + w < 256" using two_digits(3) [OF l(4), of "z mod 4" 4] by simp
  then have t: "?t div 64 = z mod 4" "?t mod 64 = w" using two_digits(1,2) [OF l(4), of "z mod 4"] by simp_all
  have "b64 b = [b64_char (?p div 4), b64_char (?p mod 4 * 16 + ?q div 16), b64_char (?q mod 16 * 4 + ?t div 64),
      b64_char (?t mod 64)] @ b64 r"
    by (simp only: b b64.simps of_char_of append.simps)
  also have "\<dots> = [b64_char x, b64_char y, b64_char z, b64_char w] @ b64 r"
    by (simp only: sextets(1,2) [OF l(1,2)] sextets(3,4) [OF l(2,3)] t div_mult_mod_eq)
  also have "b64 r = s" using 5 r x y z w by simp
  finally show ?case using v by simp
qed simp_all

lemma b64_chars: "c \<in> set (b64 b) \<Longrightarrow> digit c \<or> letter c \<or> c = CHR ''-'' \<or> c = CHR ''_''"
proof -
  have d: "digit (b64_char n) \<or> letter (b64_char n) \<or> b64_char n = CHR ''-'' \<or> b64_char n = CHR ''_''" for n
    by (auto simp: b64_char_def digit_def letter_def)
  show "c \<in> set (b64 b) \<Longrightarrow> ?thesis"
    using d by (induction b rule: b64.induct) auto
qed

lemma no_breaks_b64: "no_breaks (b64 b) = b64 b"
proof -
  have "c \<noteq> CHR 0x0A \<and> c \<noteq> CHR 0x0D" if "c \<in> set (b64 b)" for c
    using b64_chars [OF that] by (auto simp: digit_def letter_def)
  then show ?thesis by (simp add: no_breaks_def filter_id_conv)
qed

lemma b64_decode_b64 [simp]: "b64_decode (b64 b) = Some b"
  by (simp add: b64_decode_def no_breaks_b64)

lemma b64_decode_canonical: "b64_decode s = Some b \<Longrightarrow> no_breaks s = b64 b"
  by (simp add: b64_decode_def b64_unb64)

section \<open>Numbers\<close>

definition Atoi_int :: "bytes \<Rightarrow> int option" where
  "Atoi_int s =
     (case s of
        [] \<Rightarrow> None
      | c # r \<Rightarrow>
          (let d = (if c = CHR ''-'' \<or> c = CHR ''+'' then r else s) in
           if d = [] \<or> \<not> list_all digit d then None
           else if c = CHR ''-'' then (if numeral_value d \<le> 2 ^ 63 then Some (- int (numeral_value d)) else None)
           else if numeral_value d < 2 ^ 63 then Some (int (numeral_value d)) else None))"

definition Itoa :: "int \<Rightarrow> bytes" where
  "Itoa n = (if n < 0 then CHR ''-'' # decimal (nat (- n)) else decimal (nat n))"

lemma Atoi_int_decimal: "n < 2 ^ 63 \<Longrightarrow> Atoi_int (decimal n) = Some (int n)"
proof -
  have "digit (hd (decimal n))" using decimal_digits decimal_nonempty by (metis hd_in_set)
  then have "hd (decimal n) \<noteq> CHR ''-''" "hd (decimal n) \<noteq> CHR ''+''" by (auto simp: digit_def)
  moreover have "list_all digit (decimal n)" using decimal_digits by (auto simp: list_all_iff)
  moreover obtain c r where c: "decimal n = c # r" using decimal_nonempty by (cases "decimal n") auto
  ultimately show "n < 2 ^ 63 \<Longrightarrow> ?thesis"
    using numeral_value_decimal [of n] by (simp add: Atoi_int_def)
qed

section \<open>Addresses\<close>

definition before :: "char \<Rightarrow> bytes \<Rightarrow> bytes" where
  "before c s = takeWhile (\<lambda>x. x \<noteq> c) s"

definition after_last :: "char \<Rightarrow> bytes \<Rightarrow> bytes" where
  "after_last c s = rev (before c (rev s))"

text \<open>\<open>net.SplitHostPort\<close>; the port follows the last colon. A host in brackets may contain colons, another not.\<close>

definition SplitHostPort :: "bytes \<Rightarrow> (bytes \<times> bytes) option" where
  "SplitHostPort s =
     (if CHR '':'' \<notin> set s then None
      else
        (let port = after_last CHR '':'' s; i = length s - length port - 1 in
         if hd s = CHR ''['' then
           (if CHR '']'' \<notin> set s then None
            else
              (let e = length (before CHR '']'' s) in
               if e + 1 \<noteq> i then None
               else if CHR ''['' \<in> set (drop 1 s) \<or> CHR '']'' \<in> set (drop (e + 1) s) then None
               else Some (drop 1 (take e s), port)))
         else if CHR '':'' \<in> set (take i s) \<or> CHR ''['' \<in> set s \<or> CHR '']'' \<in> set s then None
         else Some (take i s, port)))"

text \<open>\<open>net.ParseIP\<close>: four decimal fields without leading zeros, or groups of hexadecimal digits with at most
  one \<open>::\<close> and perhaps four decimal fields at the end. A zone is not allowed.\<close>

definition v4_field :: "bytes \<Rightarrow> nat option" where
  "v4_field f =
     (if f = [] \<or> \<not> list_all digit f \<or> (length f > 1 \<and> hd f = CHR ''0'') \<or> numeral_value f > 255 then None
      else Some (numeral_value f))"

definition ParseIPv4 :: "bytes \<Rightarrow> nat list option" where
  "ParseIPv4 s =
     (case map v4_field (split_on CHR ''.'' s) of
        [Some a, Some b, Some c, Some d] \<Rightarrow> Some [a, b, c, d]
      | _ \<Rightarrow> None)"

definition hex_number :: "bytes \<Rightarrow> nat" where
  "hex_number g = foldl (\<lambda>a c. 16 * a + the (hex_value c)) 0 g"

definition hex_run :: "bytes \<Rightarrow> bytes" where
  "hex_run s = takeWhile (\<lambda>c. hex_value c \<noteq> None) s"

text \<open>The loop over the groups: the bytes so far, where the \<open>::\<close> was, and the text that is left. Every pass but
  one that ends the loop adds two bytes, so eight fill an address.\<close>

fun v6_groups :: "nat \<Rightarrow> nat list \<Rightarrow> nat option \<Rightarrow> bytes \<Rightarrow> (nat list \<times> nat option \<times> bytes) option" where
  "v6_groups 0 ip el s = Some (ip, el, s)"
| "v6_groups (Suc n) ip el s =
     (let g = hex_run s; r = drop (length g) s; ip1 = ip @ [hex_number g div 256, hex_number g mod 256] in
      if g = [] \<or> length g > 4 then None
      else if r \<noteq> [] \<and> hd r = CHR ''.'' then
        (if el = None \<and> length ip \<noteq> 12 then None
         else if length ip + 4 > 16 then None
         else map_option (\<lambda>q. (ip @ q, el, [])) (ParseIPv4 s))
      else
        (case r of
           [] \<Rightarrow> Some (ip1, el, [])
         | [c] \<Rightarrow> None
         | c # d # t \<Rightarrow>
             if c \<noteq> CHR '':'' then None
             else if d \<noteq> CHR '':'' then v6_groups n ip1 el (d # t)
             else if el \<noteq> None then None
             else if t = [] then Some (ip1, Some (length ip1), [])
             else v6_groups n ip1 (Some (length ip1)) t))"

definition ParseIPv6 :: "bytes \<Rightarrow> nat list option" where
  "ParseIPv6 s =
     (let start = has_prefix s ''::''; s0 = (if start then drop 2 s else s) in
      if start \<and> s0 = [] then Some (replicate 16 0)
      else
        (case v6_groups 8 [] (if start then Some 0 else None) s0 of
           None \<Rightarrow> None
         | Some (ip, el, rest) \<Rightarrow>
             if rest \<noteq> [] then None
             else if length ip < 16
             then map_option (\<lambda>e. take e ip @ replicate (16 - length ip) 0 @ drop e ip) el
             else if el \<noteq> None then None else Some ip))"

definition ParseIP :: "bytes \<Rightarrow> nat list option" where
  "ParseIP s =
     (case List.find (\<lambda>c. c = CHR ''.'' \<or> c = CHR '':'' \<or> c = CHR ''%'') s of
        Some c \<Rightarrow>
          if c = CHR ''.'' then map_option (\<lambda>q. replicate 10 0 @ [255, 255] @ q) (ParseIPv4 s)
          else if c = CHR '':'' \<and> CHR ''%'' \<notin> set s then ParseIPv6 s else None
      | None \<Rightarrow> None)"

definition IsUnspecified :: "nat list \<Rightarrow> bool" where
  "IsUnspecified ip \<longleftrightarrow> ip = replicate 16 0 \<or> ip = replicate 10 0 @ [255, 255, 0, 0, 0, 0]"

section \<open>What the parts of an address are made of\<close>

lemma after_last_chars: "set (after_last c s) \<subseteq> set s"
  by (auto simp: after_last_def before_def dest: set_takeWhileD)

lemma split_at_last: "c \<in> set s \<Longrightarrow> take (length s - length (after_last c s) - 1) s @ c # after_last c s = s"
proof -
  assume c: "c \<in> set s"
  then obtain a b where s: "s = a @ c # b" and b: "c \<notin> set b" using split_list_last by metis
  have "takeWhile (\<lambda>x. x \<noteq> c) (rev b @ c # rev a) = rev b" using b by (auto simp: takeWhile_append)
  then have "after_last c s = b" by (simp add: after_last_def before_def s)
  then show ?thesis by (simp add: s)
qed

lemma before_split: "c \<in> set s \<Longrightarrow> take (length (before c s)) s = before c s \<and> take (length (before c s) + 1) s = before c s @ [c]"
proof -
  assume "c \<in> set s"
  then obtain a b where s: "s = a @ c # b" and a: "c \<notin> set a" using split_list_first by metis
  have "before c s = a" using a by (auto simp: before_def s takeWhile_append)
  then show ?thesis by (simp add: s)
qed

text \<open>An address has no characters but those of its host and its port, colons and brackets.\<close>

lemma SplitHostPort_chars:
  assumes "SplitHostPort s = Some (host, port)"
  shows "set s \<subseteq> set host \<union> set port \<union> {CHR '':'', CHR ''['', CHR '']''}"
proof -
  let ?p = "after_last CHR '':'' s" and ?e = "length (before CHR '']'' s)"
  have c: "CHR '':'' \<in> set s" using assms by (auto simp: SplitHostPort_def split: if_splits)
  note S = split_at_last [OF c]
  show ?thesis
  proof (cases "hd s = CHR ''[''")
    case True
    then have e: "CHR '']'' \<in> set s" "?e + 1 = length s - length ?p - 1" "port = ?p" "host = drop 1 (take ?e s)"
      using assms c by (auto simp: SplitHostPort_def Let_def split: if_splits)
    have "s = take (?e + 1) s @ CHR '':'' # port" using S unfolding e(2) [symmetric] e(3) by simp
    moreover have "take (?e + 1) s = take ?e s @ [CHR '']'']"
      using before_split [OF e(1)] by simp
    ultimately have s: "s = take ?e s @ CHR '']'' # CHR '':'' # port" by (metis append.assoc append_Cons append_Nil)
    have "set (take ?e s) \<subseteq> {hd s} \<union> set host"
      using c unfolding e(4) by (cases s; cases ?e) auto
    then show ?thesis using True by (subst s) auto
  next
    case False
    then have "port = ?p" "host = take (length s - length ?p - 1) s"
      using assms c by (auto simp: SplitHostPort_def Let_def split: if_splits)
    then have "set s = set (host @ CHR '':'' # port)" using S by simp
    then show ?thesis by auto
  qed
qed

lemma Atoi_int_chars: "Atoi_int s = Some n \<Longrightarrow> c \<in> set s \<Longrightarrow> digit c \<or> c = CHR ''-'' \<or> c = CHR ''+''"
  by (auto simp: Atoi_int_def Let_def list_all_iff split: list.splits if_splits)

section \<open>White space\<close>

lemma visible_space: "w \<in> set spaces \<Longrightarrow> \<not> (33 \<le> (of_char (hd w) :: nat) \<and> of_char (hd w) < (128 :: nat)) \<and>
    \<not> (33 \<le> (of_char (last w) :: nat) \<and> of_char (last w) < (128 :: nat))"
proof -
  have "\<forall>w \<in> set spaces. \<not> (33 \<le> (of_char (hd w) :: nat) \<and> of_char (hd w) < (128 :: nat)) \<and>
      \<not> (33 \<le> (of_char (last w) :: nat) \<and> of_char (last w) < (128 :: nat))"
    by (simp add: spaces_def upt_rec)
  then show "w \<in> set spaces \<Longrightarrow> ?thesis" by blast
qed

lemma trim_space_visible:
  assumes "s \<noteq> []" "33 \<le> (of_char (hd s) :: nat)" "of_char (hd s) < (128 :: nat)"
    "33 \<le> (of_char (last s) :: nat)" "of_char (last s) < (128 :: nat)"
  shows "trim_space s = s"
  using assms visible_space by (intro trim_space_id) auto

lemma length_b64: "length (b64 b) = (4 * length b + 2) div 3"
  by (induction b rule: b64.induct) auto

end
