(* ===== verification/Invitation.thy ===== *)
theory Invitation
  imports GoNet Enroll
begin

text \<open>
  Invitations: the text an administrator hands to a member, written by \<open>hive enroll issue\<close>
  (\<open>hive/cmd/hive/enroll.go\<close>) and read by \<open>bee join\<close> (\<open>bee/internal/app/join.go\<close>), and the presentation of
  its token (\<open>bee/internal/publisher/enroll.go\<close>). \<open>encoding/json\<close> for the type \<open>invitation\<close> is the parameter
  \<open>ivcodec\<close>: decoding refuses unknown members and says whether nothing follows the value.
  \<open>ssh.ParsePrivateKey\<close> is the parameter \<open>P\<close>, the rest of \<open>golang.org/x/crypto/ssh\<close> is in \<open>elib\<close>.
\<close>

section \<open>Data\<close>

record invitation =
  ivVersion :: int
  ivHive :: bytes
  ivHostKey :: bytes
  ivToken :: bytes

record ivcodec =
  iv_dec :: "bytes \<Rightarrow> (invitation \<times> bool) option"
  iv_enc :: "invitation \<Rightarrow> bytes"

definition invitationPrefix :: bytes where "invitationPrefix = ''hinv1-''"
definition maxInvitation :: nat where "maxInvitation = 16384"

datatype iverror =
  BadAddress | BadHostname | WildcardAddress | NoHostKey | BadHostKey | TooLong | Incomplete | BadEncoding | BadJson |
  BadToken | Issuing eerror

section \<open>Addresses\<close>

text \<open>The characters of literal addresses and DNS names.\<close>

definition host_char :: "char \<Rightarrow> bool" where
  "host_char c \<longleftrightarrow> letter c \<or> digit c \<or> c = CHR ''.'' \<or> c = CHR ''-'' \<or> c = CHR '':''"

definition hiveAddress :: "bytes \<Rightarrow> iverror + bytes \<times> bytes" where
  "hiveAddress address =
     (case SplitHostPort address of
        None \<Rightarrow> Inl BadAddress
      | Some (host, port) \<Rightarrow>
          (case Atoi_int port of
             None \<Rightarrow> Inl BadAddress
           | Some n \<Rightarrow>
               if host = [] \<or> n < 1 \<or> n > 65535 \<or> length host > 253 then Inl BadAddress
               else if \<not> list_all host_char host then Inl BadHostname
               else if has_prefix host ''-'' \<or> (CHR '':'' \<in> set host \<and> ParseIP host = None) then Inl BadHostname
               else
                 (case ParseIP host of
                    Some ip \<Rightarrow> if IsUnspecified ip then Inl WildcardAddress else Inr (host, Itoa n)
                  | None \<Rightarrow> Inr (host, Itoa n))))"

section \<open>Issuing\<close>

text \<open>\<open>invitationHost\<close>: the check of the address and the public part of the Hive's key; \<open>state\<close> is the state
  directory and \<open>keyfile\<close> what its file \<open>host_key\<close> holds.\<close>

definition invitationHost :: "elib \<Rightarrow> (bytes \<Rightarrow> pubkey option) \<Rightarrow> bytes \<Rightarrow> bytes \<Rightarrow> bytes stored \<Rightarrow> iverror + bytes" where
  "invitationHost L P address state keyfile =
     (case SplitHostPort address of
        None \<Rightarrow> Inl BadAddress
      | Some (host, port) \<Rightarrow>
          (case Atoi_int port of
             None \<Rightarrow> Inl BadAddress
           | Some n \<Rightarrow>
               if host = [] \<or> n < 1 \<or> n > 65535 \<or> state = [] \<or> length host > 253 then Inl BadAddress
               else if \<not> list_all host_char host then Inl BadHostname
               else if has_prefix host ''-'' \<or> (CHR '':'' \<in> set host \<and> ParseIP host = None) then Inl BadHostname
               else if (case ParseIP host of Some ip \<Rightarrow> IsUnspecified ip | None \<Rightarrow> False) then Inl WildcardAddress
               else
                 (case keyfile of
                    Contents b \<Rightarrow>
                      (case P b of
                         Some k \<Rightarrow> Inr (trim_space (marshal_authorized L k))
                       | None \<Rightarrow> Inl BadHostKey)
                  | _ \<Rightarrow> Inl NoHostKey)))"

definition encodeInvitation :: "ivcodec \<Rightarrow> bytes \<Rightarrow> bytes \<Rightarrow> bytes \<Rightarrow> bytes" where
  "encodeInvitation J address hostKey token =
     (if address = [] then []
      else ''hinv1-'' @ b64 (iv_enc J \<lparr>ivVersion = 1, ivHive = address, ivHostKey = hostKey, ivToken = token\<rparr>))"

text \<open>\<open>hive enroll issue\<close>: the address is checked before the token file is touched.\<close>

definition issue_cmd :: "elib \<Rightarrow> (bytes \<Rightarrow> pubkey option) \<Rightarrow> ivcodec \<Rightarrow> outcome \<Rightarrow> bytes \<Rightarrow> nat \<Rightarrow> int \<Rightarrow> int \<Rightarrow> bytes \<Rightarrow>
    bytes \<Rightarrow> bytes \<Rightarrow> bytes stored \<Rightarrow> token list doc stored \<Rightarrow> token list doc stored \<times> (iverror + token \<times> bytes \<times> bytes)" where
  "issue_cmd L P J o' b now ttl maxUses label address state keyfile f =
     (case (if address \<noteq> [] \<or> state \<noteq> [] then invitationHost L P address state keyfile else Inr []) of
        Inl e \<Rightarrow> (f, Inl e)
      | Inr hostKey \<Rightarrow>
          (case issue L o' b now ttl maxUses label f of
             (f', Inl e) \<Rightarrow> (f', Inl (Issuing e))
           | (f', Inr (t, secret)) \<Rightarrow> (f', Inr (t, secret, encodeInvitation J address hostKey secret))))"

text \<open>\<open>hive enroll list\<close>: the tokens, with their uses when the state directory is given.\<close>

definition list_cmd :: "bytes \<Rightarrow> token list doc stored \<Rightarrow> uses doc stored \<Rightarrow> eerror + (token \<times> int option) list" where
  "list_cmd state f u =
     (case LoadTokens f of
        Inl e \<Rightarrow> Inl e
      | Inr ts \<Rightarrow>
          if state = [] then Inr (map (\<lambda>t. (t, None)) ts)
          else
            (case LoadUses u of
               Inl e \<Rightarrow> Inl e
             | Inr us \<Rightarrow> Inr (map (\<lambda>t. (t, Some (uUses (use_of us (tID t))))) ts)))"

section \<open>Reading\<close>

text \<open>The check of a token that both \<open>parseInvitation\<close> and \<open>Enroll\<close> of the Bee make.\<close>

definition token_ok :: "bytes \<Rightarrow> bool" where
  "token_ok token =
     (case unhex (trim_prefix token ''hreg-'') of
        None \<Rightarrow> False
      | Some b \<Rightarrow> has_prefix token ''hreg-'' \<and> length b = 32 \<and> token = to_lower token)"

definition parseInvitation :: "elib \<Rightarrow> ivcodec \<Rightarrow> bytes \<Rightarrow> iverror + invitation" where
  "parseInvitation L J text =
     (if length text > maxInvitation then Inl TooLong
      else
        (let raw = trim_space text in
         if length raw > maxInvitation \<or> \<not> has_prefix raw invitationPrefix then Inl Incomplete
         else
           (case b64_decode (trim_prefix raw invitationPrefix) of
              None \<Rightarrow> Inl BadEncoding
            | Some b \<Rightarrow>
                (case iv_dec J b of
                   None \<Rightarrow> Inl BadJson
                 | Some (v, alone) \<Rightarrow>
                     if \<not> alone \<or> ivVersion v \<noteq> 1 then Inl BadJson
                     else
                       (case hiveAddress (ivHive v) of
                          Inl e \<Rightarrow> Inl e
                        | Inr _ \<Rightarrow>
                            (case parse_authorized L (ivHostKey v) of
                               None \<Rightarrow> Inl BadHostKey
                             | Some a \<Rightarrow>
                                 if aopts a \<noteq> [] \<or> trim_space (arest a) \<noteq> [] then Inl BadHostKey
                                 else if \<not> token_ok (ivToken v) then Inl BadToken
                                 else Inr (v\<lparr>ivHostKey := trim_space (marshal_authorized L (akey a))\<rparr>)))))))"

text \<open>\<open>Enroll\<close> of the Bee: \<open>dialed\<close> is whether the SSH connection with the verified host key could be made, and
  \<open>answer\<close> what the request \<open>enroll@herdr-hive/v1\<close> returned: nothing on a failed connection, else whether it was
  granted, the length of the payload and what the payload decodes to.\<close>

datatype benroll = TokenInvalid | NotDialed | ConnectionFailed | RejectedByHive | BadResponse

definition beeEnroll :: "bytes \<Rightarrow> bool \<Rightarrow> (bool \<times> nat \<times> (bool \<times> bytes) option) option \<Rightarrow> benroll + bytes" where
  "beeEnroll token dialed answer =
     (if \<not> token_ok token then Inl TokenInvalid
      else if \<not> dialed then Inl NotDialed
      else case answer of
        None \<Rightarrow> Inl ConnectionFailed
      | Some (granted, n, result) \<Rightarrow>
          if \<not> granted then Inl RejectedByHive
          else if n > 64 * 1024 then Inl BadResponse
          else (case result of
                  None \<Rightarrow> Inl BadResponse
                | Some (registered, fp) \<Rightarrow>
                    if \<not> registered \<or> \<not> has_prefix fp ''SHA256:'' \<or> length fp \<noteq> 50 then Inl BadResponse
                    else Inr fp))"

text \<open>What the server's reply becomes on the wire: \<open>n\<close> is the length of the JSON text of an acceptance.\<close>

definition answer_of :: "nat \<Rightarrow> reply option \<Rightarrow> (bool \<times> nat \<times> (bool \<times> bytes) option) option" where
  "answer_of n r =
     (case r of
        None \<Rightarrow> None
      | Some (Accepted fp) \<Rightarrow> Some (True, n, Some (True, fp))
      | Some Refused \<Rightarrow> Some (False, 0, None))"

section \<open>What is checked\<close>

lemma lower_append: "to_lower (a @ b) = to_lower a @ to_lower b"
  by (simp add: to_lower_def)

lemma lower_prefix: "to_lower ''hreg-'' = ''hreg-''"
  by (simp add: to_lower_def)

text \<open>The Bee's check of a token is the Hive's.\<close>

lemma token_ok_iff: "token_ok s \<longleftrightarrow> (\<exists>b. s = ''hreg-'' @ hex b \<and> length b = 32)"
proof
  assume s: "token_ok s"
  then obtain b where b: "unhex (trim_prefix s ''hreg-'') = Some b" "has_prefix s ''hreg-''" "length b = 32" "s = to_lower s"
    by (auto simp: token_ok_def split: option.splits)
  then obtain r where r: "s = ''hreg-'' @ r" by (auto simp only: has_prefix_iff)
  then have "to_lower r = r" using b(4) lower_append [of "''hreg-''" r] lower_prefix by simp
  moreover have "unhex r = Some b" using b(1) by (simp only: r trim_prefix_append)
  ultimately have "r = hex b" using lower_unhex by metis
  then show "\<exists>b. s = ''hreg-'' @ hex b \<and> length b = 32" using r b(3) by blast
next
  assume "\<exists>b. s = ''hreg-'' @ hex b \<and> length b = 32"
  then obtain b where "s = ''hreg-'' @ hex b" "length b = 32" by blast
  then show "token_ok s"
    by (simp only: token_ok_def trim_prefix_append unhex_hex has_prefix_append lower_append lower_prefix hex_lower) simp
qed

lemma token_ok_secret: "token_ok s \<longleftrightarrow> ValidateSecret s"
  unfolding token_ok_iff ValidateSecret_def validHex_iff
  by (auto simp only: Prefix_def SecretBytes_def has_prefix_iff trim_prefix_append)

text \<open>An address that may be put into an invitation is one that \<open>bee join\<close> accepts, and conversely.\<close>

lemma address_agreed: "invitationHost L P a state file =
    (case hiveAddress a of
       Inl e \<Rightarrow> if state = [] then Inl BadAddress else Inl e
     | Inr _ \<Rightarrow>
         if state = [] then Inl BadAddress
         else
           (case file of
              Contents b \<Rightarrow> (case P b of Some k \<Rightarrow> Inr (trim_space (marshal_authorized L k)) | None \<Rightarrow> Inl BadHostKey)
            | _ \<Rightarrow> Inl NoHostKey))"
  by (auto simp: invitationHost_def hiveAddress_def split: option.split)

definition ascii :: "bytes \<Rightarrow> bool" where
  "ascii s \<longleftrightarrow> list_all (\<lambda>c. of_char c < (128 :: nat)) s"

text \<open>A host that neither a configuration file nor a command line can misread: letters, digits, dots, dashes and
  colons only, and no dash at the start; a colon only in a literal address.\<close>

definition safe_host :: "bytes \<Rightarrow> bool" where
  "safe_host h \<longleftrightarrow> h \<noteq> [] \<and> length h \<le> 253 \<and> list_all host_char h \<and> hd h \<noteq> CHR ''-'' \<and>
     (CHR '':'' \<in> set h \<longrightarrow> (\<exists>ip. ParseIP h = Some ip \<and> \<not> IsUnspecified ip))"

lemma hiveAddress_safe:
  assumes "hiveAddress a = Inr (host, port)"
  shows "safe_host host \<and> (\<exists>n. 1 \<le> n \<and> n \<le> 65535 \<and> port = decimal n)"
proof -
  from assms obtain p n where n: "Atoi_int p = Some n" "1 \<le> n" "n \<le> 65535" "port = Itoa n"
    and h: "host \<noteq> []" "length host \<le> 253" "list_all host_char host" "\<not> has_prefix host ''-''"
      "CHR '':'' \<in> set host \<Longrightarrow> ParseIP host \<noteq> None" "\<And>ip. ParseIP host = Some ip \<Longrightarrow> \<not> IsUnspecified ip"
    by (auto simp: hiveAddress_def split: option.splits if_splits)
  have "hd host \<noteq> CHR ''-''" using h(1,4) by (cases host) (auto simp: has_prefix_def)
  then have "safe_host host" using h unfolding safe_host_def by blast
  moreover have "1 \<le> nat n" "nat n \<le> 65535" "port = decimal (nat n)" using n by (simp_all add: Itoa_def)
  ultimately show ?thesis by blast
qed

lemma hiveAddress_ascii:
  assumes "hiveAddress a = Inr hp"
  shows "ascii a"
proof -
  from assms obtain host port n where s: "SplitHostPort a = Some (host, port)" and n: "Atoi_int port = Some n"
    and h: "list_all host_char host"
    by (auto simp: hiveAddress_def split: option.splits if_splits)
  have "of_char c < (128 :: nat)" if c: "c \<in> set a" for c
  proof -
    have "c \<in> set host \<or> c \<in> set port \<or> c \<in> {CHR '':'', CHR ''['', CHR '']''}"
      using SplitHostPort_chars [OF s] c by auto
    then show ?thesis
      using h Atoi_int_chars [OF n, of c] by (elim disjE) (auto simp: list_all_iff host_char_def digit_def letter_def)
  qed
  then show ?thesis by (simp add: ascii_def list_all_iff)
qed

lemma hex_ascii: "ascii (hex b)"
proof -
  have "of_char (hex_digit n) < (128 :: nat)" if "n < 16" for n using that by auto
  then show ?thesis
    using byte_less(3) by (auto simp: ascii_def hex_def list_all_iff less_mult_imp_div_less simp del: hex_digit.simps)
qed

section \<open>What is relied on\<close>

text \<open>\<open>encoding/json\<close> reads back what it wrote when the texts are ASCII.\<close>

definition iv_codec_ok :: "ivcodec \<Rightarrow> bool" where
  "iv_codec_ok J \<longleftrightarrow> (\<forall>v. ivVersion v = 1 \<and> ascii (ivHive v) \<and> ascii (ivHostKey v) \<and> ascii (ivToken v) \<longrightarrow>
     iv_dec J (iv_enc J v) = Some (v, True))"

text \<open>\<open>ssh.ParseAuthorizedKey\<close> reads the line that \<open>ssh.MarshalAuthorizedKey\<close> writes.\<close>

definition host_key_ok :: "elib \<Rightarrow> pubkey \<Rightarrow> bool" where
  "host_key_ok L k \<longleftrightarrow> (let m = trim_space (marshal_authorized L k) in
     ascii m \<and> parse_authorized L m = Some \<lparr>akey = k, acert = False, aopts = [], arest = []\<rparr>)"

section \<open>The invitation arrives\<close>

lemma invitation_trimmed: "trim_space (''hinv1-'' @ b64 b) = ''hinv1-'' @ b64 b"
proof (rule trim_space_visible)
  let ?s = "''hinv1-'' @ b64 b"
  have l: "last ?s = CHR ''-'' \<or> last ?s \<in> set (b64 b)" by (cases "b64 b = []") (simp_all add: last_append)
  then have "33 \<le> (of_char (last ?s) :: nat) \<and> of_char (last ?s) < (128 :: nat)"
    using b64_chars [of "last ?s" b] by (auto simp: digit_def letter_def)
  then show "33 \<le> (of_char (last ?s) :: nat)" "of_char (last ?s) < (128 :: nat)" by auto
qed simp_all

lemma issue_cases:
  assumes "issue L o' b now ttl maxUses label f = (f', Inr (t, secret))"
  obtains ts where "Generate L b now ttl maxUses label = Inr (t, secret)" "f' = Contents (Value (ts @ [t]))"
    "validateTokens (ts @ [t]) = None"
proof -
  from assms obtain ts where ts: "(if f = NoFile then Inr [] else LoadTokens f) = Inr ts"
    and g: "Generate L b now ttl maxUses label = Inr (t, secret)" and s: "SaveTokens L o' (ts @ [t]) f = (f', None)"
    by (auto simp: issue_def split: sum.splits prod.splits option.splits)
  then have "f' = Contents (Value (ts @ [t])) \<and> validateTokens (ts @ [t]) = None"
    by (auto simp: SaveTokens_def atomicWrite_def split: option.splits if_splits outcome.splits)
  then show ?thesis using that g by blast
qed

text \<open>
  C11. An invitation arrives as it was issued. What \<open>hive enroll issue\<close> prints for an address is read by
  \<open>bee join\<close>, with whatever white space surrounds it, as that address, the Hive's public key and the token just
  written to the token file; the Bee presents the token, and the Hive finds exactly that token for it and does
  not consider it expired. Addresses are checked alike on both sides.
\<close>

theorem issued_invitation_accepted:
  assumes J: "iv_codec_ok J" and K: "host_key_ok L k" and P: "P key = Some k" and b: "length b = 32"
    and now: "now > 0" and sha: "\<And>x. length (sha L x) = 32"
    and issued: "issue_cmd L P J o' b now ttl maxUses label address state (Contents key) f = (f', Inr (t, secret, paper))"
    and address: "address \<noteq> []" and raw: "trim_space raw = paper" "length raw \<le> 16384" "length paper \<le> 16384"
  shows "parseInvitation L J raw =
      Inr \<lparr>ivVersion = 1, ivHive = address, ivHostKey = trim_space (marshal_authorized L k), ivToken = secret\<rparr> \<and>
    (\<forall>dialed answer. beeEnroll secret dialed answer \<noteq> Inl TokenInvalid) \<and> ValidateSecret secret \<and>
    (\<exists>ts. LoadTokens f' = Inr ts \<and> find_token L secret ts = Some t \<and> \<not> expired now t)"
proof -
  let ?m = "trim_space (marshal_authorized L k)"
  let ?v = "\<lparr>ivVersion = 1, ivHive = address, ivHostKey = ?m, ivToken = secret\<rparr>"
  from issued address obtain hk where host: "invitationHost L P address state (Contents key) = Inr hk"
    and i: "issue L o' b now ttl maxUses label f = (f', Inr (t, secret))" and e: "paper = encodeInvitation J address hk secret"
    by (auto simp: issue_cmd_def split: sum.splits prod.splits)
  from host P obtain hp where hp: "hiveAddress address = Inr hp" and hk: "hk = ?m"
    by (auto simp: address_agreed split: sum.splits if_splits)
  obtain ts where g: "Generate L b now ttl maxUses label = Inr (t, secret)" and f: "f' = Contents (Value (ts @ [t]))"
    and v: "validateTokens (ts @ [t]) = None"
    using issue_cases [OF i] .
  note G = generated_token [OF g b now sha]
  have s: "secret = ''hreg-'' @ hex b" using g by (auto simp: Generate_def Prefix_def Let_def split: if_splits)
  then have tok: "token_ok secret" using b token_ok_iff by blast
  have "ascii secret" using hex_ascii by (simp add: s ascii_def)
  then have dec: "iv_dec J (iv_enc J ?v) = Some (?v, True)"
    using J K hiveAddress_ascii [OF hp] by (simp add: iv_codec_ok_def host_key_ok_def Let_def)
  have paper: "paper = ''hinv1-'' @ b64 (iv_enc J ?v)" using address by (simp add: e encodeInvitation_def hk)
  have p: "has_prefix paper invitationPrefix" "trim_prefix paper invitationPrefix = b64 (iv_enc J ?v)"
    using has_prefix_append [of "''hinv1-''"] trim_prefix_append [of "''hinv1-''"] unfolding paper invitationPrefix_def by blast+
  have "parseInvitation L J raw = Inr ?v"
    using raw p dec hp K tok
    by (cases hp) (simp add: parseInvitation_def maxInvitation_def host_key_ok_def Let_def trim_space_def)
  moreover have "find_token L secret (ts @ [t]) = Some t" using G by (simp add: find_token_def split: if_splits)
  moreover have "beeEnroll secret dialed answer \<noteq> Inl TokenInvalid" for dialed answer
    using tok by (simp add: beeEnroll_def split: option.splits)
  ultimately show ?thesis using G LoadTokens_value [OF v] f by blast
qed

text \<open>
  C17. What \<open>parseInvitation\<close> accepts is well formed, whoever wrote it: version 1; a host that is a literal address
  or a DNS name and nothing an SSH option, a pattern or a wildcard could be, with a port between 1 and 65535 in
  canonical form; the host key as the library writes it; and a token of 32 bytes in lower case. The text was, line
  breaks apart, the one base 64 encoding of its contents.
\<close>

theorem accepted_invitation:
  assumes "parseInvitation L J raw = Inr v"
  shows "ivVersion v = 1 \<and>
    (\<exists>host port. hiveAddress (ivHive v) = Inr (host, decimal port) \<and> safe_host host \<and> 1 \<le> port \<and> port \<le> 65535) \<and>
    (\<exists>k. ivHostKey v = trim_space (marshal_authorized L k)) \<and>
    (\<exists>b. ivToken v = ''hreg-'' @ hex b \<and> length b = 32) \<and>
    length raw \<le> 16384 \<and> (\<exists>digits payload. trim_space raw = ''hinv1-'' @ digits \<and> no_breaks digits = b64 payload)"
proof -
  let ?r = "trim_space raw"
  from assms obtain b w a hp where r: "length raw \<le> maxInvitation" "has_prefix ?r invitationPrefix"
    and b: "b64_decode (trim_prefix ?r invitationPrefix) = Some b" and w: "iv_dec J b = Some (w, True)" "ivVersion w = 1"
    and hp: "hiveAddress (ivHive w) = Inr hp" and a: "parse_authorized L (ivHostKey w) = Some a"
    and t: "token_ok (ivToken w)" and v: "v = w\<lparr>ivHostKey := trim_space (marshal_authorized L (akey a))\<rparr>"
    by (auto simp: parseInvitation_def Let_def split: if_splits option.splits sum.splits)
  obtain host port where h: "hp = (host, port)" by fastforce
  obtain n where n: "1 \<le> n" "n \<le> 65535" "port = decimal n" "safe_host host"
    using hiveAddress_safe [of "ivHive w" host port] hp h by auto
  obtain digits where x: "?r = ''hinv1-'' @ digits" using r(2) by (auto simp only: has_prefix_iff invitationPrefix_def)
  have "no_breaks digits = b64 b"
    using b64_decode_canonical [of digits b] b trim_prefix_append [of "''hinv1-''" digits] by (simp only: x invitationPrefix_def)
  moreover have "\<exists>b. ivToken v = ''hreg-'' @ hex b \<and> length b = 32" using t by (simp only: v token_ok_iff) simp
  moreover have "hiveAddress (ivHive v) = Inr (host, decimal n)" "ivVersion v = 1" using hp h n w(2) by (simp_all add: v)
  moreover have "ivHostKey v = trim_space (marshal_authorized L (akey a))" by (simp add: v)
  moreover have "length raw \<le> 16384" using r(1) by (simp add: maxInvitation_def)
  ultimately show ?thesis using n(1,2,4) x by blast
qed

section \<open>An invitation\<close>

definition sample_ivcodec :: ivcodec where
  "sample_ivcodec = \<lparr>iv_dec = (\<lambda>b. case split_on CHR 0x80 b of
       [h, k, t] \<Rightarrow> Some (\<lparr>ivVersion = 1, ivHive = h, ivHostKey = k, ivToken = t\<rparr>, True) | _ \<Rightarrow> None),
     iv_enc = (\<lambda>v. ivHive v @ CHR 0x80 # ivHostKey v @ CHR 0x80 # ivToken v)\<rparr>"

definition sample_invitation :: bytes where
  "sample_invitation = encodeInvitation sample_ivcodec ''h:22'' ''ssh-alice'' sample_secret"

lemma sample_iv_codec: "iv_codec_ok sample_ivcodec"
proof -
  have n: "CHR 0x80 \<notin> set s" if "ascii s" for s using that by (auto simp: ascii_def list_all_iff)
  have "iv_dec sample_ivcodec (iv_enc sample_ivcodec v) = Some (v, True)"
    if "ivVersion v = 1" "ascii (ivHive v)" "ascii (ivHostKey v)" "ascii (ivToken v)" for v
    using that n by (cases v) (simp add: sample_ivcodec_def split_on_append split_on_single)
  then show ?thesis by (simp add: iv_codec_ok_def)
qed

lemma sample_key_trim: "trim_space ''ssh-alice'' = ''ssh-alice''"
  by (rule trim_space_ascii) simp_all

lemma sample_host_key: "host_key_ok sample_lib ''alice''" "trim_space (marshal_authorized sample_lib ''alice'') = ''ssh-alice''"
  using sample_key_trim by (simp_all add: host_key_ok_def sample_lib_def ascii_def)

lemma sample_address: "hiveAddress ''h:22'' = Inr (''h'', ''22'')"
  by (simp add: hiveAddress_def SplitHostPort_def after_last_def before_def Let_def Atoi_int_def digit_def numeral_value_def
      host_char_def letter_def has_prefix_def ParseIP_def Itoa_def decimal.simps char_of_def bit_iff_odd)

lemma sample_issue: "issue_cmd sample_lib Some sample_ivcodec Written (replicate 32 CHR ''s'') 7 0 1 ''desk'' ''h:22'' ''state''
    (Contents ''alice'') NoFile = (Contents (Value [sample_token]), Inr (sample_token, sample_secret, sample_invitation))"
  using sample_generated sample_token_ok(2) sample_host_key(2) sample_address
  by (simp add: issue_cmd_def address_agreed issue_def SaveTokens_def atomicWrite_def sample_invitation_def)
    (simp add: sample_lib_def MaxFileBytes_def)

lemma sample_fits: "trim_space sample_invitation = sample_invitation" "length sample_invitation \<le> 16384"
proof -
  obtain b where b: "sample_invitation = ''hinv1-'' @ b64 b" "length b \<le> 100"
    by (simp add: sample_invitation_def encodeInvitation_def sample_ivcodec_def sample_secret_def Prefix_def
        del: b64.simps append.simps)
  show "trim_space sample_invitation = sample_invitation" unfolding b(1) by (rule invitation_trimmed)
  show "length sample_invitation \<le> 16384" using b(2) by (simp add: b(1) length_b64)
qed

lemma issued_invitation_accepted_witness:
  "parseInvitation sample_lib sample_ivcodec sample_invitation =
     Inr \<lparr>ivVersion = 1, ivHive = ''h:22'', ivHostKey = ''ssh-alice'', ivToken = sample_secret\<rparr> \<and>
   (\<exists>ts. LoadTokens (Contents (Value [sample_token])) = Inr ts \<and> find_token sample_lib sample_secret ts = Some sample_token)"
  using issued_invitation_accepted [OF sample_iv_codec sample_host_key(1) refl _ _ sample_sha sample_issue _ sample_fits(1)]
    sample_fits(2) sample_host_key(2) by auto

lemma sample_parsed: "parseInvitation sample_lib sample_ivcodec sample_invitation =
    Inr \<lparr>ivVersion = 1, ivHive = ''h:22'', ivHostKey = ''ssh-alice'', ivToken = sample_secret\<rparr>"
proof -
  have "token_ok sample_secret" using sample_token_ok(1) token_ok_secret by simp
  moreover have d: "iv_dec sample_ivcodec (iv_enc sample_ivcodec \<lparr>ivVersion = 1, ivHive = ''h:22'', ivHostKey = ''ssh-alice'',
      ivToken = sample_secret\<rparr>) = Some (\<lparr>ivVersion = 1, ivHive = ''h:22'', ivHostKey = ''ssh-alice'', ivToken = sample_secret\<rparr>, True)"
    using sample_iv_codec hex_ascii [of "replicate 32 CHR ''s''"]
    by (simp add: iv_codec_ok_def ascii_def sample_secret_def Prefix_def)
  moreover have "has_prefix sample_invitation invitationPrefix" "trim_prefix sample_invitation invitationPrefix =
      b64 (iv_enc sample_ivcodec \<lparr>ivVersion = 1, ivHive = ''h:22'', ivHostKey = ''ssh-alice'', ivToken = sample_secret\<rparr>)"
    by (simp_all add: sample_invitation_def encodeInvitation_def invitationPrefix_def has_prefix_def trim_prefix_def)
  ultimately show ?thesis
    using sample_fits sample_address sample_host_key
    by (simp add: parseInvitation_def maxInvitation_def host_key_ok_def Let_def trim_space_def)
qed

lemma accepted_invitation_witness:
  "(\<exists>host port. hiveAddress ''h:22'' = Inr (host, decimal port) \<and> safe_host host \<and> 1 \<le> port \<and> port \<le> 65535) \<and>
   (\<exists>b. sample_secret = ''hreg-'' @ hex b \<and> length b = 32)"
  using accepted_invitation [OF sample_parsed] by auto

end
