(* ===== verification/SshConfig.thy ===== *)
theory SshConfig
  imports Invitation BeeConfig
begin

text \<open>
  What \<open>bee join\<close> sets up on the member's machine (\<open>bee/internal/app/join_machine.go\<close>): the files that make
  OpenSSH connect to the Hive, the search for a Herdr machine that already does, and the record of it. The
  files are what they hold; the outcome of every step of input and output, the answers of \<open>ssh -G\<close> and of
  \<open>herdr machine\<close>, and \<open>encoding/json\<close> for the record are the parameters \<open>menv\<close>.
\<close>

section \<open>Paths\<close>

text \<open>\<open>filepath.Clean\<close> and \<open>filepath.Join\<close> of two elements; \<open>acc\<close> is the path so far, its last element first.\<close>

fun clean_parts :: "bool \<Rightarrow> bytes list \<Rightarrow> bytes list \<Rightarrow> bytes list" where
  "clean_parts rooted acc [] = acc"
| "clean_parts rooted acc (p # ps) =
     (if p = [] \<or> p = ''.'' then clean_parts rooted acc ps
      else if p = ''..'' then
        (case acc of
           [] \<Rightarrow> clean_parts rooted (if rooted then [] else [''..'']) ps
         | q # qs \<Rightarrow> clean_parts rooted (if q = ''..'' then ''..'' # acc else qs) ps)
      else clean_parts rooted (p # acc) ps)"

fun slashes :: "bytes list \<Rightarrow> bytes" where
  "slashes [] = []"
| "slashes [p] = p"
| "slashes (p # ps) = p @ CHR ''/'' # slashes ps"

definition Clean :: "bytes \<Rightarrow> bytes" where
  "Clean p =
     (if p = [] then ''.''
      else
        (let body = slashes (rev (clean_parts (is_abs p) [] (split_on CHR ''/'' p))) in
         if is_abs p then CHR ''/'' # body else if body = [] then ''.'' else body))"

definition Join_path :: "bytes \<Rightarrow> bytes \<Rightarrow> bytes" where
  "Join_path a b =
     (if a = [] then (if b = [] then [] else Clean b) else Clean (a @ CHR ''/'' # b))"

section \<open>Names and records\<close>

definition machineTarget :: "elib \<Rightarrow> config \<Rightarrow> bytes" where
  "machineTarget L c = take 25 (''bee-hive-'' @ hex (sha L (cfHive c @ CHR 0x00 # cfIdentity c)))"

record joined_rec =
  jcHive :: bytes
  jcIdentity :: bytes
  jcKnown :: bytes
  jcTarget :: bytes

definition joined_of :: "elib \<Rightarrow> config \<Rightarrow> joined_rec" where
  "joined_of L c =
     \<lparr>jcHive = cfHive c, jcIdentity = cfIdentity c, jcKnown = cfKnownHosts c, jcTarget = machineTarget L c\<rparr>"

text \<open>\<open>connectionRecord\<close>: the record of the file \<open>joined.json\<close> when it is about this connection. \<open>dec\<close> is
  \<open>json.Unmarshal\<close>.\<close>

definition connectionRecord :: "(bytes \<Rightarrow> joined_rec option) \<Rightarrow> config \<Rightarrow> bytes stored \<Rightarrow> joined_rec option" where
  "connectionRecord decode c file =
     (case file of
        Contents b \<Rightarrow>
          (case decode b of
             Some r \<Rightarrow>
               if jcHive r = cfHive c \<and> jcIdentity r = cfIdentity c \<and> jcKnown r = cfKnownHosts c \<and> jcTarget r \<noteq> []
               then Some r else None
           | None \<Rightarrow> None)
      | _ \<Rightarrow> None)"

definition connectionComplete :: "(bytes \<Rightarrow> joined_rec option) \<Rightarrow> config \<Rightarrow> bytes stored \<Rightarrow> bool" where
  "connectionComplete decode c file \<longleftrightarrow> connectionRecord decode c file \<noteq> None"

section \<open>The SSH configuration\<close>

definition path_forbidden :: "bytes" where
  "path_forbidden = [CHR 0x0D, CHR 0x0A, CHR 0x00, CHR 0x22, CHR 0x5C, CHR ''%'', CHR ''$'', CHR ''*'', CHR ''?'',
     CHR ''['', CHR '']'']"

definition quote :: char where "quote = CHR 0x22"

definition sshPath :: "bytes \<Rightarrow> bytes option" where
  "sshPath p = (if \<not> is_abs p \<or> (\<exists>c \<in> set p. c \<in> set path_forbidden) then None else Some (quote # p @ [quote]))"

text \<open>The files: the user's own configuration, which may be behind a symbolic link, Bee's index, one file per
  target, and the record.\<close>

record sshfs =
  userF :: "bytes stored"
  indexF :: "bytes stored"
  connF :: "(bytes, bytes) gomap"
  joinedF :: "bytes stored"

datatype serror = SAddress iverror | SPath | SHome | SIO | SBusy | SLarge | SList | SJson | SCommand

datatype mlock = LockTaken | LockBusy | LockFails

record profile =
  pfID :: bytes
  pfTarget :: bytes
  pfEnabled :: bool
  pfSession :: bytes

record menv =
  me_home :: "bytes option"
  me_dirs :: bool
  me_lock :: mlock
  me_link :: bool
  me_conn_dir :: bool
  me_write :: "nat \<Rightarrow> bool"
  me_list :: "profile list option option"
  me_resolve :: "nat \<Rightarrow> bytes \<Rightarrow> bytes option"
  me_enable :: "bytes \<Rightarrow> bool"
  me_add :: "bytes \<Rightarrow> bool"
  me_dec :: "bytes \<Rightarrow> joined_rec option"
  me_enc :: "joined_rec \<Rightarrow> bytes"

definition newline :: char where "newline = CHR 0x0A"

definition connection_lines :: "bytes \<Rightarrow> bytes \<Rightarrow> bytes \<Rightarrow> bytes \<Rightarrow> bytes \<Rightarrow> bytes list" where
  "connection_lines target host port identity known =
     [''# Managed by Bee.'', ''Host '' @ target, '' HostName '' @ host, '' Port '' @ port, '' User hive'',
      '' IdentityFile '' @ identity, '' UserKnownHostsFile '' @ known, '' IdentitiesOnly yes'',
      '' StrictHostKeyChecking yes'', '' BatchMode yes'', '' ControlMaster no'', '' ControlPath none'',
      '' ProxyCommand none'', '' ProxyJump none'', '' ForwardAgent no'', '' PermitLocalCommand no'', ''Host *'']"

definition text_of :: "bytes list \<Rightarrow> bytes" where
  "text_of ls = concat (map (\<lambda>l. l @ [newline]) ls)"

text \<open>\<open>bytes.SplitAfter\<close> with a line feed.\<close>

fun split_after :: "bytes \<Rightarrow> bytes list" where
  "split_after [] = [[]]"
| "split_after (x # xs) =
     (if x = newline then [x] # split_after xs
      else case split_after xs of [] \<Rightarrow> [[x]] | f # fs \<Rightarrow> (x # f) # fs)"

definition include_line :: "bytes \<Rightarrow> bytes" where
  "include_line managed = ''Include '' @ managed @ [newline]"

definition index_text :: "bytes \<Rightarrow> bytes" where
  "index_text connections = ''Include '' @ quote # Join_path connections ''*.conf'' @ quote # newline # ''Host *'' @ [newline]"

definition with_include :: "bytes \<Rightarrow> bytes \<Rightarrow> bytes" where
  "with_include line b = (if has_prefix b line then b else line @ concat (filter (\<lambda>l. l \<noteq> line) (split_after b)))"

text \<open>\<open>installSSH\<close>. The three writes replace a file or leave it as it was.\<close>

definition installSSH :: "elib \<Rightarrow> menv \<Rightarrow> bytes \<Rightarrow> config \<Rightarrow> sshfs \<Rightarrow> sshfs \<times> serror option" where
  "installSSH L E dir c s =
     (case hiveAddress (cfHive c) of
        Inl e \<Rightarrow> (s, Some (SAddress e))
      | Inr (host, port) \<Rightarrow>
     (case (sshPath (cfIdentity c), sshPath (cfKnownHosts c), sshPath (Join_path dir ''ssh_config'')) of
        (Some identity, Some known, Some managed) \<Rightarrow>
          if me_home E = None then (s, Some SHome)
          else if \<not> me_dirs E \<or> me_lock E = LockFails then (s, Some SIO)
          else if me_lock E = LockBusy then (s, Some SBusy)
          else if \<not> me_link E \<or> userF s = Unreadable then (s, Some SIO)
          else
            (let b = (case userF s of Contents b \<Rightarrow> b | _ \<Rightarrow> []);
                 connections = Join_path dir ''ssh-connections'';
                 target = machineTarget L c;
                 s1 = s\<lparr>connF := put target (text_of (connection_lines target host port identity known)) (connF s)\<rparr>;
                 s2 = s1\<lparr>indexF := Contents (index_text connections)\<rparr>;
                 line = include_line managed
             in
             if length b > 2 ^ 20 then (s, Some SLarge)
             else if \<not> me_conn_dir E \<or> \<not> me_write E 0 then (s, Some SIO)
             else if \<not> me_write E (Suc 0) then (s1, Some SIO)
             else if has_prefix b line then (s2, None)
             else if \<not> me_write E 2 then (s2, Some SIO)
             else (s2\<lparr>userF := Contents (with_include line b)\<rparr>, None))
      | _ \<Rightarrow> (s, Some SPath)))"

section \<open>Existing machines\<close>

text \<open>\<open>strings.EqualFold\<close> against ASCII: beside the case of letters, the Kelvin sign is a k and the long s an s.\<close>

fun fold_ascii :: "bytes \<Rightarrow> bytes" where
  "fold_ascii [] = []"
| "fold_ascii (c # s) =
     (if has_prefix (c # s) [CHR 0xE2, CHR 0x84, CHR 0xAA] then CHR ''k'' # fold_ascii (drop 2 s)
      else if has_prefix (c # s) [CHR 0xC5, CHR 0xBF] then CHR ''s'' # fold_ascii (drop 1 s)
      else to_lower [c] @ fold_ascii s)"

definition equal_fold :: "bytes \<Rightarrow> bytes \<Rightarrow> bool" where
  "equal_fold s host \<longleftrightarrow> fold_ascii s = to_lower host"

text \<open>The values of a key in the output of \<open>ssh -G\<close>.\<close>

definition ssh_fields :: "bytes \<Rightarrow> bytes \<Rightarrow> bytes list" where
  "ssh_fields b key =
     map (\<lambda>(k, v, found). trim_space v)
       (filter (\<lambda>(k, v, found). found \<and> k = key) (map (cut_on CHR '' '') (split_on newline b)))"

definition one_field :: "bytes \<Rightarrow> bytes \<Rightarrow> bytes" where
  "one_field b key = (case ssh_fields b key of [v] \<Rightarrow> v | _ \<Rightarrow> [])"

definition expand_home :: "bytes \<Rightarrow> bytes \<Rightarrow> bytes" where
  "expand_home home s = (if has_prefix s ''~/'' then Join_path home (drop 2 s) else s)"

definition sameSSH :: "menv \<Rightarrow> bytes option \<Rightarrow> config \<Rightarrow> bool" where
  "sameSSH E output c =
     (case output of
        None \<Rightarrow> False
      | Some b \<Rightarrow>
          (case hiveAddress (cfHive c) of
             Inl _ \<Rightarrow> False
           | Inr (host, port) \<Rightarrow>
               if \<not> equal_fold (one_field b ''hostname'') host \<or> one_field b ''port'' \<noteq> port \<or> one_field b ''user'' \<noteq> ''hive'' \<or>
                 one_field b ''stricthostkeychecking'' \<noteq> ''true'' \<or> one_field b ''identitiesonly'' \<noteq> ''yes'' then False
               else
                 (case me_home E of
                    None \<Rightarrow> False
                  | Some home \<Rightarrow>
                      if expand_home home (one_field b ''userknownhostsfile'') \<noteq> cfKnownHosts c then False
                      else if ssh_fields b ''certificatefile'' \<noteq> [] \<and> one_field b ''certificatefile'' \<noteq> ''none'' then False
                      else length (ssh_fields b ''identityfile'') = 1 \<and>
                        expand_home home (one_field b ''identityfile'') = cfIdentity c)))"

text \<open>The managed target is moved to the front.\<close>

fun position_of :: "bytes \<Rightarrow> profile list \<Rightarrow> nat option" where
  "position_of target [] = None"
| "position_of target (p # ps) = (if pfTarget p = target then Some 0 else map_option Suc (position_of target ps))"

definition promote :: "bytes \<Rightarrow> profile list \<Rightarrow> profile list" where
  "promote target ps =
     (case position_of target ps of None \<Rightarrow> ps | Some i \<Rightarrow> ps[0 := ps ! i, i := ps ! 0])"

text \<open>The search, with the targets \<open>ssh -G\<close> was run for.\<close>

fun search_machine :: "menv \<Rightarrow> config \<Rightarrow> bytes \<Rightarrow> nat \<Rightarrow> profile list \<Rightarrow> bytes list \<times> profile option" where
  "search_machine E c target i [] = ([], None)"
| "search_machine E c target i (p # ps) =
     (if pfSession p \<noteq> [] \<and> pfSession p \<noteq> ''default'' then search_machine E c target (Suc i) ps
      else if pfTarget p = target then ([], Some p)
      else if i < 16 then
        (if sameSSH E (me_resolve E i (pfTarget p)) c then ([pfTarget p], Some p)
         else (case search_machine E c target (Suc i) ps of (asked, r) \<Rightarrow> (pfTarget p # asked, r)))
      else search_machine E c target (Suc i) ps)"

datatype mcommand = EnableMachine bytes | AddMachine bytes

definition record_machine :: "elib \<Rightarrow> menv \<Rightarrow> config \<Rightarrow> bytes \<Rightarrow> sshfs \<Rightarrow> sshfs \<times> serror option" where
  "record_machine L E c target s =
     (if me_write E 3 then (s\<lparr>joinedF := Contents (me_enc E ((joined_of L c)\<lparr>jcTarget := target\<rparr>))\<rparr>, None)
      else (s, Some SIO))"

text \<open>\<open>ensureMachine\<close>: the new files, the commands that were run, the targets that were resolved, the error.\<close>

definition ensureMachine :: "elib \<Rightarrow> menv \<Rightarrow> bytes \<Rightarrow> config \<Rightarrow> sshfs \<Rightarrow> sshfs \<times> mcommand list \<times> bytes list \<times> serror option" where
  "ensureMachine L E dir c s =
     (case installSSH L E dir c s of
        (s1, Some e) \<Rightarrow> (s1, [], [], Some e)
      | (s1, None) \<Rightarrow>
          (case me_list E of
             None \<Rightarrow> (s1, [], [], Some SList)
           | Some None \<Rightarrow> (s1, [], [], Some SJson)
           | Some (Some ps) \<Rightarrow>
               (let target = machineTarget L c in
                case search_machine E c target 0 (promote target ps) of
                  (asked, None) \<Rightarrow>
                    if me_add E target
                    then (case record_machine L E c target s1 of (s2, e) \<Rightarrow> (s2, [AddMachine target], asked, e))
                    else (s1, [AddMachine target], asked, Some SCommand)
                | (asked, Some p) \<Rightarrow>
                    if pfEnabled p
                    then (case record_machine L E c (pfTarget p) s1 of (s2, e) \<Rightarrow> (s2, [], asked, e))
                    else if me_enable E (pfID p)
                    then (case record_machine L E c (pfTarget p) s1 of (s2, e) \<Rightarrow> (s2, [EnableMachine (pfID p)], asked, e))
                    else (s1, [EnableMachine (pfID p)], asked, Some SCommand))))"

section \<open>Lines\<close>

text \<open>The pieces \<open>split_after\<close> cuts a text into: lines with their line feed, and a rest without one.\<close>

fun pieces :: "bytes list \<Rightarrow> bool" where
  "pieces [] = False"
| "pieces [p] = (newline \<notin> set p)"
| "pieces (p # ps) = ((\<exists>l. p = l @ [newline] \<and> newline \<notin> set l) \<and> pieces ps)"

lemma split_after_nonempty [simp]: "split_after b \<noteq> []"
  by (induction b) (auto split: list.splits)

lemma concat_split_after [simp]: "concat (split_after b) = b"
  by (induction b) (auto split: list.splits)

lemma split_after_append: "newline \<notin> set l \<Longrightarrow> split_after (l @ newline # b) = (l @ [newline]) # split_after b"
  by (induction l) auto

lemma split_after_rest: "newline \<notin> set l \<Longrightarrow> split_after l = [l]"
  by (induction l) auto

lemma pieces_Cons: "ps \<noteq> [] \<Longrightarrow> pieces (p # ps) \<longleftrightarrow> (\<exists>l. p = l @ [newline] \<and> newline \<notin> set l) \<and> pieces ps"
  by (cases ps) auto

lemma pieces_extend: "pieces (f # fs) \<Longrightarrow> x \<noteq> newline \<Longrightarrow> pieces ((x # f) # fs)"
proof (cases fs)
  case (Cons g gs)
  assume "pieces (f # fs)" and x: "x \<noteq> newline"
  then obtain l where "f = l @ [newline]" "newline \<notin> set l" "pieces fs" by (auto simp: Cons)
  then show ?thesis using x by (auto simp: Cons intro: exI [of _ "x # l"])
qed auto

lemma pieces_split_after: "pieces (split_after b)"
proof (induction b)
  case (Cons x b)
  obtain f fs where f: "split_after b = f # fs" by (cases "split_after b") auto
  show ?case
  proof (cases "x = newline")
    case True
    then show ?thesis using Cons.IH by (simp add: pieces_Cons)
  next
    case False
    then show ?thesis using Cons.IH by (simp add: f pieces_extend)
  qed
qed simp

lemma split_after_concat: "pieces ps \<Longrightarrow> split_after (concat ps) = ps"
  by (induction ps rule: pieces.induct) (auto simp: split_after_append split_after_rest)

lemma pieces_filter: "pieces ps \<Longrightarrow> newline \<in> set line \<Longrightarrow> pieces (filter (\<lambda>p. p \<noteq> line) ps)"
proof (induction ps rule: pieces.induct)
  case (3 p q ps)
  then have "pieces (filter (\<lambda>p. p \<noteq> line) (q # ps))" by simp
  then show ?case using 3(2) by (cases "filter (\<lambda>p. p \<noteq> line) (q # ps)") (auto simp: pieces_Cons)
qed auto

text \<open>The lines of a configuration other than one of ours.\<close>

definition other_lines :: "bytes \<Rightarrow> bytes \<Rightarrow> bytes list" where
  "other_lines line b = filter (\<lambda>l. l \<noteq> line) (split_after b)"

lemma other_lines_include:
  assumes "newline \<notin> set l"
  shows "other_lines (l @ [newline]) (with_include (l @ [newline]) b) = other_lines (l @ [newline]) b"
proof -
  let ?ps = "filter (\<lambda>p. p \<noteq> l @ [newline]) (split_after b)"
  have "split_after (l @ newline # concat ?ps) = (l @ [newline]) # ?ps"
    using split_after_append [OF assms] split_after_concat [OF pieces_filter [OF pieces_split_after]] by simp
  then show ?thesis by (simp add: other_lines_def with_include_def)
qed

lemma with_include_prefix: "has_prefix (with_include line b) line"
  by (simp add: with_include_def)


section \<open>Installing\<close>

definition user_text :: "sshfs \<Rightarrow> bytes" where
  "user_text s = (case userF s of Contents b \<Rightarrow> b | _ \<Rightarrow> [])"

definition our_line :: "bytes \<Rightarrow> bytes" where
  "our_line dir = include_line (quote # Join_path dir ''ssh_config'' @ [quote])"

lemma sshPath_clean: "sshPath p = Some q \<Longrightarrow> q = quote # p @ [quote] \<and> set p \<inter> set path_forbidden = {}"
  by (auto simp: sshPath_def split: if_splits)

text \<open>Every run stops early and changes nothing, or writes the file of the target; what it does then.\<close>

lemma installSSH_cases:
  assumes "installSSH L E dir c s = (s', r)"
  obtains (nothing) "s' = s" "r \<noteq> None"
  | (wrote) host port where "hiveAddress (cfHive c) = Inr (host, port)"
      "sshPath (cfIdentity c) = Some (quote # cfIdentity c @ [quote])"
      "sshPath (cfKnownHosts c) = Some (quote # cfKnownHosts c @ [quote])"
      "sshPath (Join_path dir ''ssh_config'') = Some (quote # Join_path dir ''ssh_config'' @ [quote])"
      "connF s' = put (machineTarget L c) (text_of (connection_lines (machineTarget L c) host port
         (quote # cfIdentity c @ [quote]) (quote # cfKnownHosts c @ [quote]))) (connF s)"
      "joinedF s' = joinedF s"
      "r = None \<Longrightarrow> indexF s' = Contents (index_text (Join_path dir ''ssh-connections''))"
      "r = None \<Longrightarrow> userF s' = (if has_prefix (user_text s) (our_line dir) then userF s
         else Contents (with_include (our_line dir) (user_text s)))"
      "r \<noteq> None \<Longrightarrow> userF s' = userF s"
  using assms
  by (auto simp: installSSH_def Let_def user_text_def our_line_def split: sum.splits option.splits if_splits dest!: sshPath_clean)

lemma our_line_shape:
  assumes "sshPath (Join_path dir ''ssh_config'') = Some q"
  obtains l where "our_line dir = l @ [newline]" "newline \<notin> set l"
proof
  show "our_line dir = (''Include '' @ quote # Join_path dir ''ssh_config'' @ [quote]) @ [newline]"
    by (simp add: our_line_def include_line_def)
  show "newline \<notin> set (''Include '' @ quote # Join_path dir ''ssh_config'' @ [quote])"
    using sshPath_clean [OF assms] by (auto simp: newline_def quote_def path_forbidden_def)
qed

text \<open>
  C15. The user's SSH configuration is kept. Whatever happens, every line of it but Bee's own include line is still
  there, byte for byte and in order. A failure leaves the file alone; after a success the include line is the
  first, a file that began with it is untouched, and installing again, for whatever outcome, does not change the
  file any more. Connections to other targets stay as they were.
\<close>

theorem ssh_config_kept:
  assumes "installSSH L E dir c s = (s', r)"
  shows "other_lines (our_line dir) (user_text s') = other_lines (our_line dir) (user_text s) \<and>
    (r \<noteq> None \<or> has_prefix (user_text s) (our_line dir) \<longrightarrow> userF s' = userF s) \<and>
    (r = None \<longrightarrow> has_prefix (user_text s') (our_line dir) \<and> (\<forall>E'. userF (fst (installSSH L E' dir c s')) = userF s')) \<and>
    (\<forall>t. t \<noteq> machineTarget L c \<longrightarrow> map_of (connF s') t = map_of (connF s) t)"
proof -
  have again: "userF (fst (installSSH L E' dir c s')) = userF s'" if "has_prefix (user_text s') (our_line dir)" for E'
  proof -
    obtain t q where i: "installSSH L E' dir c s' = (t, q)" by fastforce
    show ?thesis using that by (cases rule: installSSH_cases [OF i]; cases q) (auto simp: i)
  qed
  show ?thesis
  proof (cases rule: installSSH_cases [OF assms, case_names nothing wrote])
    case (wrote host port)
    obtain l where l: "our_line dir = l @ [newline]" "newline \<notin> set l" using our_line_shape [OF wrote(4)] .
    have "user_text s' = (if r = None then with_include (our_line dir) (user_text s) else user_text s)"
      using wrote(8,9) by (auto simp: user_text_def with_include_def)
    moreover have "other_lines (our_line dir) (with_include (our_line dir) (user_text s)) = other_lines (our_line dir) (user_text s)"
      using other_lines_include [OF l(2)] by (simp add: l(1))
    ultimately show ?thesis
      using wrote(5,8,9) again with_include_prefix [of "our_line dir" "user_text s"] by (cases "r = None") auto
  qed (cases r, auto)
qed


section \<open>Machines\<close>

lemma position_of_Some: "position_of target ps = Some i \<Longrightarrow> i < length ps \<and> pfTarget (ps ! i) = target"
  by (induction ps arbitrary: i) (auto split: if_splits)

lemma promote_set [simp]: "set (promote target ps) = set ps"
proof (cases "position_of target ps")
  case (Some i)
  note i = position_of_Some [OF Some]
  then have "promote target ps = ps[i := ps ! 0, 0 := ps ! i]"
    using Some by (cases "i = 0") (auto simp: promote_def list_update_swap)
  also have "set \<dots> = set ps" by (rule set_swap) (use i in auto)
  finally show ?thesis .
qed (simp add: promote_def)

lemma promote_first: "position_of target ps = Some i \<Longrightarrow> \<exists>qs. promote target ps = ps ! i # qs"
  using position_of_Some [of target ps i] by (cases ps; cases i) (auto simp: promote_def)

definition default_session :: "profile \<Rightarrow> bool" where
  "default_session p \<longleftrightarrow> pfSession p = [] \<or> pfSession p = ''default''"

lemma search_bound: "length (fst (search_machine E c target i ps)) \<le> 16 - i"
proof (induction ps arbitrary: i)
  case (Cons p ps)
  show ?case using Cons.IH [of "Suc i"] by (cases "search_machine E c target (Suc i) ps") auto
qed simp

lemma search_found: "search_machine E c target i ps = (asked, Some p) \<Longrightarrow>
    p \<in> set ps \<and> default_session p \<and> (pfTarget p = target \<or> (\<exists>j < 16. sameSSH E (me_resolve E j (pfTarget p)) c))"
  by (induction ps arbitrary: i asked) (auto simp: default_session_def split: if_splits prod.splits)

lemma search_none: "search_machine E c target i ps = (asked, None) \<Longrightarrow> p \<in> set ps \<Longrightarrow> default_session p \<Longrightarrow> pfTarget p \<noteq> target"
  by (induction ps arbitrary: i asked) (auto simp: default_session_def split: if_splits prod.splits)

text \<open>What \<open>ensureMachine\<close> did, by its result.\<close>

lemma ensureMachine_done:
  assumes "ensureMachine L E dir c s = (s', cmds, asked, None)"
  obtains s1 ps r where "installSSH L E dir c s = (s1, None)" "me_list E = Some (Some ps)"
    "search_machine E c (machineTarget L c) 0 (promote (machineTarget L c) ps) = (asked, r)"
    "s' = s1\<lparr>joinedF := Contents (me_enc E ((joined_of L c)
       \<lparr>jcTarget := (case r of None \<Rightarrow> machineTarget L c | Some p \<Rightarrow> pfTarget p)\<rparr>))\<rparr>"
    "cmds = (case r of None \<Rightarrow> [AddMachine (machineTarget L c)] | Some p \<Rightarrow> if pfEnabled p then [] else [EnableMachine (pfID p)])"
  using assms
  by (auto simp: ensureMachine_def record_machine_def Let_def split: prod.splits option.splits if_splits)

text \<open>\<open>encoding/json\<close> reads back a record whose texts are \<open>plain\<close>, which texts in valid UTF-8 are.\<close>

definition record_codec_ok :: "menv \<Rightarrow> (bytes \<Rightarrow> bool) \<Rightarrow> bool" where
  "record_codec_ok E plain \<longleftrightarrow>
     (\<forall>r. list_all plain [jcHive r, jcIdentity r, jcKnown r, jcTarget r] \<longrightarrow> me_dec E (me_enc E r) = Some r)"

text \<open>
  A successful \<open>ensureMachine\<close> leaves exactly one machine responsible. It is a profile of the default session
  that has Bee's own target or that \<open>ssh -G\<close> resolved to this very connection, enabled if it was not; or a machine
  that was added, and then no profile of the default session had the target. The record names that machine and
  the connection, and \<open>connectionRecord\<close> finds it again.
\<close>

theorem machine_ensured:
  assumes run: "ensureMachine L E dir c s = (s', cmds, asked, None)"
    and J: "record_codec_ok E plain" and plain: "list_all plain [cfHive c, cfIdentity c, cfKnownHosts c, machineTarget L c]"
    and t: "\<And>ps p. me_list E = Some (Some ps) \<Longrightarrow> p \<in> set ps \<Longrightarrow> pfTarget p \<noteq> [] \<and> plain (pfTarget p)"
  shows "\<exists>r. connectionRecord (me_dec E) c (joinedF s') = Some r \<and>
    (\<exists>ps. me_list E = Some (Some ps) \<and>
      ((jcTarget r = machineTarget L c \<and> cmds = [AddMachine (machineTarget L c)] \<and>
          (\<forall>p \<in> set ps. default_session p \<longrightarrow> pfTarget p \<noteq> machineTarget L c)) \<or>
       (\<exists>p \<in> set ps. default_session p \<and> jcTarget r = pfTarget p \<and>
          cmds = (if pfEnabled p then [] else [EnableMachine (pfID p)]) \<and>
          (pfTarget p = machineTarget L c \<or> (\<exists>j < 16. sameSSH E (me_resolve E j (pfTarget p)) c)))))"
proof -
  obtain s1 ps r where ps: "me_list E = Some (Some ps)"
    and r: "search_machine E c (machineTarget L c) 0 (promote (machineTarget L c) ps) = (asked, r)"
    and s: "s' = s1\<lparr>joinedF := Contents (me_enc E ((joined_of L c)
       \<lparr>jcTarget := (case r of None \<Rightarrow> machineTarget L c | Some p \<Rightarrow> pfTarget p)\<rparr>))\<rparr>"
    and cmds: "cmds = (case r of None \<Rightarrow> [AddMachine (machineTarget L c)]
       | Some p \<Rightarrow> if pfEnabled p then [] else [EnableMachine (pfID p)])"
    using ensureMachine_done [OF run] .
  have m: "machineTarget L c \<noteq> []" by (simp add: machineTarget_def)
  show ?thesis
  proof (cases r)
    case None
    have "\<forall>p \<in> set ps. default_session p \<longrightarrow> pfTarget p \<noteq> machineTarget L c"
      using search_none [OF r [unfolded None]] by auto
    then show ?thesis using None ps s cmds m J plain by (auto simp: record_codec_ok_def connectionRecord_def joined_of_def)
  next
    case (Some p)
    note p = search_found [OF r [unfolded Some]]
    moreover from p have "pfTarget p \<noteq> [] \<and> plain (pfTarget p)" using t [OF ps] by simp
    ultimately show ?thesis using Some ps s cmds J plain by (auto simp: record_codec_ok_def connectionRecord_def joined_of_def)
  qed
qed

text \<open>
  The work does not grow with the machines Herdr knows: at most 16 of them are resolved with \<open>ssh -G\<close>, at most
  one is enabled or added, whatever fails; and none is resolved when Bee's own is there.
\<close>

theorem machine_work_bounded:
  assumes "ensureMachine L E dir c s = (s', cmds, asked, r)"
  shows "length asked \<le> 16 \<and> length cmds \<le> 1 \<and>
    (\<forall>ps i. me_list E = Some (Some ps) \<and> position_of (machineTarget L c) ps = Some i \<and> default_session (ps ! i) \<longrightarrow>
       asked = [] \<and> AddMachine (machineTarget L c) \<notin> set cmds)"
proof -
  let ?t = "machineTarget L c"
  consider "asked = [] \<and> cmds = []"
    | ps q where "me_list E = Some (Some ps)" "search_machine E c ?t 0 (promote ?t ps) = (asked, q)" "length cmds \<le> 1"
        "q = None \<or> AddMachine ?t \<notin> set cmds"
    using assms by (auto simp: ensureMachine_def Let_def split: prod.splits option.splits if_splits)
  then show ?thesis
  proof cases
    case 2
    have "length asked \<le> 16" using search_bound [of E c ?t 0 "promote ?t ps"] 2(2) by simp
    moreover have "asked = [] \<and> q \<noteq> None" if i: "position_of ?t ps = Some i" "default_session (ps ! i)" for i
    proof -
      obtain qs where "promote ?t ps = ps ! i # qs" using promote_first [OF i(1)] by blast
      then show ?thesis using 2(2) i(2) position_of_Some [OF i(1)] by (auto simp: default_session_def)
    qed
    ultimately show ?thesis using 2 by auto
  qed auto
qed

section \<open>A first connection\<close>

definition sample_connection :: config where
  "sample_connection = (default_config ''pc'')\<lparr>cfHive := ''h:22'', cfIdentity := ''/d/k'', cfKnownHosts := ''/d/h''\<rparr>"

definition sample_menv :: menv where
  "sample_menv = \<lparr>me_home = Some ''/u'', me_dirs = True, me_lock = LockTaken, me_link = True, me_conn_dir = True,
     me_write = (\<lambda>_. True), me_list = Some (Some []), me_resolve = (\<lambda>_ _. None), me_enable = (\<lambda>_. True),
     me_add = (\<lambda>_. True),
     me_dec = (\<lambda>b. case split_on CHR 0x80 b of
       [h, i, k, t] \<Rightarrow> Some \<lparr>jcHive = h, jcIdentity = i, jcKnown = k, jcTarget = t\<rparr> | _ \<Rightarrow> None),
     me_enc = (\<lambda>r. jcHive r @ CHR 0x80 # jcIdentity r @ CHR 0x80 # jcKnown r @ CHR 0x80 # jcTarget r)\<rparr>"

definition sample_sshfs :: sshfs where
  "sample_sshfs = \<lparr>userF = Contents ''Host *'', indexF = NoFile, connF = [], joinedF = NoFile\<rparr>"

definition sample_installed :: sshfs where
  "sample_installed = fst (installSSH sample_lib sample_menv ''/d'' sample_connection sample_sshfs)"

lemma sample_installs: "installSSH sample_lib sample_menv ''/d'' sample_connection sample_sshfs = (sample_installed, None)"
proof -
  have "snd (installSSH sample_lib sample_menv ''/d'' sample_connection sample_sshfs) = None"
    using sample_address
    by (simp add: installSSH_def sample_connection_def sample_menv_def sample_sshfs_def sshPath_def is_abs_def has_prefix_def
        path_forbidden_def Join_path_def Clean_def Let_def default_config_def)
  then show ?thesis by (simp add: sample_installed_def prod_eq_iff)
qed

lemma ssh_config_kept_witness:
  "other_lines (our_line ''/d'') (user_text sample_installed) = other_lines (our_line ''/d'') ''Host *'' \<and>
   has_prefix (user_text sample_installed) (our_line ''/d'')"
  using ssh_config_kept [OF sample_installs] by (simp add: user_text_def sample_sshfs_def)


definition sample_ensured :: sshfs where
  "sample_ensured = sample_installed\<lparr>joinedF := Contents (me_enc sample_menv (joined_of sample_lib sample_connection))\<rparr>"

lemma sample_ensure: "ensureMachine sample_lib sample_menv ''/d'' sample_connection sample_sshfs =
    (sample_ensured, [AddMachine (machineTarget sample_lib sample_connection)], [], None)"
proof -
  have "me_list sample_menv = Some (Some [])" "me_add sample_menv t" "me_write sample_menv n" for t n
    by (simp_all add: sample_menv_def)
  moreover have "(joined_of L c)\<lparr>jcTarget := machineTarget L c\<rparr> = joined_of L c" for L c by (simp add: joined_of_def)
  ultimately show ?thesis
    by (simp add: ensureMachine_def sample_installs record_machine_def sample_ensured_def promote_def Let_def)
qed

lemma sample_record_codec: "record_codec_ok sample_menv ascii"
proof -
  have n: "CHR 0x80 \<notin> set s" if "ascii s" for s using that by (auto simp: ascii_def list_all_iff)
  have "me_dec sample_menv (me_enc sample_menv r) = Some r"
    if "list_all ascii [jcHive r, jcIdentity r, jcKnown r, jcTarget r]" for r
    using that n by (cases r) (simp add: sample_menv_def split_on_append split_on_single)
  then show ?thesis by (simp add: record_codec_ok_def)
qed

lemma target_ascii: "ascii (machineTarget L c)"
proof -
  have "of_char x < (128 :: nat)" if "x \<in> set (''bee-hive-'' @ hex b)" for x b
    using that hex_range [of x b] by auto
  then show ?thesis unfolding machineTarget_def ascii_def list_all_iff by (meson in_set_takeD)
qed

lemma machine_ensured_witness:
  "\<exists>r. connectionRecord (me_dec sample_menv) sample_connection (joinedF sample_ensured) = Some r \<and>
     jcTarget r = machineTarget sample_lib sample_connection"
proof -
  have "list_all ascii [cfHive sample_connection, cfIdentity sample_connection, cfKnownHosts sample_connection,
      machineTarget sample_lib sample_connection]"
    using target_ascii by (simp add: sample_connection_def) (simp add: ascii_def)
  from machine_ensured [OF sample_ensure sample_record_codec this] show ?thesis
    by (auto simp: sample_menv_def)
qed

lemma machine_work_bounded_witness: "length ([] :: bytes list) \<le> 16 \<and>
    length [AddMachine (machineTarget sample_lib sample_connection)] \<le> 1"
  using machine_work_bounded [OF sample_ensure] by simp

end
