(* ===== verification/Joining.thy ===== *)
theory Joining
  imports SshConfig
begin

text \<open>
  \<open>bee join\<close> (\<open>bee/internal/app/join.go\<close>): from a pasted invitation, or from a saved connection, to an enrolled
  device, a saved configuration and a Herdr machine. The key and trust files are a map from paths to what they
  hold; the network, the random key, \<open>golang.org/x/crypto/ssh/knownhosts\<close> and the running Bee are the parameters
  \<open>jenv\<close>, and \<open>je_meanwhile\<close> is what other programs do to the configuration between its two readings.
\<close>

section \<open>State and parameters\<close>

record jstate =
  jsConfig :: "bytes stored"
  jsFiles :: "bytes \<Rightarrow> bytes stored"
  jsSsh :: sshfs

record jenv =
  je_dir :: "bytes option"
  je_mkdir :: bool
  je_lock :: mlock
  je_host :: bytes
  je_cf :: cfcodec
  je_iv :: ivcodec
  je_private :: "bytes \<Rightarrow> bool"
  je_generate :: "bytes option"
  je_line :: "bytes \<Rightarrow> pubkey \<Rightarrow> bytes"
  je_verify :: "bytes \<Rightarrow> bytes \<Rightarrow> bytes \<Rightarrow> pubkey \<Rightarrow> bool"
  je_write :: "nat \<Rightarrow> bool"
  je_directory :: "nat \<Rightarrow> bool"
  je_dialed :: bool
  je_answer :: "(bool \<times> nat \<times> (bool \<times> bytes) option) option"
  je_meanwhile :: "bytes stored \<Rightarrow> bytes stored"
  je_status :: bool
  je_reload :: bool
  je_machine :: menv

datatype jerror =
  JDir | JBusy | JConfig cferror | JInvitation iverror | JSharing | JKey | JNilKey | JTrusted | JChanged | JFile |
  JRefused benroll | JNothing | JUnreachable | JReload | JMachine serror

text \<open>A connection to a Hive, with the trust file it is verified against: the directory, or an enrollment.\<close>

datatype contact = Listing config "bytes stored" | Presenting config bytes "bytes stored"

section \<open>The steps\<close>

text \<open>\<open>deviceKey\<close>.\<close>

definition deviceKey :: "jenv \<Rightarrow> bytes \<Rightarrow> jstate \<Rightarrow> jstate \<times> jerror option" where
  "deviceKey E path s =
     (case jsFiles s path of
        Contents b \<Rightarrow> (s, if je_private E b then None else Some JKey)
      | Unreadable \<Rightarrow> (s, Some JKey)
      | NoFile \<Rightarrow>
          (case je_generate E of
             None \<Rightarrow> (s, Some JKey)
           | Some pem \<Rightarrow>
               if je_write E 0 then (s\<lparr>jsFiles := (jsFiles s)(path := Contents pem)\<rparr>, None) else (s, Some JFile)))"

definition identity_step :: "jenv \<Rightarrow> bytes \<Rightarrow> config \<Rightarrow> jstate \<Rightarrow> jstate \<times> (jerror + config)" where
  "identity_step E dir c s =
     (if cfIdentity c \<noteq> [] then (s, Inr c)
      else
        (let c1 = c\<lparr>cfIdentity := Join_path dir ''device_key''\<rparr> in
         case deviceKey E (cfIdentity c1) s of
           (s1, Some e) \<Rightarrow> (s1, Inl e)
         | (s1, None) \<Rightarrow> (s1, Inr c1)))"

text \<open>The trust file: the saved one when it already vouches for the key of the invitation, or a new one whose name
  is derived from the address and the key, so that a wrong invitation cannot spoil it for the right one.\<close>

definition trust_name :: "elib \<Rightarrow> invitation \<Rightarrow> bytes" where
  "trust_name L v = ''hive-'' @ hex (sha L (ivHive v @ CHR 0x00 # ivHostKey v)) @ ''.known_hosts''"

definition vouches :: "jenv \<Rightarrow> invitation \<Rightarrow> pubkey \<Rightarrow> bytes stored \<Rightarrow> bool" where
  "vouches E v k file \<longleftrightarrow>
     (case file of
        Contents b \<Rightarrow> (case hiveAddress (ivHive v) of Inr (host, port) \<Rightarrow> je_verify E b (ivHive v) port k | Inl _ \<Rightarrow> False)
      | _ \<Rightarrow> False)"

definition trust_entry :: "jenv \<Rightarrow> invitation \<Rightarrow> pubkey \<Rightarrow> bytes" where
  "trust_entry E v k = je_line E (ivHive v) k @ [newline]"

definition trust_step :: "elib \<Rightarrow> jenv \<Rightarrow> bytes \<Rightarrow> config \<Rightarrow> config \<Rightarrow> invitation \<Rightarrow> jstate \<Rightarrow> jstate \<times> (jerror + config)" where
  "trust_step L E dir current c v s =
     (case parse_authorized L (ivHostKey v) of
        None \<Rightarrow> (s, Inl JNilKey)
      | Some a \<Rightarrow>
          (let k = akey a; saved = cfHive current = ivHive v \<and> cfKnownHosts current \<noteq> [];
               path = (if saved then cfKnownHosts current else Join_path dir (trust_name L v));
               c1 = c\<lparr>cfKnownHosts := path\<rparr>; entry = trust_entry E v k in
           if saved \<and> \<not> vouches E v k (jsFiles s path) then (s, Inl JTrusted)
           else
             (case jsFiles s path of
                Contents prior \<Rightarrow>
                  if path \<noteq> cfKnownHosts current \<and> prior \<noteq> entry then (s, Inl JChanged) else (s, Inr c1)
              | Unreadable \<Rightarrow> (s, Inl JFile)
              | NoFile \<Rightarrow>
                  if je_write E (Suc 0) then (s\<lparr>jsFiles := (jsFiles s)(path := Contents entry)\<rparr>, Inr c1)
                  else (s, Inl JFile))))"

definition listing :: "config \<Rightarrow> jstate \<Rightarrow> contact" where
  "listing c s = Listing c (jsFiles s (cfKnownHosts c))"

definition presenting :: "config \<Rightarrow> bytes \<Rightarrow> jstate \<Rightarrow> contact" where
  "presenting c token s = Presenting c token (jsFiles s (cfKnownHosts c))"

text \<open>A device that is already enrolled resumes; another presents the token.\<close>

definition enroll_step :: "jenv \<Rightarrow> config \<Rightarrow> bytes \<Rightarrow> jstate \<Rightarrow> contact list \<times> jerror option" where
  "enroll_step E c token s =
     (if je_directory E 0 then ([listing c s], None)
      else
        ([listing c s, presenting c token s],
         case beeEnroll token (je_dialed E) (je_answer E) of Inl e \<Rightarrow> Some (JRefused e) | Inr _ \<Rightarrow> None))"

fun sameRules :: "rule list \<Rightarrow> rule list \<Rightarrow> bool" where
  "sameRules [] [] = True"
| "sameRules (a # as) (b # bs) = (a = b \<and> sameRules as bs)"
| "sameRules _ _ = False"

definition join_update :: "config \<Rightarrow> config \<Rightarrow> config \<Rightarrow> cferror + config" where
  "join_update current c found =
     (if cfHive found \<noteq> cfHive current \<or> cfIdentity found \<noteq> cfIdentity current \<or>
         cfKnownHosts found \<noteq> cfKnownHosts current \<or> cfEnabled found \<noteq> cfEnabled current \<or>
         \<not> sameRules (cfRules found) (cfRules current)
      then Inl CfRaced
      else Inr (found\<lparr>cfHive := cfHive c, cfIdentity := cfIdentity c, cfKnownHosts := cfKnownHosts c\<rparr>))"

definition save_step :: "jenv \<Rightarrow> config \<Rightarrow> config \<Rightarrow> jstate \<Rightarrow> jstate \<times> jerror option" where
  "save_step E current c s =
     (case Update_cfg (je_cf E) (je_host E) (je_write E 2) (join_update current c) (je_meanwhile E (jsConfig s)) of
        (f, r) \<Rightarrow> (s\<lparr>jsConfig := f\<rparr>, case r of Inl e \<Rightarrow> Some (JConfig e) | Inr _ \<Rightarrow> None))"

text \<open>The branch with an invitation: the candidate configuration, saved.\<close>

definition accept_invitation :: "elib \<Rightarrow> jenv \<Rightarrow> bytes \<Rightarrow> config \<Rightarrow> bytes \<Rightarrow> jstate \<Rightarrow> jstate \<times> contact list \<times> (jerror + config)" where
  "accept_invitation L E dir current raw s =
     (case parseInvitation L (je_iv E) raw of
        Inl e \<Rightarrow> (s, [], Inl (JInvitation e))
      | Inr v \<Rightarrow>
          if cfHive current \<noteq> [] \<and> cfHive current \<noteq> ivHive v \<and> (cfEnabled current \<or> cfRules current \<noteq> [])
          then (s, [], Inl JSharing)
          else
            (case identity_step E dir (current\<lparr>cfHive := ivHive v\<rparr>) s of
               (s1, Inl e) \<Rightarrow> (s1, [], Inl e)
             | (s1, Inr c1) \<Rightarrow>
                 (case trust_step L E dir current c1 v s1 of
                    (s2, Inl e) \<Rightarrow> (s2, [], Inl e)
                  | (s2, Inr c2) \<Rightarrow>
                      (case enroll_step E c2 (ivToken v) s2 of
                         (tr, Some e) \<Rightarrow> (s2, tr, Inl e)
                       | (tr, None) \<Rightarrow>
                           (case save_step E current c2 s2 of
                              (s3, Some e) \<Rightarrow> (s3, tr, Inl e)
                            | (s3, None) \<Rightarrow> (s3, tr, Inr c2))))))"

text \<open>What both branches end with; the result is what is printed: the Hive, the machine, and whether sharing is on.\<close>

definition finish_join :: "elib \<Rightarrow> jenv \<Rightarrow> bytes \<Rightarrow> config \<Rightarrow> jstate \<Rightarrow> jstate \<times> contact list \<times> (jerror + bytes \<times> bytes \<times> bool)" where
  "finish_join L E dir c s =
     (if \<not> je_directory E (Suc 0) then (s, [listing c s], Inl JUnreachable)
      else if je_status E \<and> \<not> je_reload E then (s, [listing c s], Inl JReload)
      else
        (case ensureMachine L (je_machine E) dir c (jsSsh s) of
           (f, _, _, Some e) \<Rightarrow> (s\<lparr>jsSsh := f\<rparr>, [listing c s], Inl (JMachine e))
         | (f, _, _, None) \<Rightarrow>
             (s\<lparr>jsSsh := f\<rparr>, [listing c s],
              Inr (cfHive c,
                case connectionRecord (me_dec (je_machine E)) c (joinedF f) of
                  Some r \<Rightarrow> jcTarget r | None \<Rightarrow> machineTarget L c,
                cfEnabled c))))"

definition join_cmd :: "elib \<Rightarrow> jenv \<Rightarrow> bytes \<Rightarrow> jstate \<Rightarrow> jstate \<times> contact list \<times> (jerror + bytes \<times> bytes \<times> bool)" where
  "join_cmd L E raw s =
     (case je_dir E of
        None \<Rightarrow> (s, [], Inl JDir)
      | Some dir \<Rightarrow>
          if \<not> je_mkdir E \<or> je_lock E = LockFails then (s, [], Inl JDir)
          else if je_lock E = LockBusy then (s, [], Inl JBusy)
          else
            (case Load (je_cf E) (je_host E) (jsConfig s) of
               Inl e \<Rightarrow> (s, [], Inl (JConfig e))
             | Inr current \<Rightarrow>
                 if raw = [] then
                   (if cfHive current = [] \<or> cfIdentity current = [] \<or> cfKnownHosts current = [] then (s, [], Inl JNothing)
                    else finish_join L E dir current s)
                 else
                   (case accept_invitation L E dir current raw s of
                      (s1, tr, Inl e) \<Rightarrow> (s1, tr, Inl e)
                    | (s1, tr, Inr c) \<Rightarrow>
                        (case finish_join L E dir c s1 of (s2, tr2, r) \<Rightarrow> (s2, tr @ tr2, r)))))"

section \<open>What the steps leave alone\<close>

definition files_kept :: "jstate \<Rightarrow> jstate \<Rightarrow> bool" where
  "files_kept s s' \<longleftrightarrow> (\<forall>p. jsFiles s p \<noteq> NoFile \<longrightarrow> jsFiles s' p = jsFiles s p)"

lemma files_kept_refl [simp]: "files_kept s s"
  by (simp add: files_kept_def)

lemma files_kept_trans: "files_kept s t \<Longrightarrow> files_kept t u \<Longrightarrow> files_kept s u"
  by (simp add: files_kept_def)

lemma files_kept_update [simp]: "files_kept s (s\<lparr>jsConfig := f\<rparr>)" "files_kept s (s\<lparr>jsSsh := g\<rparr>)" "files_kept s s' \<Longrightarrow> files_kept s (s'\<lparr>jsConfig := f\<rparr>)"
  "files_kept s s' \<Longrightarrow> files_kept s (s'\<lparr>jsSsh := g\<rparr>)"
  by (simp_all add: files_kept_def)

lemma deviceKey_keeps: "deviceKey E path s = (s', r) \<Longrightarrow> files_kept s s' \<and> jsConfig s' = jsConfig s \<and> jsSsh s' = jsSsh s"
  by (auto simp: deviceKey_def files_kept_def split: stored.splits option.splits if_splits)

lemma identity_keeps: "identity_step E dir c s = (s', r) \<Longrightarrow> files_kept s s' \<and> jsConfig s' = jsConfig s \<and> jsSsh s' = jsSsh s"
  by (auto simp: identity_step_def Let_def split: if_splits prod.splits option.splits dest: deviceKey_keeps)

lemma slashes_nonempty: "slashes ps = [] \<Longrightarrow> ps = [] \<or> ps = [[]]"
  by (cases ps rule: slashes.cases) auto

lemma Join_path_nonempty [simp]: "a \<noteq> [] \<or> b \<noteq> [] \<Longrightarrow> Join_path a b \<noteq> []"
  by (auto simp: Join_path_def Clean_def Let_def)

lemma identity_done: "identity_step E dir c s = (s', Inr c') \<Longrightarrow> cfIdentity c' \<noteq> [] \<and> cfHive c' = cfHive c \<and>
    cfKnownHosts c' = cfKnownHosts c \<and> cfEnabled c' = cfEnabled c \<and> cfRules c' = cfRules c"
  by (auto simp: identity_step_def Let_def split: if_splits prod.splits option.splits)

text \<open>How the trust file stands after a successful \<open>trust_step\<close>.\<close>

lemma trust_done:
  assumes "trust_step L E dir current c v s = (s', r)"
  shows "files_kept s s' \<and> jsConfig s' = jsConfig s \<and> jsSsh s' = jsSsh s \<and>
    (\<forall>c'. r = Inr c' \<longrightarrow> (\<exists>a. parse_authorized L (ivHostKey v) = Some a \<and> c' = c\<lparr>cfKnownHosts := cfKnownHosts c'\<rparr> \<and>
       cfKnownHosts c' \<noteq> [] \<and>
       (jsFiles s' (cfKnownHosts c') = Contents (trust_entry E v (akey a)) \<or>
        cfHive current = ivHive v \<and> cfKnownHosts c' = cfKnownHosts current \<and> vouches E v (akey a) (jsFiles s' (cfKnownHosts c')) \<or>
        cfHive current \<noteq> ivHive v \<and> cfKnownHosts c' = cfKnownHosts current)))"
proof (cases "parse_authorized L (ivHostKey v)")
  case (Some a)
  have n: "Join_path dir (trust_name L v) \<noteq> []" by (simp add: trust_name_def)
  show ?thesis
  proof (cases "cfHive current = ivHive v \<and> cfKnownHosts current \<noteq> []")
    case True
    then show ?thesis
      using assms Some by (auto simp: trust_step_def Let_def vouches_def files_kept_def split: if_splits stored.splits)
  next
    case False
    then show ?thesis
      using assms Some n by (auto simp: trust_step_def Let_def files_kept_def split: if_splits stored.splits)
  qed
qed (use assms in \<open>auto simp: trust_step_def\<close>)

lemma sameRules_iff [simp]: "sameRules as bs \<longleftrightarrow> as = bs"
  by (induction as bs rule: sameRules.induct) auto

lemma Update_done: "Update_cfg J host w f file = (file', Inr c) \<Longrightarrow>
    Validate c = None \<and> file' = Contents (cf_enc J c) \<and> (\<exists>found. Load J host file = Inr found \<and> f found = Inr c)"
  by (auto simp: Update_cfg_def split: sum.splits option.splits if_splits)

lemma Update_failed: "Update_cfg J host w f file = (file', Inl e) \<Longrightarrow> file' = file"
  by (auto simp: Update_cfg_def split: sum.splits option.splits if_splits)

section \<open>Whom a join talks to\<close>

primrec contact_config :: "contact \<Rightarrow> config" where
  "contact_config (Listing c f) = c"
| "contact_config (Presenting c t f) = c"

primrec contact_trust :: "contact \<Rightarrow> bytes stored" where
  "contact_trust (Listing c f) = f"
| "contact_trust (Presenting c t f) = f"

primrec contact_token :: "contact \<Rightarrow> bytes option" where
  "contact_token (Listing c f) = None"
| "contact_token (Presenting c t f) = Some t"

text \<open>The contact is with the Hive of the invitation, under its key: the trust file was written or found with exactly
  this key, or is the saved one of this Hive and vouches for the key, or is the saved one of another Hive whose name
  happens to be that of this address and key.\<close>

definition pinned :: "jenv \<Rightarrow> config \<Rightarrow> invitation \<Rightarrow> pubkey \<Rightarrow> contact \<Rightarrow> bool" where
  "pinned E current v k x \<longleftrightarrow> cfHive (contact_config x) = ivHive v \<and>
     (contact_token x = None \<or> contact_token x = Some (ivToken v)) \<and>
     (contact_trust x = Contents (trust_entry E v k) \<or>
      cfHive current = ivHive v \<and> cfKnownHosts (contact_config x) = cfKnownHosts current \<and> vouches E v k (contact_trust x) \<or>
      cfHive current \<noteq> ivHive v \<and> cfKnownHosts (contact_config x) = cfKnownHosts current)"

text \<open>The configuration that a join may save.\<close>

definition joined_config :: "config \<Rightarrow> config \<Rightarrow> config \<Rightarrow> bool" where
  "joined_config current found c \<longleftrightarrow> cfHive found = cfHive current \<and> cfIdentity found = cfIdentity current \<and>
     cfKnownHosts found = cfKnownHosts current \<and> cfEnabled found = cfEnabled current \<and> cfRules found = cfRules current \<and>
     cfHive c \<noteq> [] \<and> cfIdentity c \<noteq> [] \<and> cfKnownHosts c \<noteq> []"

definition accepted_by_hive :: "jenv \<Rightarrow> bytes \<Rightarrow> bool" where
  "accepted_by_hive E token \<longleftrightarrow> je_directory E 0 \<or> (\<exists>fp. beeEnroll token (je_dialed E) (je_answer E) = Inr fp)"

lemma enroll_contacts: "enroll_step E c token s = (tr, r) \<Longrightarrow> x \<in> set tr \<Longrightarrow>
    contact_config x = c \<and> contact_trust x = jsFiles s (cfKnownHosts c) \<and> (contact_token x = None \<or> contact_token x = Some token)"
  by (auto simp: enroll_step_def listing_def presenting_def split: if_splits)

lemma enroll_accepted: "enroll_step E c token s = (tr, None) \<Longrightarrow> accepted_by_hive E token"
  by (auto simp: enroll_step_def accepted_by_hive_def split: if_splits sum.splits)

lemma parsed_hive: "parseInvitation L J raw = Inr v \<Longrightarrow> ivHive v \<noteq> []"
  by (auto simp: parseInvitation_def Let_def hiveAddress_def SplitHostPort_def split: if_splits option.splits sum.splits)

text \<open>The errors that come before anything is saved.\<close>

definition early :: "jerror \<Rightarrow> bool" where
  "early e \<longleftrightarrow> e \<noteq> JUnreachable \<and> e \<noteq> JReload \<and> (\<forall>m. e \<noteq> JMachine m)"

lemma early_steps: "identity_step E dir c s = (s', Inl e) \<Longrightarrow> early e" "trust_step L E dir current c v s = (s', Inl e) \<Longrightarrow> early e"
  "enroll_step E c token s = (tr, Some e) \<Longrightarrow> early e" "save_step E current c s = (s', Some e) \<Longrightarrow> early e"
  by (auto simp: early_def identity_step_def deviceKey_def trust_step_def enroll_step_def save_step_def Let_def
      split: if_splits prod.splits option.splits stored.splits sum.splits)

lemma save_done:
  assumes "save_step E current c s = (s', r)"
  shows "files_kept s s' \<and> jsFiles s' = jsFiles s \<and> jsSsh s' = jsSsh s \<and>
    (r \<noteq> None \<longrightarrow> jsConfig s' = je_meanwhile E (jsConfig s)) \<and>
    (r = None \<longrightarrow> (\<exists>found. Load (je_cf E) (je_host E) (je_meanwhile E (jsConfig s)) = Inr found \<and>
       join_update current c found = Inr (found\<lparr>cfHive := cfHive c, cfIdentity := cfIdentity c, cfKnownHosts := cfKnownHosts c\<rparr>) \<and>
       Validate (found\<lparr>cfHive := cfHive c, cfIdentity := cfIdentity c, cfKnownHosts := cfKnownHosts c\<rparr>) = None \<and>
       jsConfig s' = Contents (cf_enc (je_cf E) (found\<lparr>cfHive := cfHive c, cfIdentity := cfIdentity c, cfKnownHosts := cfKnownHosts c\<rparr>))))"
proof -
  obtain f q where u: "Update_cfg (je_cf E) (je_host E) (je_write E 2) (join_update current c) (je_meanwhile E (jsConfig s)) = (f, q)"
    by fastforce
  then have s: "s' = s\<lparr>jsConfig := f\<rparr>" "r = (case q of Inl e \<Rightarrow> Some (JConfig e) | Inr _ \<Rightarrow> None)"
    using assms by (simp_all add: save_step_def)
  show ?thesis
  proof (cases q)
    case (Inl e)
    then show ?thesis using u s Update_failed by auto
  next
    case (Inr d)
    then have "d = found\<lparr>cfHive := cfHive c, cfIdentity := cfIdentity c, cfKnownHosts := cfKnownHosts c\<rparr>"
      if "join_update current c found = Inr d" for found
      using that by (auto simp: join_update_def split: if_splits)
    then show ?thesis using u s Inr Update_done [OF u [unfolded Inr]] by auto
  qed
qed

lemma joined_update: "join_update current c found = Inr d \<Longrightarrow> cfHive c \<noteq> [] \<Longrightarrow> cfIdentity c \<noteq> [] \<Longrightarrow> cfKnownHosts c \<noteq> [] \<Longrightarrow>
    joined_config current found c"
  by (auto simp: join_update_def joined_config_def split: if_splits)

lemma accept_done:
  assumes "accept_invitation L E dir current raw s = (s', tr, r)"
  obtains (failed) e where "r = Inl e" "early e" "tr = []" "files_kept s s'"
      "jsConfig s' = jsConfig s" "jsSsh s' = jsSsh s"
  | (contacted) v a where "parseInvitation L (je_iv E) raw = Inr v" "parse_authorized L (ivHostKey v) = Some a" "files_kept s s'"
      "jsSsh s' = jsSsh s" "\<And>x. x \<in> set tr \<Longrightarrow> pinned E current v (akey a) x"
      "cfHive current = [] \<or> cfHive current = ivHive v \<or> \<not> cfEnabled current \<and> cfRules current = []"
      "\<And>e. r = Inl e \<Longrightarrow> early e \<and> (jsConfig s' = jsConfig s \<or> jsConfig s' = je_meanwhile E (jsConfig s))"
      "\<And>c. r = Inr c \<Longrightarrow> pinned E current v (akey a) (listing c s') \<and> accepted_by_hive E (ivToken v) \<and>
         (\<exists>found. Load (je_cf E) (je_host E) (je_meanwhile E (jsConfig s)) = Inr found \<and> joined_config current found c \<and>
            (let saved = found\<lparr>cfHive := cfHive c, cfIdentity := cfIdentity c, cfKnownHosts := cfKnownHosts c\<rparr> in
             Validate saved = None \<and> jsConfig s' = Contents (cf_enc (je_cf E) saved)))"
proof (cases "parseInvitation L (je_iv E) raw")
  case (Inl e)
  then show ?thesis using assms failed by (auto simp: accept_invitation_def early_def)
next
  case v: (Inr v)
  let ?sharing = "cfHive current \<noteq> [] \<and> cfHive current \<noteq> ivHive v \<and> (cfEnabled current \<or> cfRules current \<noteq> [])"
  obtain s1 r1 where i: "identity_step E dir (current\<lparr>cfHive := ivHive v\<rparr>) s = (s1, r1)" by fastforce
  note I = identity_keeps [OF i]
  consider ?sharing | e where "\<not> ?sharing" "r1 = Inl e" | c1 where "\<not> ?sharing" "r1 = Inr c1" by (cases r1) auto
  then show ?thesis
  proof cases
    case 1
    then show ?thesis using assms v failed by (auto simp: accept_invitation_def early_def)
  next
    case 2
    then show ?thesis using assms v i I early_steps(1) [OF i [unfolded 2(2)]] failed by (auto simp: accept_invitation_def)
  next
    case 3
    note C = identity_done [OF i [unfolded 3(2)]]
    obtain s2 r2 where t: "trust_step L E dir current c1 v s1 = (s2, r2)" by fastforce
    note T = trust_done [OF t]
    have k: "files_kept s s2" using I T files_kept_trans by blast
    show ?thesis
    proof (cases r2)
      case (Inl e)
      then show ?thesis
        using assms v i 3 t I T k early_steps(2) [OF t [unfolded Inl]] failed by (auto simp: accept_invitation_def)
    next
      case (Inr c2)
      then obtain a where a: "parse_authorized L (ivHostKey v) = Some a"
        and c2: "c2 = c1\<lparr>cfKnownHosts := cfKnownHosts c2\<rparr>" "cfKnownHosts c2 \<noteq> []"
        and f: "jsFiles s2 (cfKnownHosts c2) = Contents (trust_entry E v (akey a)) \<or>
          cfHive current = ivHive v \<and> cfKnownHosts c2 = cfKnownHosts current \<and> vouches E v (akey a) (jsFiles s2 (cfKnownHosts c2)) \<or>
          cfHive current \<noteq> ivHive v \<and> cfKnownHosts c2 = cfKnownHosts current"
        using T by blast
      have h: "cfHive c2 = ivHive v" "cfIdentity c2 \<noteq> []" using C by (subst c2(1), simp)+
      have pin: "pinned E current v (akey a) x"
        if "contact_config x = c2" "contact_trust x = jsFiles s2 (cfKnownHosts c2)"
          "contact_token x = None \<or> contact_token x = Some (ivToken v)" for x
        using that f h unfolding pinned_def by auto
      obtain tr0 e0 where n: "enroll_step E c2 (ivToken v) s2 = (tr0, e0)" by fastforce
      have trace: "pinned E current v (akey a) x" if "x \<in> set tr0" for x
        using pin enroll_contacts [OF n that] by blast
      obtain s3 e3 where w: "save_step E current c2 s2 = (s3, e3)" by fastforce
      note W = save_done [OF w]
      have k3: "files_kept s s3" using k W files_kept_trans by blast
      have res: "(s', tr, r) = (case e0 of Some e \<Rightarrow> (s2, tr0, Inl e)
          | None \<Rightarrow> (case e3 of Some e \<Rightarrow> (s3, tr0, Inl e) | None \<Rightarrow> (s3, tr0, Inr c2)))"
        using assms v i 3 t Inr n w by (auto simp: accept_invitation_def split: option.split)
      show ?thesis
      proof (rule contacted [OF v a])
        show "files_kept s s'" "jsSsh s' = jsSsh s" using res k k3 I T W by (auto split: option.splits)
        show "pinned E current v (akey a) x" if "x \<in> set tr" for x using trace that res by (auto split: option.splits)
        show "cfHive current = [] \<or> cfHive current = ivHive v \<or> \<not> cfEnabled current \<and> cfRules current = []"
          using 3(1) by blast
        show "early e \<and> (jsConfig s' = jsConfig s \<or> jsConfig s' = je_meanwhile E (jsConfig s))" if "r = Inl e" for e
          using that res I T W early_steps(3) [of E c2 "ivToken v" s2 tr0 e] early_steps(4) [of E current c2 s2 s3 e] n w
          by (auto split: option.splits)
        show "pinned E current v (akey a) (listing c s') \<and> accepted_by_hive E (ivToken v) \<and>
          (\<exists>found. Load (je_cf E) (je_host E) (je_meanwhile E (jsConfig s)) = Inr found \<and> joined_config current found c \<and>
            (let saved = found\<lparr>cfHive := cfHive c, cfIdentity := cfIdentity c, cfKnownHosts := cfKnownHosts c\<rparr> in
             Validate saved = None \<and> jsConfig s' = Contents (cf_enc (je_cf E) saved)))" if "r = Inr c" for c
        proof -
          have c: "c = c2" "s' = s3" "e0 = None" "e3 = None" using that res by (auto split: option.splits)
          have "pinned E current v (akey a) (listing c s')" using pin W by (simp add: c listing_def)
          moreover have "accepted_by_hive E (ivToken v)" using enroll_accepted n c by simp
          moreover have "cfHive c2 \<noteq> []" using h parsed_hive [OF v] by simp
          ultimately show ?thesis using W I T c h c2(2) joined_update [of current c2] unfolding Let_def by fastforce
        qed
      qed
    qed
  qed
qed

lemma finish_done:
  assumes "finish_join L E dir c s = (s', tr, r)"
  shows "tr = [listing c s] \<and> files_kept s s' \<and> jsConfig s' = jsConfig s \<and> (\<forall>e. r = Inl e \<longrightarrow> \<not> early e)"
  using assms by (auto simp: finish_join_def early_def split: if_splits prod.splits option.splits)

section \<open>Joining\<close>

text \<open>Every run of \<open>join\<close>: nothing is contacted; or the saved connection is used; or an invitation was accepted or not.\<close>

lemma join_cases:
  assumes "join_cmd L E raw s = (s', tr, r)"
  obtains (none) e where "s' = s" "tr = []" "r = Inl e" "early e"
  | (saved) dir current where "je_dir E = Some dir" "raw = []" "Load (je_cf E) (je_host E) (jsConfig s) = Inr current"
      "cfHive current \<noteq> []" "cfIdentity current \<noteq> []" "cfKnownHosts current \<noteq> []"
      "finish_join L E dir current s = (s', tr, r)"
  | (rejected) dir current e where "je_dir E = Some dir" "raw \<noteq> []" "Load (je_cf E) (je_host E) (jsConfig s) = Inr current"
      "accept_invitation L E dir current raw s = (s', tr, Inl e)" "r = Inl e"
  | (joined) dir current c s1 tr1 tr2 where "je_dir E = Some dir" "raw \<noteq> []"
      "Load (je_cf E) (je_host E) (jsConfig s) = Inr current"
      "accept_invitation L E dir current raw s = (s1, tr1, Inr c)" "finish_join L E dir c s1 = (s', tr2, r)" "tr = tr1 @ tr2"
  using assms by (auto simp: join_cmd_def early_def split: option.splits if_splits sum.splits prod.splits)


text \<open>
  C13. What a join leaves on disk. No file that was there, a key or a trust file, is changed. The configuration stays
  as it is, or as another program has changed it meanwhile, unless the Hive accepted the device, by listing its
  sessions for it or by enrolling it; then exactly the address, the identity and the trust file are replaced in a
  configuration whose connection and sharing nobody had changed since it was read: joining never starts, stops or
  extends sharing. An error before that point leaves it alone.
\<close>

theorem join_saves:
  assumes "join_cmd L E raw s = (s', tr, r)"
  shows "(\<forall>p. jsFiles s p \<noteq> NoFile \<longrightarrow> jsFiles s' p = jsFiles s p) \<and>
    (jsConfig s' = jsConfig s \<or> jsConfig s' = je_meanwhile E (jsConfig s) \<or>
     (\<exists>current v c found. Load (je_cf E) (je_host E) (jsConfig s) = Inr current \<and> parseInvitation L (je_iv E) raw = Inr v \<and>
        accepted_by_hive E (ivToken v) \<and> cfHive c = ivHive v \<and>
        Load (je_cf E) (je_host E) (je_meanwhile E (jsConfig s)) = Inr found \<and> joined_config current found c \<and>
        jsConfig s' = Contents (cf_enc (je_cf E)
          (found\<lparr>cfHive := cfHive c, cfIdentity := cfIdentity c, cfKnownHosts := cfKnownHosts c\<rparr>)))) \<and>
    (\<forall>e. r = Inl e \<and> early e \<longrightarrow> jsConfig s' = jsConfig s \<or> jsConfig s' = je_meanwhile E (jsConfig s))"
proof (cases rule: join_cases [OF assms, case_names none saved rejected joined])
  case (saved dir current)
  then show ?thesis using finish_done [OF saved(7)] by (simp add: files_kept_def)
next
  case (rejected dir current e)
  show ?thesis
    by (cases rule: accept_done [OF rejected(4), case_names failed contacted]) (use rejected in \<open>auto simp: files_kept_def\<close>)
next
  case (joined dir current c s1 tr1 tr2)
  note F = finish_done [OF joined(5)]
  show ?thesis
  proof (cases rule: accept_done [OF joined(4), case_names failed contacted])
    case (contacted v a)
    have k: "files_kept s s'" using contacted(3) F files_kept_trans by blast
    obtain found where f: "Load (je_cf E) (je_host E) (je_meanwhile E (jsConfig s)) = Inr found" "joined_config current found c"
      "jsConfig s1 = Contents (cf_enc (je_cf E)
         (found\<lparr>cfHive := cfHive c, cfIdentity := cfIdentity c, cfKnownHosts := cfKnownHosts c\<rparr>))"
      using contacted(8) by (auto simp: Let_def)
    have "cfHive c = ivHive v" "accepted_by_hive E (ivToken v)" using contacted(8) by (auto simp: pinned_def listing_def)
    then show ?thesis using k f F contacted(1) joined(3) unfolding files_kept_def by metis
  qed simp
qed simp

text \<open>
  C14. A join can be finished later. When it has failed after the connection was saved, because the Hive did not
  answer, the running Bee did not reload, or Herdr could not be set up, then running it again without the
  invitation succeeds as soon as these work, and shows no token. The saved configuration must be within the
  size that is read, and hold texts that its encoding keeps.
\<close>

theorem join_resumes:
  assumes first: "join_cmd L E raw s = (s', tr, Inl e)" and late: "e = JUnreachable \<or> e = JReload \<or> e = JMachine m"
    and J: "cf_codec_ok (je_cf E) plain"
    and fits: "\<And>d. jsConfig s' = Contents (cf_enc (je_cf E) d) \<Longrightarrow> length (cf_enc (je_cf E) d) \<le> 65536 \<and> plain d"
    and same: "je_dir E' = je_dir E" "je_cf E' = je_cf E" "je_host E' = je_host E"
    and works: "je_mkdir E'" "je_lock E' = LockTaken" "je_directory E' 1" "je_status E' \<Longrightarrow> je_reload E'"
    and herdr: "\<And>dir c. je_dir E = Some dir \<Longrightarrow> Load (je_cf E) (je_host E) (jsConfig s') = Inr c \<Longrightarrow>
      \<exists>f cmds asked. ensureMachine L (je_machine E') dir c (jsSsh s') = (f, cmds, asked, None)"
  shows "\<exists>s'' x out. join_cmd L E' [] s' = (s'', [x], Inr out) \<and> contact_token x = None \<and> jsConfig s'' = jsConfig s'"
proof -
  have "\<not> early e" using late by (auto simp: early_def)
  have "\<exists>dir c. je_dir E = Some dir \<and> Load (je_cf E) (je_host E) (jsConfig s') = Inr c \<and>
      cfHive c \<noteq> [] \<and> cfIdentity c \<noteq> [] \<and> cfKnownHosts c \<noteq> []"
  proof (cases rule: join_cases [OF first, case_names none saved rejected joined])
    case (saved dir current)
    then show ?thesis using finish_done [OF saved(7)] by auto
  next
    case (rejected dir current e')
    show ?thesis
      by (cases rule: accept_done [OF rejected(4), case_names failed contacted]) (use rejected(5) \<open>\<not> early e\<close> in auto)
  next
    case (joined dir current c s1 tr1 tr2)
    show ?thesis
    proof (cases rule: accept_done [OF joined(4), case_names failed contacted])
      case (contacted v a)
      obtain found where f: "joined_config current found c"
        and d: "jsConfig s1 = Contents (cf_enc (je_cf E)
          (found\<lparr>cfHive := cfHive c, cfIdentity := cfIdentity c, cfKnownHosts := cfKnownHosts c\<rparr>))"
        and v: "Validate (found\<lparr>cfHive := cfHive c, cfIdentity := cfIdentity c, cfKnownHosts := cfKnownHosts c\<rparr>) = None"
        using contacted(8) by (auto simp: Let_def)
      let ?d = "found\<lparr>cfHive := cfHive c, cfIdentity := cfIdentity c, cfKnownHosts := cfKnownHosts c\<rparr>"
      have "jsConfig s' = Contents (cf_enc (je_cf E) ?d)" using finish_done [OF joined(5)] d by simp
      moreover from fits [OF this] have "length (cf_enc (je_cf E) ?d) \<le> 65536" "plain ?d" by blast+
      ultimately have "Load (je_cf E) (je_host E) (jsConfig s') = Inr ?d"
        using v J by (simp add: Load_def max_config_def cf_codec_ok_def)
      then show ?thesis using f joined(1) by (auto simp: joined_config_def)
    qed simp
  qed (use \<open>\<not> early e\<close> in auto)
  then obtain dir c where c: "je_dir E = Some dir" "Load (je_cf E) (je_host E) (jsConfig s') = Inr c"
    "cfHive c \<noteq> []" "cfIdentity c \<noteq> []" "cfKnownHosts c \<noteq> []" by blast
  obtain f cmds asked where "ensureMachine L (je_machine E') dir c (jsSsh s') = (f, cmds, asked, None)"
    using herdr [OF c(1,2)] by blast
  then show ?thesis using c same works by (simp add: join_cmd_def finish_join_def listing_def)
qed

section \<open>A join that has to be finished\<close>

definition sample_jcodec :: cfcodec where
  "sample_jcodec = \<lparr>cf_dec = (\<lambda>d b. case split_on CHR 0x80 b of
       [h, i, k] \<Rightarrow> Some ((default_config ''pc'')\<lparr>cfHive := h, cfIdentity := i, cfKnownHosts := k\<rparr>, True) | _ \<Rightarrow> None),
     cf_enc = (\<lambda>c. cfHive c @ CHR 0x80 # cfIdentity c @ CHR 0x80 # cfKnownHosts c)\<rparr>"

definition sample_jenv :: jenv where
  "sample_jenv = \<lparr>je_dir = Some ''/d'', je_mkdir = True, je_lock = LockTaken, je_host = ''pc'', je_cf = sample_jcodec,
     je_iv = sample_ivcodec, je_private = (\<lambda>_. True), je_generate = Some ''pem'', je_line = (\<lambda>h k. h @ CHR '' '' # k),
     je_verify = (\<lambda>_ _ _ _. False), je_write = (\<lambda>_. True), je_directory = (\<lambda>n. n = 0), je_dialed = True,
     je_answer = None, je_meanwhile = (\<lambda>f. f), je_status = False, je_reload = False, je_machine = sample_menv\<rparr>"

definition sample_before :: config where
  "sample_before = (default_config ''pc'')\<lparr>cfIdentity := ''/d/k''\<rparr>"

definition sample_jstate :: jstate where
  "sample_jstate = \<lparr>jsConfig = Contents ([CHR 0x80] @ ''/d/k'' @ [CHR 0x80]), jsFiles = (\<lambda>_. NoFile), jsSsh = sample_sshfs\<rparr>"

definition sample_v :: invitation where
  "sample_v = \<lparr>ivVersion = 1, ivHive = ''h:22'', ivHostKey = ''ssh-alice'', ivToken = sample_secret\<rparr>"

definition sample_after :: config where
  "sample_after = (default_config ''pc'')\<lparr>cfHive := ''h:22'', cfIdentity := ''/d/k'', cfKnownHosts := Join_path ''/d'' (trust_name sample_lib sample_v)\<rparr>"

definition sample_half :: jstate where
  "sample_half = sample_jstate\<lparr>jsFiles := (\<lambda>_. NoFile)(cfKnownHosts sample_after := Contents (''h:22 alice'' @ [newline])),
     jsConfig := Contents (cf_enc sample_jcodec sample_after)\<rparr>"

lemma sample_load: "Load sample_jcodec ''pc'' (jsConfig sample_jstate) = Inr sample_before"
proof -
  have "split_on CHR 0x80 ([CHR 0x80] @ ''/d/k'' @ [CHR 0x80]) = [[], ''/d/k'', []]" by simp
  then show ?thesis
    by (simp add: Load_def sample_jstate_def sample_jcodec_def sample_before_def default_config_def max_config_def Validate_def)
qed

lemma sample_join: "join_cmd sample_lib sample_jenv sample_invitation sample_jstate =
    (sample_half, [Listing sample_after (Contents (''h:22 alice'' @ [newline])), Listing sample_after (Contents (''h:22 alice'' @ [newline]))],
     Inl JUnreachable)"
proof -
  let ?path = "Join_path ''/d'' (trust_name sample_lib sample_v)" and ?entry = "''h:22 alice'' @ [newline]"
  let ?s = "sample_jstate\<lparr>jsFiles := (\<lambda>_. NoFile)(?path := Contents ?entry)\<rparr>"
  let ?c = "sample_before\<lparr>cfHive := ''h:22''\<rparr>"
  have v: "parseInvitation sample_lib sample_ivcodec sample_invitation = Inr sample_v"
    using sample_parsed by (simp add: sample_v_def)
  have env: "je_dir sample_jenv = Some ''/d''" "je_mkdir sample_jenv" "je_lock sample_jenv = LockTaken" "je_host sample_jenv = ''pc''"
    "je_cf sample_jenv = sample_jcodec" "je_iv sample_jenv = sample_ivcodec" "\<not> je_directory sample_jenv (Suc 0)"
    "cfHive sample_before = []" "ivHive sample_v = ''h:22''" "jsFiles sample_half (cfKnownHosts sample_after) = Contents ?entry"
    by (simp_all add: sample_jenv_def sample_before_def default_config_def sample_v_def sample_half_def sample_after_def)
  have n: "sample_invitation \<noteq> []" by (simp add: sample_invitation_def encodeInvitation_def)
  have i: "identity_step sample_jenv ''/d'' ?c sample_jstate = (sample_jstate, Inr ?c)"
    by (simp add: identity_step_def sample_before_def)
  have a: "parse_authorized sample_lib (ivHostKey sample_v) = Some \<lparr>akey = ''alice'', acert = False, aopts = [], arest = []\<rparr>"
    by (simp add: sample_lib_def sample_v_def)
  have t: "trust_step sample_lib sample_jenv ''/d'' sample_before ?c sample_v sample_jstate = (?s, Inr sample_after)"
    by (simp add: trust_step_def a Let_def sample_before_def sample_after_def default_config_def)
      (simp add: sample_v_def sample_jenv_def sample_jstate_def trust_entry_def)
  have e: "enroll_step sample_jenv sample_after token ?s = ([Listing sample_after (Contents ?entry)], None)" for token
    by (simp add: enroll_step_def listing_def sample_jenv_def sample_after_def)
  have w: "save_step sample_jenv sample_before sample_after ?s = (sample_half, None)"
  proof -
    have "Load sample_jcodec ''pc'' (jsConfig ?s) = Inr sample_before" using sample_load by simp
    moreover have "join_update sample_before sample_after sample_before = Inr sample_after"
      by (simp add: join_update_def sample_before_def sample_after_def default_config_def)
    moreover have "Validate sample_after = None" by (simp add: Validate_def sample_after_def default_config_def)
    ultimately show ?thesis
      by (simp add: save_step_def Update_cfg_def sample_jenv_def sample_half_def sample_after_def)
  qed
  show ?thesis
    using sample_load n i t e w v env
    by (simp add: join_cmd_def accept_invitation_def finish_join_def listing_def)
qed


lemma join_saves_witness:
  "jsConfig sample_half \<noteq> jsConfig sample_jstate \<and>
   (\<exists>v. parseInvitation sample_lib sample_ivcodec sample_invitation = Inr v \<and> accepted_by_hive sample_jenv (ivToken v))"
proof -
  have d: "jsConfig sample_half \<noteq> jsConfig sample_jstate"
    by (simp add: sample_half_def sample_jstate_def sample_jcodec_def sample_after_def)
  moreover have "je_meanwhile sample_jenv f = f" "je_iv sample_jenv = sample_ivcodec" for f by (simp_all add: sample_jenv_def)
  ultimately show ?thesis using join_saves [OF sample_join] by auto
qed

text \<open>A connection saved earlier, and a Hive that is back.\<close>

definition sample_saved_codec :: cfcodec where
  "sample_saved_codec = \<lparr>cf_dec = (\<lambda>d b. Some (sample_connection\<lparr>cfName := ''pc''\<rparr>, True)),
     cf_enc = (\<lambda>c. if c = sample_connection then ''saved'' else [])\<rparr>"

definition sample_saved :: jstate where
  "sample_saved = \<lparr>jsConfig = Contents ''saved'', jsFiles = (\<lambda>_. NoFile), jsSsh = sample_sshfs\<rparr>"

lemma join_resumes_witness:
  "\<exists>s'' x out. join_cmd sample_lib (sample_jenv\<lparr>je_cf := sample_saved_codec, je_directory := \<lambda>_. True\<rparr>) [] sample_saved =
     (s'', [x], Inr out) \<and> contact_token x = None"
proof -
  let ?E = "sample_jenv\<lparr>je_cf := sample_saved_codec\<rparr>"
  let ?E' = "sample_jenv\<lparr>je_cf := sample_saved_codec, je_directory := \<lambda>_. True\<rparr>"
  have c: "sample_connection\<lparr>cfName := ''pc''\<rparr> = sample_connection" by (simp add: sample_connection_def default_config_def)
  have load: "Load sample_saved_codec ''pc'' (jsConfig sample_saved) = Inr sample_connection"
    by (simp add: Load_def sample_saved_codec_def sample_saved_def max_config_def c)
      (simp add: Validate_def sample_connection_def default_config_def)
  have first: "join_cmd sample_lib ?E [] sample_saved = (sample_saved, [listing sample_connection sample_saved], Inl JUnreachable)"
    using load by (simp add: join_cmd_def finish_join_def sample_jenv_def sample_connection_def)
  have J: "cf_codec_ok (je_cf ?E) (\<lambda>d. d = sample_connection)"
    by (simp add: cf_codec_ok_def sample_saved_codec_def c)
  have "\<exists>f cmds asked. ensureMachine sample_lib (je_machine ?E') dir d (jsSsh sample_saved) = (f, cmds, asked, None)"
    if "je_dir ?E = Some dir" "Load (je_cf ?E) (je_host ?E) (jsConfig sample_saved) = Inr d" for dir d
    using that load sample_ensure by (simp add: sample_jenv_def sample_saved_def)
  moreover have "length (cf_enc (je_cf ?E) d) \<le> 65536 \<and> d = sample_connection"
    if "jsConfig sample_saved = Contents (cf_enc (je_cf ?E) d)" for d
    using that by (simp add: sample_saved_def sample_saved_codec_def split: if_splits)
  ultimately show ?thesis
    using join_resumes [OF first _ J, where E' = ?E'] by (auto simp: sample_jenv_def)
qed

end
