(* ===== verification/Panel.thy ===== *)
theory Panel
  imports BeePublisher
begin

text \<open>
  The settings panel (\<open>bee/internal/app/tui.go\<close>, \<open>tui_hive.go\<close> and the mouse handler of \<open>tui_view.go\<close>): a state
  that every message updates, and commands that run beside it and send a message when they end. What is drawn
  is not modelled. The text inputs are a library's: a field is its value, \<open>F i v\<close> is the value of field \<open>i\<close>
  after \<open>SetValue(v)\<close>, and an event carries what the library makes of the key or the paste. An index out of range
  panics in Go; the result is then \<open>None\<close>. Times are milliseconds.
\<close>

section \<open>State\<close>

record pshare =
  psLabel :: bytes
  psName :: bytes

record pstatus =
  stConnected :: bool
  stShares :: "pshare list"
  stError :: bytes

record psnapshot =
  snConfig :: config
  snStatus :: pstatus
  snSessions :: "hsession list"
  snErr :: "bytes option"
  snSessionsErr :: bool
  snEpoch :: nat
  snJoined :: bool

record hive_target =
  htAddress :: bytes
  htIdentity :: bytes
  htKnown :: bytes

record hive_dir =
  hdTarget :: hive_target
  hdSeq :: nat
  hdShares :: "pshare list"
  hdErr :: bool
  hdLoading :: bool
  hdLoaded :: bool
  hdNext :: nat

datatype notice = Note bytes | Invalid cferror

record panel =
  pmSnap :: psnapshot
  pmHive :: hive_dir
  pmFields :: "bytes list"
  pmDirtyFields :: "bool list"
  pmDirty :: bool
  pmPage :: int
  pmFocus :: int
  pmEpoch :: nat
  pmReady :: bool
  pmRefreshing :: bool
  pmBusy :: bool
  pmEditing :: bool
  pmAdvanced :: bool
  pmRestart :: bool
  pmMessage :: notice
  pmMessageError :: bool

text \<open>What is under way beside the panel; the focus and the blinking of a text field are not.\<close>

datatype pcmd = CRead nat | CExec "bytes list list" | CTimer | CHive hive_target nat | CQuit

record done_msg =
  dnErr :: "bytes option"
  dnUpdate :: bool
  dnSaved :: bool
  dnJoined :: bool

datatype pevent =
    Plain
  | Tick
  | Snapped psnapshot
  | HiveListed hive_target nat "pshare list" bool
  | Ended done_msg
  | Click int int bytes
  | Key bytes "bytes \<Rightarrow> bytes"
  | Paste "bytes \<Rightarrow> bytes"
  | Input "bytes \<Rightarrow> bytes"

definition newPanel :: panel where
  "newPanel =
     \<lparr>pmSnap = \<lparr>snConfig = \<lparr>cfVersion = 0, cfHive = [], cfIdentity = [], cfKnownHosts = [], cfName = [], cfEnabled = False,
                  cfRules = []\<rparr>,
        snStatus = \<lparr>stConnected = False, stShares = [], stError = []\<rparr>, snSessions = [], snErr = None,
        snSessionsErr = False, snEpoch = 0, snJoined = False\<rparr>,
      pmHive = \<lparr>hdTarget = \<lparr>htAddress = [], htIdentity = [], htKnown = []\<rparr>, hdSeq = 0, hdShares = [], hdErr = False, hdLoading = False, hdLoaded = False, hdNext = 0\<rparr>,
      pmFields = replicate 5 [], pmDirtyFields = replicate 5 False, pmDirty = False, pmPage = 0, pmFocus = 0, pmEpoch = 0,
      pmReady = False, pmRefreshing = False, pmBusy = False, pmEditing = False, pmAdvanced = False, pmRestart = False,
      pmMessage = Note [], pmMessageError = False\<rparr>"

abbreviation pmConfig :: "panel \<Rightarrow> config" where
  "pmConfig m \<equiv> snConfig (pmSnap m)"

abbreviation pmSessions :: "panel \<Rightarrow> hsession list" where
  "pmSessions m \<equiv> snSessions (pmSnap m)"

section \<open>Operations\<close>

definition sessionChoices :: "hsession list \<Rightarrow> rule list \<Rightarrow> hsession list" where
  "sessionChoices live rules =
     foldl (\<lambda>out r. if rSession r \<in> hsName ` set out then out
         else out @ [\<lparr>hsName = rSession r, hsRunning = False, hsSocket = []\<rparr>]) live rules"

text \<open>The field under the focus, or -1.\<close>

definition fieldIndex :: "panel \<Rightarrow> int" where
  "fieldIndex m =
     (if pmPage m \<noteq> 0 then -1
      else if pmAdvanced m then (if pmFocus m < 4 then pmFocus m else -1)
      else if pmFocus m = 0 then 4 else if pmFocus m = 1 then 1 else -1)"

text \<open>\<open>m.fields[m.fieldIndex()]\<close>: its number, if it is one.\<close>

definition current_field :: "panel \<Rightarrow> nat option" where
  "current_field m = (if 0 \<le> fieldIndex m \<and> fieldIndex m < int (length (pmFields m)) then Some (nat (fieldIndex m)) else None)"

definition itemCount :: "panel \<Rightarrow> int" where
  "itemCount m =
     (if pmPage m = 2 then 1 else if pmPage m = 0 then (if pmAdvanced m then 5 else 4) else int (length (pmSessions m)) + 1)"

definition panel_refresh :: "panel \<Rightarrow> panel \<times> pcmd list" where
  "panel_refresh m = (if pmRefreshing m \<or> pmBusy m then (m, []) else (m\<lparr>pmRefreshing := True\<rparr>, [CRead (pmEpoch m)]))"

definition ellipsis :: bytes where "ellipsis = [CHR 0xE2, CHR 0x80, CHR 0xA6]"

definition panel_run :: "bytes list list \<Rightarrow> panel \<Rightarrow> panel \<times> pcmd list" where
  "panel_run commands m =
     (if pmBusy m \<or> \<not> pmReady m then (m, [])
      else
        (let op = hd (hd commands) in
         (m\<lparr>pmBusy := True, pmEpoch := pmEpoch m + 1, pmMessageError := False,
            pmMessage := Note ((if op = ''update'' then ''Downloading update. Sharing stays online until activation''
              else if op = ''join'' then ''Joining Hive and connecting Herdr'' else ''Saving changes'') @ ellipsis)\<rparr>,
          [CExec commands])))"

text \<open>A field that was changed, or is being edited, keeps its value.\<close>

definition sync_field :: "(nat \<Rightarrow> bytes \<Rightarrow> bytes) \<Rightarrow> nat \<Rightarrow> bytes \<Rightarrow> panel \<Rightarrow> panel" where
  "sync_field F i v m =
     (if \<not> pmDirtyFields m ! i \<and> \<not> (pmEditing m \<and> fieldIndex m = int i) then m\<lparr>pmFields := (pmFields m)[i := F i v]\<rparr> else m)"

definition syncFields :: "(nat \<Rightarrow> bytes \<Rightarrow> bytes) \<Rightarrow> panel \<Rightarrow> panel" where
  "syncFields F m =
     sync_field F 2 (cfIdentity (pmConfig m)) (sync_field F 1 (cfName (pmConfig m)) (sync_field F 0 (cfHive (pmConfig m)) m))"

text \<open>\<open>%\<close> truncates, \<open>mod\<close> does not; they agree here, where the focus is not negative.\<close>

definition panel_move :: "int \<Rightarrow> panel \<Rightarrow> panel" where
  "panel_move delta m = (if pmPage m = 2 then m else m\<lparr>pmFocus := (pmFocus m + delta + itemCount m) mod itemCount m\<rparr>)"

definition value_of :: "panel \<Rightarrow> nat \<Rightarrow> bytes" where
  "value_of m i = trim_space (pmFields m ! i)"

definition joinFromPanel :: "panel \<Rightarrow> panel \<times> pcmd list" where
  "joinFromPanel m =
     (let join = [''join'', value_of m 4]; name = value_of m 1 in
      if pmDirtyFields m ! 1 \<and> name \<noteq> cfName (pmConfig m) then
        (case Validate ((pmConfig m)\<lparr>cfName := name\<rparr>) of
           Some e \<Rightarrow> (m\<lparr>pmMessage := Invalid e, pmMessageError := True\<rparr>, [])
         | None \<Rightarrow> panel_run [join, [''name'', name]] m)
      else panel_run [join] m)"

definition panel_toggle :: "panel \<Rightarrow> panel \<times> pcmd list" where
  "panel_toggle m = panel_run [[if cfEnabled (pmConfig m) then ''disable'' else ''enable'']] m"

definition save_advanced :: "panel \<Rightarrow> bytes list list" where
  "save_advanced m =
     (let c = pmConfig m;
          v = (\<lambda>i old. if pmDirtyFields m ! i then value_of m i else old);
          hive = v 0 (cfHive c); name = v 1 (cfName c); identity = v 2 (cfIdentity c); token = v 3 [] in
      (if hive \<noteq> cfHive c \<or> identity \<noteq> cfIdentity c \<or> token \<noteq> []
       then [[''configure'', ''--hive'', hive, ''--identity'', identity] @ (if token \<noteq> [] then [''--token'', token] else [])]
       else []) @
      (if name \<noteq> cfName c then [[''name'', name]] else []))"

definition panel_save :: "panel \<Rightarrow> panel \<times> pcmd list" where
  "panel_save m =
     (if pmPage m \<noteq> 0 then (m, [])
      else if \<not> pmAdvanced m then
        (if pmFields m ! 4 = [] \<and> pmDirtyFields m ! 1 then panel_run [[''name'', value_of m 1]] m else joinFromPanel m)
      else if \<not> pmDirty m then (m, [])
      else if save_advanced m = [] then (m\<lparr>pmDirty := False, pmDirtyFields := replicate 5 False\<rparr>, [])
      else panel_run (save_advanced m) m)"

definition panel_activate :: "panel \<Rightarrow> (panel \<times> pcmd list) option" where
  "panel_activate m =
     (if pmPage m = 2 \<or> pmBusy m \<or> \<not> pmReady m then Some (m, [])
      else if pmPage m = 0 then
        (if \<not> pmAdvanced m \<and> pmFocus m = 3 then Some (m\<lparr>pmAdvanced := True, pmFocus := 0\<rparr>, [])
         else if fieldIndex m \<ge> 0 then
           (if current_field m = None then None else Some (m\<lparr>pmEditing := True\<rparr>, []))
         else if \<not> pmAdvanced m then Some (joinFromPanel m)
         else Some (panel_save m))
      else if pmFocus m = int (length (pmSessions m)) then Some (panel_toggle m)
      else if \<not> (0 \<le> pmFocus m \<and> pmFocus m < int (length (pmSessions m))) then None
      else
        (let s = pmSessions m ! nat (pmFocus m);
             op = (if hsName s \<in> rSession ` set (cfRules (pmConfig m)) then ''unshare'' else ''share'') in
         if op = ''share'' \<and> (\<not> hsRunning s \<or> snSessionsErr (pmSnap m))
         then Some (m\<lparr>pmMessage := Note ''Only running sessions can be shared.'', pmMessageError := True\<rparr>, [])
         else Some (panel_run [[op, hsName s]] m)))"

definition updateField :: "(bytes \<Rightarrow> bytes) \<Rightarrow> panel \<Rightarrow> panel option" where
  "updateField f m =
     (case current_field m of
        None \<Rightarrow> None
      | Some i \<Rightarrow>
          (let v = f (pmFields m ! i); m1 = m\<lparr>pmFields := (pmFields m)[i := v]\<rparr> in
           Some (if v \<noteq> pmFields m ! i then m1\<lparr>pmDirty := True, pmDirtyFields := (pmDirtyFields m)[i := True]\<rparr> else m1)))"

definition target_of :: "config \<Rightarrow> hive_target" where
  "target_of c = \<lparr>htAddress = cfHive c, htIdentity = cfIdentity c, htKnown = cfKnownHosts c\<rparr>"

definition refreshHive :: "nat \<Rightarrow> bool \<Rightarrow> panel \<Rightarrow> panel \<times> pcmd list" where
  "refreshHive now force m =
     (let target = target_of (pmConfig m);
          m1 = (if target \<noteq> hdTarget (pmHive m)
                then m\<lparr>pmHive := \<lparr>hdTarget = target, hdSeq = hdSeq (pmHive m) + 1, hdShares = [], hdErr = False,
                       hdLoading = False, hdLoaded = False, hdNext = 0\<rparr>\<rparr>
                else m) in
      if pmPage m1 \<noteq> 2 \<or> \<not> pmReady m1 \<or> pmBusy m1 \<or> hdLoading (pmHive m1) \<or> htAddress target = [] \<or> htIdentity target = [] \<or>
         htKnown target = [] \<or> (\<not> force \<and> now < hdNext (pmHive m1))
      then (m1, [])
      else (m1\<lparr>pmHive := (pmHive m1)\<lparr>hdLoading := True, hdSeq := hdSeq (pmHive m1) + 1\<rparr>\<rparr>,
            [CHive target (hdSeq (pmHive m1) + 1)]))"

section \<open>Messages\<close>

fun position_name :: "bytes \<Rightarrow> hsession list \<Rightarrow> nat option" where
  "position_name n [] = None"
| "position_name n (s # ss) = (if hsName s = n then Some 0 else map_option Suc (position_name n ss))"

definition selected_session :: "panel \<Rightarrow> bytes" where
  "selected_session m =
     (if pmPage m = 1 \<and> pmFocus m < int (length (pmSessions m)) then hsName (pmSessions m ! nat (pmFocus m)) else [])"

definition select_session :: "bytes \<Rightarrow> panel \<Rightarrow> panel" where
  "select_session n m =
     (case (if n = [] then None else position_name n (pmSessions m)) of None \<Rightarrow> m | Some i \<Rightarrow> m\<lparr>pmFocus := int i\<rparr>)"

definition show_snapshot :: "(nat \<Rightarrow> bytes \<Rightarrow> bytes) \<Rightarrow> bool \<Rightarrow> bytes \<Rightarrow> panel \<Rightarrow> panel" where
  "show_snapshot F failed selected m =
     (let m1 = (if failed then m\<lparr>pmMessage := Note [], pmMessageError := False\<rparr> else m);
          m2 = (syncFields F (select_session selected m1))\<lparr>pmReady := True\<rparr> in
      m2\<lparr>pmFocus := min (pmFocus m2) (itemCount m2 - 1)\<rparr>)"

definition on_snapshot :: "(nat \<Rightarrow> bytes \<Rightarrow> bytes) \<Rightarrow> psnapshot \<Rightarrow> panel \<Rightarrow> panel option" where
  "on_snapshot F msg m0 =
     (let m = m0\<lparr>pmRefreshing := False\<rparr> in
      if snEpoch msg \<noteq> pmEpoch m \<or> pmBusy m then Some m
      else if pmPage m = 1 \<and> pmFocus m < 0 then None
      else
        (case snErr msg of
           Some e \<Rightarrow> Some (m\<lparr>pmSnap := msg, pmReady := False, pmMessage := Note e, pmMessageError := True\<rparr>)
         | None \<Rightarrow> Some (show_snapshot F (snErr (pmSnap m) \<noteq> None) (selected_session m) (m\<lparr>pmSnap := msg\<rparr>))))"

definition on_hive :: "nat \<Rightarrow> hive_target \<Rightarrow> nat \<Rightarrow> pshare list \<Rightarrow> bool \<Rightarrow> panel \<Rightarrow> panel" where
  "on_hive now target seq listed failed m =
     (let h = pmHive m in
      if target = hdTarget h \<and> seq = hdSeq h then
        m\<lparr>pmHive := (let h1 = h\<lparr>hdLoading := False, hdErr := failed, hdNext := now + 5000\<rparr> in
            if failed then h1 else h1\<lparr>hdShares := listed, hdLoaded := True\<rparr>)\<rparr>
      else m)"

text \<open>The second component tells that the program ends at once.\<close>

definition on_done :: "(nat \<Rightarrow> bytes \<Rightarrow> bytes) \<Rightarrow> done_msg \<Rightarrow> panel \<Rightarrow> panel \<times> bool" where
  "on_done F msg m0 =
     (let m = m0\<lparr>pmBusy := False\<rparr> in
      case dnErr msg of
        Some e \<Rightarrow> (m\<lparr>pmMessage := Note e, pmMessageError := True\<rparr>, False)
      | None \<Rightarrow>
          (let m1 = m\<lparr>pmMessage := Note ''Changes saved.'', pmMessageError := False\<rparr>;
               m2 = (if dnSaved msg
                     then m1\<lparr>pmFields := (pmFields m1)[3 := F 3 [], 4 := F 4 []], pmDirty := False, pmDirtyFields := replicate 5 False\<rparr>
                     else m1);
               m3 = (if dnJoined msg then m2\<lparr>pmMessage := Note ''Joined Hive. See Hive in the Herdr sidebar.''\<rparr> else m2) in
           if dnUpdate msg then (m3\<lparr>pmRestart := True\<rparr>, True) else (m3, False)))"

text \<open>Leaving a field: \<open>m.fields[m.fieldIndex()].Blur()\<close>.\<close>

definition leave_field :: "panel \<Rightarrow> panel option" where
  "leave_field m = (if current_field m = None then None else Some (m\<lparr>pmEditing := False\<rparr>))"

text \<open>A click: \<open>Inl\<close> when it is ignored, else the panel and the commands.\<close>

definition on_click :: "int \<Rightarrow> int \<Rightarrow> bytes \<Rightarrow> panel \<Rightarrow> (unit + panel \<times> pcmd list) option" where
  "on_click target0 page session m0 =
     (let checked = target0 \<ge> 0 \<or> target0 = -3;
          found = position_name session (pmSessions m0);
          target = (if checked \<and> session \<noteq> [] then (case found of Some i \<Rightarrow> int i | None \<Rightarrow> target0) else target0) in
      if checked \<and> (page \<noteq> pmPage m0 \<or> (session \<noteq> [] \<and> found = None) \<or> target \<ge> itemCount m0) then Some (Inl ())
      else
        (case (if pmEditing m0 then leave_field m0 else Some m0) of
           None \<Rightarrow> None
         | Some m \<Rightarrow>
             if target = -1 \<or> target = -2 \<or> target = -5 then
               Some (Inr (m\<lparr>pmPage := (if target = -5 then 2 else - target - 1), pmFocus := 0\<rparr>, []))
             else if target = -3 then Some (Inr (panel_toggle m))
             else if target = -4 then Some (Inr (panel_run [[''update'']] m))
             else map_option Inr (panel_activate (m\<lparr>pmFocus := target\<rparr>))))"

definition on_key_editing :: "bytes \<Rightarrow> (bytes \<Rightarrow> bytes) \<Rightarrow> panel \<Rightarrow> (panel \<times> pcmd list) option" where
  "on_key_editing key f m =
     (if key = ''esc'' \<or> key = ''enter'' then map_option (\<lambda>m. (m, [])) (leave_field m)
      else if key = ''tab'' \<or> key = ''shift+tab'' then
        (case leave_field m of
           None \<Rightarrow> None
         | Some _ \<Rightarrow>
             (let m1 = panel_move (if key = ''shift+tab'' then -1 else 1) m; m2 = m1\<lparr>pmEditing := fieldIndex m1 \<ge> 0\<rparr> in
              if pmEditing m2 \<and> current_field m2 = None then None else Some (m2, [])))
      else if key = ''ctrl+s'' then map_option panel_save (leave_field m)
      else map_option (\<lambda>m. (m, [])) (updateField f m))"

definition goto_page :: "int \<Rightarrow> panel \<Rightarrow> panel" where
  "goto_page p m = m\<lparr>pmPage := p, pmFocus := 0\<rparr>"

text \<open>A key outside a field; \<open>None\<close> inside the result when the program ends.\<close>

definition on_key :: "nat \<Rightarrow> bytes \<Rightarrow> panel \<Rightarrow> (panel \<times> pcmd list) option option" where
  "on_key now key m =
     (if key = ''q'' then Some None
      else if key = ''esc'' then
        (if pmPage m = 0 \<and> pmAdvanced m then Some (Some (m\<lparr>pmAdvanced := False, pmFocus := 0\<rparr>, [])) else Some None)
      else if key = ''1'' then Some (Some (goto_page 0 m, []))
      else if key = ''2'' then Some (Some (goto_page 1 m, []))
      else if key = ''3'' then Some (Some (goto_page 2 m, []))
      else if key = ''left'' then Some (Some (goto_page ((pmPage m + 2) mod 3) m, []))
      else if key = ''right'' then Some (Some (goto_page ((pmPage m + 1) mod 3) m, []))
      else if key \<in> {''tab'', ''down'', ''j''} then Some (Some (panel_move 1 m, []))
      else if key \<in> {''shift+tab'', ''up'', ''k''} then Some (Some (panel_move (-1) m, []))
      else if key = ''enter'' \<or> key = ''space'' then map_option Some (panel_activate m)
      else if key = ''ctrl+s'' then Some (Some (panel_save m))
      else if key = ''s'' then Some (Some (panel_toggle m))
      else if key = ''u'' then Some (Some (panel_run [[''update'']] m))
      else if key = ''r'' then
        (case panel_refresh m of (m1, c1) \<Rightarrow> case refreshHive now True m1 of (m2, c2) \<Rightarrow> Some (Some (m2, c1 @ c2)))
      else Some (Some (m, [])))"

definition on_paste :: "(bytes \<Rightarrow> bytes) \<Rightarrow> panel \<Rightarrow> panel option" where
  "on_paste f m =
     (let m1 = (if \<not> pmEditing m \<and> pmReady m \<and> \<not> pmBusy m \<and> pmPage m = 0 \<and> \<not> pmAdvanced m \<and> pmFocus m = 0
                then m\<lparr>pmEditing := True\<rparr> else m) in
      if pmEditing m1 then updateField f m1 else Some m1)"

text \<open>\<open>Update\<close>. Every message but one that ends the program, or a click that is ignored, is followed by
  \<open>refreshHive\<close>.\<close>

definition after :: "nat \<Rightarrow> panel \<times> pcmd list \<Rightarrow> panel \<times> pcmd list" where
  "after now r = (case r of (m, cs) \<Rightarrow> case refreshHive now False m of (m1, cs1) \<Rightarrow> (m1, cs @ cs1))"

definition Update_panel :: "(nat \<Rightarrow> bytes \<Rightarrow> bytes) \<Rightarrow> nat \<Rightarrow> pevent \<Rightarrow> panel \<Rightarrow> (panel \<times> pcmd list) option" where
  "Update_panel F now ev m =
     (case ev of
        Plain \<Rightarrow> Some (after now (m, []))
      | Tick \<Rightarrow> (case panel_refresh m of (m1, cs) \<Rightarrow> Some (after now (m1, cs @ [CTimer])))
      | Snapped msg \<Rightarrow> map_option (\<lambda>m1. after now (m1, [])) (on_snapshot F msg m)
      | HiveListed target seq listed failed \<Rightarrow> Some (after now (on_hive now target seq listed failed m, []))
      | Ended msg \<Rightarrow>
          (case on_done F msg m of
             (m1, True) \<Rightarrow> Some (m1, [CQuit])
           | (m1, False) \<Rightarrow> Some (after now (panel_refresh m1)))
      | Click target page session \<Rightarrow>
          (case on_click target page session m of
             None \<Rightarrow> None
           | Some (Inl _) \<Rightarrow> Some (m, [])
           | Some (Inr r) \<Rightarrow> Some (after now r))
      | Key key f \<Rightarrow>
          if key = ''ctrl+c'' then Some (m, [CQuit])
          else if pmEditing m then map_option (after now) (on_key_editing key f m)
          else
            (case on_key now key m of
               None \<Rightarrow> None
             | Some None \<Rightarrow> Some (m, [CQuit])
             | Some (Some r) \<Rightarrow> Some (after now r))
      | Paste f \<Rightarrow> map_option (\<lambda>m1. after now (m1, [])) (on_paste f m)
      | Input f \<Rightarrow> if pmEditing m then map_option (\<lambda>m1. after now (m1, [])) (updateField f m) else Some (after now (m, [])))"

section \<open>The panel and what runs beside it\<close>

text \<open>Running commands one after the other, up to the first that fails, and the message at the end.\<close>

fun first_error :: "(bytes list \<Rightarrow> bytes option) \<Rightarrow> bytes list list \<Rightarrow> bytes option" where
  "first_error f [] = None"
| "first_error f (c # cs) = (case f c of Some e \<Rightarrow> Some e | None \<Rightarrow> first_error f cs)"

definition execute_panel :: "(bytes list \<Rightarrow> bytes option) \<Rightarrow> bytes list list \<Rightarrow> done_msg" where
  "execute_panel f commands =
     (let op = hd (hd commands) in
      case first_error f commands of
        Some e \<Rightarrow> \<lparr>dnErr = Some e, dnUpdate = False, dnSaved = False, dnJoined = False\<rparr>
      | None \<Rightarrow> \<lparr>dnErr = None, dnUpdate = length commands = 1 \<and> op = ''update'',
          dnSaved = op = ''join'' \<or> op = ''configure'' \<or> op = ''name'', dnJoined = op = ''join''\<rparr>)"

text \<open>Reading the configuration, the status and the sessions.\<close>

definition read_panel :: "nat \<Rightarrow> config \<times> bytes option \<Rightarrow> pstatus \<Rightarrow> bool \<Rightarrow> hsession list \<times> bool \<Rightarrow> psnapshot" where
  "read_panel epoch loaded status joined sessions =
     (case loaded of
        (c, Some e) \<Rightarrow> (pmSnap newPanel)\<lparr>snConfig := c, snErr := Some e, snEpoch := epoch\<rparr>
      | (c, None) \<Rightarrow>
          \<lparr>snConfig = c, snStatus = status, snSessions = sessionChoices (fst sessions) (cfRules c), snErr = None,
           snSessionsErr = snd sessions, snEpoch = epoch, snJoined = joined\<rparr>)"

text \<open>What the mouse handler of the view sends: a tab, a row, or the button of the second page. \<open>ends\<close> are the
  widths of the tabs, \<open>lines\<close> the lines at which the items start.\<close>

fun tab_at :: "int \<Rightarrow> int \<Rightarrow> int list \<Rightarrow> int list \<Rightarrow> int option" where
  "tab_at x offset (w # ws) (t # ts) = (if x \<ge> offset \<and> x < offset + w then Some t else tab_at x (offset + w + 1) ws ts)"
| "tab_at x offset _ _ = None"

fun row_at :: "panel \<Rightarrow> int \<Rightarrow> nat \<Rightarrow> int list \<Rightarrow> int option" where
  "row_at m row i [] = None"
| "row_at m row i (r # rs) =
     (if row = r \<or> (pmPage m = 0 \<and> (if pmAdvanced m then i < 4 else i < 2) \<and> row = r + 1) then Some (int i)
      else row_at m row (Suc i) rs)"

definition mouse_click :: "panel \<Rightarrow> int list \<Rightarrow> int list \<Rightarrow> int \<Rightarrow> int \<Rightarrow> int \<Rightarrow> int \<Rightarrow> pevent option option" where
  "mouse_click m widths lines tall offset x y =
     (case (if y = 3 then tab_at x 0 widths [-1, -2, -5]
            else if y \<ge> 5 \<and> y < 5 + tall then row_at m (y - 5 + offset) 0 lines else None) of
        None \<Rightarrow> Some None
      | Some target \<Rightarrow>
          if target \<ge> 0 \<and> pmPage m = 1 then
            (if target = int (length (pmSessions m)) then Some (Some (Click (-3) (pmPage m) []))
             else if target < int (length (pmSessions m))
             then Some (Some (Click target (pmPage m) (hsName (pmSessions m ! nat target))))
             else None)
          else Some (Some (Click target (pmPage m) [])))"

text \<open>What the user and the terminal send.\<close>

fun from_outside :: "pevent \<Rightarrow> bool" where
  "from_outside Plain = True"
| "from_outside (Click target page session) = (target \<ge> -5)"
| "from_outside (Key key f) = True"
| "from_outside (Paste f) = True"
| "from_outside (Input f) = True"
| "from_outside _ = False"

text \<open>A task ends with a message: a reading with some snapshot of its epoch, commands with their outcome.\<close>

inductive message :: "pcmd \<Rightarrow> pevent \<Rightarrow> bool" where
  timer: "message CTimer Tick"
| reading: "snEpoch sn = e \<Longrightarrow> message (CRead e) (Snapped sn)"
| executed: "message (CExec cs) (Ended (execute_panel f cs))"
| listed: "message (CHive t q) (HiveListed t q l failed)"

inductive_cases message_elims: "message CTimer ev" "message (CRead e) ev" "message (CExec cs) ev" "message (CHive t q) ev"
  "message CQuit ev"

inductive panel_run_step :: "(nat \<Rightarrow> bytes \<Rightarrow> bytes) \<Rightarrow> panel \<times> pcmd list \<Rightarrow> panel \<times> pcmd list \<Rightarrow> bool" for F where
  outside: "CQuit \<notin> set ts \<Longrightarrow> from_outside ev \<Longrightarrow> Update_panel F now ev m = Some (m', cs) \<Longrightarrow>
      panel_run_step F (m, ts) (m', ts @ cs)"
| inside: "CQuit \<notin> set ts \<Longrightarrow> x \<in> set ts \<Longrightarrow> message x ev \<Longrightarrow> Update_panel F now ev m = Some (m', cs) \<Longrightarrow>
      panel_run_step F (m, ts) (m', remove1 x ts @ cs)"

inductive panel_reachable :: "(nat \<Rightarrow> bytes \<Rightarrow> bytes) \<Rightarrow> panel \<times> pcmd list \<Rightarrow> bool" for F where
  start: "panel_reachable F (newPanel, [CTimer])"
| step: "panel_reachable F s \<Longrightarrow> panel_run_step F s s' \<Longrightarrow> panel_reachable F s'"

end
