(* ===== verification/PanelSafety.thy ===== *)
theory PanelSafety
  imports Panel
begin

text \<open>
  What holds of the settings panel in every state that it can reach. \<open>pm_ok\<close> is the invariant of the panel, \<open>tasks_ok\<close> that of
  the panel with what runs beside it; \<open>steady m r\<close> says that the outcome \<open>r\<close> of an operation keeps \<open>pm_ok\<close> and accounts
  for every task it starts. Each operation is shown to be steady, then each message, then every step.
\<close>

section \<open>The invariant\<close>

definition pm_ok :: "panel \<Rightarrow> bool" where
  "pm_ok m \<longleftrightarrow> length (pmFields m) = 5 \<and> length (pmDirtyFields m) = 5 \<and> pmPage m \<in> {0, 1, 2} \<and> 0 \<le> pmFocus m \<and>
     (pmReady m \<longrightarrow> pmFocus m < itemCount m) \<and> (pmEditing m \<longrightarrow> \<not> pmBusy m \<and> 0 \<le> fieldIndex m)"

abbreviation is_read :: "pcmd \<Rightarrow> bool" where "is_read x \<equiv> (\<exists>e. x = CRead e)"
abbreviation is_exec :: "pcmd \<Rightarrow> bool" where "is_exec x \<equiv> (\<exists>c. x = CExec c)"
abbreviation is_hive :: "nat \<Rightarrow> pcmd \<Rightarrow> bool" where "is_hive q x \<equiv> (\<exists>t. x = CHive t q)"

definition one :: "bool \<Rightarrow> nat" where "one b = (if b then 1 else 0)"

definition tasks_ok :: "panel \<Rightarrow> pcmd list \<Rightarrow> bool" where
  "tasks_ok m ts \<longleftrightarrow>
     length (filter is_read ts) = one (pmRefreshing m) \<and> length (filter is_exec ts) = one (pmBusy m) \<and>
     (\<forall>e. CRead e \<in> set ts \<longrightarrow> e \<le> pmEpoch m) \<and> (\<forall>t q. CHive t q \<in> set ts \<longrightarrow> q \<le> hdSeq (pmHive m)) \<and>
     filter (is_hive (hdSeq (pmHive m))) ts =
       (if hdLoading (pmHive m) then [CHive (hdTarget (pmHive m)) (hdSeq (pmHive m))] else [])"

text \<open>What an operation may start.\<close>

definition starts :: "panel \<Rightarrow> panel \<Rightarrow> pcmd list \<Rightarrow> bool" where
  "starts m m' cs \<longleftrightarrow> CTimer \<notin> set cs \<and> one (pmRefreshing m') = one (pmRefreshing m) + length (filter is_read cs) \<and>
     one (pmBusy m') = one (pmBusy m) + length (filter is_exec cs) \<and>
     pmEpoch m \<le> pmEpoch m' \<and> (\<forall>e. CRead e \<in> set cs \<longrightarrow> e \<le> pmEpoch m') \<and>
     hdSeq (pmHive m) \<le> hdSeq (pmHive m') \<and> (\<forall>t q. CHive t q \<in> set cs \<longrightarrow> hdSeq (pmHive m) < q \<and> q \<le> hdSeq (pmHive m')) \<and>
     (if hdSeq (pmHive m') = hdSeq (pmHive m)
      then hdLoading (pmHive m') = hdLoading (pmHive m) \<and> hdTarget (pmHive m') = hdTarget (pmHive m)
      else filter (is_hive (hdSeq (pmHive m'))) cs =
        (if hdLoading (pmHive m') then [CHive (hdTarget (pmHive m')) (hdSeq (pmHive m'))] else []))"

lemma starts_nothing: "pmRefreshing m' = pmRefreshing m \<Longrightarrow> pmBusy m' = pmBusy m \<Longrightarrow> pmEpoch m' = pmEpoch m \<Longrightarrow>
    pmHive m' = pmHive m \<Longrightarrow> cs \<in> {[], [CQuit]} \<Longrightarrow> starts m m' cs"
  by (auto simp: starts_def)

lemma starts_trans:
  assumes a: "starts m m1 cs" and b: "starts m1 m2 ds"
  shows "starts m m2 (cs @ ds)"
proof -
  let ?q = "hdSeq (pmHive m)" and ?q1 = "hdSeq (pmHive m1)" and ?q2 = "hdSeq (pmHive m2)"
  have le: "?q \<le> ?q1" "?q1 \<le> ?q2" using a b by (simp_all add: starts_def)
  have cs: "q \<le> ?q1 \<and> ?q < q" if "CHive t q \<in> set cs" for t q using a that by (simp add: starts_def)
  have ds: "?q1 < q \<and> q \<le> ?q2" if "CHive t q \<in> set ds" for t q using b that by (simp add: starts_def)
  have "filter (is_hive ?q2) cs = []" if "?q2 \<noteq> ?q1" using cs le that by (force simp: filter_empty_conv)
  moreover have "filter (is_hive ?q1) ds = []" using ds by (force simp: filter_empty_conv)
  ultimately have hive: "if ?q2 = ?q
      then hdLoading (pmHive m2) = hdLoading (pmHive m) \<and> hdTarget (pmHive m2) = hdTarget (pmHive m)
      else filter (is_hive ?q2) (cs @ ds) =
        (if hdLoading (pmHive m2) then [CHive (hdTarget (pmHive m2)) ?q2] else [])"
    using a b le unfolding starts_def by (cases "?q2 = ?q1"; cases "?q1 = ?q") auto
  show ?thesis
    unfolding starts_def
  proof (intro conjI)
    show "CTimer \<notin> set (cs @ ds)" "one (pmRefreshing m2) = one (pmRefreshing m) + length (filter is_read (cs @ ds))"
      "one (pmBusy m2) = one (pmBusy m) + length (filter is_exec (cs @ ds))" "pmEpoch m \<le> pmEpoch m2" "?q \<le> ?q2"
      using a b by (simp_all add: starts_def)
    show "\<forall>e. CRead e \<in> set (cs @ ds) \<longrightarrow> e \<le> pmEpoch m2"
      using a b unfolding starts_def by (metis Un_iff le_trans set_append)
    show "\<forall>t q. CHive t q \<in> set (cs @ ds) \<longrightarrow> ?q < q \<and> q \<le> ?q2" using cs ds le by force
  qed (rule hive)
qed

lemma tasks_start: "tasks_ok m ts \<Longrightarrow> starts m m' cs \<Longrightarrow> tasks_ok m' (ts @ cs)"
proof -
  assume a: "tasks_ok m ts" and b: "starts m m' cs"
  let ?q = "hdSeq (pmHive m)" and ?q' = "hdSeq (pmHive m')"
  have le: "?q \<le> ?q'" using b by (simp add: starts_def)
  have ts: "q \<le> ?q" if "CHive t q \<in> set ts" for t q using a that by (simp add: tasks_ok_def)
  have cs: "?q < q \<and> q \<le> ?q'" if "CHive t q \<in> set cs" for t q using b that by (simp add: starts_def)
  have "filter (is_hive ?q) cs = []" using cs by (force simp: filter_empty_conv)
  moreover have "filter (is_hive ?q') ts = []" if "?q' \<noteq> ?q" using ts le that by (force simp: filter_empty_conv)
  ultimately have hive: "filter (is_hive ?q') (ts @ cs) = (if hdLoading (pmHive m') then [CHive (hdTarget (pmHive m')) ?q'] else [])"
    using a b unfolding starts_def tasks_ok_def by (cases "?q' = ?q") auto
  show ?thesis
    unfolding tasks_ok_def
  proof (intro conjI)
    show "length (filter is_read (ts @ cs)) = one (pmRefreshing m')" "length (filter is_exec (ts @ cs)) = one (pmBusy m')"
      using a b by (simp_all add: starts_def tasks_ok_def)
    show "\<forall>e. CRead e \<in> set (ts @ cs) \<longrightarrow> e \<le> pmEpoch m'"
      using a b unfolding starts_def tasks_ok_def by (metis Un_iff le_trans set_append)
    show "\<forall>t q. CHive t q \<in> set (ts @ cs) \<longrightarrow> q \<le> ?q'" using ts cs le by force
  qed (rule hive)
qed

lemma starts_refl [simp]: "starts m m []"
  by (simp add: starts_nothing)

lemma itemCount_pos [simp]: "0 < itemCount m"
  by (simp add: itemCount_def)

lemma untouched [simp]:
  "fieldIndex (m\<lparr>pmRefreshing := b\<rparr>) = fieldIndex m" "itemCount (m\<lparr>pmRefreshing := b\<rparr>) = itemCount m"
  "fieldIndex (m\<lparr>pmBusy := b\<rparr>) = fieldIndex m" "itemCount (m\<lparr>pmBusy := b\<rparr>) = itemCount m"
  "fieldIndex (m\<lparr>pmEpoch := k\<rparr>) = fieldIndex m" "itemCount (m\<lparr>pmEpoch := k\<rparr>) = itemCount m"
  "fieldIndex (m\<lparr>pmMessage := n\<rparr>) = fieldIndex m" "itemCount (m\<lparr>pmMessage := n\<rparr>) = itemCount m"
  "fieldIndex (m\<lparr>pmMessageError := b\<rparr>) = fieldIndex m" "itemCount (m\<lparr>pmMessageError := b\<rparr>) = itemCount m"
  "fieldIndex (m\<lparr>pmHive := h\<rparr>) = fieldIndex m" "itemCount (m\<lparr>pmHive := h\<rparr>) = itemCount m"
  "fieldIndex (m\<lparr>pmFields := l\<rparr>) = fieldIndex m" "itemCount (m\<lparr>pmFields := l\<rparr>) = itemCount m"
  "fieldIndex (m\<lparr>pmDirtyFields := d\<rparr>) = fieldIndex m" "itemCount (m\<lparr>pmDirtyFields := d\<rparr>) = itemCount m"
  "fieldIndex (m\<lparr>pmDirty := b\<rparr>) = fieldIndex m" "itemCount (m\<lparr>pmDirty := b\<rparr>) = itemCount m"
  "fieldIndex (m\<lparr>pmEditing := b\<rparr>) = fieldIndex m" "itemCount (m\<lparr>pmEditing := b\<rparr>) = itemCount m"
  "fieldIndex (m\<lparr>pmReady := b\<rparr>) = fieldIndex m" "itemCount (m\<lparr>pmReady := b\<rparr>) = itemCount m"
  "fieldIndex (m\<lparr>pmRestart := b\<rparr>) = fieldIndex m" "itemCount (m\<lparr>pmRestart := b\<rparr>) = itemCount m"
  "fieldIndex (m\<lparr>pmSnap := sn\<rparr>) = fieldIndex m" "itemCount (m\<lparr>pmFocus := j\<rparr>) = itemCount m"
  by (simp_all add: fieldIndex_def itemCount_def)

lemma fieldIndex_bound: "pm_ok m \<Longrightarrow> fieldIndex m < 5"
  by (auto simp: fieldIndex_def)

lemma current_field_Some: "pm_ok m \<Longrightarrow> 0 \<le> fieldIndex m \<Longrightarrow> current_field m = Some (nat (fieldIndex m)) \<and> nat (fieldIndex m) < 5"
  using fieldIndex_bound [of m] by (auto simp: current_field_def pm_ok_def)

text \<open>What an operation returns keeps the invariant and accounts for what it starts.\<close>

definition steady :: "panel \<Rightarrow> panel \<times> pcmd list \<Rightarrow> bool" where
  "steady m r \<longleftrightarrow> pm_ok (fst r) \<and> starts m (fst r) (snd r)"

definition fine_option :: "panel \<Rightarrow> (panel \<times> pcmd list) option \<Rightarrow> bool" where
  "fine_option m r \<longleftrightarrow> (\<exists>x. r = Some x \<and> steady m x)"

lemma fine_option_simps [simp]: "fine_option m (Some x) = steady m x" "\<not> fine_option m None"
  by (simp_all add: fine_option_def)

lemma steady_trans: "steady m (m1, cs) \<Longrightarrow> steady m1 (m2, ds) \<Longrightarrow> steady m (m2, cs @ ds)"
  using starts_trans by (auto simp: steady_def)

lemma refresh_fine: "pm_ok m \<Longrightarrow> steady m (panel_refresh m)"
  by (auto simp: panel_refresh_def steady_def starts_def one_def pm_ok_def)

lemma run_fine: "pm_ok m \<Longrightarrow> \<not> pmEditing m \<Longrightarrow> steady m (panel_run cs m)"
  by (auto simp: panel_run_def Let_def steady_def starts_def one_def pm_ok_def)

lemma toggle_fine: "pm_ok m \<Longrightarrow> \<not> pmEditing m \<Longrightarrow> steady m (panel_toggle m)"
  by (simp add: panel_toggle_def run_fine)

lemma fine_same: "pm_ok m \<Longrightarrow> pm_ok m' \<Longrightarrow> pmRefreshing m' = pmRefreshing m \<Longrightarrow> pmBusy m' = pmBusy m \<Longrightarrow> pmEpoch m' = pmEpoch m \<Longrightarrow>
    pmHive m' = pmHive m \<Longrightarrow> cs \<in> {[], [CQuit]} \<Longrightarrow> steady m (m', cs)"
  by (simp add: steady_def starts_nothing)

lemma join_fine: "pm_ok m \<Longrightarrow> \<not> pmEditing m \<Longrightarrow> steady m (joinFromPanel m)"
  by (auto simp: joinFromPanel_def Let_def run_fine intro!: fine_same split: option.split)
    (auto simp: pm_ok_def)

lemma save_fine: "pm_ok m \<Longrightarrow> \<not> pmEditing m \<Longrightarrow> steady m (panel_save m)"
  by (auto simp: panel_save_def run_fine join_fine intro!: fine_same)
    (auto simp: pm_ok_def)

lemma move_ok: "pm_ok m \<Longrightarrow> \<not> pmEditing m \<Longrightarrow> pm_ok (panel_move d m)"
  by (auto simp: panel_move_def pm_ok_def)

lemma activate_fine:
  assumes ok: "pm_ok m" and e: "\<not> pmEditing m"
  shows "fine_option m (panel_activate m)"
proof -
  consider "pmPage m = 2 \<or> pmBusy m \<or> \<not> pmReady m"
    | "\<not> pmBusy m" "pmReady m" "pmPage m = 0" | "\<not> pmBusy m" "pmReady m" "pmPage m = 1"
    using ok by (auto simp: pm_ok_def)
  then show ?thesis
  proof cases
    case 1
    then show ?thesis using ok by (auto simp: panel_activate_def intro: fine_same)
  next
    case 2
    consider "\<not> pmAdvanced m \<and> pmFocus m = 3" | "\<not> (\<not> pmAdvanced m \<and> pmFocus m = 3)" "0 \<le> fieldIndex m"
      | "\<not> (\<not> pmAdvanced m \<and> pmFocus m = 3)" "\<not> 0 \<le> fieldIndex m" by blast
    then show ?thesis
    proof cases
      assume a: "\<not> pmAdvanced m \<and> pmFocus m = 3"
      have "pm_ok (m\<lparr>pmAdvanced := True, pmFocus := 0\<rparr>)" using ok e 2 by (simp add: pm_ok_def itemCount_def)
      then show ?thesis using 2 a ok by (auto simp: panel_activate_def intro!: fine_same)
    next
      assume a: "\<not> (\<not> pmAdvanced m \<and> pmFocus m = 3)" "0 \<le> fieldIndex m"
      have "pm_ok (m\<lparr>pmEditing := True\<rparr>)" using ok a 2 by (simp add: pm_ok_def)
      then show ?thesis using 2 a ok current_field_Some [OF ok a(2)]
        by (auto simp: panel_activate_def intro!: fine_same)
    next
      assume a: "\<not> (\<not> pmAdvanced m \<and> pmFocus m = 3)" "\<not> 0 \<le> fieldIndex m"
      then show ?thesis using 2 ok e join_fine save_fine by (auto simp: panel_activate_def)
    qed
  next
    case 3
    then have "0 \<le> pmFocus m" "pmFocus m \<le> int (length (pmSessions m))" using ok by (auto simp: pm_ok_def itemCount_def)
    moreover have "pm_ok (m\<lparr>pmMessage := n, pmMessageError := True\<rparr>)" for n
      using ok by (auto simp: pm_ok_def)
    ultimately show ?thesis
      using 3 ok e toggle_fine run_fine by (auto simp: panel_activate_def Let_def intro!: fine_same)
  qed
qed

lemma updateField_fine:
  assumes "pm_ok m" "pmEditing m"
  shows "\<exists>m'. updateField f m = Some m' \<and> steady m (m', [])"
proof -
  have c: "current_field m = Some (nat (fieldIndex m))" using assms current_field_Some by (auto simp: pm_ok_def)
  have "pm_ok (m\<lparr>pmFields := (pmFields m)[i := v]\<rparr>)" "pm_ok (m\<lparr>pmFields := (pmFields m)[i := v], pmDirty := True, pmDirtyFields := (pmDirtyFields m)[i := True]\<rparr>)"
    for i v using assms(1) by (auto simp: pm_ok_def)
  then show ?thesis using assms(1) by (auto simp: updateField_def c Let_def intro!: fine_same)
qed

lemma refreshHive_fine: "pm_ok m \<Longrightarrow> steady m (refreshHive now force m)"
  by (auto simp: refreshHive_def Let_def steady_def starts_def one_def pm_ok_def)

lemma after_fine: "steady m r \<Longrightarrow> steady m (after now r)"
proof -
  assume r: "steady m r"
  obtain m1 cs where m1: "r = (m1, cs)" by fastforce
  obtain m2 ds where m2: "refreshHive now False m1 = (m2, ds)" by fastforce
  have "pm_ok m1" using r by (simp add: m1 steady_def)
  then show ?thesis using steady_trans [of m m1 cs m2 ds] r refreshHive_fine [of m1 now False] by (simp add: m1 m2 after_def)
qed

lemma leave_fine: "pm_ok m \<Longrightarrow> pmEditing m \<Longrightarrow> \<exists>m'. leave_field m = Some m' \<and> steady m (m', []) \<and> m' = m\<lparr>pmEditing := False\<rparr>"
proof -
  assume ok: "pm_ok m" and e: "pmEditing m"
  have "pm_ok (m\<lparr>pmEditing := False\<rparr>)" using ok by (auto simp: pm_ok_def)
  then show ?thesis using ok e current_field_Some [OF ok] by (auto simp: leave_field_def pm_ok_def intro!: fine_same)
qed

lemma goto_page_ok: "pm_ok m \<Longrightarrow> \<not> pmEditing m \<Longrightarrow> p \<in> {0, 1, 2} \<Longrightarrow> pm_ok (goto_page p m)"
  by (simp add: goto_page_def pm_ok_def)

definition fine_key :: "panel \<Rightarrow> (panel \<times> pcmd list) option option \<Rightarrow> bool" where
  "fine_key m r \<longleftrightarrow> (\<exists>x. r = Some x \<and> (\<forall>y. x = Some y \<longrightarrow> steady m y))"

lemma fine_key_simps [simp]: "fine_key m (Some None)" "fine_key m (Some (Some y)) = steady m y"
  by (cases y; auto simp: fine_key_def)+

lemma fine_key_if: "fine_key m a \<Longrightarrow> fine_key m b \<Longrightarrow> fine_key m (if c then a else b)"
  by simp

lemma fine_key_map: "fine_option m r \<Longrightarrow> fine_key m (map_option Some r)"
  by (auto simp: fine_option_def fine_key_def)

lemma move_fine: "pm_ok m \<Longrightarrow> \<not> pmEditing m \<Longrightarrow> steady m (panel_move d m, [])"
  by (rule fine_same [OF _ move_ok]) (auto simp: panel_move_def)

lemma goto_page_fine: "pm_ok m \<Longrightarrow> \<not> pmEditing m \<Longrightarrow> p \<in> {0, 1, 2} \<Longrightarrow> steady m (goto_page p m, [])"
  by (rule fine_same [OF _ goto_page_ok]) (auto simp: goto_page_def)

lemma fine_refresh_all:
  assumes ok: "pm_ok m"
  shows "fine_key m (case panel_refresh m of (m1, c1) \<Rightarrow> case refreshHive now True m1 of (m2, c2) \<Rightarrow> Some (Some (m2, c1 @ c2)))"
proof -
  obtain m1 cs where m1: "panel_refresh m = (m1, cs)" by fastforce
  obtain m2 ds where m2: "refreshHive now True m1 = (m2, ds)" by fastforce
  have 1: "steady m (m1, cs)" using refresh_fine [OF ok] m1 by simp
  then have "steady m1 (m2, ds)" using refreshHive_fine [of m1 now True] m2 by (simp add: steady_def)
  then show ?thesis using steady_trans [OF 1] by (simp add: m1 m2)
qed

lemma key_fine:
  assumes ok: "pm_ok m" and e: "\<not> pmEditing m"
  shows "fine_key m (on_key now key m)"
proof -
  have third: "(pmPage m + k) mod 3 \<in> {0, 1, 2}" for k by force
  have closed: "steady m (m\<lparr>pmAdvanced := False, pmFocus := 0\<rparr>, [])"
    using ok e by (intro fine_same) (auto simp: pm_ok_def)
  note fines = closed goto_page_fine [OF ok e third] goto_page_fine [OF ok e] move_fine [OF ok e] run_fine [OF ok e] save_fine [OF ok e]
    toggle_fine [OF ok e] fine_same [OF ok ok]
  show ?thesis unfolding on_key_def
    by (intro fine_key_if fine_key_map activate_fine fine_refresh_all ok e) (simp_all only: fine_key_simps, simp_all add: fines)
qed

definition fine_click :: "panel \<Rightarrow> (unit + panel \<times> pcmd list) option \<Rightarrow> bool" where
  "fine_click m r \<longleftrightarrow> (\<exists>x. r = Some x \<and> (\<forall>y. x = Inr y \<longrightarrow> steady m y))"

lemma fine_click_simps [simp]: "fine_click m (Some (Inl u))" "fine_click m (Some (Inr y)) = steady m y"
  by (cases y; auto simp: fine_click_def)+

lemma fine_click_map: "fine_option m r \<Longrightarrow> fine_click m (map_option Inr r)"
  by (auto simp: fine_option_def fine_click_def)

lemma fine_click_trans: "steady m (m1, []) \<Longrightarrow> fine_click m1 r \<Longrightarrow> fine_click m r"
  using steady_trans [of m m1 "[]"] by (force simp: fine_click_def)

lemma target_fine:
  assumes ok: "pm_ok m" and e: "\<not> pmEditing m" and t: "t \<ge> -5" and r: "0 \<le> t \<Longrightarrow> t < itemCount m"
  shows "fine_click m (if t = -1 \<or> t = -2 \<or> t = -5 then
               Some (Inr (m\<lparr>pmPage := (if t = -5 then 2 else - t - 1), pmFocus := 0\<rparr>, []))
             else if t = -3 then Some (Inr (panel_toggle m))
             else if t = -4 then Some (Inr (panel_run [[''update'']] m))
             else map_option Inr (panel_activate (m\<lparr>pmFocus := t\<rparr>)))"
proof -
  consider "t = -1" | "t = -2" | "t = -5" | "t = -3" | "t = -4" | "0 \<le> t" using t by linarith
  then show ?thesis
  proof cases
    case 6
    have ok2: "pm_ok (m\<lparr>pmFocus := t\<rparr>)" using ok e r [OF 6] 6 by (simp add: pm_ok_def)
    have "fine_click (m\<lparr>pmFocus := t\<rparr>) (map_option Inr (panel_activate (m\<lparr>pmFocus := t\<rparr>)))"
      by (intro fine_click_map activate_fine ok2) (simp add: e)
    then show ?thesis using 6 fine_click_trans [OF fine_same [OF ok ok2]] by simp
  next
    case 1
    then show ?thesis using goto_page_fine [OF ok e, of 0] by (simp add: goto_page_def)
  next
    case 2
    then show ?thesis using goto_page_fine [OF ok e, of 1] by (simp add: goto_page_def)
  next
    case 3
    then show ?thesis using goto_page_fine [OF ok e, of 2] by (simp add: goto_page_def)
  qed (simp_all add: toggle_fine [OF ok e] run_fine [OF ok e])
qed

lemma position_name_bound: "position_name n ss = Some i \<Longrightarrow> i < length ss \<and> hsName (ss ! i) = n"
  by (induction ss arbitrary: i) (auto split: if_splits)

lemma click_fine:
  assumes ok: "pm_ok m" and t: "t \<ge> -5"
  shows "fine_click m (on_click t page session m)"
proof -
  let ?checked = "t \<ge> 0 \<or> t = -3" and ?found = "position_name session (pmSessions m)"
  define t' where "t' = (if ?checked \<and> session \<noteq> [] then (case ?found of Some i \<Rightarrow> int i | None \<Rightarrow> t) else t)"
  obtain m' where m': "(if pmEditing m then leave_field m else Some m) = Some m'" "steady m (m', [])" "\<not> pmEditing m'"
      "itemCount m' = itemCount m"
    using leave_fine [OF ok] fine_same [OF ok ok] by (cases "pmEditing m") auto
  have ok': "pm_ok m'" using m'(2) by (simp add: steady_def)
  have ge: "t' \<ge> -5" using t by (simp add: t'_def split: option.split)
  have checked: ?checked if "0 \<le> t'" using that by (auto simp: t'_def split: if_splits)
  show ?thesis
  proof (cases "?checked \<and> (page \<noteq> pmPage m \<or> (session \<noteq> [] \<and> ?found = None) \<or> t' \<ge> itemCount m)")
    case True
    then show ?thesis unfolding on_click_def Let_def t'_def [symmetric] by simp
  next
    case False
    have "fine_click m' (if t' = -1 \<or> t' = -2 \<or> t' = -5 then
               Some (Inr (m'\<lparr>pmPage := (if t' = -5 then 2 else - t' - 1), pmFocus := 0\<rparr>, []))
             else if t' = -3 then Some (Inr (panel_toggle m'))
             else if t' = -4 then Some (Inr (panel_run [[''update'']] m'))
             else map_option Inr (panel_activate (m'\<lparr>pmFocus := t'\<rparr>)))"
      using False checked by (intro target_fine ok' m'(3) ge) (auto simp: m'(4))
    with m'(2) have "fine_click m (if t' = -1 \<or> t' = -2 \<or> t' = -5 then
               Some (Inr (m'\<lparr>pmPage := (if t' = -5 then 2 else - t' - 1), pmFocus := 0\<rparr>, []))
             else if t' = -3 then Some (Inr (panel_toggle m'))
             else if t' = -4 then Some (Inr (panel_run [[''update'']] m'))
             else map_option Inr (panel_activate (m'\<lparr>pmFocus := t'\<rparr>)))"
      by (rule fine_click_trans)
    then show ?thesis unfolding on_click_def Let_def t'_def [symmetric] m'(1) if_not_P [OF False] option.case .
  qed
qed

lemma editing_fine:
  assumes ok: "pm_ok m" and e: "pmEditing m"
  shows "fine_option m (on_key_editing key f m)"
proof -
  obtain m1 where m1: "leave_field m = Some m1" "steady m (m1, [])" "m1 = m\<lparr>pmEditing := False\<rparr>" using leave_fine [OF ok e] by blast
  have ok1: "pm_ok m1" using m1(2) by (simp add: steady_def)
  have saved: "steady m (panel_save m1)"
    using steady_trans [OF m1(2), of "fst (panel_save m1)" "snd (panel_save m1)"] save_fine [OF ok1] m1(3) by simp
  obtain m2 where m2: "updateField f m = Some m2" "steady m (m2, [])" using updateField_fine [OF ok e] by blast
  have tab: "fine_option m (let m1 = panel_move d m; m2 = m1\<lparr>pmEditing := fieldIndex m1 \<ge> 0\<rparr> in
      if pmEditing m2 \<and> current_field m2 = None then None else Some (m2, []))" for d
  proof -
    let ?m = "(panel_move d m)\<lparr>pmEditing := fieldIndex (panel_move d m) \<ge> 0\<rparr>"
    have "\<not> pmBusy m" "pmBusy (panel_move d m) = pmBusy m" using ok e by (auto simp: pm_ok_def panel_move_def)
    moreover have "pm_ok (panel_move d (m\<lparr>pmEditing := False\<rparr>))" using move_ok [OF ok1] m1(3) by simp
    ultimately have ok2: "pm_ok ?m" by (auto simp: pm_ok_def panel_move_def fieldIndex_def itemCount_def split: if_splits)
    have "steady m (?m, [])" by (rule fine_same [OF ok ok2]) (auto simp: panel_move_def)
    moreover have "current_field ?m \<noteq> None" if "pmEditing ?m" using current_field_Some [OF ok2] that by auto
    ultimately show ?thesis by (simp add: Let_def)
  qed
  show ?thesis
    unfolding on_key_editing_def m1(1) m2(1) using m1(2) m2(2) saved tab by simp
qed

lemma paste_fine:
  assumes ok: "pm_ok m"
  shows "\<exists>m1. on_paste f m = Some m1 \<and> steady m (m1, [])"
proof -
  let ?start = "\<not> pmEditing m \<and> pmReady m \<and> \<not> pmBusy m \<and> pmPage m = 0 \<and> \<not> pmAdvanced m \<and> pmFocus m = 0"
  define m1 where "m1 = (if ?start then m\<lparr>pmEditing := True\<rparr> else m)"
  have ok1: "pm_ok m1"
  proof (cases ?start)
    case True
    then have "fieldIndex m = 4" by (simp add: fieldIndex_def)
    then show ?thesis using ok True by (simp add: m1_def pm_ok_def)
  next
    case False
    show ?thesis unfolding m1_def if_not_P [OF False] by (rule ok)
  qed
  have same: "steady m (m1, [])" by (rule fine_same [OF ok ok1]) (auto simp: m1_def)
  show ?thesis
  proof (cases "pmEditing m1")
    case True
    then obtain m2 where m2: "updateField f m1 = Some m2" "steady m1 (m2, [])" using updateField_fine [OF ok1] by blast
    then show ?thesis using True steady_trans [OF same m2(2)] unfolding on_paste_def Let_def m1_def [symmetric] by simp
  next
    case False
    then show ?thesis using same unfolding on_paste_def Let_def m1_def [symmetric] by simp
  qed
qed

lemma move_same [simp]: "pmFields (panel_move d m) = pmFields m" "pmDirtyFields (panel_move d m) = pmDirtyFields m"
  by (simp_all add: panel_move_def)

lemma sync_field_same [simp]: "pmPage (sync_field F i v m) = pmPage m" "pmFocus (sync_field F i v m) = pmFocus m"
  "pmAdvanced (sync_field F i v m) = pmAdvanced m" "pmSnap (sync_field F i v m) = pmSnap m" "pmEditing (sync_field F i v m) = pmEditing m"
  "pmBusy (sync_field F i v m) = pmBusy m" "pmRefreshing (sync_field F i v m) = pmRefreshing m" "pmEpoch (sync_field F i v m) = pmEpoch m"
  "pmHive (sync_field F i v m) = pmHive m" "pmDirtyFields (sync_field F i v m) = pmDirtyFields m"
  "length (pmFields (sync_field F i v m)) = length (pmFields m)"
  by (simp_all add: sync_field_def)

lemma sync_field_index [simp]: "fieldIndex (sync_field F i v m) = fieldIndex m" "itemCount (sync_field F i v m) = itemCount m"
  by (simp_all add: sync_field_def)

lemma syncFields_same [simp]: "pmPage (syncFields F m) = pmPage m" "pmFocus (syncFields F m) = pmFocus m"
  "pmAdvanced (syncFields F m) = pmAdvanced m" "pmSnap (syncFields F m) = pmSnap m" "pmEditing (syncFields F m) = pmEditing m"
  "pmBusy (syncFields F m) = pmBusy m" "pmRefreshing (syncFields F m) = pmRefreshing m" "pmEpoch (syncFields F m) = pmEpoch m"
  "pmHive (syncFields F m) = pmHive m" "pmDirtyFields (syncFields F m) = pmDirtyFields m"
  "length (pmFields (syncFields F m)) = length (pmFields m)"
  "fieldIndex (syncFields F m) = fieldIndex m" "itemCount (syncFields F m) = itemCount m"
  by (simp_all add: syncFields_def)

lemma select_session_same [simp]: "pmPage (select_session n m) = pmPage m"
  "pmAdvanced (select_session n m) = pmAdvanced m" "pmSnap (select_session n m) = pmSnap m" "pmEditing (select_session n m) = pmEditing m"
  "pmBusy (select_session n m) = pmBusy m" "pmRefreshing (select_session n m) = pmRefreshing m" "pmEpoch (select_session n m) = pmEpoch m"
  "pmHive (select_session n m) = pmHive m" "pmDirtyFields (select_session n m) = pmDirtyFields m"
  "pmFields (select_session n m) = pmFields m"
  "itemCount (select_session n m) = itemCount m" "0 \<le> pmFocus m \<Longrightarrow> 0 \<le> pmFocus (select_session n m)"
  by (simp_all add: select_session_def split: option.split)

lemma show_same [simp]: "pmPage (show_snapshot F b n m) = pmPage m"
  "pmAdvanced (show_snapshot F b n m) = pmAdvanced m" "pmSnap (show_snapshot F b n m) = pmSnap m"
  "pmEditing (show_snapshot F b n m) = pmEditing m"
  "pmBusy (show_snapshot F b n m) = pmBusy m" "pmRefreshing (show_snapshot F b n m) = pmRefreshing m"
  "pmEpoch (show_snapshot F b n m) = pmEpoch m" "pmHive (show_snapshot F b n m) = pmHive m"
  "pmDirtyFields (show_snapshot F b n m) = pmDirtyFields m" "length (pmFields (show_snapshot F b n m)) = length (pmFields m)"
  "itemCount (show_snapshot F b n m) = itemCount m" "pmReady (show_snapshot F b n m)"
  "pmFocus (show_snapshot F b n m) = min (pmFocus (select_session n (m\<lparr>pmMessage := Note [], pmMessageError := False\<rparr>))) (itemCount m - 1)"
  by (simp_all add: show_snapshot_def Let_def) (simp add: select_session_def split: option.split)

lemma fieldIndex_sel: "pmFocus m' = pmFocus m \<Longrightarrow> pmPage m' = pmPage m \<Longrightarrow> pmAdvanced m' = pmAdvanced m \<Longrightarrow> fieldIndex m' = fieldIndex m"
  by (simp add: fieldIndex_def)

text \<open>On the first page no session is selected, and the focus stays.\<close>

lemma selected_elsewhere: "pmPage m \<noteq> 1 \<Longrightarrow> selected_session m = []"
  by (simp add: selected_session_def)

lemma select_nothing [simp]: "select_session [] m = m"
  by (simp add: select_session_def)

lemma field_page: "0 \<le> fieldIndex m \<Longrightarrow> pmPage m = 0 \<and> pmFocus m < (if pmAdvanced m then 4 else 2) \<and> pmFocus m < itemCount m"
  by (auto simp: fieldIndex_def itemCount_def split: if_splits)

lemma show_index:
  assumes "0 \<le> fieldIndex m"
  shows "fieldIndex (show_snapshot F b [] m) = fieldIndex m"
  using field_page [OF assms] by (intro fieldIndex_sel) (auto simp: itemCount_def)

text \<open>What an answer leaves of the panel: the flag that it was awaited is gone.\<close>

lemma snapshot_fine:
  assumes ok: "pm_ok m"
  shows "\<exists>m'. on_snapshot F msg m = Some m' \<and> steady (m\<lparr>pmRefreshing := False\<rparr>) (m', [])"
proof -
  let ?m = "m\<lparr>pmRefreshing := False\<rparr>" and ?n = "selected_session (m\<lparr>pmRefreshing := False\<rparr>)"
  let ?show = "show_snapshot F (snErr (pmSnap ?m) \<noteq> None) ?n (?m\<lparr>pmSnap := msg\<rparr>)"
  have ok0: "pm_ok ?m" using ok by (simp add: pm_ok_def)
  have f: "0 \<le> pmFocus m" using ok by (simp add: pm_ok_def)
  have err: "steady ?m (?m\<lparr>pmSnap := msg, pmReady := False, pmMessage := n, pmMessageError := True\<rparr>, [])" for n
    using ok by (intro fine_same ok0) (auto simp: pm_ok_def)
  have idx: "fieldIndex ?show = fieldIndex m" if "pmEditing m"
  proof -
    have i: "0 \<le> fieldIndex m" using ok that by (simp add: pm_ok_def)
    then have "?n = []" using field_page [of m] by (simp add: selected_elsewhere)
    then show ?thesis using show_index [of "?m\<lparr>pmSnap := msg\<rparr>"] i by simp
  qed
  have "pm_ok ?show" using ok idx f itemCount_pos [of "?m\<lparr>pmSnap := msg\<rparr>"]
    unfolding pm_ok_def by (auto simp del: itemCount_pos)
  then have "steady ?m (?show, [])" by (intro fine_same ok0) simp_all
  then show ?thesis using f err fine_same [OF ok0 ok0] by (simp add: on_snapshot_def Let_def split: option.split)
qed

lemma done_ok:
  assumes "pm_ok m"
  shows "pm_ok (fst (on_done F msg m)) \<and> starts (m\<lparr>pmBusy := False\<rparr>) (fst (on_done F msg m)) []"
proof (cases "dnErr msg")
  case None
  have "pm_ok (fst (on_done F msg m))" using assms unfolding on_done_def Let_def None
    by (cases "dnSaved msg"; cases "dnJoined msg"; cases "dnUpdate msg") (simp_all add: pm_ok_def)
  moreover have "starts (m\<lparr>pmBusy := False\<rparr>) (fst (on_done F msg m)) []" unfolding on_done_def Let_def None
    by (cases "dnSaved msg"; cases "dnJoined msg"; cases "dnUpdate msg") (simp_all add: starts_nothing)
  ultimately show ?thesis ..
qed (use assms in \<open>simp add: on_done_def pm_ok_def starts_nothing\<close>)

lemma done_fine: "pm_ok m \<Longrightarrow> on_done F msg m = (m', q) \<Longrightarrow> steady (m\<lparr>pmBusy := False\<rparr>) (m', [])"
  using done_ok [of m F msg] by (simp add: steady_def)

lemma listed_ok: "pm_ok m \<Longrightarrow> pm_ok (on_hive now t q l b m)"
  by (auto simp: on_hive_def Let_def pm_ok_def)

lemma after_option: "fine_option m r \<Longrightarrow> fine_option m (map_option (after now) r)"
  by (cases r) (simp_all add: after_fine)

lemma fine_quit: "steady m (m1, []) \<Longrightarrow> steady m (m1, [CQuit])"
  using steady_trans [of m m1 "[]" m1 "[CQuit]"] fine_same [of m1 m1 "[CQuit]"] by (simp add: steady_def)

lemma update_outside:
  assumes ok: "pm_ok m" and ev: "from_outside ev"
  shows "fine_option m (Update_panel F now ev m)"
proof -
  have same: "steady m (m, [])" "steady m (m, [CQuit])" using fine_same [OF ok ok] by simp_all
  show ?thesis
  proof (cases ev)
    case Plain
    then show ?thesis using after_fine [OF same(1)] by (simp add: Update_panel_def)
  next
    case (Click t p n)
    then show ?thesis using click_fine [OF ok, of t p n] ev same
      by (auto simp: Update_panel_def fine_click_def after_fine split: sum.split)
  next
    case (Key k f)
    then show ?thesis
      using key_fine [OF ok, of now k] after_option [OF editing_fine [OF ok, of k f], of now] same
      by (auto simp: Update_panel_def fine_key_def after_fine simp del: split_paired_Ex split_paired_All split: option.split)
  next
    case (Paste f)
    then show ?thesis using paste_fine [OF ok, of f] by (auto simp: Update_panel_def after_fine)
  next
    case (Input f)
    then show ?thesis using updateField_fine [OF ok, of f] after_fine [OF same(1)] by (auto simp: Update_panel_def after_fine)
  qed (use ev in simp_all)
qed

text \<open>The panel when a task is over, before its message is looked at.\<close>

definition consumed :: "pcmd \<Rightarrow> panel \<Rightarrow> panel" where
  "consumed x m =
     (case x of
        CRead e \<Rightarrow> m\<lparr>pmRefreshing := False\<rparr>
      | CExec cs \<Rightarrow> m\<lparr>pmBusy := False\<rparr>
      | CHive t q \<Rightarrow> if q = hdSeq (pmHive m) then m\<lparr>pmHive := (pmHive m)\<lparr>hdLoading := False\<rparr>\<rparr> else m
      | _ \<Rightarrow> m)"

lemma filter_single: "x \<in> set xs \<Longrightarrow> P x \<Longrightarrow> length (filter P xs) = one b \<Longrightarrow> b \<and> length (filter P (remove1 x xs)) = 0"
  by (auto simp: one_def filter_remove1 length_remove1 filter_empty_conv split: if_splits)

lemma filter_other: "\<not> P x \<Longrightarrow> filter P (remove1 x xs) = filter P xs"
  by (induction xs) auto

lemma hive_task:
  assumes "tasks_ok m ts" "CHive g (hdSeq (pmHive m)) \<in> set ts"
  shows "hdLoading (pmHive m) \<and> g = hdTarget (pmHive m) \<and> filter (is_hive (hdSeq (pmHive m))) ts = [CHive g (hdSeq (pmHive m))]"
proof -
  have eq: "filter (is_hive (hdSeq (pmHive m))) ts =
      (if hdLoading (pmHive m) then [CHive (hdTarget (pmHive m)) (hdSeq (pmHive m))] else [])"
    using assms(1) by (simp only: tasks_ok_def)
  have "CHive g (hdSeq (pmHive m)) \<in> set (filter (is_hive (hdSeq (pmHive m))) ts)" using assms(2) by simp
  then show ?thesis unfolding eq by (simp split: if_splits)
qed

lemma tasks_consume:
  assumes t: "tasks_ok m ts" and x: "x \<in> set ts"
  shows "tasks_ok (consumed x m) (remove1 x ts)"
proof -
  have sub: "set (remove1 x ts) \<subseteq> set ts" by (rule set_remove1_subset)
  show ?thesis
  proof (cases x)
    case (CRead e)
    then show ?thesis using t sub filter_single [of x ts is_read "pmRefreshing m"] x
      by (auto simp: tasks_ok_def consumed_def filter_other one_def)
  next
    case (CExec c)
    then show ?thesis using t sub filter_single [of x ts is_exec "pmBusy m"] x
      by (auto simp: tasks_ok_def consumed_def filter_other one_def)
  next
    case (CHive g q)
    have hive: "filter (is_hive q) (remove1 x ts) = []" if "q = hdSeq (pmHive m)"
      using hive_task [OF t, of g] x that by (simp add: CHive filter_remove1)
    show ?thesis using t sub hive by (auto simp: CHive tasks_ok_def consumed_def filter_other)
  next
    case CTimer
    then show ?thesis using t sub by (auto simp: tasks_ok_def consumed_def filter_other)
  next
    case CQuit
    then show ?thesis using t sub by (auto simp: tasks_ok_def consumed_def filter_other)
  qed
qed

lemma update_inside:
  assumes ok: "pm_ok m" and t: "tasks_ok m ts" and x: "x \<in> set ts" "x \<noteq> CTimer" and ev: "message x ev"
  shows "fine_option (consumed x m) (Update_panel F now ev m)"
  using ev
proof (cases rule: message.cases)
  case timer
  then show ?thesis using x by simp
next
  case (reading sn e)
  then show ?thesis using snapshot_fine [OF ok, of F sn] by (auto simp: Update_panel_def consumed_def after_fine)
next
  case (executed cs f)
  let ?d = "execute_panel f cs"
  obtain m1 q where m1: "on_done F ?d m = (m1, q)" by fastforce
  have f: "steady (m\<lparr>pmBusy := False\<rparr>) (m1, [])" by (rule done_fine [OF ok m1])
  obtain m2 ds where m2: "panel_refresh m1 = (m2, ds)" by fastforce
  have "steady m1 (m2, ds)" using refresh_fine [of m1] m2 f by (simp add: steady_def)
  then have "steady (m\<lparr>pmBusy := False\<rparr>) (m2, ds)" using steady_trans [OF f] by simp
  then show ?thesis using executed m1 m2 fine_quit [OF f] by (cases q) (simp_all add: Update_panel_def consumed_def after_fine)
next
  case (listed g q l failed)
  have "q = hdSeq (pmHive m) \<Longrightarrow> g = hdTarget (pmHive m)"
    using hive_task [OF t, of g] x listed by simp
  then have "steady (consumed x m) (on_hive now g q l failed m, [])"
    using listed_ok [OF ok] by (auto simp: steady_def consumed_def listed on_hive_def Let_def starts_def)
  then show ?thesis using listed by (simp add: Update_panel_def after_fine)
qed

lemma update_tick:
  assumes ok: "pm_ok m"
  shows "\<exists>m' cs ds. Update_panel F now Tick m = Some (m', cs @ CTimer # ds) \<and> steady m (m', cs @ ds)"
proof -
  obtain m1 cs where m1: "panel_refresh m = (m1, cs)" by fastforce
  obtain m2 ds where m2: "refreshHive now False m1 = (m2, ds)" by fastforce
  have 1: "steady m (m1, cs)" using refresh_fine [OF ok] m1 by simp
  then have "steady m1 (m2, ds)" using refreshHive_fine [of m1 now False] m2 by (simp add: steady_def)
  then have "steady m (m2, cs @ ds)" by (rule steady_trans [OF 1])
  moreover have "Update_panel F now Tick m = Some (m2, cs @ CTimer # ds)" by (simp add: Update_panel_def m1 m2 after_def)
  ultimately show ?thesis by blast
qed

lemma tasks_timer: "tasks_ok m (cs @ CTimer # ds) = tasks_ok m (cs @ ds)"
  by (simp add: tasks_ok_def)

definition panel_inv :: "panel \<times> pcmd list \<Rightarrow> bool" where
  "panel_inv s \<longleftrightarrow> pm_ok (fst s) \<and> tasks_ok (fst s) (snd s) \<and> filter (\<lambda>x. x = CTimer) (snd s) = [CTimer]"

lemma fine_inv: "tasks_ok m ts \<Longrightarrow> filter (\<lambda>x. x = CTimer) ts = [CTimer] \<Longrightarrow> steady m (m', cs) \<Longrightarrow> panel_inv (m', ts @ cs)"
  using tasks_start [of m ts m' cs] by (auto simp: panel_inv_def steady_def starts_def filter_empty_conv)

lemma panel_inv_step:
  assumes "panel_inv s" "panel_run_step F s s'"
  shows "panel_inv s'"
  using assms(2)
proof (cases rule: panel_run_step.cases)
  case (outside ts ev now m m' cs)
  have "steady m (m', cs)" using update_outside [of m ev F now] outside assms(1) by (simp add: panel_inv_def)
  then show ?thesis using assms(1) outside fine_inv [of m ts m' cs] by (simp add: panel_inv_def)
next
  case (inside ts x ev now m m' cs)
  have ok: "pm_ok m" "tasks_ok m ts" "filter (\<lambda>x. x = CTimer) ts = [CTimer]" using assms(1) inside by (simp_all add: panel_inv_def)
  have t: "tasks_ok (consumed x m) (remove1 x ts)" by (rule tasks_consume [OF ok(2) inside(4)])
  show ?thesis
  proof (cases "x = CTimer")
    case True
    then have "ev = Tick" using inside by (auto elim: message_elims)
    then obtain cs1 ds where c: "cs = cs1 @ CTimer # ds" "steady m (m', cs1 @ ds)" using update_tick [OF ok(1), of F now] inside by auto
    have "tasks_ok m (remove1 x ts)" using t True by (simp add: consumed_def)
    then have "tasks_ok m' (remove1 x ts @ cs)" using tasks_start [of m "remove1 x ts" m' "cs1 @ ds"] c tasks_timer [of m' "remove1 x ts @ cs1" ds]
      by (simp add: steady_def)
    moreover have "filter (\<lambda>x. x = CTimer) (remove1 x ts @ cs) = [CTimer]"
    proof -
      have "filter (\<lambda>x. x = CTimer) cs1 = []" "filter (\<lambda>x. x = CTimer) ds = []"
        using c(2) by (auto simp: steady_def starts_def filter_empty_conv)
      then show ?thesis using ok(3) c(1) True by (simp add: filter_remove1)
    qed
    ultimately show ?thesis using c inside by (simp add: panel_inv_def steady_def)
  next
    case False
    have "steady (consumed x m) (m', cs)" using update_inside [OF ok(1,2) inside(4) False inside(5), of F now] inside(6) by simp
    moreover have "filter (\<lambda>x. x = CTimer) (remove1 x ts) = [CTimer]" using ok(3) False by (simp add: filter_other)
    ultimately show ?thesis using fine_inv [OF t, of m' cs] inside(2) by simp
  qed
qed

lemma panel_reachable_inv: "panel_reachable F s \<Longrightarrow> panel_inv s"
proof (induction rule: panel_reachable.induct)
  case start
  show ?case by (simp add: panel_inv_def pm_ok_def tasks_ok_def newPanel_def one_def)
next
  case (step s s')
  then show ?case using panel_inv_step by blast
qed

section \<open>What the panel keeps\<close>

lemma tab_at_target: "tab_at x k ws ts = Some t \<Longrightarrow> t \<in> set ts"
  by (induction x k ws ts rule: tab_at.induct) (auto split: if_splits)

lemma row_at_target: "row_at m row i rs = Some t \<Longrightarrow> int i \<le> t \<and> t < int (i + length rs)"
  by (induction rs arbitrary: i) (fastforce split: if_splits)+

lemma mouse_click_fine:
  assumes "length lines \<le> nat (itemCount m)"
  shows "\<exists>r. mouse_click m widths lines tall offset x y = Some r \<and> (\<forall>ev. r = Some ev \<longrightarrow> from_outside ev)"
proof -
  let ?t = "if y = 3 then tab_at x 0 widths [-1, -2, -5]
      else if y \<ge> 5 \<and> y < 5 + tall then row_at m (y - 5 + offset) 0 lines else None"
  have pos: "1 \<le> itemCount m" using itemCount_pos [of m] by linarith
  have t: "t \<ge> -5 \<and> t < itemCount m" if "?t = Some t" for t
  proof (cases "y = 3")
    case True
    then have "t \<in> {-1, -2, -5}" using that tab_at_target [of x 0 widths "[-1, -2, -5]" t] by simp
    then show ?thesis using pos by auto
  next
    case False
    then have "row_at m (y - 5 + offset) 0 lines = Some t" using that by (simp split: if_splits)
    then have "0 \<le> t \<and> t < int (length lines)" using row_at_target [of m _ 0 lines t] by simp
    then show ?thesis using assms pos by linarith
  qed
  show ?thesis
  proof (cases ?t)
    case None
    then show ?thesis unfolding mouse_click_def by simp
  next
    case (Some t)
    then show ?thesis using t [OF Some] unfolding mouse_click_def by (auto simp: itemCount_def)
  qed
qed

text \<open>
  C23. The panel never panics: in every state that it can reach, for every value that the text inputs make of their
  events, the handler of any message succeeds, be it a key, a click, a paste or the end of a task that is under way, at any time. In
  particular no field is read when the focus is on none, and no session outside the list. The mouse handler of
  such a state does not panic either.
\<close>

theorem panel_never_panics:
  assumes "panel_reachable F (m, ts)"
  shows "(from_outside ev \<or> (\<exists>x\<in>set ts. message x ev) \<longrightarrow> (\<exists>m' cs. Update_panel F now ev m = Some (m', cs))) \<and>
    (length lines \<le> nat (itemCount m) \<longrightarrow> (\<exists>r. mouse_click m widths lines tall offset x y = Some r))"
proof (intro conjI impI)
  have ok: "pm_ok m" "tasks_ok m ts" using panel_reachable_inv [OF assms] by (simp_all add: panel_inv_def)
  assume "from_outside ev \<or> (\<exists>x\<in>set ts. message x ev)"
  then consider "from_outside ev" | x where "x \<in> set ts" "message x ev" "x \<noteq> CTimer" | "message CTimer ev" by blast
  then show "\<exists>m' cs. Update_panel F now ev m = Some (m', cs)"
  proof cases
    case 1
    then show ?thesis using update_outside [OF ok(1), of ev F now] by (force simp: fine_option_def)
  next
    case 2
    then show ?thesis using update_inside [OF ok 2(1,3,2), of F now] by (force simp: fine_option_def)
  next
    case 3
    then show ?thesis using update_tick [OF ok(1), of F now] by (auto elim: message_elims)
  qed
next
  assume "length lines \<le> nat (itemCount m)"
  then show "\<exists>r. mouse_click m widths lines tall offset x y = Some r" using mouse_click_fine by blast
qed

text \<open>A session of the panel: it opens, reads the configuration of a device that shares nothing, takes an invitation and reads again.\<close>

definition panel_config :: config where
  "panel_config = \<lparr>cfVersion = 2, cfHive = ''hive:2222'', cfIdentity = ''/id'', cfKnownHosts = ''/kh'', cfName = ''desk'', cfEnabled = False, cfRules = []\<rparr>"

definition panel_reading :: psnapshot where
  "panel_reading = read_panel 0 (panel_config, None) \<lparr>stConnected = False, stShares = [], stError = []\<rparr> False
     ([\<lparr>hsName = ''main'', hsRunning = True, hsSocket = ''/s''\<rparr>], False)"

definition plain_fields :: "nat \<Rightarrow> bytes \<Rightarrow> bytes" where "plain_fields i v = v"

definition typed :: "bytes \<Rightarrow> bytes" where "typed v = v @ ''x''"

definition sample_typing :: "panel \<times> pcmd list" where
  "sample_typing =
     (newPanel\<lparr>pmSnap := panel_reading, pmReady := True, pmEditing := True, pmFields := [''hive:2222'', ''desk'', ''/id'', [], ''x''],
        pmDirty := True, pmDirtyFields := [False, False, False, False, True], pmRefreshing := True,
        pmHive := \<lparr>hdTarget = target_of panel_config, hdSeq = 1, hdShares = [], hdErr = False, hdLoading = False, hdLoaded = False, hdNext = 0\<rparr>\<rparr>,
      [CRead 0, CTimer])"

text \<open>What is reached, step by step.\<close>

definition sample_ready :: panel where
  "sample_ready = newPanel\<lparr>pmSnap := panel_reading, pmReady := True, pmFields := [''hive:2222'', ''desk'', ''/id'', [], []],
     pmHive := (pmHive newPanel)\<lparr>hdTarget := target_of panel_config, hdSeq := 1\<rparr>\<rparr>"

lemma sample_steps:
  "Update_panel plain_fields 0 Tick newPanel = Some (newPanel\<lparr>pmRefreshing := True\<rparr>, [CRead 0, CTimer])"
  "Update_panel plain_fields 0 (Snapped panel_reading) (newPanel\<lparr>pmRefreshing := True\<rparr>) = Some (sample_ready, [])"
  "Update_panel plain_fields 0 (Key ''enter'' typed) sample_ready = Some (sample_ready\<lparr>pmEditing := True\<rparr>, [])"
  "Update_panel plain_fields 0 Tick (sample_ready\<lparr>pmEditing := True\<rparr>) =
     Some (sample_ready\<lparr>pmEditing := True, pmRefreshing := True\<rparr>, [CRead 0, CTimer])"
  "Update_panel plain_fields 0 (Key ''x'' typed) (sample_ready\<lparr>pmEditing := True, pmRefreshing := True\<rparr>) = Some (fst sample_typing, [])"
  "snd sample_typing = [CRead 0, CTimer]" "snEpoch panel_reading = 0"
  by code_simp+

lemma sample_typing_reachable: "panel_reachable plain_fields sample_typing"
proof -
  note begin' = panel_reachable.step [OF panel_reachable.start]
  have 1: "panel_reachable plain_fields (newPanel\<lparr>pmRefreshing := True\<rparr>, [CRead 0, CTimer])"
    using begin' [OF panel_run_step.inside [OF _ _ timer sample_steps(1)]] by simp
  have 2: "panel_reachable plain_fields (sample_ready, [CTimer])"
    using panel_reachable.step [OF 1 panel_run_step.inside [OF _ _ reading [OF sample_steps(7)] sample_steps(2)]] by simp
  have 3: "panel_reachable plain_fields (sample_ready\<lparr>pmEditing := True\<rparr>, [CTimer])"
    using panel_reachable.step [OF 2 panel_run_step.outside [OF _ _ sample_steps(3)]] by simp
  have 4: "panel_reachable plain_fields (sample_ready\<lparr>pmEditing := True, pmRefreshing := True\<rparr>, [CRead 0, CTimer])"
    using panel_reachable.step [OF 3 panel_run_step.inside [OF _ _ timer sample_steps(4)]] by simp
  have "panel_reachable plain_fields (fst sample_typing, [CRead 0, CTimer])"
    using panel_reachable.step [OF 4 panel_run_step.outside [OF _ _ sample_steps(5)]] by simp
  then show ?thesis by (metis prod.collapse sample_steps(6))
qed

text \<open>The list of shares is always that of the configuration that the panel shows.\<close>

lemma after_target: "after now r = (m', cs) \<Longrightarrow> hdTarget (pmHive m') = target_of (pmConfig m')"
  by (auto simp: after_def refreshHive_def Let_def split: prod.splits if_splits)

lemma done_snap: "on_done F msg m = (m', q) \<Longrightarrow> pmSnap m' = pmSnap m \<and> pmHive m' = pmHive m"
  unfolding on_done_def Let_def
  by (cases "dnErr msg"; cases "dnSaved msg"; cases "dnJoined msg"; cases "dnUpdate msg") auto

lemma update_shape:
  assumes "Update_panel F now ev m = Some r"
  shows "pmSnap (fst r) = pmSnap m \<and> pmHive (fst r) = pmHive m \<or> (\<exists>r1. r = after now r1)"
proof (cases ev)
  case Plain
  then show ?thesis using assms by (auto simp: Update_panel_def simp del: split_paired_Ex)
next
  case Tick
  obtain m1 cs where "panel_refresh m = (m1, cs)" by fastforce
  then show ?thesis using assms Tick by (auto simp: Update_panel_def simp del: split_paired_Ex)
next
  case (Ended msg)
  obtain m1 q where d: "on_done F msg m = (m1, q)" by fastforce
  then show ?thesis using assms Ended done_snap [OF d] by (cases q) (auto simp: Update_panel_def simp del: split_paired_Ex)
next
  case (Click t p n)
  then show ?thesis using assms by (auto simp: Update_panel_def simp del: split_paired_Ex split: option.splits sum.splits)
next
  case (Key k f)
  then show ?thesis using assms
    by (cases "k = ''ctrl+c''"; cases "pmEditing m") (auto simp: Update_panel_def simp del: split_paired_Ex split: option.splits)
next
  case (Input f)
  then show ?thesis using assms by (cases "pmEditing m") (auto simp: Update_panel_def simp del: split_paired_Ex)
qed (use assms in \<open>auto simp: Update_panel_def simp del: split_paired_Ex\<close>)

lemma update_target:
  assumes "Update_panel F now ev m = Some (m', cs)" "hdTarget (pmHive m) = target_of (pmConfig m)"
  shows "hdTarget (pmHive m') = target_of (pmConfig m')"
  using update_shape [OF assms(1)] assms(2) by (metis after_target fst_conv)

lemma target_kept: "panel_reachable F s \<Longrightarrow> hdTarget (pmHive (fst s)) = target_of (pmConfig (fst s))"
proof (induction rule: panel_reachable.induct)
  case start
  show ?case by (simp add: newPanel_def target_of_def)
next
  case (step s s')
  then show ?case by (auto elim!: panel_run_step.cases dest: update_target)
qed

lemma panel_never_panics_witness:
  "\<exists>m' cs. Update_panel plain_fields 7 (Key ''tab'' typed) newPanel = Some (m', cs)"
  using panel_never_panics [OF panel_reachable.start, of "Key ''tab'' typed" plain_fields 7] by simp

text \<open>
  C24. What runs beside the panel: at most one sequence of commands, exactly when the panel is busy; at most one reading of
  the configuration, exactly when one is awaited; and always exactly one timer, so that the panel keeps polling. While commands run no
  field is edited. A listing of a Hive changes the panel only if it is the answer to the last question and the
  Hive asked is the one in the configuration that is shown.
\<close>

theorem panel_one_command:
  assumes "panel_reachable F (m, ts)"
  shows "length (filter is_exec ts) = (if pmBusy m then 1 else 0) \<and> length (filter is_read ts) = (if pmRefreshing m then 1 else 0) \<and>
    filter (\<lambda>x. x = CTimer) ts = [CTimer] \<and> (pmBusy m \<longrightarrow> \<not> pmEditing m) \<and>
    (on_hive now t q l failed m \<noteq> m \<longrightarrow> t = target_of (pmConfig m) \<and> (\<forall>g p. CHive g p \<in> set ts \<longrightarrow> p \<le> q))"
proof -
  have ok: "pm_ok m" "tasks_ok m ts" "filter (\<lambda>x. x = CTimer) ts = [CTimer]"
    using panel_reachable_inv [OF assms] by (simp_all add: panel_inv_def)
  moreover have "t = hdTarget (pmHive m) \<and> q = hdSeq (pmHive m)" if "on_hive now t q l failed m \<noteq> m"
    using that by (auto simp: on_hive_def Let_def split: if_splits)
  ultimately show ?thesis using target_kept [OF assms] by (auto simp: tasks_ok_def one_def pm_ok_def)
qed

lemma panel_one_command_witness:
  "length (filter is_read (snd sample_typing)) = 1 \<and> length (filter is_exec (snd sample_typing)) = 0"
  using panel_one_command [of plain_fields "fst sample_typing" "snd sample_typing"] sample_typing_reachable
  by (simp add: sample_typing_def newPanel_def)

lemma sync_field_nth: "i < length (pmFields m) \<Longrightarrow> pmFields (sync_field F j v m) ! i =
    (if j = i \<and> \<not> pmDirtyFields m ! i \<and> \<not> (pmEditing m \<and> fieldIndex m = int i) then F i v else pmFields m ! i)"
  by (cases "j = i") (simp_all add: sync_field_def)

lemma syncFields_nth:
  assumes "i < length (pmFields m)"
  shows "pmFields (syncFields F m) ! i =
    (if i < 3 \<and> \<not> pmDirtyFields m ! i \<and> \<not> (pmEditing m \<and> fieldIndex m = int i)
     then F i ([cfHive (pmConfig m), cfName (pmConfig m), cfIdentity (pmConfig m)] ! i) else pmFields m ! i)"
proof -
  consider "i = 0" | "i = 1" | "i = 2" | "3 \<le> i" by linarith
  then show ?thesis using assms by cases (simp_all add: syncFields_def sync_field_nth)
qed

lemma after_same: "after now r = (m', cs) \<Longrightarrow> pmFields m' = pmFields (fst r) \<and> pmDirtyFields m' = pmDirtyFields (fst r) \<and>
    pmEditing m' = pmEditing (fst r) \<and> pmSnap m' = pmSnap (fst r) \<and> fieldIndex m' = fieldIndex (fst r)"
  by (auto simp: after_def refreshHive_def Let_def split: prod.splits if_splits)

text \<open>
  C22. A reading of the configuration never destroys what the user types: a field that was changed, or is being edited,
  and the token and the invitation always, keep their value; the marks of changed fields, the editing and the field
  that is edited stay. A reading that was overtaken by a command, or arrives while one runs, shows
  nothing at all; any other that succeeds puts its address, name and key file in the other fields.
\<close>

theorem panel_edits_kept:
  assumes r: "panel_reachable F (m, ts)" and u: "Update_panel F now (Snapped sn) m = Some (m', cs)" and i: "i < 5"
  shows "(pmDirtyFields m ! i \<or> (pmEditing m \<and> fieldIndex m = int i) \<or> 3 \<le> i \<longrightarrow> pmFields m' ! i = pmFields m ! i) \<and>
    pmDirtyFields m' = pmDirtyFields m \<and> pmEditing m' = pmEditing m \<and> (pmEditing m \<longrightarrow> fieldIndex m' = fieldIndex m) \<and>
    (pmBusy m \<or> snEpoch sn \<noteq> pmEpoch m \<longrightarrow> pmSnap m' = pmSnap m \<and> pmFields m' = pmFields m) \<and>
    (\<not> pmBusy m \<and> snEpoch sn = pmEpoch m \<and> snErr sn = None \<and> i < 3 \<and> \<not> pmDirtyFields m ! i \<and>
       \<not> (pmEditing m \<and> fieldIndex m = int i) \<longrightarrow>
     pmFields m' ! i = F i ([cfHive (snConfig sn), cfName (snConfig sn), cfIdentity (snConfig sn)] ! i))"
proof -
  have ok: "pm_ok m" using panel_reachable_inv [OF r] by (simp add: panel_inv_def)
  obtain m1 where m1: "on_snapshot F sn m = Some m1" "after now (m1, []) = (m', cs)" using u by (auto simp: Update_panel_def)
  note same = after_same [OF m1(2), unfolded fst_conv]
  show ?thesis
  proof (cases "\<not> pmBusy m \<and> snEpoch sn = pmEpoch m \<and> snErr sn = None")
    case False
    then show ?thesis using m1(1) same by (auto simp: on_snapshot_def Let_def split: if_splits option.splits)
  next
    case True
    let ?n = "selected_session (m\<lparr>pmRefreshing := False\<rparr>)" and ?m = "m\<lparr>pmRefreshing := False, pmSnap := sn\<rparr>"
    let ?b = "snErr (pmSnap m) \<noteq> None"
    have e: "m1 = show_snapshot F ?b ?n ?m" using True m1(1) by (auto simp: on_snapshot_def Let_def split: if_splits)
    have idx: "0 \<le> fieldIndex m \<Longrightarrow> ?n = [] \<and> fieldIndex m1 = fieldIndex m"
      using field_page [of m] show_index [of ?m] by (simp add: e selected_elsewhere)
    have ed: "pmEditing m \<Longrightarrow> 0 \<le> fieldIndex m" using ok by (simp add: pm_ok_def)
    define k where "k = select_session ?n (if ?b then ?m\<lparr>pmMessage := Note [], pmMessageError := False\<rparr> else ?m)"
    have k: "pmFields k = pmFields m" "pmDirtyFields k = pmDirtyFields m" "pmEditing k = pmEditing m" "pmSnap k = sn"
      by (simp_all add: k_def)
    have kidx: "pmEditing m \<Longrightarrow> fieldIndex k = fieldIndex m" using idx ed by (simp add: k_def)
    have "pmFields m1 = pmFields (syncFields F k)" by (simp add: e show_snapshot_def Let_def k_def)
    then have f: "pmFields m1 ! i = (if i < 3 \<and> \<not> pmDirtyFields m ! i \<and> \<not> (pmEditing m \<and> fieldIndex m = int i)
        then F i ([cfHive (snConfig sn), cfName (snConfig sn), cfIdentity (snConfig sn)] ! i) else pmFields m ! i)"
      using syncFields_nth [of i k F] ok i k kidx by (auto simp: pm_ok_def)
    have "pmDirtyFields m1 = pmDirtyFields m" "pmEditing m1 = pmEditing m" by (simp_all add: e)
    then show ?thesis using True same f idx ed by auto
  qed
qed

lemma sample_reread:
  "Update_panel plain_fields 3 (Snapped (panel_reading\<lparr>snConfig := panel_config\<lparr>cfName := ''lab''\<rparr>\<rparr>)) (fst sample_typing) =
     Some (fst sample_typing\<lparr>pmRefreshing := False, pmSnap := panel_reading\<lparr>snConfig := panel_config\<lparr>cfName := ''lab''\<rparr>\<rparr>,
       pmFields := [''hive:2222'', ''lab'', ''/id'', [], ''x'']\<rparr>, [])"
  by code_simp

lemma panel_edits_kept_witness:
  "\<exists>m'. Update_panel plain_fields 3 (Snapped (panel_reading\<lparr>snConfig := panel_config\<lparr>cfName := ''lab''\<rparr>\<rparr>)) (fst sample_typing) =
     Some (m', []) \<and> pmFields m' ! 4 = pmFields (fst sample_typing) ! 4 \<and> pmDirtyFields m' = pmDirtyFields (fst sample_typing)"
proof -
  have r: "panel_reachable plain_fields (fst sample_typing, snd sample_typing)" using sample_typing_reachable by simp
  have "(4::nat) < 5" by simp
  note e = panel_edits_kept [OF r sample_reread this]
  have "(3::nat) \<le> 4" by simp
  note four = e [THEN conjunct1, THEN mp, OF disjI2, OF disjI2, OF this]
  show ?thesis by (rule exI, rule conjI, rule sample_reread, rule conjI, rule four, rule e [THEN conjunct2, THEN conjunct1])
qed

end
