(* ===== verification/BeeDaemon.thy ===== *)
theory BeeDaemon
  imports BeePublisher Update GoNet
begin

text \<open>
  The Bee as a program (\<open>bee/internal/publisher/daemon.go\<close>, \<open>app/app.go\<close>, \<open>app/update.go\<close>): one process under a lock publishes the
  configuration and answers a control socket; the commands change the configuration, ask the process to read it
  again, and start or replace it. What other programs do meanwhile is \<open>be_others\<close>, asked before each request with
  its number; what becomes of a request is \<open>be_channel\<close>. The flags of \<open>configure\<close> are input, and times milliseconds.
\<close>

section \<open>The process that publishes\<close>

record bstatus =
  bsVersion :: bytes
  bsExecutable :: bytes
  bsPid :: nat
  bsEnabled :: bool
  bsConnected :: bool
  bsShares :: "share list"
  bsError :: bytes

definition no_status :: bstatus where
  "no_status = \<lparr>bsVersion = [], bsExecutable = [], bsPid = 0, bsEnabled = False, bsConnected = False, bsShares = [], bsError = []\<rparr>"

text \<open>\<open>dmRun\<close> is the configuration whose publisher runs, if one does.\<close>

record daemon =
  dmRun :: "config option"
  dmStatus :: bstatus
  dmVersion :: bytes
  dmExe :: bytes
  dmPid :: nat

text \<open>\<open>bwHeld\<close>: the lock is held by a program that serves no socket, this one or another that starts or updates.\<close>

datatype holder = Here | Elsewhere

record bworld =
  bwFile :: "bytes stored"
  bwHeld :: "holder option"
  bwDaemon :: "daemon option"

record denv =
  de_cf :: cfcodec
  de_host :: bytes
  de_text :: "cferror \<Rightarrow> bytes"

definition reload :: "denv \<Rightarrow> bytes stored \<Rightarrow> daemon \<Rightarrow> daemon" where
  "reload D file d =
     (case Load (de_cf D) (de_host D) file of
        Inl e \<Rightarrow> d\<lparr>dmRun := None, dmStatus := no_status\<lparr>bsError := de_text D e\<rparr>\<rparr>
      | Inr c \<Rightarrow> d\<lparr>dmRun := (if cfEnabled c then Some c else None), dmStatus := no_status\<lparr>bsEnabled := cfEnabled c\<rparr>\<rparr>)"

text \<open>What the publisher of \<open>Run\<close> reports while its context lives.\<close>

definition run_connected :: "share list \<Rightarrow> daemon \<Rightarrow> daemon" where
  "run_connected vs d =
     (if dmRun d = None then d
      else d\<lparr>dmStatus := no_status\<lparr>bsEnabled := True, bsConnected := True, bsShares := vs\<rparr>\<rparr>)"

definition run_failed :: "bytes option \<Rightarrow> daemon \<Rightarrow> daemon" where
  "run_failed e d =
     (if dmRun d = None then d
      else d\<lparr>dmStatus := no_status\<lparr>bsEnabled := True, bsError := (case e of None \<Rightarrow> ''publisher disconnected'' | Some m \<Rightarrow> m)\<rparr>\<rparr>)"

text \<open>A request, if it can be read: the process afterwards, and the answer.\<close>

definition serve_request :: "denv \<Rightarrow> bytes stored \<Rightarrow> bytes option \<Rightarrow> daemon \<Rightarrow> daemon option \<times> bstatus option" where
  "serve_request D file request d =
     (case request of
        None \<Rightarrow> (Some d, None)
      | Some op \<Rightarrow>
          (let d1 = (if op = ''reload'' then reload D file d else d);
               answer = (dmStatus d1)\<lparr>bsVersion := dmVersion d1, bsExecutable := dmExe d1, bsPid := dmPid d1\<rparr> in
           (if op = ''restart'' \<or> op = ''reload'' \<and> \<not> bsEnabled (dmStatus d1) then None else Some d1, Some answer)))"

datatype dfail = DaemonIO | AlreadyRunning | PathTooLong

definition max_socket_path :: nat where "max_socket_path = 100"

text \<open>\<open>Daemon\<close> up to its loop; \<open>ok\<close> are the outcomes of the file operations in their order.\<close>

definition Daemon_start :: "denv \<Rightarrow> (nat \<Rightarrow> bool) \<Rightarrow> bytes \<Rightarrow> bytes \<Rightarrow> bytes \<Rightarrow> nat \<Rightarrow> bworld \<Rightarrow> bworld \<times> dfail option" where
  "Daemon_start D ok path version exe pid w =
     (if \<not> ok 0 \<or> \<not> ok 1 \<or> \<not> ok 2 then (w, Some DaemonIO)
      else if bwHeld w \<noteq> None \<or> bwDaemon w \<noteq> None then (w, Some AlreadyRunning)
      else if length path > max_socket_path then (w, Some PathTooLong)
      else if \<not> ok 3 \<or> \<not> ok 4 then (w, Some DaemonIO)
      else
        (w\<lparr>bwDaemon := Some (reload D (bwFile w)
            \<lparr>dmRun = None, dmStatus = no_status, dmVersion = version, dmExe = exe, dmPid = pid\<rparr>)\<rparr>, None))"

section \<open>Requests\<close>

datatype cfail = NoSocket | ConnFailed

text \<open>What becomes of a request to a process that runs: it never arrives, its answer is lost, or it is answered.\<close>

datatype channel = Unreached cfail | Unanswered | Answered

record benv =
  be_d :: denv
  be_save :: bool
  be_channel :: "nat \<Rightarrow> channel"
  be_others :: "nat \<Rightarrow> bworld \<Rightarrow> bworld"
  be_took :: "nat \<Rightarrow> nat"
  be_lock :: "nat \<Rightarrow> bool"
  be_exec :: "nat \<Rightarrow> bool"

text \<open>The k-th request: \<open>Control\<close>.\<close>

definition Control :: "benv \<Rightarrow> nat \<Rightarrow> bytes \<Rightarrow> bworld \<Rightarrow> bworld \<times> (cfail + bstatus)" where
  "Control E k op w0 =
     (let w = be_others E k w0 in
      case bwDaemon w of
        None \<Rightarrow> (w, Inl NoSocket)
      | Some d \<Rightarrow>
          (case be_channel E k of
             Unreached f \<Rightarrow> (w, Inl f)
           | _ \<Rightarrow>
               (case serve_request (be_d E) (bwFile w) (Some op) d of
                  (d1, answer) \<Rightarrow>
                    (w\<lparr>bwDaemon := d1\<rparr>,
                     case answer of
                       None \<Rightarrow> Inl ConnFailed
                     | Some s \<Rightarrow> if be_channel E k = Answered then Inr s else Inl ConnFailed))))"

section \<open>Commands\<close>

datatype berr =
    BUsage
  | BConfig cferror
  | BControl cfail
  | BIO
  | BPending
  | BNotStarted cfail
  | BSessions
  | BBind bind_error
  | BNoSession
  | BAddress
  | BEnroll

definition change :: "benv \<Rightarrow> (config \<Rightarrow> cferror + config) \<Rightarrow> bworld \<Rightarrow> bworld \<times> (berr + config)" where
  "change E f w =
     (case Update_cfg (de_cf (be_d E)) (de_host (be_d E)) (be_save E) f (bwFile w) of
        (file, Inl e) \<Rightarrow> (w\<lparr>bwFile := file\<rparr>, Inl (BConfig e))
      | (file, Inr c) \<Rightarrow>
          (case Control E 0 ''status'' (w\<lparr>bwFile := file\<rparr>) of
             (w1, Inl _) \<Rightarrow> (w1, Inr c)
           | (w1, Inr _) \<Rightarrow>
               (case Control E 1 ''reload'' w1 of
                  (w2, Inl e) \<Rightarrow> (w2, Inl (BControl e))
                | (w2, Inr _) \<Rightarrow> (w2, Inr c))))"

definition spawnIfUnowned :: "benv \<Rightarrow> nat \<Rightarrow> bworld \<Rightarrow> berr + bool" where
  "spawnIfUnowned E k w =
     (if \<not> be_lock E k then Inl BIO
      else if bwHeld w \<noteq> None \<or> bwDaemon w \<noteq> None then Inr False
      else if \<not> be_exec E k then Inl BIO
      else Inr True)"

text \<open>The loop of \<open>start\<close>. A result has the world, the launches with their time, what was printed, and the error.\<close>

record start_result =
  srWorld :: bworld
  srLaunches :: "(nat \<times> bworld) list"
  srPrinted :: "bstatus option"
  srError :: "berr option"

definition start_deadline :: nat where "start_deadline = 8000"

function start_loop :: "benv \<Rightarrow> nat \<Rightarrow> nat \<Rightarrow> (nat \<times> bworld) list \<Rightarrow> cfail + bstatus \<Rightarrow> bworld \<Rightarrow> start_result" where
  "start_loop E k now launches prev w =
     (if now \<ge> start_deadline then
        (case prev of
           Inl f \<Rightarrow> \<lparr>srWorld = w, srLaunches = launches, srPrinted = None, srError = Some (BNotStarted f)\<rparr>
         | Inr s \<Rightarrow> \<lparr>srWorld = w, srLaunches = launches, srPrinted = Some s, srError = Some BPending\<rparr>)
      else
        (case Control E k ''status'' w of
           (w1, Inr s) \<Rightarrow>
             if bsConnected s \<or> bsError s \<noteq> [] then
               \<lparr>srWorld = w1, srLaunches = launches, srPrinted = Some s,
                srError = (if bsError s \<noteq> [] then Some BPending else None)\<rparr>
             else start_loop E (k + 1) (now + be_took E k + 100) launches (Inr s) w1
         | (w1, Inl f) \<Rightarrow>
             (let later = now + be_took E k in
              if length launches < 3 \<and> (case launches of [] \<Rightarrow> True | (t, _) # _ \<Rightarrow> later - t \<ge> 1000) then
                (case spawnIfUnowned E k w1 of
                   Inl e \<Rightarrow> \<lparr>srWorld = w1, srLaunches = launches, srPrinted = None, srError = Some e\<rparr>
                 | Inr launched \<Rightarrow>
                     start_loop E (k + 1) (later + 100) (if launched then (later, w1) # launches else launches) (Inl f) w1)
              else start_loop E (k + 1) (later + 100) launches (Inl f) w1)))"
  by pat_completeness auto

termination
  by (relation "measure (\<lambda>(E, k, now, _). start_deadline - now)") auto

definition start_cmd :: "benv \<Rightarrow> bool \<Rightarrow> bworld \<Rightarrow> start_result" where
  "start_cmd E reread w =
     (case Control E 0 ''status'' w of
        (w1, Inr _) \<Rightarrow>
          if reread then
            (case Control E 1 ''reload'' w1 of
               (w2, Inl f) \<Rightarrow> \<lparr>srWorld = w2, srLaunches = [], srPrinted = None, srError = Some (BControl f)\<rparr>
             | (w2, Inr _) \<Rightarrow> start_loop E 2 0 [] (Inr no_status) w2)
          else start_loop E 2 0 [] (Inr no_status) w1
      | (w1, Inl _) \<Rightarrow> start_loop E 2 0 [] (Inr no_status) w1)"

definition enable_run :: "benv \<Rightarrow> bworld \<Rightarrow> start_result" where
  "enable_run E w =
     (case Update_cfg (de_cf (be_d E)) (de_host (be_d E)) (be_save E) enable_cmd (bwFile w) of
        (file, Inl e) \<Rightarrow> \<lparr>srWorld = w\<lparr>bwFile := file\<rparr>, srLaunches = [], srPrinted = None, srError = Some (BConfig e)\<rparr>
      | (file, Inr _) \<Rightarrow> start_cmd E True (w\<lparr>bwFile := file\<rparr>))"

definition restore_run :: "benv \<Rightarrow> bworld \<Rightarrow> start_result" where
  "restore_run E w =
     (case Load (de_cf (be_d E)) (de_host (be_d E)) (bwFile w) of
        Inl e \<Rightarrow> \<lparr>srWorld = w, srLaunches = [], srPrinted = None, srError = Some (BConfig e)\<rparr>
      | Inr c \<Rightarrow>
          if cfEnabled c then start_cmd E False w
          else \<lparr>srWorld = w, srLaunches = [], srPrinted = None, srError = None\<rparr>)"

definition status_run :: "benv \<Rightarrow> bworld \<Rightarrow> bworld \<times> (berr + bstatus)" where
  "status_run E w =
     (case Control E 0 ''status'' w of
        (w1, Inr s) \<Rightarrow> (w1, Inr s)
      | (w1, Inl _) \<Rightarrow>
          (w1, case Load (de_cf (be_d E)) (de_host (be_d E)) (bwFile w1) of
             Inl e \<Rightarrow> Inl (BConfig e)
           | Inr c \<Rightarrow> Inr (no_status\<lparr>bsEnabled := cfEnabled c,
                bsError := (if cfEnabled c then ''Bee is not running; run bee enable'' else [])\<rparr>)))"

text \<open>A session can be selected if it runs and its sockets can be bound; every session of the name is tried.\<close>

fun selectable :: "filesystem \<Rightarrow> nat \<Rightarrow> bytes \<Rightarrow> hsession list \<Rightarrow> bool \<Rightarrow> berr option" where
  "selectable fs t name [] found = (if found then None else Some BNoSession)"
| "selectable fs t name (s # ss) found =
     (if hsName s = name \<and> hsRunning s then
        (case Bind fs t s of Inl e \<Rightarrow> Some (BBind e) | Inr _ \<Rightarrow> selectable fs (t + 4) name ss True)
      else selectable fs t name ss found)"

definition share_run :: "benv \<Rightarrow> filesystem \<Rightarrow> hsession list option \<Rightarrow> bytes option \<Rightarrow> bytes \<Rightarrow> bworld \<Rightarrow> bworld \<times> (berr + config)" where
  "share_run E fs sessions random name w =
     (case sessions of
        None \<Rightarrow> (w, Inl BSessions)
      | Some ss \<Rightarrow>
          (case selectable fs 0 name ss False of
             Some e \<Rightarrow> (w, Inl e)
           | None \<Rightarrow> change E (share_cmd random name) w))"

definition unshare_run :: "benv \<Rightarrow> bytes \<Rightarrow> bworld \<Rightarrow> bworld \<times> (berr + config)" where
  "unshare_run E name w = change E (unshare_cmd name) w"

text \<open>\<open>configure\<close> after its flags were read: the enrollment comes before anything is changed.\<close>

record cenv =
  ce_abs :: "bytes \<Rightarrow> bytes option"
  ce_exists :: "bytes \<Rightarrow> bool"
  ce_home :: "bytes option"
  ce_join :: "bytes \<Rightarrow> bytes"
  ce_enroll :: "config \<Rightarrow> bytes \<Rightarrow> bool"

definition knownHostsPath :: "cenv \<Rightarrow> bytes \<Rightarrow> bytes \<Rightarrow> bytes option" where
  "knownHostsPath C requested saved =
     (if requested \<noteq> [] then ce_abs C requested
      else if saved \<noteq> [] then Some saved
      else map_option (ce_join C) (ce_home C))"

definition configure_run :: "benv \<Rightarrow> cenv \<Rightarrow> bytes \<Rightarrow> bytes \<Rightarrow> bytes \<Rightarrow> bytes \<Rightarrow> nat \<Rightarrow> bworld \<Rightarrow> bworld \<times> (berr + config)" where
  "configure_run E C hive identity token known extra w =
     (if extra \<noteq> 0 \<or> hive = [] \<or> identity = [] then (w, Inl BUsage)
      else if SplitHostPort hive = None then (w, Inl BAddress)
      else case ce_abs C identity of
        None \<Rightarrow> (w, Inl BIO)
      | Some ip \<Rightarrow>
          if \<not> ce_exists C ip then (w, Inl BIO)
          else (case Load (de_cf (be_d E)) (de_host (be_d E)) (bwFile w) of
             Inl e \<Rightarrow> (w, Inl (BConfig e))
           | Inr found \<Rightarrow>
               (case knownHostsPath C known (cfKnownHosts found) of
                  None \<Rightarrow> (w, Inl BIO)
                | Some kp \<Rightarrow>
                    if \<not> ce_exists C kp then (w, Inl BIO)
                    else if token \<noteq> [] \<and> \<not> ce_enroll C (found\<lparr>cfHive := hive, cfIdentity := ip, cfKnownHosts := kp\<rparr>) token
                    then (w, Inl BEnroll)
                    else change E (configure_cmd hive ip kp) w)))"

text \<open>\<open>Execute\<close>: the commands about this device. \<open>XElsewhere\<close> are those that talk to a Hive or open a panel, and \<open>help\<close>; the
  answer of \<open>share\<close> and its like is the configuration.\<close>

record xenv =
  xSessions :: "hsession list option"
  xFs :: filesystem
  xRandom :: "bytes option"
  xPaths :: cenv
  xFlags :: "bytes list \<Rightarrow> (bytes \<times> bytes \<times> bytes \<times> bytes \<times> nat) option"

datatype xresult =
    XNothing
  | XConfig config
  | XStatus bstatus
  | XName bytes
  | XSessions "hsession list"
  | XStarted "bstatus option"
  | XError berr
  | XUnknown
  | XElsewhere

definition result_of :: "('a \<Rightarrow> xresult) \<Rightarrow> bworld \<times> (berr + 'a) \<Rightarrow> bworld \<times> xresult" where
  "result_of p x = (case x of (w, Inl e) \<Rightarrow> (w, XError e) | (w, Inr v) \<Rightarrow> (w, p v))"

definition started_of :: "start_result \<Rightarrow> bworld \<times> xresult" where
  "started_of r = (srWorld r, case srError r of Some e \<Rightarrow> XError e | None \<Rightarrow> XStarted (srPrinted r))"

definition elsewhere_commands :: "bytes list" where
  "elsewhere_commands = [''help'', ''--help'', ''-h'', ''targets'', ''on'', ''join'', ''update'', ''open'', ''tui'', ''run'']"

definition Execute :: "benv \<Rightarrow> xenv \<Rightarrow> bytes list \<Rightarrow> bworld \<Rightarrow> bworld \<times> xresult" where
  "Execute E X args w =
     (case args of
        [] \<Rightarrow> (w, XElsewhere)
      | command # rest \<Rightarrow>
          if command \<in> set elsewhere_commands then (w, XElsewhere)
          else if command = ''restore'' then started_of (restore_run E w)
          else if command = ''configure'' then
            (case xFlags X rest of
               None \<Rightarrow> (w, XError BUsage)
             | Some (hive, identity, token, known, extra) \<Rightarrow>
                 result_of XConfig (configure_run E (xPaths X) hive identity token known extra w))
          else if command = ''name'' then
            (case rest of
               [] \<Rightarrow>
                 (w, case Load (de_cf (be_d E)) (de_host (be_d E)) (bwFile w) of Inl e \<Rightarrow> XError (BConfig e) | Inr c \<Rightarrow> XName (cfName c))
             | [name] \<Rightarrow> result_of XConfig (change E (name_cmd name) w)
             | _ \<Rightarrow> (w, XError BUsage))
          else if command = ''sessions'' then
            (w, if rest \<noteq> [] then XError BUsage else case xSessions X of None \<Rightarrow> XError BSessions | Some ss \<Rightarrow> XSessions ss)
          else if command = ''share'' then
            (case rest of [name] \<Rightarrow> result_of XConfig (share_run E (xFs X) (xSessions X) (xRandom X) name w) | _ \<Rightarrow> (w, XError BUsage))
          else if command = ''unshare'' then
            (case rest of [name] \<Rightarrow> result_of XConfig (unshare_run E name w) | _ \<Rightarrow> (w, XError BUsage))
          else if command = ''enable'' then (if rest \<noteq> [] then (w, XError BUsage) else started_of (enable_run E w))
          else if command = ''disable'' then
            (if rest \<noteq> [] then (w, XError BUsage) else result_of XConfig (change E disable_cmd w))
          else if command = ''status'' then (if rest \<noteq> [] then (w, XError BUsage) else result_of XStatus (status_run E w))
          else (w, XUnknown))"

section \<open>Update and activation\<close>






section \<open>The others\<close>

text \<open>What other programs may do beside a command: run the process, ask it, end it, take the lock and give it back; the
  publisher reports. \<open>edit\<close> is any other command, or the user, changing the configuration.\<close>

inductive other_step :: "denv \<Rightarrow> bworld \<Rightarrow> bworld \<Rightarrow> bool" for D where
  boot: "Daemon_start D ok path version exe pid w = (w', r) \<Longrightarrow> other_step D w w'"
| request: "bwDaemon w = Some d \<Longrightarrow> serve_request D (bwFile w) op d = (d', a) \<Longrightarrow> other_step D w (w\<lparr>bwDaemon := d'\<rparr>)"
| connected: "bwDaemon w = Some d \<Longrightarrow> other_step D w (w\<lparr>bwDaemon := Some (run_connected vs d)\<rparr>)"
| failed: "bwDaemon w = Some d \<Longrightarrow> other_step D w (w\<lparr>bwDaemon := Some (run_failed e d)\<rparr>)"
| death: "other_step D w (w\<lparr>bwDaemon := None\<rparr>)"
| hold: "bwHeld w = None \<Longrightarrow> bwDaemon w = None \<Longrightarrow> other_step D w (w\<lparr>bwHeld := Some Elsewhere\<rparr>)"
| release: "bwHeld w = Some Elsewhere \<Longrightarrow> other_step D w (w\<lparr>bwHeld := None\<rparr>)"


definition calm :: "benv \<Rightarrow> bool" where
  "calm E \<longleftrightarrow> (\<forall>k w. (other_step (be_d E))\<^sup>*\<^sup>* w (be_others E k w))"

definition dm_ok :: "daemon \<Rightarrow> bool" where
  "dm_ok d \<longleftrightarrow> (bsEnabled (dmStatus d) \<longleftrightarrow> dmRun d \<noteq> None) \<and> (bsConnected (dmStatus d) \<longrightarrow> dmRun d \<noteq> None) \<and>
     (\<forall>c. dmRun d = Some c \<longrightarrow> cfEnabled c \<and> Validate c = None)"

definition bw_ok :: "bworld \<Rightarrow> bool" where
  "bw_ok w \<longleftrightarrow> (\<forall>d. bwDaemon w = Some d \<longrightarrow> dm_ok d \<and> bwHeld w = None)"

lemma Load_enabled: "Load J host file = Inr c \<Longrightarrow> cfEnabled c \<Longrightarrow> Validate c = None"
  by (auto simp: Load_def default_config_def split: stored.splits if_splits option.splits prod.splits)

lemma reload_ok: "dm_ok (reload D file d)"
  using Load_enabled by (auto simp: reload_def dm_ok_def no_status_def split: sum.split)

lemma report_ok: "dm_ok d \<Longrightarrow> dm_ok (run_connected vs d)" "dm_ok d \<Longrightarrow> dm_ok (run_failed e d)"
  by (auto simp: run_connected_def run_failed_def dm_ok_def no_status_def)

lemma serve_request_ok: "serve_request D file op d = (Some d', a) \<Longrightarrow> dm_ok d \<Longrightarrow> dm_ok d'"
  using reload_ok by (auto simp: serve_request_def Let_def split: option.splits if_splits)

lemma Daemon_start_ok: "Daemon_start D ok path version exe pid w = (w', r) \<Longrightarrow> bw_ok w \<Longrightarrow> bw_ok w'"
  using reload_ok by (auto simp: Daemon_start_def bw_ok_def split: if_splits)

lemma other_ok: "other_step D w w' \<Longrightarrow> bw_ok w \<Longrightarrow> bw_ok w'"
  by (induction rule: other_step.induct) (auto simp: bw_ok_def dest: Daemon_start_ok [unfolded bw_ok_def] serve_request_ok report_ok)


text \<open>The file, and a lock held here, are left alone; the process publishes what the file says once it did.\<close>

definition fresh_run :: "denv \<Rightarrow> bworld \<Rightarrow> bool" where
  "fresh_run D w \<longleftrightarrow> (\<forall>d c. bwDaemon w = Some d \<longrightarrow> dmRun d = Some c \<longrightarrow> Load (de_cf D) (de_host D) (bwFile w) = Inr c)"

lemma reload_run: "dmRun (reload D file d) = Some c \<Longrightarrow> Load (de_cf D) (de_host D) file = Inr c"
  by (auto simp: reload_def split: sum.splits if_splits)

lemma report_run [simp]: "dmRun (run_connected vs d) = dmRun d" "dmRun (run_failed e d) = dmRun d"
  by (simp_all add: run_connected_def run_failed_def)

lemma serve_request_run: "serve_request D file op d = (Some d', a) \<Longrightarrow> dmRun d' = Some c \<Longrightarrow> dmRun d = Some c \<or> Load (de_cf D) (de_host D) file = Inr c"
  using reload_run by (auto simp: serve_request_def Let_def split: option.splits if_splits)

lemma other_file: "other_step D w w' \<Longrightarrow> bwFile w' = bwFile w"
  by (induction rule: other_step.induct) (auto simp: Daemon_start_def split: if_splits)

lemma other_fresh: "other_step D w w' \<Longrightarrow> fresh_run D w \<Longrightarrow> fresh_run D w'"
proof (induction rule: other_step.induct)
  case (boot ok path version exe pid w w' r)
  then show ?case using reload_run by (fastforce simp: fresh_run_def Daemon_start_def split: if_splits)
next
  case (request w d op d' a)
  then show ?case using serve_request_run by (fastforce simp: fresh_run_def)
qed (auto simp: fresh_run_def)

lemma other_held: "other_step D w w' \<Longrightarrow> bwHeld w = Some Here \<and> bwDaemon w = None \<Longrightarrow> bwHeld w' = Some Here \<and> bwDaemon w' = None"
  by (induction rule: other_step.induct) (auto simp: Daemon_start_def split: if_splits)

lemma others_keep:
  assumes "calm E"
  shows "bwFile (be_others E k w) = bwFile w" "bw_ok w \<Longrightarrow> bw_ok (be_others E k w)"
    "fresh_run (be_d E) w \<Longrightarrow> fresh_run (be_d E) (be_others E k w)"
    "bwHeld w = Some Here \<Longrightarrow> bwDaemon w = None \<Longrightarrow> bwDaemon (be_others E k w) = None"
proof -
  have r: "(other_step (be_d E))\<^sup>*\<^sup>* w (be_others E k w)" using assms by (simp add: calm_def)
  show "bwFile (be_others E k w) = bwFile w" using r by (induction rule: rtranclp_induct) (auto dest: other_file)
  show "bw_ok w \<Longrightarrow> bw_ok (be_others E k w)" using r by (induction rule: rtranclp_induct) (auto dest: other_ok)
  show "fresh_run (be_d E) w \<Longrightarrow> fresh_run (be_d E) (be_others E k w)"
    using r by (induction rule: rtranclp_induct) (auto dest: other_fresh)
  have "bwHeld w = Some Here \<and> bwDaemon w = None \<Longrightarrow> bwHeld (be_others E k w) = Some Here \<and> bwDaemon (be_others E k w) = None"
    using r by (induction rule: rtranclp_induct) (blast dest: other_held)+
  then show "bwHeld w = Some Here \<Longrightarrow> bwDaemon w = None \<Longrightarrow> bwDaemon (be_others E k w) = None" by blast
qed

section \<open>A change reaches the process\<close>

lemma Control_answered:
  assumes "Control E k op w = (w', Inr a)"
  obtains d d' where "bwDaemon (be_others E k w) = Some d" "be_channel E k = Answered"
    "serve_request (be_d E) (bwFile (be_others E k w)) (Some op) d = (d', Some a)" "w' = (be_others E k w)\<lparr>bwDaemon := d'\<rparr>"
  using assms by (auto simp: Control_def Let_def split: option.splits channel.splits prod.splits if_splits)

lemma Control_ok:
  assumes "calm E" "Control E k op w = (w', r)"
  shows "bwFile w' = bwFile w" "bw_ok w \<Longrightarrow> bw_ok w'" "fresh_run (be_d E) w \<Longrightarrow> fresh_run (be_d E) w'"
proof -
  let ?v = "be_others E k w"
  note keep = others_keep [OF assms(1), where k = k and w = w]
  have shape: "w' = ?v \<or> (\<exists>d d' a. bwDaemon ?v = Some d \<and> serve_request (be_d E) (bwFile ?v) (Some op) d = (d', a) \<and> w' = ?v\<lparr>bwDaemon := d'\<rparr>)"
    using assms(2) by (auto simp: Control_def Let_def split: option.splits channel.splits prod.splits)
  then show "bwFile w' = bwFile w" using keep(1) by auto
  show "bw_ok w'" if "bw_ok w" using shape keep(2) [OF that] other_step.request other_ok by blast
  show "fresh_run (be_d E) w'" if "fresh_run (be_d E) w" using shape keep(3) [OF that] other_step.request other_fresh by blast
qed

lemma Control_connected:
  assumes "Control E k ''status'' w = (w', Inr s)"
  shows "\<exists>d. bwDaemon w' = Some d \<and> bsConnected s = bsConnected (dmStatus d) \<and> bsError s = bsError (dmStatus d) \<and>
    bsVersion s = dmVersion d \<and> bsExecutable s = dmExe d"
proof (rule Control_answered [OF assms])
  fix d d'
  assume "bwDaemon (be_others E k w) = Some d" "serve_request (be_d E) (bwFile (be_others E k w)) (Some ''status'') d = (d', Some s)"
    "w' = (be_others E k w)\<lparr>bwDaemon := d'\<rparr>"
  then show ?thesis by (intro exI [of _ d]) (auto simp: serve_request_def Let_def)
qed

lemma Control_reloaded:
  assumes "Control E k ''reload'' w = (w', Inr s)" "bwDaemon w' = Some d"
  shows "\<exists>c. Load (de_cf (be_d E)) (de_host (be_d E)) (bwFile w') = Inr c \<and> dmRun d = Some c \<and> cfEnabled c"
  by (rule Control_answered [OF assms(1)])
    (use assms(2) in \<open>auto simp: serve_request_def Let_def reload_def no_status_def split: if_splits sum.splits\<close>)

lemma Update_cfg_done: "Update_cfg J host saved f file = (file', Inr c) \<Longrightarrow>
    Validate c = None \<and> file' = Contents (cf_enc J c) \<and> (\<exists>c0. Load J host file = Inr c0 \<and> f c0 = Inr c)"
  by (auto simp: Update_cfg_def split: sum.splits option.splits if_splits)

lemma Load_encoded: "cf_codec_ok J plain \<Longrightarrow> plain c \<Longrightarrow> Load J host (Contents (cf_enc J c)) = Inr c' \<Longrightarrow> c' = c"
  by (auto simp: Load_def cf_codec_ok_def split: if_splits option.splits)

text \<open>
  C18. A change takes effect (\<open>change\<close>): a command that succeeds has saved a valid configuration, and if the process that
  publishes could answer, then afterwards no process publishes anything but what the configuration says: no
  session that was unshared, and nothing at all after \<open>disable\<close>. A process that could not be asked is left alone, and
  the command succeeds all the same.
\<close>

theorem change_takes_effect:
  assumes "change E f w = (w', Inr c)" and "calm E" and "cf_codec_ok (de_cf (be_d E)) plain" and "plain c"
  shows "Validate c = None \<and> bwFile w' = Contents (cf_enc (de_cf (be_d E)) c) \<and>
    (be_channel E 0 = Answered \<longrightarrow> (\<forall>d. bwDaemon w' = Some d \<longrightarrow> dmRun d = Some c \<and> cfEnabled c)) \<and>
    ((\<exists>e. be_channel E 0 = Unreached e) \<longrightarrow> w' = be_others E 0 (w\<lparr>bwFile := bwFile w'\<rparr>))"
proof -
  let ?J = "de_cf (be_d E)" and ?h = "de_host (be_d E)"
  obtain saved where u: "Update_cfg ?J ?h (be_save E) f (bwFile w) = (saved, Inr c)"
    using assms(1) by (auto simp: change_def split: prod.splits sum.splits)
  have c: "Validate c = None" "saved = Contents (cf_enc ?J c)" using Update_cfg_done [OF u] by auto
  let ?w = "w\<lparr>bwFile := saved\<rparr>"
  obtain w1 r where w1: "Control E 0 ''status'' ?w = (w1, r)" by fastforce
  have f1: "bwFile w1 = saved" using Control_ok(1) [OF assms(2) w1] by simp
  show ?thesis
  proof (cases r)
    case (Inl e)
    then have eq: "w' = w1" using assms(1) u w1 by (simp add: change_def)
    have "bwDaemon w1 = None" if "be_channel E 0 = Answered"
      using w1 Inl that by (auto simp: Control_def Let_def serve_request_def split: option.splits prod.splits)
    moreover have "w1 = be_others E 0 ?w" if "be_channel E 0 = Unreached e'" for e'
      using w1 that by (auto simp: Control_def Let_def split: option.splits)
    ultimately show ?thesis using c eq f1 by auto
  next
    case (Inr s)
    have ch: "be_channel E 0 = Answered" using w1 Inr by (auto elim: Control_answered)
    obtain w2 s2 where w2: "Control E 1 ''reload'' w1 = (w2, Inr s2)" "w' = w2"
      using assms(1) u w1 Inr by (auto simp: change_def split: prod.splits sum.splits)
    have f2: "bwFile w2 = saved" using Control_ok(1) [OF assms(2) w2(1)] f1 by simp
    have "dmRun d = Some c \<and> cfEnabled c" if "bwDaemon w2 = Some d" for d
      using Control_reloaded [OF w2(1) that] f2 c(2) Load_encoded [OF assms(3,4)] by metis
    then show ?thesis using c f2 w2(2) ch by simp
  qed
qed

section \<open>Starting\<close>

definition launches_ok :: "(nat \<times> bworld) list \<Rightarrow> bool" where
  "launches_ok L \<longleftrightarrow> length L \<le> 3 \<and> sorted_wrt (\<lambda>a b. fst b + 1000 \<le> fst a) L \<and>
     (\<forall>a \<in> set L. bwHeld (snd a) = None \<and> bwDaemon (snd a) = None)"

lemma launches_more:
  assumes "launches_ok L" "length L < 3" "case L of [] \<Rightarrow> True | (t, _) # _ \<Rightarrow> later - t \<ge> 1000"
    "spawnIfUnowned E k w = Inr launched"
  shows "launches_ok (if launched then (later, w) # L else L)"
proof (cases L)
  case Nil
  then show ?thesis using assms by (auto simp: launches_ok_def spawnIfUnowned_def split: if_splits)
next
  case (Cons a L')
  then have "fst a + 1000 \<le> later" using assms(3) by (cases a) auto
  moreover have "fst b + 1000 \<le> later" if "b \<in> set L'" for b
    using assms(1) that Cons calculation by (auto simp: launches_ok_def)
  ultimately show ?thesis using assms Cons by (auto simp: launches_ok_def spawnIfUnowned_def split: if_splits)
qed

definition connected_result :: "start_result \<Rightarrow> bool" where
  "connected_result r \<longleftrightarrow> (srError r = None \<longrightarrow>
     (\<exists>s d. srPrinted r = Some s \<and> bsConnected s \<and> bsError s = [] \<and> bwDaemon (srWorld r) = Some d \<and> bsConnected (dmStatus d)))"

declare start_loop.simps [simp del]

lemma start_loop_ok:
  assumes "calm E"
  shows "launches_ok L \<Longrightarrow> launches_ok (srLaunches (start_loop E k now L prev w)) \<and> connected_result (start_loop E k now L prev w) \<and>
    bwFile (srWorld (start_loop E k now L prev w)) = bwFile w \<and>
    (bw_ok w \<longrightarrow> bw_ok (srWorld (start_loop E k now L prev w))) \<and>
    (fresh_run (be_d E) w \<longrightarrow> fresh_run (be_d E) (srWorld (start_loop E k now L prev w)))"
proof (induction "start_deadline - now" arbitrary: k now L prev w rule: less_induct)
  case less
  show ?case
  proof (cases "now \<ge> start_deadline")
    case True
    then show ?thesis using less.prems
      by (subst (1 2 3 4 5) start_loop.simps) (simp add: connected_result_def split: sum.split)
  next
    case False
    obtain w1 r where w1: "Control E k ''status'' w = (w1, r)" by fastforce
    note keep = Control_ok [OF assms w1]
    have dec: "start_deadline - (now + d + 100) < start_deadline - now" for d using False by simp
    note IH = less.hyps [OF dec]
    show ?thesis
    proof (cases r)
      case (Inr s)
      show ?thesis
      proof (cases "bsConnected s \<or> bsError s \<noteq> []")
        case True
        then show ?thesis using False w1 Inr less.prems keep Control_connected [of E k w w1 s]
          by (subst (1 2 3 4 5) start_loop.simps) (auto simp: connected_result_def)
      next
        case no: False
        have eq: "start_loop E k now L prev w = start_loop E (k + 1) (now + be_took E k + 100) L (Inr s) w1"
          using False no w1 Inr by (subst start_loop.simps) simp
        show ?thesis unfolding eq using IH [OF less.prems] keep by metis
      qed
    next
      case (Inl f)
      let ?later = "now + be_took E k"
      show ?thesis
      proof (cases "length L < 3 \<and> (case L of [] \<Rightarrow> True | (t, _) # _ \<Rightarrow> ?later - t \<ge> 1000)")
        case True
        show ?thesis
        proof (cases "spawnIfUnowned E k w1")
          case e: (Inl e)
          have eq: "start_loop E k now L prev w = \<lparr>srWorld = w1, srLaunches = L, srPrinted = None, srError = Some e\<rparr>"
            using False True w1 Inl e by (subst start_loop.simps) (simp only: if_False prod.case sum.case Let_def if_True simp_thms)
          show ?thesis unfolding eq using less.prems keep by (simp add: connected_result_def)
        next
          case l: (Inr launched)
          have eq: "start_loop E k now L prev w =
              start_loop E (k + 1) (?later + 100) (if launched then (?later, w1) # L else L) (Inl f) w1"
            using False True w1 Inl l by (subst start_loop.simps) (simp only: if_False prod.case sum.case Let_def if_True simp_thms)
          have "launches_ok (if launched then (?later, w1) # L else L)"
            using launches_more [OF less.prems _ _ l, of ?later] True by blast
          then show ?thesis unfolding eq using IH keep by metis
        qed
      next
        case no: False
        have eq: "start_loop E k now L prev w = start_loop E (k + 1) (?later + 100) L (Inl f) w1"
          using False no w1 Inl by (subst start_loop.simps) (simp only: if_False prod.case sum.case Let_def)
        show ?thesis unfolding eq using IH [OF less.prems] keep by metis
      qed
    qed
  qed
qed

lemma start_cmd_ok:
  assumes "calm E" "start_cmd E b w = r"
  shows "launches_ok (srLaunches r) \<and> connected_result r \<and> bwFile (srWorld r) = bwFile w"
    "bw_ok w \<Longrightarrow> bw_ok (srWorld r)" "fresh_run (be_d E) w \<Longrightarrow> fresh_run (be_d E) (srWorld r)"
    "b \<Longrightarrow> be_channel E 0 = Answered \<Longrightarrow> srError r = None \<Longrightarrow> fresh_run (be_d E) (srWorld r)"
proof -
  have e: "launches_ok []" by (simp add: launches_ok_def)
  note loop = start_loop_ok [OF assms(1) e, of 2 0 "Inr no_status"]
  obtain w1 r1 where w1: "Control E 0 ''status'' w = (w1, r1)" by fastforce
  note k1 = Control_ok [OF assms(1) w1]
  obtain w2 r2 where w2: "Control E 1 ''reload'' w1 = (w2, r2)" by fastforce
  note k2 = Control_ok [OF assms(1) w2]
  consider (plain) "r = start_loop E 2 0 [] (Inr no_status) w1" "b \<longrightarrow> (\<exists>f. r1 = Inl f)"
    | (failed) f where "r = \<lparr>srWorld = w2, srLaunches = [], srPrinted = None, srError = Some (BControl f)\<rparr>"
    | (reread) s where "r = start_loop E 2 0 [] (Inr no_status) w2" "r2 = Inr s"
    using assms(2) w1 w2 by (cases r1; cases r2) (auto simp: start_cmd_def split: if_splits)
  note cs = this
  show "launches_ok (srLaunches r) \<and> connected_result r \<and> bwFile (srWorld r) = bwFile w"
    using cs loop [of w1] loop [of w2] k1(1) k2(1) e by cases (simp_all add: connected_result_def)
  show "bw_ok (srWorld r)" if "bw_ok w"
    using cs loop [of w1] loop [of w2] k1(2) [OF that] k2(2) by cases simp_all
  show "fresh_run (be_d E) (srWorld r)" if "fresh_run (be_d E) w"
    using cs loop [of w1] loop [of w2] k1(3) [OF that] k2(3) by cases simp_all
  show "fresh_run (be_d E) (srWorld r)" if "b" "be_channel E 0 = Answered" "srError r = None"
    using cs
  proof cases
    case plain
    then have "bwDaemon w1 = None"
      using w1 that by (auto simp: Control_def Let_def serve_request_def split: option.splits prod.splits)
    then have "fresh_run (be_d E) w1" by (simp add: fresh_run_def)
    then show ?thesis using loop [of w1] plain by simp
  next
    case reread
    have "fresh_run (be_d E) w2" using Control_reloaded [of E 1 w1 w2] w2 reread(2) by (fastforce simp: fresh_run_def)
    then show ?thesis using loop [of w2] reread by simp
  qed (use that in simp)
qed

text \<open>
  C21. Starting is bounded (\<open>start\<close>): whatever the process answers, at most three processes are launched, a second apart,
  and each while nobody has the lock; the command succeeds only when a process that is connected to the Hive and reports no error
  has answered.
\<close>

theorem start_bounded:
  assumes "calm E" and "start_cmd E reread w = r"
  shows "length (srLaunches r) \<le> 3 \<and> sorted_wrt (\<lambda>a b. fst b + 1000 \<le> fst a) (srLaunches r) \<and>
    (\<forall>a \<in> set (srLaunches r). bwHeld (snd a) = None \<and> bwDaemon (snd a) = None) \<and>
    (srError r = None \<longrightarrow> (\<exists>s d. srPrinted r = Some s \<and> bsConnected s \<and> bsError s = [] \<and>
       bwDaemon (srWorld r) = Some d \<and> bsConnected (dmStatus d)))"
  using start_cmd_ok(1) [OF assms] by (simp add: launches_ok_def connected_result_def)


section \<open>Updating\<close>




section \<open>A Bee\<close>

definition sample_enabled :: config where
  "sample_enabled = sample_config\<lparr>cfHive := ''h:22'', cfIdentity := ''/k'', cfKnownHosts := ''/t'', cfEnabled := True\<rparr>"

definition sample_denv :: denv where
  "sample_denv = \<lparr>de_cf = \<lparr>cf_dec = (\<lambda>_ _. Some (sample_enabled, True)), cf_enc = (\<lambda>_. ''c'')\<rparr>, de_host = ''pc'', de_text = (\<lambda>_. ''bad'')\<rparr>"

lemma boot_step: "other_step D w (fst (Daemon_start D ok path version exe pid w))"
  by (cases "Daemon_start D ok path version exe pid w") (auto intro: other_step.boot)

definition sample_boot :: "bytes \<Rightarrow> bworld \<Rightarrow> bworld" where
  "sample_boot version w = fst (Daemon_start sample_denv (\<lambda>_. True) ''/b/control.sock'' version ''/b/bee'' 9 w)"

definition connect_daemon :: "bworld \<Rightarrow> bworld" where
  "connect_daemon w = (case bwDaemon w of None \<Rightarrow> w | Some d \<Rightarrow> w\<lparr>bwDaemon := Some (run_connected [] d)\<rparr>)"

definition sample_benv :: benv where
  "sample_benv = \<lparr>be_d = sample_denv, be_save = True, be_channel = (\<lambda>_. Answered),
     be_others = (\<lambda>k w. if k = 2 then connect_daemon (sample_boot ''2.0.0'' w) else w), be_took = (\<lambda>_. 0), be_lock = (\<lambda>_. True), be_exec = (\<lambda>_. True)\<rparr>"

definition sample_bworld :: bworld where
  "sample_bworld = sample_boot ''1.9.0'' \<lparr>bwFile = Contents ''c'', bwHeld = None, bwDaemon = None\<rparr>"

lemma sample_calm: "calm sample_benv"
proof -
  have b: "other_step sample_denv w (sample_boot v w)" for v w by (simp add: sample_boot_def boot_step)
  have "(other_step sample_denv)\<^sup>*\<^sup>* w (connect_daemon w)" for w
    using other_step.connected [of w _ sample_denv "[]"] by (auto simp: connect_daemon_def split: option.split)
  then have "(other_step sample_denv)\<^sup>*\<^sup>* w (connect_daemon (sample_boot v w))" for v w
    using converse_rtranclp_into_rtranclp [of "other_step sample_denv" w "sample_boot v w", OF b] by blast
  then show ?thesis by (simp add: calm_def sample_benv_def)
qed


lemma sample_cf_ok: "cf_codec_ok (de_cf (be_d sample_benv)) (\<lambda>c. c = sample_enabled)"
  by (simp add: cf_codec_ok_def sample_benv_def sample_denv_def)

lemma sample_enabled_valid: "Validate sample_enabled = None"
proof -
  have "Validate sample_enabled = Validate sample_config" unfolding Validate_def by (simp add: sample_enabled_def)
  then show ?thesis using sample_valid(1) by simp
qed

lemma sample_loads: "Load (de_cf sample_denv) (de_host sample_denv) (Contents ''c'') = Inr sample_enabled"
  using sample_enabled_valid by (simp add: Load_def sample_denv_def max_config_def)

lemma sample_reload: "reload sample_denv (Contents ''c'') d = d\<lparr>dmRun := Some sample_enabled, dmStatus := no_status\<lparr>bsEnabled := True\<rparr>\<rparr>"
  unfolding reload_def sample_loads by (simp add: sample_enabled_def)
definition sample_daemon :: "bytes \<Rightarrow> daemon" where
  "sample_daemon version = \<lparr>dmRun = Some sample_enabled, dmStatus = no_status\<lparr>bsEnabled := True\<rparr>, dmVersion = version, dmExe = ''/b/bee'', dmPid = 9\<rparr>"

lemma sample_booted: "sample_boot v \<lparr>bwFile = Contents ''c'', bwHeld = None, bwDaemon = None\<rparr> =
    \<lparr>bwFile = Contents ''c'', bwHeld = None, bwDaemon = Some (sample_daemon v)\<rparr>"
  by (simp add: sample_boot_def Daemon_start_def max_socket_path_def sample_reload sample_daemon_def)

lemma sample_bworld_eq: "sample_bworld = \<lparr>bwFile = Contents ''c'', bwHeld = None, bwDaemon = Some (sample_daemon ''1.9.0'')\<rparr>"
  by (simp add: sample_bworld_def sample_booted)

text \<open>The requests of a command on it: the process stays, is read again, or is replaced before the third.\<close>

lemma sample_status: "k \<noteq> 2 \<Longrightarrow> Control sample_benv k ''status'' \<lparr>bwFile = f, bwHeld = h, bwDaemon = Some d\<rparr> =
    (\<lparr>bwFile = f, bwHeld = h, bwDaemon = Some d\<rparr>, Inr ((dmStatus d)\<lparr>bsVersion := dmVersion d, bsExecutable := dmExe d, bsPid := dmPid d\<rparr>))"
  by (simp add: Control_def Let_def serve_request_def sample_benv_def)

lemma sample_rereads: "\<exists>s. Control sample_benv 1 ''reload'' \<lparr>bwFile = Contents ''c'', bwHeld = h, bwDaemon = Some (sample_daemon v)\<rparr> =
    (\<lparr>bwFile = Contents ''c'', bwHeld = h, bwDaemon = Some (sample_daemon v)\<rparr>, Inr s)"
  by (simp add: Control_def Let_def serve_request_def sample_benv_def sample_reload) (simp add: sample_daemon_def)

lemma sample_connected: "\<exists>w s. Control sample_benv 2 ''status'' \<lparr>bwFile = Contents ''c'', bwHeld = None, bwDaemon = Some (sample_daemon v)\<rparr> = (w, Inr s) \<and>
    bsConnected s \<and> bsError s = []"
  by (simp add: Control_def Let_def serve_request_def sample_benv_def sample_boot_def Daemon_start_def connect_daemon_def
      run_connected_def sample_daemon_def no_status_def)



lemma sample_started: "srError (start_loop sample_benv 2 0 [] prev \<lparr>bwFile = Contents ''c'', bwHeld = None, bwDaemon = Some (sample_daemon v)\<rparr>) = None"
proof -
  obtain w s where "Control sample_benv 2 ''status'' \<lparr>bwFile = Contents ''c'', bwHeld = None, bwDaemon = Some (sample_daemon v)\<rparr> = (w, Inr s)"
    "bsConnected s" "bsError s = []" using sample_connected by blast
  then show ?thesis by (subst start_loop.simps) (simp add: start_deadline_def)
qed

lemma sample_write: "Update_cfg (de_cf (be_d sample_benv)) (de_host (be_d sample_benv)) (be_save sample_benv) f (Contents ''c'') =
    (case f sample_enabled of Inl e \<Rightarrow> (Contents ''c'', Inl e) | Inr c \<Rightarrow>
       (case Validate c of Some e \<Rightarrow> (Contents ''c'', Inl e) | None \<Rightarrow> (Contents ''c'', Inr c)))"
  using sample_loads by (simp add: Update_cfg_def sample_benv_def sample_denv_def split: sum.split option.split)

lemma change_takes_effect_witness:
  "\<exists>w'. change sample_benv (name_cmd ''desk'') sample_bworld = (w', Inr sample_enabled) \<and>
     (\<forall>d. bwDaemon w' = Some d \<longrightarrow> dmRun d = Some sample_enabled)"
proof -
  have n: "name_cmd ''desk'' sample_enabled = Inr sample_enabled"
    by (simp add: name_cmd_def sample_enabled_def sample_config_def default_config_def)
  obtain s where "Control sample_benv 1 ''reload'' \<lparr>bwFile = Contents ''c'', bwHeld = None, bwDaemon = Some (sample_daemon ''1.9.0'')\<rparr> =
    (\<lparr>bwFile = Contents ''c'', bwHeld = None, bwDaemon = Some (sample_daemon ''1.9.0'')\<rparr>, Inr s)" using sample_rereads by blast
  then have c: "change sample_benv (name_cmd ''desk'') sample_bworld = (sample_bworld, Inr sample_enabled)"
    by (simp add: change_def sample_bworld_eq sample_write n sample_enabled_valid sample_status)
  have "be_channel sample_benv 0 = Answered" by (simp add: sample_benv_def)
  then show ?thesis using change_takes_effect [OF c sample_calm sample_cf_ok] c by blast
qed

lemma start_bounded_witness: "\<exists>s d. srPrinted (start_cmd sample_benv False sample_bworld) = Some s \<and> bsConnected s \<and>
    bwDaemon (srWorld (start_cmd sample_benv False sample_bworld)) = Some d"
proof -
  have "srError (start_cmd sample_benv False sample_bworld) = None"
    by (simp add: start_cmd_def sample_bworld_eq sample_status sample_started)
  then show ?thesis using start_bounded [OF sample_calm refl, of False sample_bworld] by blast
qed





end
