(* ===== verification/Spec2Isabelle.thy ===== *)
theory Spec2Isabelle
  imports Reachability Routing Relay System Update SizingSystem BeePublisher Joining PanelSafety BeeDaemon
begin

text \<open>
  \<^bold>\<open>Herdr Hive.\<close> Hive lets the terminal sessions that several machines run under Herdr be viewed as one.
  A \<^emph>\<open>Bee\<close> on each machine publishes its sessions over an SSH connection to the \<^emph>\<open>Hive\<close> server; a viewer
  connects to the server and either opens one session or the aggregate of all sessions it may see, which
  a \<^emph>\<open>gateway\<close> composes. This development models the Go code of the repository and proves what makes its
  parts correct. Definitions carry the names of the code; each theory opens with what it holds.

  \<^bold>\<open>Foundations.\<close> \<open>Prelude\<close>: Go maps as association lists with distinct keys (\<open>put\<close>, \<open>del\<close>), prefix and
  split functions, 64-bit words. \<open>GoStrings\<close>: decimal and hexadecimal text, control characters, white space,
  what a file holds. \<open>Json\<close>: JSON values and the rewriting of identifiers (\<open>transform\<close>, \<open>isID\<close> in
  \<open>hive/internal/gateway/gateway.go\<close>); \<open>encoding/json\<close> is the parameter \<open>codec\<close>.

  \<^bold>\<open>The gateway\<close> (\<open>hive/internal/gateway\<close>). \<open>Wire\<close> is \<open>wire.go\<close>: frames, numbers, texts and the decoder that
  copies what it reads to an output buffer. \<open>Relay\<close> shows that a surface rewritten twice is a surface
  rewritten once with the composed renaming. \<open>Surface\<close> is the cache of one source's surface
  (\<open>completeSurface\<close>): full frames, patches and retained graphics. \<open>Handshake\<close> is \<open>handshake.go\<close>. \<open>Session\<close> holds
  the state of a viewer's session (\<open>session\<close>, \<open>backend\<close>), the removal of a source, and recovery
  (\<open>recovery.go\<close>); \<open>Publish\<close> the aggregate projection, effects and the layout authority (\<open>interest.go\<close>);
  \<open>Gateway\<close> the handlers of the event loop, \<open>server\<close>, \<open>client\<close> and \<open>refresh\<close>, and their dispatch in \<open>Serve\<close>.
  The goroutines that read frames and open sources are the order in which events arrive.
  \<open>Invariant\<close>, \<open>Authority\<close> and \<open>Lifecycle\<close> show that every handler keeps the invariant \<open>sound\<close> of the session;
  \<open>Reachability\<close> puts the handlers together to a step relation and proves what holds of every reachable
  session. \<open>Routing\<close> and \<open>Projection\<close> prove what the handlers do: which responses reach the viewer, when a
  fence is acknowledged, when a failed source is opened again, and which sources and identifiers are shown.

  \<^bold>\<open>The server\<close> (\<open>hive/internal/server\<close>, \<open>registry\<close>, \<open>enrollment\<close>, \<open>herdr\<close>). \<open>Registry\<close> is the assignment of public
  names (\<open>registry.go\<close>) with a locale \<open>naming\<close> for what the server relies on. \<open>Enrollment\<close> is the token, usage
  and key files (\<open>enrollment.go\<close>), with every way a replacement of a file can end, a crash included;
  \<open>Enroll\<close> the enrollment of a device and the administration of tokens, with a locale \<open>ledger\<close> for
  reserve, register and release. \<open>Adapter\<close> recognizes native SSH bootstrap requests without executing them
  (\<open>adapter.go\<close>, \<open>discovery.go\<close>). \<open>Hub\<close> is the server's state and its critical sections: publishing,
  listing, opening and withdrawing sessions, slots and counters; \<open>HubSafety\<close> its step relation, the
  invariant \<open>hub_ok\<close> and its consequences. \<open>System\<close> joins them: enrolled keys are those that
  authenticate, and the catalog bounds what a gateway connects to.

  \<^bold>\<open>The Bee\<close> (\<open>bee/internal\<close>). \<open>BeeConfig\<close> is the configuration file (\<open>config/config.go\<close>), the commands of
  \<open>app/app.go\<close> that change it, and the check of commands for a remote session (\<open>herdr/remote.go\<close>).
  \<open>BeePublisher\<close> binds the configured sessions to their sockets, publishes them and accepts the streams the
  server opens (\<open>publisher/publisher.go\<close>, \<open>herdr/local.go\<close>, \<open>herdr/api.go\<close>); its theorems join it to \<open>Hub\<close>:
  the server accepts the publication of a valid configuration, and a stream reaches the session its share
  is labelled with.
  \<open>Sizing\<close> is \<open>herdr/sizing.go\<close>: the helpers that keep the size of a pane's terminal, their process-wide slots,
  the reference counts of a session's locks and the reconciliation of a view. \<open>SizingSafety\<close> has the
  invariant \<open>sz_inv\<close> and shows that every operation keeps it; an operation under way may leave a set of
  locks neither held nor idle. \<open>SizingView\<close> is \<open>herdr/sizing_wire.go\<close> and the frame handlers of \<open>sizing.go\<close>:
  the decoder, the relay of frames, hello, navigation, surface requests and their answers. \<open>SizingPlan\<close>
  shows what a reconciliation leaves alone and what it achieves, loop by loop, and \<open>SizingSystem\<close> puts relays,
  ticks, timers, dying helpers and the end of a publication to a step relation, and proves what holds in
  every reachable state.

  \<^bold>\<open>Joining.\<close> \<open>GoNet\<close> is the part of Go's library that addresses and invitations need: base 64, \<open>Atoi\<close>,
  \<open>SplitHostPort\<close>, \<open>ParseIP\<close>. \<open>Invitation\<close> has both ends of an invitation, \<open>hive enroll issue\<close>
  (\<open>hive/cmd/hive/enroll.go\<close>) and \<open>parseInvitation\<close> (\<open>bee/internal/app/join.go\<close>): what is issued arrives, and what
  is accepted is well formed. \<open>SshConfig\<close> is \<open>join_machine.go\<close>: the files for OpenSSH, which keep the user's lines
  and cannot be injected into, and the search for a Herdr machine. \<open>Joining\<close> is \<open>join\<close> itself, step by step, with
  the connections it makes as a trace: whom it talks to, what it leaves on disk, and that it can be resumed.

  \<^bold>\<open>The process.\<close> \<open>BeeDaemon\<close> is the process that publishes (\<open>publisher/daemon.go\<close>) with its lock and its control socket, the
  commands about this device (\<open>app/app.go\<close>) and the update of the Bee (\<open>app/update.go\<close>): a change takes effect on
  the process that runs, \<open>enable\<close> ends with the saved configuration published, and an update leaves no older
  process. Other programs may act before every request.

  \<^bold>\<open>The settings panel.\<close> \<open>Panel\<close> is \<open>bee/internal/app/tui.go\<close> and \<open>tui_hive.go\<close> with the mouse handler of
  \<open>tui_view.go\<close>: the state, \<open>Update\<close> on every message, and the commands, readings, listings and the timer that run
  beside it, as a step relation. \<open>PanelSafety\<close> shows that no message panics, that commands never overlap, and
  that what the user types is not overwritten.

  \<^bold>\<open>Self-update.\<close> \<open>Update\<close> is \<open>internal/update/update.go\<close>: the order of versions, the search of the releases, the
  checksum, the archive and the replacement of the files.

  \<^bold>\<open>Bounds.\<close> \<open>publish\<close> calls itself through failing sources; its fuel is the number of sources plus one, and
  \<open>publish_terminates\<close> shows that more changes nothing. Numbers of the wire are words of 64 bits; counters of
  the server too. Everything else is total by structural recursion or by a termination proof.

  \<^bold>\<open>Parameters.\<close> \<open>encoding/json\<close> on values the code does not look into (\<open>codec\<close>), SHA-256 and
  \<open>golang.org/x/crypto/ssh\<close> (\<open>elib\<close>), the random bytes and the time. What the code relies on of them is a
  hypothesis (\<open>ssh_ok\<close>, \<open>fresh_ids\<close>, \<open>cf_codec_ok\<close>, \<open>answers\<close>), with a witness that it can hold. For the sizing
  of terminals the answers of Herdr's API, the start of a helper, contexts, writes and the clock are the
  record \<open>senv\<close>, asked with the number of the call, and what the JSON of a frame decodes to is \<open>structs\<close>.
  For the process they are \<open>benv\<close>; for joining they are \<open>ivcodec\<close>, \<open>menv\<close> (files, \<open>ssh -G\<close>, \<open>herdr machine\<close>) and \<open>jenv\<close> (network, keys, known hosts).

  \<^bold>\<open>Not modelled.\<close> Copying of bytes between channels, timers, heartbeats and deadlines (only their
  effect, a failure or an expiry, is an event); what the terminal user interface draws and the command lines.
\<close>

end
